(* ===== verification/Prelude.thy ===== *)
theory Prelude
  imports Main "HOL-Library.AList" "HOL-Library.Multiset"
begin

text \<open>
  Shared vocabulary of the development: the result and time types, the few
  routines of Go's standard library that several components call (ASCII
  string handling, \<^verbatim>\<open>strconv.ParseInt\<close>), association lists standing for Go maps
  whose iteration order is unspecified, and the generic list facts the
  component proofs rely on.

  Go's \<^verbatim>\<open>time.Time\<close> is an \<^typ>\<open>int\<close> number of nanoseconds, \<^verbatim>\<open>time.Duration\<close> likewise; a
  \<^verbatim>\<open>time.Time\<close> that may be the zero value is an option.
\<close>

section \<open>Types and collections of facts\<close>

type_synonym time = int
type_synonym duration = int
type_synonym ('e, 'a) result = "'e + 'a"

named_theorems status_simps \<open>evaluation of the status state machine\<close>
named_theorems repo_laws \<open>laws of the subscription repositories\<close>
named_theorems store_simps \<open>effect of store operations on their observers\<close>
named_theorems inv_intros \<open>an operation preserves its component's invariant\<close>

definition Second :: duration where
  "Second = 1000000000"

definition Minute :: duration where
  "Minute = 60 * Second"

definition Hour :: duration where
  "Hour = 60 * Minute"

lemma duration_units [simp]:
  "0 < Second" "0 < Minute" "0 < Hour"
  by (simp_all add: Second_def Minute_def Hour_def)

section \<open>Results\<close>

definition is_ok :: "('e, 'a) result \<Rightarrow> bool" where
  "is_ok r = (case r of Inl _ \<Rightarrow> False | Inr _ \<Rightarrow> True)"

lemma is_ok_simps [simp]:
  "is_ok (Inr a)" "\<not> is_ok (Inl e)"
  by (simp_all add: is_ok_def)

lemma is_ok_iff: "is_ok r \<longleftrightarrow> (\<exists>a. r = Inr a)"
  by (cases r) simp_all

section \<open>ASCII strings\<close>

definition char_nat :: "char \<Rightarrow> nat" where
  "char_nat c = of_char c"

definition is_digit :: "char \<Rightarrow> bool" where
  "is_digit c = (48 \<le> char_nat c \<and> char_nat c \<le> 57)"

definition digit_val :: "char \<Rightarrow> nat" where
  "digit_val c = char_nat c - 48"

definition to_upper :: "char \<Rightarrow> char" where
  "to_upper c = (if 97 \<le> char_nat c \<and> char_nat c \<le> 122 then char_of (char_nat c - 32) else c)"

definition to_lower :: "char \<Rightarrow> char" where
  "to_lower c = (if 65 \<le> char_nat c \<and> char_nat c \<le> 90 then char_of (char_nat c + 32) else c)"

definition is_space :: "char \<Rightarrow> bool" where
  "is_space c = (char_nat c \<in> {9, 10, 11, 12, 13, 32})"

definition ToUpper :: "string \<Rightarrow> string" where
  "ToUpper s = map to_upper s"

definition ToLower :: "string \<Rightarrow> string" where
  "ToLower s = map to_lower s"

definition TrimSpace :: "string \<Rightarrow> string" where
  "TrimSpace s = rev (dropWhile is_space (rev (dropWhile is_space s)))"

lemma length_TrimSpace: "length (TrimSpace s) \<le> length s"
  by (simp add: TrimSpace_def)
     (metis length_dropWhile_le length_rev order_trans)

text \<open>Go compares strings bytewise.\<close>

fun str_less :: "string \<Rightarrow> string \<Rightarrow> bool" where
  "str_less _ [] = False"
| "str_less [] (_ # _) = True"
| "str_less (x # xs) (y # ys) =
     (char_nat x < char_nat y \<or> char_nat x = char_nat y \<and> str_less xs ys)"

section \<open>strconv.ParseInt, base 10, 64 bits\<close>

definition digits_value :: "string \<Rightarrow> nat" where
  "digits_value s = foldl (\<lambda>n c. 10 * n + digit_val c) 0 s"

definition parse_digits :: "string \<Rightarrow> nat option" where
  "parse_digits s = (if s = [] \<or> \<not> list_all is_digit s then None else Some (digits_value s))"

definition ParseInt64 :: "string \<Rightarrow> int option" where
  "ParseInt64 s =
     (let (neg, ds) = (case s of
            [] \<Rightarrow> (False, [])
          | c # cs \<Rightarrow> if c = CHR ''-'' then (True, cs)
                      else if c = CHR ''+'' then (False, cs) else (False, c # cs))
      in case parse_digits ds of
           None \<Rightarrow> None
         | Some n \<Rightarrow>
             if neg then (if int n \<le> 2 ^ 63 then Some (- int n) else None)
             else (if int n < 2 ^ 63 then Some (int n) else None))"

lemma ParseInt64_range:
  "ParseInt64 s = Some i \<Longrightarrow> - (2 ^ 63) \<le> i \<and> i < 2 ^ 63"
  by (auto simp: ParseInt64_def Let_def split: prod.splits option.splits if_splits list.splits)

section \<open>Association lists as Go maps\<close>

text \<open>
  A Go map ranged over by the code is an association list: its order is the
  iteration order Go leaves unspecified, and theorems quantify over it.
\<close>

lemma map_of_update [simp]: "map_of (AList.update k v m) = (map_of m)(k \<mapsto> v)"
  by (rule update_conv')

lemma distinct_keys_update [simp]:
  "distinct (map fst (AList.update k v m)) \<longleftrightarrow> distinct (map fst m)"
proof (induction m)
  case (Cons p m)
  have "fst ` set (AList.update k v m) = insert k (fst ` set m)" for m :: "('a \<times> 'b) list"
    using dom_update [of k v m] by (simp add: dom_map_of_conv_image_fst)
  then show ?case
    using Cons by (cases p) auto
qed simp

lemma set_alist_update: "set (AList.update k v m) \<subseteq> insert (k, v) (set m)"
  by (induction m) auto

lemma map_of_mem_iff:
  "distinct (map fst m) \<Longrightarrow> (k, v) \<in> set m \<longleftrightarrow> map_of m k = Some v"
  by simp

lemma find_SomeD: "find P xs = Some x \<Longrightarrow> x \<in> set xs \<and> P x"
  by (auto simp: find_Some_iff)

lemma find_fresh: "k \<notin> key ` set xs \<Longrightarrow> find (\<lambda>x. key x = k \<and> Q x) xs = None"
  by (induction xs) auto

lemma find_fresh_key: "k \<notin> key ` set xs \<Longrightarrow> find (\<lambda>x. key x = k) xs = None"
  by (induction xs) auto

lemma find_filter: "find P (filter Q xs) = find (\<lambda>x. Q x \<and> P x) xs"
  by (induction xs) simp_all

section \<open>sort.Slice\<close>

text \<open>
  \<^verbatim>\<open>sort.Slice\<close> orders by a strict weak order and leaves ties in an unspecified order; here
  ties keep the order of the input, which for a ranged-over map is itself
  unspecified.
\<close>

definition strict_weak :: "('a \<Rightarrow> 'a \<Rightarrow> bool) \<Rightarrow> bool" where
  "strict_weak before \<longleftrightarrow>
     (\<forall>a b. before a b \<longrightarrow> \<not> before b a) \<and> (\<forall>a b c. \<not> before b a \<longrightarrow> \<not> before c b \<longrightarrow> \<not> before c a)"

lemma strict_weak_asym:
  assumes "strict_weak before" "before a b"
  shows "\<not> before b a"
  using assms(1) [unfolded strict_weak_def, THEN conjunct1, THEN spec, THEN spec, of a b] assms(2) by (rule mp)

lemma strict_weak_trans:
  assumes "strict_weak before" "\<not> before b a" "\<not> before c b"
  shows "\<not> before c a"
  using assms(1) [unfolded strict_weak_def, THEN conjunct2, THEN spec, THEN spec, THEN spec, of b a c]
    assms(2,3) by (elim impE)

lemma strict_weak_irrefl: "strict_weak before \<Longrightarrow> \<not> before a a"
  using strict_weak_asym [of before a a] by blast

fun insert_by :: "('a \<Rightarrow> 'a \<Rightarrow> bool) \<Rightarrow> 'a \<Rightarrow> 'a list \<Rightarrow> 'a list" where
  "insert_by before x [] = [x]"
| "insert_by before x (y # ys) = (if before y x then y # insert_by before x ys else x # y # ys)"

definition sort_slice :: "('a \<Rightarrow> 'a \<Rightarrow> bool) \<Rightarrow> 'a list \<Rightarrow> 'a list" where
  "sort_slice before xs = foldr (insert_by before) xs []"

lemma mset_insert_by: "mset (insert_by before x ys) = add_mset x (mset ys)"
  by (induction ys) auto

lemma set_insert_by [simp]: "set (insert_by before x ys) = insert x (set ys)"
  by (induction ys) auto

lemma sorted_insert_by:
  assumes "strict_weak before" "sorted_wrt (\<lambda>a b. \<not> before b a) ys"
  shows "sorted_wrt (\<lambda>a b. \<not> before b a) (insert_by before x ys)"
  using assms(2)
proof (induction ys)
  case (Cons y ys)
  show ?case
  proof (cases "before y x")
    case True
    then show ?thesis
      using Cons strict_weak_asym [OF assms(1) True] by simp
  next
    case False
    have "\<not> before z x" if "z \<in> set ys" for z
      using Cons.prems that strict_weak_trans [OF assms(1) False] by simp
    then show ?thesis
      using Cons False by auto
  qed
qed simp

lemma mset_sort_slice [simp]: "mset (sort_slice before xs) = mset xs"
  by (induction xs) (simp_all add: sort_slice_def mset_insert_by)

lemma set_sort_slice [simp]: "set (sort_slice before xs) = set xs"
  by (rule mset_eq_setD) simp

lemma sorted_sort_slice: "strict_weak before \<Longrightarrow> sorted_wrt (\<lambda>a b. \<not> before b a) (sort_slice before xs)"
  by (induction xs) (simp_all add: sort_slice_def sorted_insert_by)

lemma sort_slice_Nil [simp]: "sort_slice before xs = [] \<longleftrightarrow> xs = []"
  using set_sort_slice [of before xs] by (simp flip: set_empty)

lemma hd_sort_slice:
  assumes "strict_weak before" "xs \<noteq> []"
  shows "hd (sort_slice before xs) \<in> set xs" "x \<in> set xs \<Longrightarrow> \<not> before x (hd (sort_slice before xs))"
proof -
  obtain y ys where y: "sort_slice before xs = y # ys"
    using assms(2) sort_slice_Nil [of before xs] by (cases "sort_slice before xs") simp_all
  then have set: "set xs = insert y (set ys)"
    using set_sort_slice [of before xs] by simp
  then show "hd (sort_slice before xs) \<in> set xs"
    using y by simp
  show "x \<in> set xs \<Longrightarrow> \<not> before x (hd (sort_slice before xs))"
    using sorted_sort_slice [OF assms(1), of xs] set y strict_weak_irrefl [OF assms(1)] by auto
qed

lemma strict_weak_key [simp]: "strict_weak (\<lambda>a b. f a < (f b :: 'b :: linorder))"
  unfolding strict_weak_def not_less by (blast intro: order_trans less_imp_le)

end
