(* ===== verification/Saga.thy ===== *)
theory Saga
  imports Prelude
begin

text \<open>
  The saga engine of \<^verbatim>\<open>internal/saga\<close>: the data of \<^verbatim>\<open>saga.go\<close>, the retry policy of
  \<^verbatim>\<open>policies.go\<close>, the coordinator of \<^verbatim>\<open>coordinator.go\<close> (\<^verbatim>\<open>Execute\<close>, \<^verbatim>\<open>Resume\<close>, \<^verbatim>\<open>runFrom\<close>,
  \<^verbatim>\<open>runStep\<close>, \<^verbatim>\<open>failAndCompensate\<close>, \<^verbatim>\<open>begin\<close>, \<^verbatim>\<open>save\<close>) and the in-memory store of
  \<^verbatim>\<open>store_memory.go\<close>.

  Step functions act on an arbitrary world of type 'w and on the saga context,
  a map the steps share; the clock is read from the world, and the outcome of the
  wait between two attempts (timer or cancelled context) is the world's choice.
\<close>

section \<open>Data\<close>

datatype StepStatus =
    StepPending | StepRunning | StepRetrying | StepCompleted | StepFailed
  | StepCompensating | StepCompensated | StepCompensationFailed

datatype SagaStatus = SagaRunning | SagaCompleted | SagaFailed | SagaCompensating | SagaCompensated

datatype ctx_value = CtxString string | CtxBool bool

type_synonym SagaContext = "string \<rightharpoonup> ctx_value"
type_synonym 'w StepFn = "'w \<Rightarrow> SagaContext \<Rightarrow> 'w \<times> SagaContext \<times> string option"

record RetryPolicy =
  rp_MaxAttempts :: int
  rp_BaseDelay :: duration
  rp_MaxDelay :: duration

record 'w Step =
  step_Key :: string
  step_Execute :: "'w StepFn"
  step_Compensate :: "'w StepFn option"
  step_RetryPolicy :: "RetryPolicy option"

record StepResult =
  sr_SagaID :: string
  sr_StepKey :: string
  sr_Status :: StepStatus
  sr_ErrorMessage :: string
  sr_ExecutedAt :: "time option"
  sr_CompensatedAt :: "time option"
  sr_RetryAttempt :: nat

record 'w Saga =
  saga_ID :: string
  saga_Name :: string
  saga_Status :: SagaStatus
  saga_Context :: SagaContext
  saga_Steps :: "'w Step list"
  saga_CreatedAt :: "time option"
  saga_UpdatedAt :: "time option"

section \<open>Retry policy\<close>

definition DefaultRetry :: RetryPolicy where
  "DefaultRetry = \<lparr>rp_MaxAttempts = 3, rp_BaseDelay = 100000000, rp_MaxDelay = 2 * Second\<rparr>"

text \<open>A nil policy never retries.\<close>

definition ShouldRetry :: "RetryPolicy option \<Rightarrow> nat \<Rightarrow> bool" where
  "ShouldRetry p retries =
     (case p of None \<Rightarrow> False | Some rp \<Rightarrow> int retries < rp_MaxAttempts rp)"

text \<open>The number of executions a policy allows.\<close>

definition max_attempts :: "RetryPolicy option \<Rightarrow> nat" where
  "max_attempts p = (case p of None \<Rightarrow> 1 | Some rp \<Rightarrow> max 1 (nat (rp_MaxAttempts rp)))"

lemma max_attempts_pos: "0 < max_attempts p"
  by (auto simp: max_attempts_def max_def split: option.splits)

section \<open>Stores\<close>

record ('w, 'st) saga_store =
  store_Save :: "'st \<Rightarrow> 'w Saga \<Rightarrow> 'st \<times> string option"
  store_Load :: "'st \<Rightarrow> string \<Rightarrow> (string, 'w Saga \<times> StepResult list) result"
  store_SaveStepResult :: "'st \<Rightarrow> string \<Rightarrow> StepResult \<Rightarrow> 'st \<times> string option"
  store_ListRunning :: "'st \<Rightarrow> 'w Saga list"

record 'w memoryStore =
  ms_sagas :: "(string \<times> 'w Saga) list"
  ms_results :: "string \<rightharpoonup> (string \<times> StepResult) list"

definition NewMemoryStore :: "'w memoryStore" where
  "NewMemoryStore = \<lparr>ms_sagas = [], ms_results = Map.empty\<rparr>"

definition mem_Save :: "'w memoryStore \<Rightarrow> 'w Saga \<Rightarrow> 'w memoryStore \<times> string option" where
  "mem_Save s sg = (s\<lparr>ms_sagas := AList.update (saga_ID sg) sg (ms_sagas s)\<rparr>, None)"

definition mem_Load ::
  "'w memoryStore \<Rightarrow> string \<Rightarrow> (string, 'w Saga \<times> StepResult list) result" where
  "mem_Load s sagaID =
     (case map_of (ms_sagas s) sagaID of
        None \<Rightarrow> Inl ''saga not found''
      | Some sg \<Rightarrow>
          Inr (sg, case ms_results s sagaID of None \<Rightarrow> [] | Some stepMap \<Rightarrow> map snd stepMap))"

definition mem_SaveStepResult ::
  "'w memoryStore \<Rightarrow> string \<Rightarrow> StepResult \<Rightarrow> 'w memoryStore \<times> string option" where
  "mem_SaveStepResult s sagaID sr =
     (if map_of (ms_sagas s) sagaID = None then (s, Some ''saga not found'')
      else let stepMap = (case ms_results s sagaID of None \<Rightarrow> [] | Some sm \<Rightarrow> sm)
           in (s\<lparr>ms_results := (ms_results s)(sagaID \<mapsto> AList.update (sr_StepKey sr) sr stepMap)\<rparr>, None))"

text \<open>
  \<^verbatim>\<open>sortByCreatedAt\<close> is an exchange sort: pass \<^verbatim>\<open>i\<close> compares position \<^verbatim>\<open>i\<close> with every later
  position and swaps when the later saga was created earlier.
\<close>

definition created_before :: "'w Saga \<Rightarrow> 'w Saga \<Rightarrow> bool" where
  "created_before a b =
     (case (saga_CreatedAt a, saga_CreatedAt b) of
        (None, Some _) \<Rightarrow> True | (Some x, Some y) \<Rightarrow> x < y | (_, None) \<Rightarrow> False)"

fun exchange_pass :: "('a \<Rightarrow> 'a \<Rightarrow> bool) \<Rightarrow> 'a \<Rightarrow> 'a list \<Rightarrow> 'a \<times> 'a list" where
  "exchange_pass before x [] = (x, [])"
| "exchange_pass before x (y # ys) =
     (if before y x then (let (m, r) = exchange_pass before y ys in (m, x # r))
      else (let (m, r) = exchange_pass before x ys in (m, y # r)))"

lemma exchange_pass_length: "length (snd (exchange_pass before x xs)) = length xs"
  by (induction before x xs rule: exchange_pass.induct) (auto split: prod.splits)

function exchange_sort :: "('a \<Rightarrow> 'a \<Rightarrow> bool) \<Rightarrow> 'a list \<Rightarrow> 'a list" where
  "exchange_sort before [] = []"
| "exchange_sort before (x # xs) =
     fst (exchange_pass before x xs) # exchange_sort before (snd (exchange_pass before x xs))"
  by pat_completeness auto
termination
  by (relation "measure (\<lambda>(_, xs). length xs)") (simp_all add: exchange_pass_length)

definition sortByCreatedAt :: "'w Saga list \<Rightarrow> 'w Saga list" where
  "sortByCreatedAt sagas = exchange_sort created_before sagas"

definition mem_ListRunning :: "'w memoryStore \<Rightarrow> 'w Saga list" where
  "mem_ListRunning s =
     sortByCreatedAt
       (filter (\<lambda>sg. saga_Status sg = SagaRunning \<or> saga_Status sg = SagaCompensating)
          (map snd (ms_sagas s)))"

definition mem_Reset :: "'w memoryStore \<Rightarrow> 'w memoryStore" where
  "mem_Reset s = s\<lparr>ms_sagas := [], ms_results := Map.empty\<rparr>"

definition memory_store :: "('w, 'w memoryStore) saga_store" where
  "memory_store =
     \<lparr>store_Save = mem_Save, store_Load = mem_Load, store_SaveStepResult = mem_SaveStepResult,
      store_ListRunning = mem_ListRunning\<rparr>"

section \<open>Coordinator\<close>

text \<open>
  The coordinator's store and constructor, and its environment: the clock and the
  \<^verbatim>\<open>select\<close> between \<^verbatim>\<open>ctx.Done()\<close> and the retry timer (\<^verbatim>\<open>Some\<close> is the context's error).
\<close>

record ('w, 'st) coordinator =
  co_store :: "('w, 'st) saga_store"
  co_constructor :: "('w Saga \<Rightarrow> (string, 'w Saga) result) option"
  co_now :: "'w \<Rightarrow> time"
  co_wait :: "'w \<Rightarrow> nat \<Rightarrow> 'w \<times> string option"

datatype saga_error =
    ErrSagaID | ErrNoSteps | ErrSagaLoad string | ErrReconstruct string
  | ErrStep string | ErrStore string | ErrCtx string

type_synonym ('w, 'st) run_state = "'w \<times> 'st \<times> 'w Saga"

definition step_result :: "'w Saga \<Rightarrow> 'w Step \<Rightarrow> StepStatus \<Rightarrow> StepResult" where
  "step_result sg step st =
     \<lparr>sr_SagaID = saga_ID sg, sr_StepKey = step_Key step, sr_Status = st, sr_ErrorMessage = [],
      sr_ExecutedAt = None, sr_CompensatedAt = None, sr_RetryAttempt = 0\<rparr>"

text \<open>The loop of \<^verbatim>\<open>runStep\<close>, entered with the number of retries made so far.\<close>

function runStep_loop ::
  "('w, 'st) coordinator \<Rightarrow> 'w Step \<Rightarrow> time \<Rightarrow> nat \<Rightarrow> ('w, 'st) run_state \<Rightarrow>
   ('w, 'st) run_state \<times> saga_error option" where
  "runStep_loop C step now retries (w, st, sg) =
     (case step_Execute step w (saga_Context sg) of
        (w1, c1, None) \<Rightarrow>
          (let sg1 = sg\<lparr>saga_Context := c1\<rparr> in
           case store_SaveStepResult (co_store C) st (saga_ID sg)
                  ((step_result sg step StepCompleted)\<lparr>sr_ExecutedAt := Some now\<rparr>) of
             (st1, e) \<Rightarrow> ((w1, st1, sg1), map_option ErrStore e))
      | (w1, c1, Some err) \<Rightarrow>
          (let sg1 = sg\<lparr>saga_Context := c1\<rparr> in
           if \<not> ShouldRetry (step_RetryPolicy step) (retries + 1)
           then (case store_SaveStepResult (co_store C) st (saga_ID sg)
                        ((step_result sg step StepFailed)
                           \<lparr>sr_ErrorMessage := err, sr_ExecutedAt := Some now\<rparr>) of
                   (st1, _) \<Rightarrow> ((w1, st1, sg1), Some (ErrStep err)))
           else case store_SaveStepResult (co_store C) st (saga_ID sg)
                        ((step_result sg step StepRetrying)
                           \<lparr>sr_RetryAttempt := retries + 1, sr_ExecutedAt := Some now\<rparr>) of
                  (st1, Some e) \<Rightarrow> ((w1, st1, sg1), Some (ErrStore e))
                | (st1, None) \<Rightarrow>
                    (case co_wait C w1 (retries + 1) of
                       (w2, Some e) \<Rightarrow> ((w2, st1, sg1), Some (ErrCtx e))
                     | (w2, None) \<Rightarrow> runStep_loop C step now (retries + 1) (w2, st1, sg1))))"
  by pat_completeness auto
termination
  by (relation "measure (\<lambda>(_, step, _, retries, _).
        case step_RetryPolicy step of None \<Rightarrow> 0 | Some rp \<Rightarrow> nat (rp_MaxAttempts rp) - retries)")
     (auto simp: ShouldRetry_def split: option.splits)

definition runStep ::
  "('w, 'st) coordinator \<Rightarrow> 'w Step \<Rightarrow> ('w, 'st) run_state \<Rightarrow>
   ('w, 'st) run_state \<times> saga_error option" where
  "runStep C step s = runStep_loop C step (co_now C (fst s)) 0 s"

definition saga_save ::
  "('w, 'st) coordinator \<Rightarrow> ('w, 'st) run_state \<Rightarrow> ('w, 'st) run_state \<times> string option" where
  "saga_save C s =
     (case s of (w, st, sg) \<Rightarrow>
        let sg1 = sg\<lparr>saga_UpdatedAt := Some (co_now C w)\<rparr> in
        case store_Save (co_store C) st sg1 of (st1, e) \<Rightarrow> ((w, st1, sg1), e))"

definition saga_begin ::
  "('w, 'st) coordinator \<Rightarrow> ('w, 'st) run_state \<Rightarrow> ('w, 'st) run_state \<times> string option" where
  "saga_begin C s =
     (case s of (w, st, sg) \<Rightarrow>
        let now = co_now C w;
            sg1 = sg\<lparr>saga_Status := SagaRunning,
                     saga_CreatedAt := (case saga_CreatedAt sg of None \<Rightarrow> Some now | Some t \<Rightarrow> Some t),
                     saga_UpdatedAt := Some now\<rparr>
        in case store_Save (co_store C) st sg1 of (st1, e) \<Rightarrow> ((w, st1, sg1), e))"

text \<open>
  The compensation loop over the steps before the failed one, last first; the
  boolean says that a compensation failed (the loop stops there).
\<close>

fun compensate_loop ::
  "('w, 'st) coordinator \<Rightarrow> 'w Step list \<Rightarrow> ('w, 'st) run_state \<Rightarrow> ('w, 'st) run_state \<times> bool" where
  "compensate_loop C [] s = (s, False)"
| "compensate_loop C (step # steps) (w, st, sg) =
     (let compAt = co_now C w;
          record_as = (\<lambda>st sg' status msg.
            fst (store_SaveStepResult (co_store C) st (saga_ID sg')
                   ((step_result sg' step status)
                      \<lparr>sr_ErrorMessage := msg, sr_CompensatedAt := Some compAt\<rparr>)))
      in case step_Compensate step of
           None \<Rightarrow> compensate_loop C steps (w, record_as st sg StepCompensated [], sg)
         | Some undo \<Rightarrow>
             (case undo w (saga_Context sg) of
                (w1, c1, Some cerr) \<Rightarrow>
                  (let sg1 = sg\<lparr>saga_Context := c1\<rparr>
                   in ((w1, record_as st sg1 StepCompensationFailed cerr, sg1), True))
              | (w1, c1, None) \<Rightarrow>
                  (let sg1 = sg\<lparr>saga_Context := c1\<rparr>
                   in compensate_loop C steps (w1, record_as st sg1 StepCompensated [], sg1))))"

definition failAndCompensate ::
  "('w, 'st) coordinator \<Rightarrow> 'w Step list \<Rightarrow> ('w, 'st) run_state \<Rightarrow> ('w, 'st) run_state" where
  "failAndCompensate C earlier s =
     (case compensate_loop C (rev earlier) s of
        ((w, st, sg), compFailed) \<Rightarrow>
          fst (saga_save C (w, st, sg\<lparr>saga_Status := (if compFailed then SagaFailed else SagaCompensated)\<rparr>)))"

text \<open>\<^verbatim>\<open>runFrom\<close> walks the steps; \<^verbatim>\<open>earlier\<close> are the steps before the current index.\<close>

fun runFrom ::
  "('w, 'st) coordinator \<Rightarrow> (string \<Rightarrow> bool) \<Rightarrow> 'w Step list \<Rightarrow> 'w Step list \<Rightarrow> ('w, 'st) run_state \<Rightarrow>
   ('w, 'st) run_state \<times> saga_error option" where
  "runFrom C skip earlier [] s = (s, None)"
| "runFrom C skip earlier (step # steps) s =
     (if skip (step_Key step) then runFrom C skip (earlier @ [step]) steps s
      else case runStep C step s of
             (s1, Some e) \<Rightarrow> (failAndCompensate C earlier s1, Some e)
           | (s1, None) \<Rightarrow> runFrom C skip (earlier @ [step]) steps s1)"

definition run_and_complete ::
  "('w, 'st) coordinator \<Rightarrow> (string \<Rightarrow> bool) \<Rightarrow> ('w, 'st) run_state \<Rightarrow>
   ('w, 'st) run_state \<times> saga_error option" where
  "run_and_complete C skip s =
     (case saga_begin C s of
        (s1, Some e) \<Rightarrow> (s1, Some (ErrStore e))
      | (s1, None) \<Rightarrow>
          (case runFrom C skip [] (saga_Steps (snd (snd s1))) s1 of
             ((w, st, sg), None) \<Rightarrow>
               (case saga_save C (w, st, sg\<lparr>saga_Status := SagaCompleted\<rparr>) of
                  (s2, e) \<Rightarrow> (s2, map_option ErrStore e))
           | (s2, Some e) \<Rightarrow> (s2, Some e)))"

definition Execute ::
  "('w, 'st) coordinator \<Rightarrow> ('w, 'st) run_state \<Rightarrow> ('w, 'st) run_state \<times> saga_error option" where
  "Execute C s =
     (let sg = snd (snd s) in
      if saga_ID sg = [] then (s, Some ErrSagaID)
      else if saga_Steps sg = [] then (s, Some ErrNoSteps)
      else run_and_complete C (\<lambda>_. False) s)"

text \<open>
  \<^verbatim>\<open>Resume\<close> reads the recorded results in the store's order; the last one of a key decides
  whether the step counts as completed.
\<close>

definition done_map :: "StepResult list \<Rightarrow> string \<Rightarrow> bool" where
  "done_map results = foldl (\<lambda>d sr. d(sr_StepKey sr := (sr_Status sr = StepCompleted))) (\<lambda>_. False) results"

definition Resume ::
  "('w, 'st) coordinator \<Rightarrow> 'w \<Rightarrow> 'st \<Rightarrow> string \<Rightarrow>
   ('w \<times> 'st \<times> 'w Saga option) \<times> saga_error option" where
  "Resume C w st sagaID =
     (case store_Load (co_store C) st sagaID of
        Inl e \<Rightarrow> ((w, st, None), Some (ErrSagaLoad e))
      | Inr (loaded, results) \<Rightarrow>
          (case (case co_constructor C of None \<Rightarrow> Inr loaded | Some mk \<Rightarrow> mk loaded) of
             Inl e \<Rightarrow> ((w, st, None), Some (ErrReconstruct e))
           | Inr sg \<Rightarrow>
               if saga_Steps sg = [] then ((w, st, Some sg), Some ErrNoSteps)
               else case run_and_complete C (done_map results) (w, st, sg) of
                      ((w1, st1, sg1), e) \<Rightarrow> ((w1, st1, Some sg1), e)))"

section \<open>Observing a run\<close>

text \<open>
  \<^verbatim>\<open>traced\<close> instruments a step with any behaviour: every execution and compensation is
  appended, with its outcome, to a log kept beside the world.
\<close>

datatype saga_event = Ran string bool | Undone string bool

definition traced_fn ::
  "(bool \<Rightarrow> saga_event) \<Rightarrow> 'w StepFn \<Rightarrow> ('w \<times> saga_event list) StepFn" where
  "traced_fn ev f = (\<lambda>(w, log) c. case f w c of (w1, c1, e) \<Rightarrow> ((w1, log @ [ev (e = None)]), c1, e))"

definition traced :: "'w Step \<Rightarrow> ('w \<times> saga_event list) Step" where
  "traced s =
     \<lparr>step_Key = step_Key s,
      step_Execute = traced_fn (Ran (step_Key s)) (step_Execute s),
      step_Compensate = map_option (traced_fn (Undone (step_Key s))) (step_Compensate s),
      step_RetryPolicy = step_RetryPolicy s\<rparr>"

lemma traced_simps [simp]:
  "step_Key (traced s) = step_Key s"
  "step_RetryPolicy (traced s) = step_RetryPolicy s"
  "step_Compensate (traced s) = map_option (traced_fn (Undone (step_Key s))) (step_Compensate s)"
  "step_Execute (traced s) = traced_fn (Ran (step_Key s)) (step_Execute s)"
  by (simp_all add: traced_def)

text \<open>The log of a wait: waiting adds nothing.\<close>

definition silent_wait :: "('w \<times> 'l, 'st) coordinator \<Rightarrow> bool" where
  "silent_wait C = (\<forall>w n. snd (fst (co_wait C w n)) = snd w)"

abbreviation run_log :: "('w \<times> saga_event list) \<times> 'st \<times> 'v \<Rightarrow> saga_event list" where
  "run_log s \<equiv> snd (fst s)"

text \<open>The logs of a step that succeeds, of one that fails for good, and of a compensation.\<close>

definition success_log :: "'w Step \<Rightarrow> saga_event list \<Rightarrow> bool" where
  "success_log s l =
     (\<exists>n < max_attempts (step_RetryPolicy s).
        l = replicate n (Ran (step_Key s) False) @ [Ran (step_Key s) True])"

definition failure_log :: "'w Step \<Rightarrow> saga_event list \<Rightarrow> bool" where
  "failure_log s l =
     (\<exists>n. 1 \<le> n \<and> n \<le> max_attempts (step_RetryPolicy s) \<and> l = replicate n (Ran (step_Key s) False))"

fun undo_log :: "'w Step list \<Rightarrow> saga_event list" where
  "undo_log [] = []"
| "undo_log (s # ss) = (case step_Compensate s of None \<Rightarrow> [] | Some _ \<Rightarrow> [Undone (step_Key s) True]) @ undo_log ss"

text \<open>
  What compensating the steps in \<^verbatim>\<open>completed\<close> leaves behind: all undone, last first, or
  stopped at the first one (from the end) whose compensation fails.
\<close>

definition rollback :: "'w Step list \<Rightarrow> SagaStatus \<Rightarrow> saga_event list \<Rightarrow> bool" where
  "rollback completed status l =
     (status = SagaCompensated \<and> l = undo_log (rev completed) \<or>
      status = SagaFailed \<and>
        (\<exists>j < length completed. step_Compensate (completed ! j) \<noteq> None \<and>
           l = undo_log (rev (drop (Suc j) completed)) @ [Undone (step_Key (completed ! j)) False]))"

text \<open>
  The two ways a run over \<^verbatim>\<open>steps\<close> may end, by whether it reported an error, the status it
  leaves and its log.
\<close>

definition saga_outcome ::
  "(string \<Rightarrow> bool) \<Rightarrow> 'w Step list \<Rightarrow> bool \<Rightarrow> SagaStatus \<Rightarrow> saga_event list \<Rightarrow> bool" where
  "saga_outcome skip steps failed status l =
     (let todo = filter (\<lambda>x. \<not> skip (step_Key x)) in
      if \<not> failed
      then status = SagaCompleted \<and> (\<exists>ls. list_all2 success_log (todo steps) ls \<and> l = concat ls)
      else (\<exists>k ls lf lu. k < length steps \<and> \<not> skip (step_Key (steps ! k))
              \<and> list_all2 success_log (todo (take k steps)) ls
              \<and> failure_log (steps ! k) lf
              \<and> rollback (take k steps) status lu
              \<and> l = concat ls @ lf @ lu))"

section \<open>Stores that do not fail\<close>

text \<open>
  What the coordinator's guarantees need of a store: saving a saga succeeds, and once it
  is saved its step results can be recorded.
\<close>

locale reliable_saga_store =
  fixes S :: "('w, 'st) saga_store"
    and stored :: "'st \<Rightarrow> string \<Rightarrow> 'w Saga option"
    and recorded :: "'st \<Rightarrow> string \<Rightarrow> string \<Rightarrow> StepResult option"
    and inv :: "'st \<Rightarrow> bool"
  assumes save_ok:
      "\<lbrakk>inv st; store_Save S st sg = (st', e)\<rbrakk> \<Longrightarrow>
         inv st' \<and> e = None \<and> stored st' = (stored st)(saga_ID sg \<mapsto> sg) \<and> recorded st' = recorded st"
    and result_ok:
      "\<lbrakk>inv st; store_SaveStepResult S st i sr = (st', e); stored st i \<noteq> None\<rbrakk> \<Longrightarrow>
         inv st' \<and> e = None \<and> stored st' = stored st
         \<and> recorded st' = (recorded st)(i := (recorded st i)(sr_StepKey sr \<mapsto> sr))"
    and load_ok:
      "\<lbrakk>inv st; stored st i = Some sg\<rbrakk> \<Longrightarrow>
         \<exists>results. store_Load S st i = Inr (sg, results)
           \<and> (\<forall>k. done_map results k \<longleftrightarrow> (\<exists>r. recorded st i k = Some r \<and> sr_Status r = StepCompleted))"

locale traced_saga_store = reliable_saga_store S stored recorded inv
  for S :: "('v \<times> saga_event list, 'st) saga_store" and stored recorded inv
begin

text \<open>What running steps keeps of the saga and of the store.\<close>

definition same_saga :: "('v \<times> saga_event list, 'st) run_state \<Rightarrow> ('v \<times> saga_event list, 'st) run_state \<Rightarrow> bool" where
  "same_saga s s' =
     (case (s, s') of ((_, st, sg), (_, st', sg')) \<Rightarrow>
        inv st' \<and> stored st' = stored st \<and> saga_ID sg' = saga_ID sg \<and> saga_Steps sg' = saga_Steps sg
        \<and> saga_Status sg' = saga_Status sg)"

definition ready :: "('v \<times> saga_event list, 'st) run_state \<Rightarrow> bool" where
  "ready s = (case s of (_, st, sg) \<Rightarrow> inv st \<and> stored st (saga_ID sg) \<noteq> None)"

lemma same_saga_ready: "\<lbrakk>ready s; same_saga s s'\<rbrakk> \<Longrightarrow> ready s'"
  by (auto simp: same_saga_def ready_def)

lemma same_saga_trans: "\<lbrakk>same_saga s s'; same_saga s' s''\<rbrakk> \<Longrightarrow> same_saga s s''"
  by (auto simp: same_saga_def)

lemma runStep_loop_trace:
  assumes "co_store C = S" "silent_wait C"
    and "ready s" "retries < max_attempts (step_RetryPolicy step)"
    and "runStep_loop C (traced step) now retries s = (s', e)"
  shows "same_saga s s' \<and>
    (\<exists>n. run_log s' = run_log s @ replicate n (Ran (step_Key step) False) @
             (if e = None then [Ran (step_Key step) True] else [])
        \<and> (if e = None then retries + n < max_attempts (step_RetryPolicy step)
           else 1 \<le> n \<and> retries + n \<le> max_attempts (step_RetryPolicy step)))"
  using assms(3-)
proof (induction "max_attempts (step_RetryPolicy step) - retries" arbitrary: retries s rule: less_induct)
  case less
  obtain w log st sg where s: "s = ((w, log), st, sg)"
    by (metis prod.collapse)
  have st: "inv st" "stored st (saga_ID sg) \<noteq> None"
    using less.prems(1) by (auto simp: s ready_def)
  obtain w1 c1 r where f: "step_Execute step w (saga_Context sg) = (w1, c1, r)"
    by (metis prod.collapse)
  define sg1 where "sg1 = sg\<lparr>saga_Context := c1\<rparr>"
  show ?case
  proof (cases r)
    case None
    then show ?thesis
      using less.prems(2-) f st result_ok [of st "saga_ID sg"]
      by (auto simp: s traced_fn_def assms(1) Let_def same_saga_def split: prod.splits intro!: exI [where x = 0])
  next
    case (Some err)
    let ?p = "step_RetryPolicy step"
    show ?thesis
    proof (cases "ShouldRetry ?p (retries + 1)")
      case False
      then show ?thesis
        using less.prems(2-) f st Some result_ok [of st "saga_ID sg"]
        by (auto simp: s traced_fn_def assms(1) Let_def same_saga_def split: prod.splits
            intro!: exI [where x = 1])
    next
      case True
      then have lt: "retries + 1 < max_attempts ?p"
        by (auto simp: ShouldRetry_def max_attempts_def split: option.splits)
      obtain st1 e1 where sv: "store_SaveStepResult S st (saga_ID sg)
          ((step_result sg (traced step) StepRetrying)\<lparr>sr_RetryAttempt := retries + 1, sr_ExecutedAt := Some now\<rparr>)
          = (st1, e1)"
        by fastforce
      have st1: "e1 = None" "inv st1" "stored st1 = stored st"
        using result_ok [OF st(1) sv st(2)] by auto
      obtain w2 log2 we where wt: "co_wait C (w1, log @ [Ran (step_Key step) False]) (retries + 1) = ((w2, log2), we)"
        by (metis prod.collapse)
      have log2: "log2 = log @ [Ran (step_Key step) False]"
        using assms(2) wt unfolding silent_wait_def by (metis fst_conv snd_conv)
      let ?s2 = "((w2, log2), st1, sg1)"
      have same: "same_saga s ?s2"
        using st1 by (simp add: s same_saga_def sg1_def)
      show ?thesis
      proof (cases we)
        case (Some x)
        then have "s' = ?s2" "e = Some (ErrCtx x)"
          using less.prems(3) f \<open>r = Some err\<close> True sv st1 wt
          by (auto simp: s traced_fn_def assms(1) Let_def sg1_def)
        then show ?thesis
          using same lt log2 by (auto simp: s intro!: exI [where x = 1])
      next
        case None
        then have rec: "runStep_loop C (traced step) now (retries + 1) ?s2 = (s', e)"
          using less.prems(3) f \<open>r = Some err\<close> True sv st1 wt
          by (auto simp: s traced_fn_def assms(1) Let_def sg1_def)
        have "same_saga ?s2 s' \<and>
          (\<exists>n. run_log s' = run_log ?s2 @ replicate n (Ran (step_Key step) False) @
                   (if e = None then [Ran (step_Key step) True] else [])
              \<and> (if e = None then retries + 1 + n < max_attempts ?p
                 else 1 \<le> n \<and> retries + 1 + n \<le> max_attempts ?p))"
          using less.hyps [OF _ same_saga_ready [OF less.prems(1) same] lt rec] lt by simp
        then obtain n where "same_saga ?s2 s'"
          and n: "run_log s' = log2 @ replicate n (Ran (step_Key step) False) @
                   (if e = None then [Ran (step_Key step) True] else [])"
            "if e = None then retries + 1 + n < max_attempts ?p
             else 1 \<le> n \<and> retries + 1 + n \<le> max_attempts ?p"
          by auto
        then show ?thesis
          using same_saga_trans [OF same] log2
          by (auto simp: s intro!: exI [where x = "Suc n"] split: if_splits)
      qed
    qed
  qed
qed

lemma compensate_loop_trace:
  assumes "co_store C = S" "ready s" "compensate_loop C (map traced steps) s = (s', failed)"
  shows "same_saga s s' \<and>
    (if failed
     then (\<exists>pre x post. steps = pre @ x # post \<and> step_Compensate x \<noteq> None \<and>
             run_log s' = run_log s @ undo_log pre @ [Undone (step_Key x) False])
     else run_log s' = run_log s @ undo_log steps)"
  using assms(2-)
proof (induction steps arbitrary: s)
  case Nil
  then show ?case by (cases s) (auto simp: same_saga_def ready_def)
next
  case (Cons x steps)
  obtain w log st sg where s: "s = ((w, log), st, sg)"
    by (metis prod.collapse)
  have st: "inv st" "stored st (saga_ID sg) \<noteq> None"
    using Cons.prems(1) by (auto simp: s ready_def)
  have saved: "inv (fst (store_SaveStepResult S st (saga_ID sg) sr))"
      "stored (fst (store_SaveStepResult S st (saga_ID sg) sr)) = stored st" for sr
    using result_ok [OF st(1) prod.collapse [symmetric] st(2), of sr] by auto
  have step: "same_saga s s' \<and>
      (if failed
       then (\<exists>pre y post. x # steps = pre @ y # post \<and> step_Compensate y \<noteq> None \<and>
               run_log s' = log @ undo_log pre @ [Undone (step_Key y) False])
       else run_log s' = log @ undo_log (x # steps))"
    if rec: "compensate_loop C (map traced steps) ((w2, log @ undo_log [x]), st2, sg2) = (s', failed)"
      and same: "same_saga s ((w2, log @ undo_log [x]), st2, sg2)" for w2 st2 sg2
  proof -
    note IH = Cons.IH [OF same_saga_ready [OF Cons.prems(1) same] rec]
    have cons: "undo_log (x # pre) = undo_log [x] @ undo_log pre" for pre
      by simp
    show ?thesis
    proof (cases failed)
      case True
      then obtain pre y post where "steps = pre @ y # post" "step_Compensate y \<noteq> None"
          "run_log s' = (log @ undo_log [x]) @ undo_log pre @ [Undone (step_Key y) False]"
        using IH by auto
      then have "x # steps = (x # pre) @ y # post \<and> step_Compensate y \<noteq> None \<and>
          run_log s' = log @ undo_log (x # pre) @ [Undone (step_Key y) False]"
        using cons [of pre] by simp
      moreover have "same_saga s s'"
        using IH same_saga_trans [OF same] by blast
      ultimately show ?thesis
        using True by (simp only: if_True) blast
    next
      case False
      then show ?thesis
        using IH same_saga_trans [OF same] cons [of steps] by simp
    qed
  qed
  show ?case
  proof (cases "step_Compensate x")
    case None
    then show ?thesis
      using Cons.prems(2) step saved by (auto simp: s assms(1) Let_def same_saga_def)
  next
    case (Some undo)
    obtain w1 c1 r where f: "undo w (saga_Context sg) = (w1, c1, r)"
      by (metis prod.collapse)
    show ?thesis
    proof (cases r)
      case None
      then show ?thesis
        using Cons.prems(2) Some f step saved
        by (auto simp: s assms(1) Let_def same_saga_def traced_fn_def)
    next
      case (Some cerr)
      then show ?thesis
        using Cons.prems(2) \<open>step_Compensate x = Some undo\<close> f saved
        by (auto simp: s assms(1) Let_def same_saga_def traced_fn_def intro!: exI [where x = "[]"])
    qed
  qed
qed

lemma failAndCompensate_trace:
  assumes "co_store C = S" "ready s" "failAndCompensate C (map traced earlier) s = s'"
  shows "\<exists>l. run_log s' = run_log s @ l \<and> rollback earlier (saga_Status (snd (snd s'))) l
           \<and> saga_ID (snd (snd s')) = saga_ID (snd (snd s))
           \<and> stored (fst (snd s')) (saga_ID (snd (snd s))) = Some (snd (snd s'))"
proof -
  obtain w st sg failed where c: "compensate_loop C (map traced (rev earlier)) s = ((w, st, sg), failed)"
    by (metis prod.collapse)
  note tr = compensate_loop_trace [OF assms(1,2) c]
  have kept: "inv st" "saga_ID sg = saga_ID (snd (snd s))"
    using tr by (auto simp: same_saga_def split: prod.splits)
  let ?sg = "sg\<lparr>saga_Status := (if failed then SagaFailed else SagaCompensated), saga_UpdatedAt := Some (co_now C w)\<rparr>"
  obtain st' e where sv: "store_Save S st ?sg = (st', e)"
    by fastforce
  have s': "s' = (w, st', ?sg)"
    using assms(3) c sv by (simp add: failAndCompensate_def rev_map saga_save_def assms(1) Let_def)
  have st': "stored st' (saga_ID (snd (snd s))) = Some ?sg"
    using save_ok [OF kept(1) sv] kept(2) by simp
  show ?thesis
  proof (cases failed)
    case False
    then show ?thesis
      using tr s' st' kept(2) by (auto simp: rollback_def)
  next
    case True
    then obtain pre x post where p: "rev earlier = pre @ x # post" "step_Compensate x \<noteq> None"
        "run_log s' = run_log s @ undo_log pre @ [Undone (step_Key x) False]"
      using tr s' by auto
    then have e: "earlier = rev post @ x # rev pre"
      by (metis append.assoc append_Cons append_Nil rev.simps(2) rev_append rev_rev_ident)
    have "rollback earlier SagaFailed (undo_log pre @ [Undone (step_Key x) False])"
      using p(2) unfolding rollback_def e
      by (auto simp: nth_append intro!: exI [where x = "length post"])
    then show ?thesis
      using p(3) s' st' True kept(2) by auto
  qed
qed

text \<open>
  How running \<^verbatim>\<open>steps\<close> after \<^verbatim>\<open>earlier\<close> may end, given which keys are skipped: either every
  other step succeeds in order, or one fails for good after the ones before it
  succeeded, and everything before it is rolled back.
\<close>

definition run_outcome where
  "run_outcome skip earlier steps s s' e =
    (if e = (None :: saga_error option)
     then same_saga s s' \<and>
       (\<exists>ls. list_all2 success_log (filter (\<lambda>x. \<not> skip (step_Key x)) steps) ls \<and> run_log s' = run_log s @ concat ls)
     else saga_ID (snd (snd s')) = saga_ID (snd (snd s)) \<and>
       stored (fst (snd s')) (saga_ID (snd (snd s))) = Some (snd (snd s')) \<and>
       (\<exists>k ls lf lu. k < length steps \<and> \<not> skip (step_Key (steps ! k))
          \<and> list_all2 success_log (filter (\<lambda>x. \<not> skip (step_Key x)) (take k steps)) ls
          \<and> failure_log (steps ! k) lf
          \<and> rollback (earlier @ take k steps) (saga_Status (snd (snd s'))) lu
          \<and> run_log s' = run_log s @ concat ls @ lf @ lu))"

lemma run_outcome_Nil: "ready s \<Longrightarrow> run_outcome skip earlier [] s s None"
  by (cases s) (auto simp: run_outcome_def same_saga_def ready_def)

lemma run_outcome_later:
  assumes "run_outcome skip (earlier @ [x]) steps s1 s' e" "same_saga s s1"
    and "if skip (step_Key x) then run_log s1 = run_log s
         else \<exists>l1. success_log x l1 \<and> run_log s1 = run_log s @ l1"
  shows "run_outcome skip earlier (x # steps) s s' e"
proof -
  have sid: "saga_ID (snd (snd s1)) = saga_ID (snd (snd s))"
    using assms(2) by (auto simp: same_saga_def split: prod.splits)
  obtain l1 where l1: "run_log s1 = run_log s @ concat l1"
      "list_all2 success_log (if skip (step_Key x) then [] else [x]) l1"
    using assms(3) by (cases "skip (step_Key x)") (force intro: that [of "[]"], force intro: that [of "[_]"])
  have first: "filter (\<lambda>x. \<not> skip (step_Key x)) (x # xs) =
      (if skip (step_Key x) then [] else [x]) @ filter (\<lambda>x. \<not> skip (step_Key x)) xs" for xs
    by simp
  show ?thesis
  proof (cases "e = None")
    case True
    then obtain ls where "list_all2 success_log (filter (\<lambda>x. \<not> skip (step_Key x)) steps) ls"
        "run_log s' = run_log s1 @ concat ls" "same_saga s1 s'"
      using assms(1) by (auto simp: run_outcome_def)
    then have "list_all2 success_log (filter (\<lambda>x. \<not> skip (step_Key x)) (x # steps)) (l1 @ ls)"
        "run_log s' = run_log s @ concat (l1 @ ls)" "same_saga s s'"
      using l1 same_saga_trans [OF assms(2)] by (auto simp only: first list_all2_appendI concat_append append_assoc)
    then show ?thesis
      unfolding run_outcome_def True by (simp only: simp_thms if_True) blast
  next
    case False
    with assms(1) obtain k ls lf lu where k: "k < length steps" "\<not> skip (step_Key (steps ! k))"
        "list_all2 success_log (filter (\<lambda>x. \<not> skip (step_Key x)) (take k steps)) ls"
        "failure_log (steps ! k) lf"
        "rollback ((earlier @ [x]) @ take k steps) (saga_Status (snd (snd s'))) lu"
        "run_log s' = run_log s1 @ concat ls @ lf @ lu"
      and kept: "saga_ID (snd (snd s')) = saga_ID (snd (snd s1))"
        "stored (fst (snd s')) (saga_ID (snd (snd s1))) = Some (snd (snd s'))"
      unfolding run_outcome_def by auto
    have "list_all2 success_log (filter (\<lambda>x. \<not> skip (step_Key x)) (take (Suc k) (x # steps))) (l1 @ ls)"
      using l1(2) k(3) by (simp only: take_Suc_Cons first list_all2_appendI)
    moreover have "run_log s' = run_log s @ concat (l1 @ ls) @ lf @ lu"
      using l1(1) k(6) by simp
    moreover have "Suc k < length (x # steps)" "\<not> skip (step_Key ((x # steps) ! Suc k))"
        "failure_log ((x # steps) ! Suc k) lf"
        "rollback (earlier @ take (Suc k) (x # steps)) (saga_Status (snd (snd s'))) lu"
      using k by simp_all
    ultimately show ?thesis
      using False kept unfolding run_outcome_def sid by (simp only: if_False) blast
  qed
qed

lemma run_outcome_fail:
  assumes "\<not> skip (step_Key x)" "failure_log x lf" "run_log s1 = run_log s @ lf" "same_saga s s1"
    and "co_store C = S" "ready s1" "failAndCompensate C (map traced earlier) s1 = s'"
  shows "run_outcome skip earlier (x # steps) s s' (Some err)"
proof -
  have sid: "saga_ID (snd (snd s1)) = saga_ID (snd (snd s))"
    using assms(4) by (auto simp: same_saga_def split: prod.splits)
  obtain lu where lu: "run_log s' = run_log s1 @ lu" "rollback earlier (saga_Status (snd (snd s'))) lu"
      "saga_ID (snd (snd s')) = saga_ID (snd (snd s1))"
      "stored (fst (snd s')) (saga_ID (snd (snd s1))) = Some (snd (snd s'))"
    using failAndCompensate_trace [OF assms(5-7)] by blast
  have "0 < length (x # steps) \<and> \<not> skip (step_Key ((x # steps) ! 0))
      \<and> list_all2 success_log (filter (\<lambda>x. \<not> skip (step_Key x)) (take 0 (x # steps))) []
      \<and> failure_log ((x # steps) ! 0) lf
      \<and> rollback (earlier @ take 0 (x # steps)) (saga_Status (snd (snd s'))) lu
      \<and> run_log s' = run_log s @ concat [] @ lf @ lu"
    using assms(1-3) lu(1,2) by simp
  then show ?thesis
    using lu(3,4) unfolding run_outcome_def sid by (simp only: option.simps if_False) blast
qed

lemma runStep_trace:
  assumes "co_store C = S" "silent_wait C" "ready s" "runStep C (traced x) s = (s1, e1)"
  shows "same_saga s s1 \<and>
    (\<exists>l. run_log s1 = run_log s @ l \<and> (if e1 = None then success_log x l else failure_log x l))"
  using runStep_loop_trace [OF assms(1-3) max_attempts_pos assms(4) [unfolded runStep_def]]
  by (auto simp: success_log_def failure_log_def)

lemma runFrom_outcome:
  assumes "co_store C = S" "silent_wait C" "ready s"
    and "runFrom C skip (map traced earlier) (map traced steps) s = (s', e)"
  shows "run_outcome skip earlier steps s s' e"
  using assms(3-)
proof (induction steps arbitrary: earlier s)
  case (Cons x steps)
  have refl: "same_saga s s"
    using Cons.prems(1) by (cases s) (auto simp: same_saga_def ready_def)
  show ?case
  proof (cases "skip (step_Key x)")
    case True
    then show ?thesis
      using Cons.IH [OF Cons.prems(1), of "earlier @ [x]"] Cons.prems(2) refl
      by (intro run_outcome_later [of skip earlier x steps s]) auto
  next
    case False
    obtain s1 e1 where r: "runStep C (traced x) s = (s1, e1)"
      by fastforce
    then obtain l where same: "same_saga s s1" and l: "run_log s1 = run_log s @ l"
        "if e1 = None then success_log x l else failure_log x l"
      using runStep_trace [OF assms(1,2) Cons.prems(1)] by blast
    note ready1 = same_saga_ready [OF Cons.prems(1) same]
    show ?thesis
    proof (cases e1)
      case None
      then have "runFrom C skip (map traced (earlier @ [x])) (map traced steps) s1 = (s', e)"
        using Cons.prems(2) False r by simp
      from run_outcome_later [OF Cons.IH [OF ready1 this] same] show ?thesis
        using False l None by auto
    next
      case (Some err)
      then have "e = Some err" "failAndCompensate C (map traced earlier) s1 = s'" "failure_log x l"
        using Cons.prems(2) False r l by auto
      then show ?thesis
        using run_outcome_fail [where skip = skip and x = x and lf = l, OF False _ l(1) same assms(1) ready1]
        by blast
    qed
  qed
qed (auto intro: run_outcome_Nil)

lemma run_outcome_failed:
  assumes "run_outcome skip [] steps s s' (Some err)"
  shows "saga_ID (snd (snd s')) = saga_ID (snd (snd s))
    \<and> stored (fst (snd s')) (saga_ID (snd (snd s))) = Some (snd (snd s'))
    \<and> (\<exists>l. run_log s' = run_log s @ l \<and> saga_outcome skip steps True (saga_Status (snd (snd s'))) l)"
proof -
  from assms obtain k ls lf lu where k: "k < length steps" "\<not> skip (step_Key (steps ! k))"
      "list_all2 success_log (filter (\<lambda>x. \<not> skip (step_Key x)) (take k steps)) ls"
      "failure_log (steps ! k) lf" "rollback (take k steps) (saga_Status (snd (snd s'))) lu"
      "run_log s' = run_log s @ concat ls @ lf @ lu"
    by (auto simp: run_outcome_def)
  have "saga_outcome skip steps True (saga_Status (snd (snd s'))) (concat ls @ lf @ lu)"
    unfolding saga_outcome_def Let_def using k(1-5) by (simp only: simp_thms if_False) blast
  then show ?thesis
    using assms k(6) by (auto simp: run_outcome_def)
qed

lemma saga_begin_ready:
  assumes "co_store C = S" "inv st" "saga_begin C (w, st, sg) = (s1, e)"
  shows "e = None \<and> ready s1 \<and> fst s1 = w \<and> saga_ID (snd (snd s1)) = saga_ID sg
    \<and> saga_Steps (snd (snd s1)) = saga_Steps sg"
proof -
  let ?sg1 = "sg\<lparr>saga_Status := SagaRunning,
      saga_CreatedAt := (case saga_CreatedAt sg of None \<Rightarrow> Some (co_now C w) | Some t \<Rightarrow> Some t),
      saga_UpdatedAt := Some (co_now C w)\<rparr>"
  obtain st1 e1 where sv: "store_Save S st ?sg1 = (st1, e1)"
    by fastforce
  then have "s1 = (w, st1, ?sg1)" "e = e1"
    using assms(1,3) by (simp_all add: saga_begin_def Let_def)
  then show ?thesis
    using save_ok [OF assms(2) sv] by (auto simp: ready_def)
qed

lemma run_and_complete_outcome:
  assumes "co_store C = S" "silent_wait C" "inv st" "saga_Steps sg = map traced steps"
    and "run_and_complete C skip ((w, log), st, sg) = (s', e)"
  shows "saga_ID (snd (snd s')) = saga_ID sg
    \<and> stored (fst (snd s')) (saga_ID sg) = Some (snd (snd s'))
    \<and> (\<exists>l. run_log s' = log @ l \<and> saga_outcome skip steps (e \<noteq> None) (saga_Status (snd (snd s'))) l)"
proof -
  obtain s1 e1 where b: "saga_begin C ((w, log), st, sg) = (s1, e1)"
    by fastforce
  note begun = saga_begin_ready [OF assms(1,3) b]
  obtain w2 st2 sg2 e2 where r: "runFrom C skip [] (map traced steps) s1 = ((w2, st2, sg2), e2)"
    by (metis prod.collapse)
  have out: "run_outcome skip [] steps s1 (w2, st2, sg2) e2"
    using runFrom_outcome [OF assms(1,2), of s1 skip "[]" steps] begun r by simp
  show ?thesis
  proof (cases e2)
    case (Some err)
    then have "s' = (w2, st2, sg2)" "e = Some err"
      using assms(4,5) b begun r by (auto simp: run_and_complete_def)
    then show ?thesis
      using run_outcome_failed [OF out [unfolded Some]] begun by auto
  next
    case None
    let ?sg3 = "sg2\<lparr>saga_Status := SagaCompleted, saga_UpdatedAt := Some (co_now C w2)\<rparr>"
    obtain st3 e3 where sv: "store_Save S st2 ?sg3 = (st3, e3)"
      by fastforce
    have same: "same_saga s1 (w2, st2, sg2)"
      using out None by (simp add: run_outcome_def)
    then have kept: "inv st2" "saga_ID sg2 = saga_ID sg"
      using begun by (auto simp: same_saga_def split: prod.splits)
    note saved = save_ok [OF kept(1) sv]
    have "s' = (w2, st3, ?sg3)" "e = None"
      using assms(1,4,5) b begun r None sv saved by (auto simp: run_and_complete_def saga_save_def Let_def)
    then show ?thesis
      using out begun None saved kept(2) by (auto simp: run_outcome_def saga_outcome_def Let_def)
  qed
qed

lemma Execute_outcome:
  assumes "co_store C = S" "silent_wait C" "inv st" "saga_Steps sg = map traced steps"
    and "saga_ID sg \<noteq> []" "steps \<noteq> []"
    and "Execute C ((w, log), st, sg) = (s', e)"
  shows "stored (fst (snd s')) (saga_ID sg) = Some (snd (snd s'))
    \<and> (\<exists>l. run_log s' = log @ l
         \<and> saga_outcome (\<lambda>_. False) steps (e \<noteq> None) (saga_Status (snd (snd s'))) l)"
  using assms(5-) run_and_complete_outcome [OF assms(1-4), of "\<lambda>_. False" w log s' e] assms(4)
  by (simp add: Execute_def)

lemma Resume_outcome:
  assumes "co_store C = S" "silent_wait C" "inv st" "co_constructor C = None"
    and "stored st i = Some sg" "saga_Steps sg = map traced steps" "saga_ID sg = i" "steps \<noteq> []"
    and "Resume C (w, log) st i = (((w', log'), st', sg'), e)"
  shows "\<exists>sg1 l. sg' = Some sg1 \<and> stored st' i = Some sg1 \<and> log' = log @ l
    \<and> saga_outcome (\<lambda>k. \<exists>r. recorded st i k = Some r \<and> sr_Status r = StepCompleted) steps
         (e \<noteq> None) (saga_Status sg1) l"
proof -
  obtain results where ld: "store_Load S st i = Inr (sg, results)"
      "done_map results = (\<lambda>k. \<exists>r. recorded st i k = Some r \<and> sr_Status r = StepCompleted)"
    using load_ok [OF assms(3,5)] by (auto simp: fun_eq_iff)
  obtain w1 log1 st1 sg1 e1 where r: "run_and_complete C (done_map results) ((w, log), st, sg)
      = (((w1, log1), st1, sg1), e1)"
    by (metis prod.collapse)
  have "w1 = w'" "log1 = log'" "st1 = st'" "sg' = Some sg1" "e1 = e"
    using assms(4,6-) ld(1) r by (auto simp: Resume_def assms(1))
  then show ?thesis
    using run_and_complete_outcome [OF assms(1-3,6) r] assms(7) ld(2) by auto
qed

end

section \<open>The in-memory store\<close>

definition mem_inv :: "'w memoryStore \<Rightarrow> bool" where
  "mem_inv s = (\<forall>i sm. ms_results s i = Some sm \<longrightarrow>
     distinct (map fst sm) \<and> list_all (\<lambda>(k, r). sr_StepKey r = k) sm)"

definition mem_recorded :: "'w memoryStore \<Rightarrow> string \<Rightarrow> string \<Rightarrow> StepResult option" where
  "mem_recorded s i k = (case ms_results s i of None \<Rightarrow> None | Some sm \<Rightarrow> map_of sm k)"

lemma done_map_keyed:
  assumes "distinct (map fst sm)" "list_all (\<lambda>(k, r). sr_StepKey r = k) sm"
  shows "done_map (map snd sm) k = (\<exists>r. map_of sm k = Some r \<and> sr_Status r = StepCompleted)"
proof -
  have "foldl (\<lambda>d sr. d(sr_StepKey sr := (sr_Status sr = StepCompleted))) d (map snd sm) k =
      (case map_of sm k of None \<Rightarrow> d k | Some r \<Rightarrow> sr_Status r = StepCompleted)" for d
    using assms
  proof (induction sm arbitrary: d)
    case (Cons p sm)
    obtain k' r where p: "p = (k', r)"
      by fastforce
    have "k' = k \<Longrightarrow> map_of sm k = None"
      using Cons.prems(1) p by (auto simp: map_of_eq_None_iff)
    then show ?case
      using Cons p by (cases "k' = k") simp_all
  qed simp
  then show ?thesis
    by (auto simp: done_map_def split: option.splits)
qed

lemma mem_inv_empty [inv_intros]: "mem_inv NewMemoryStore"
  by (simp add: mem_inv_def NewMemoryStore_def)

lemma keyed_update:
  assumes "list_all (\<lambda>(k, r). key r = k) sm"
  shows "list_all (\<lambda>(k, r). key r = k) (AList.update (key r) r sm)"
  using assms set_alist_update [of "key r" r sm] by (auto simp: list_all_iff)

lemma mem_SaveStepResult_keeps:
  assumes "mem_inv st" "mem_SaveStepResult st i sr = (st', e)" "map_of (ms_sagas st) i \<noteq> None"
  shows "mem_inv st' \<and> e = None \<and> ms_sagas st' = ms_sagas st
    \<and> mem_recorded st' = (mem_recorded st)(i := (mem_recorded st i)(sr_StepKey sr \<mapsto> sr))"
proof -
  define sm where "sm = (case ms_results st i of None \<Rightarrow> [] | Some sm \<Rightarrow> sm)"
  have sm: "distinct (map fst sm)" "list_all (\<lambda>(k, r). sr_StepKey r = k) sm"
    using assms(1) by (auto simp: sm_def mem_inv_def split: option.splits)
  have st': "st' = st\<lparr>ms_results := (ms_results st)(i \<mapsto> AList.update (sr_StepKey sr) sr sm)\<rparr>" "e = None"
    using assms(2,3) by (auto simp: mem_SaveStepResult_def sm_def Let_def)
  have "mem_recorded st i = map_of sm"
    by (auto simp: mem_recorded_def sm_def split: option.splits)
  then show ?thesis
    using assms(1) sm keyed_update [OF sm(2), of sr] st'
    by (auto simp: mem_inv_def mem_recorded_def fun_eq_iff)
qed

interpretation mem: reliable_saga_store memory_store "\<lambda>st. map_of (ms_sagas st)" mem_recorded mem_inv
proof unfold_locales
  fix st st' :: "'w memoryStore" and sg e
  assume "mem_inv st" "store_Save memory_store st sg = (st', e)"
  then show "mem_inv st' \<and> e = None \<and> map_of (ms_sagas st') = (map_of (ms_sagas st))(saga_ID sg \<mapsto> sg)
      \<and> mem_recorded st' = mem_recorded st"
    by (auto simp: memory_store_def mem_Save_def mem_inv_def mem_recorded_def fun_eq_iff)
next
  fix st st' :: "'w memoryStore" and i sr e
  assume "mem_inv st" "store_SaveStepResult memory_store st i sr = (st', e)" "map_of (ms_sagas st) i \<noteq> None"
  then show "mem_inv st' \<and> e = None \<and> map_of (ms_sagas st') = map_of (ms_sagas st)
      \<and> mem_recorded st' = (mem_recorded st)(i := (mem_recorded st i)(sr_StepKey sr \<mapsto> sr))"
    using mem_SaveStepResult_keeps [of st i sr st' e] by (simp add: memory_store_def)
next
  fix st :: "'w memoryStore" and i sg
  assume inv: "mem_inv st" and sg: "map_of (ms_sagas st) i = Some sg"
  show "\<exists>results. store_Load memory_store st i = Inr (sg, results) \<and>
      (\<forall>k. done_map results k = (\<exists>r. mem_recorded st i k = Some r \<and> sr_Status r = StepCompleted))"
  proof (cases "ms_results st i")
    case None
    then show ?thesis
      using sg by (simp add: memory_store_def mem_Load_def mem_recorded_def done_map_def)
  next
    case (Some sm)
    then show ?thesis
      using inv sg done_map_keyed [of sm]
      by (simp add: memory_store_def mem_Load_def mem_recorded_def mem_inv_def)
  qed
qed

interpretation memt: traced_saga_store memory_store "\<lambda>st. map_of (ms_sagas st)" mem_recorded mem_inv
  by unfold_locales

section \<open>Listing running sagas\<close>

lemma exchange_pass_spec:
  assumes trans: "\<And>a b c. \<lbrakk>\<not> before b a; \<not> before c b\<rbrakk> \<Longrightarrow> \<not> before c a"
    and asym: "\<And>a b. before a b \<Longrightarrow> \<not> before b a"
    and "exchange_pass before x xs = (m, r)"
  shows "mset (m # r) = mset (x # xs) \<and> \<not> before x m \<and> (\<forall>y \<in> set xs. \<not> before y m)"
  using assms(3)
proof (induction xs arbitrary: x m r)
  case Nil
  then show ?case using asym by auto
next
  case (Cons y ys)
  obtain m' r' where rec: "exchange_pass before (if before y x then y else x) ys = (m', r')"
    by fastforce
  note IH = Cons.IH [OF rec]
  show ?case
  proof (cases "before y x")
    case True
    then show ?thesis
      using Cons.prems rec IH trans [of y m' x] asym by auto
  next
    case False
    then show ?thesis
      using Cons.prems rec IH trans [of x m' y] by auto
  qed
qed

lemma exchange_sort_spec:
  assumes trans: "\<And>a b c. \<lbrakk>\<not> before b a; \<not> before c b\<rbrakk> \<Longrightarrow> \<not> before c a"
    and asym: "\<And>a b. before a b \<Longrightarrow> \<not> before b a"
  shows "mset (exchange_sort before xs) = mset xs \<and> sorted_wrt (\<lambda>a b. \<not> before b a) (exchange_sort before xs)"
proof (induction "length xs" arbitrary: xs)
  case (Suc n)
  then obtain x ys where xs: "xs = x # ys"
    by (metis length_Suc_conv)
  obtain m r where p: "exchange_pass before x ys = (m, r)"
    by fastforce
  have spec: "mset (m # r) = mset xs" "\<forall>y \<in> set xs. \<not> before y m"
    using exchange_pass_spec [OF trans asym p] by (auto simp: xs)
  have "n = length r"
    using Suc.hyps(2) exchange_pass_length [of before x ys] p by (simp add: xs)
  then have IH: "mset (exchange_sort before r) = mset r" "sorted_wrt (\<lambda>a b. \<not> before b a) (exchange_sort before r)"
    using Suc.hyps(1) by blast+
  have "set r \<subseteq> set xs"
    using mset_eq_setD [OF spec(1)] by auto
  moreover have "set (exchange_sort before r) = set r"
    using mset_eq_setD [OF IH(1)] .
  ultimately show ?case
    using spec IH p by (auto simp: xs)
qed simp

section \<open>Properties\<close>

lemma success_log_keys: "success_log x l \<Longrightarrow> Ran k b \<in> set l \<Longrightarrow> k = step_Key x"
  by (auto simp: success_log_def)

lemma failure_log_keys: "failure_log x l \<Longrightarrow> Ran k b \<in> set l \<Longrightarrow> k = step_Key x"
  by (auto simp: failure_log_def)

lemma undo_log_no_runs: "Ran k b \<notin> set (undo_log xs)"
  by (induction xs) (auto split: option.splits)

lemma rollback_no_runs: "rollback xs status l \<Longrightarrow> Ran k b \<notin> set l"
  by (auto simp: rollback_def undo_log_no_runs)

lemma success_logs_keys:
  "\<lbrakk>list_all2 success_log xs ls; Ran k b \<in> set (concat ls)\<rbrakk> \<Longrightarrow> \<exists>x \<in> set xs. k = step_Key x"
  by (induction rule: list_all2_induct) (auto dest: success_log_keys)

lemma saga_outcome_failed:
  assumes "saga_outcome skip steps True status l"
  obtains k ls lf lu where "k < length steps" "\<not> skip (step_Key (steps ! k))"
    "list_all2 success_log (filter (\<lambda>x. \<not> skip (step_Key x)) (take k steps)) ls"
    "failure_log (steps ! k) lf" "rollback (take k steps) status lu" "l = concat ls @ lf @ lu"
  using assms unfolding saga_outcome_def Let_def by (simp only: simp_thms if_False) blast

lemma saga_outcome_skips:
  assumes "saga_outcome skip steps failed status l" "Ran k b \<in> set l"
  shows "\<not> skip k"
proof (cases failed)
  case False
  then obtain ls where ls: "list_all2 success_log (filter (\<lambda>x. \<not> skip (step_Key x)) steps) ls" "l = concat ls"
    using assms(1) by (auto simp: saga_outcome_def)
  then show ?thesis
    using success_logs_keys [OF ls(1)] assms(2) by auto
next
  case True
  with assms(1) obtain n ls lf lu where n: "\<not> skip (step_Key (steps ! n))"
      and ls: "list_all2 success_log (filter (\<lambda>x. \<not> skip (step_Key x)) (take n steps)) ls"
      and lf: "failure_log (steps ! n) lf" and lu: "rollback (take n steps) status lu"
      and l: "l = concat ls @ lf @ lu"
    by (auto elim: saga_outcome_failed)
  have "Ran k b \<in> set (concat ls) \<or> Ran k b \<in> set lf"
    using assms(2) rollback_no_runs [OF lu] l by auto
  then show ?thesis
    using success_logs_keys [OF ls] failure_log_keys [OF lf] n by auto
qed

text \<open>A sample saga whose first step succeeds and whose second fails after a retry.\<close>

definition sample_steps :: "nat Step list" where
  "sample_steps =
     [\<lparr>step_Key = ''reserve'', step_Execute = (\<lambda>w c. (w + 1, c, None)),
       step_Compensate = Some (\<lambda>w c. (w - 1, c, None)), step_RetryPolicy = None\<rparr>,
      \<lparr>step_Key = ''charge'', step_Execute = (\<lambda>w c. (w, c, Some ''declined'')),
       step_Compensate = None,
       step_RetryPolicy = Some (DefaultRetry\<lparr>rp_MaxAttempts := 2\<rparr>)\<rparr>]"

definition sample_saga :: "(nat \<times> saga_event list) Saga" where
  "sample_saga =
     \<lparr>saga_ID = ''sg'', saga_Name = ''demo'', saga_Status = SagaRunning, saga_Context = Map.empty,
      saga_Steps = map traced sample_steps, saga_CreatedAt = None, saga_UpdatedAt = None\<rparr>"

definition sample_coordinator :: "(nat \<times> saga_event list, (nat \<times> saga_event list) memoryStore) coordinator" where
  "sample_coordinator =
     \<lparr>co_store = memory_store, co_constructor = None, co_now = (\<lambda>_. 0), co_wait = (\<lambda>w n. (w, None))\<rparr>"

lemma sample_coordinator_facts:
  "co_store sample_coordinator = memory_store" "co_constructor sample_coordinator = None"
  "silent_wait sample_coordinator"
  "saga_Steps sample_saga = map traced sample_steps" "saga_ID sample_saga = ''sg''" "sample_steps \<noteq> []"
  by (simp_all add: sample_coordinator_def silent_wait_def sample_saga_def sample_steps_def)

text \<open>
  C2: Executing a saga over the in-memory store either completes every step in order
  (each within its policy's attempts) and leaves the saga completed, or reports an
  error after some step used up its attempts: then the steps before it, all
  completed, are compensated in reverse order, and the saga is stored as compensated
  when every compensation succeeds and as failed when one fails, where the
  compensation stops.
\<close>

theorem saga_runs_or_rolls_back:
  assumes "co_store C = memory_store" "silent_wait C" "mem_inv st"
    and "saga_Steps sg = map traced steps" "saga_ID sg \<noteq> []" "steps \<noteq> []"
    and "Execute C ((w, []), st, sg) = (((w', log), st', sg'), e)"
  shows "map_of (ms_sagas st') (saga_ID sg) = Some sg' \<and>
    (if e = None
     then saga_Status sg' = SagaCompleted \<and>
       (\<exists>ls. list_all2 success_log steps ls \<and> log = concat ls)
     else \<exists>k ls lf lu. k < length steps \<and> list_all2 success_log (take k steps) ls
       \<and> failure_log (steps ! k) lf \<and> rollback (take k steps) (saga_Status sg') lu
       \<and> log = concat ls @ lf @ lu)"
proof -
  have stored: "map_of (ms_sagas st') (saga_ID sg) = Some sg'"
    and out: "saga_outcome (\<lambda>_. False) steps (e \<noteq> None) (saga_Status sg') log"
    using memt.Execute_outcome [OF assms] by auto
  show ?thesis
  proof (cases "e = None")
    case True
    then show ?thesis
      using stored out by (simp add: saga_outcome_def)
  next
    case False
    with out obtain k ls lf lu where "k < length steps" "list_all2 success_log (take k steps) ls"
        "failure_log (steps ! k) lf" "rollback (take k steps) (saga_Status sg') lu" "log = concat ls @ lf @ lu"
      by (auto elim: saga_outcome_failed)
    then show ?thesis
      using stored False by (simp only: if_False) blast
  qed
qed

lemma saga_runs_or_rolls_back_witness:
  "map_of (ms_sagas (fst (snd (fst (Execute sample_coordinator ((0, []), NewMemoryStore, sample_saga))))))
     ''sg'' = Some (snd (snd (fst (Execute sample_coordinator ((0, []), NewMemoryStore, sample_saga)))))"
  using saga_runs_or_rolls_back [OF sample_coordinator_facts(1,3) mem_inv_empty sample_coordinator_facts(4) _
      sample_coordinator_facts(6), of 0]
  by (simp add: sample_coordinator_facts prod_eq_iff)



text \<open>
  \<^verbatim>\<open>ListRunning\<close> of the in-memory store returns exactly the running and compensating
  sagas, each as often as it is stored, in the order of their creation times.
\<close>

theorem list_running_sorted:
  "mset (mem_ListRunning st) =
     mset (filter (\<lambda>sg. saga_Status sg \<in> {SagaRunning, SagaCompensating}) (map snd (ms_sagas st)))
   \<and> sorted_wrt (\<lambda>a b. \<not> created_before b a) (mem_ListRunning st)"
proof -
  have trans: "\<not> created_before b a \<Longrightarrow> \<not> created_before c b \<Longrightarrow> \<not> created_before c a" for a b c :: "'a Saga"
    by (cases "saga_CreatedAt a"; cases "saga_CreatedAt b"; cases "saga_CreatedAt c") (simp_all add: created_before_def)
  have asym: "created_before a b \<Longrightarrow> \<not> created_before b a" for a b :: "'a Saga"
    by (cases "saga_CreatedAt a"; cases "saga_CreatedAt b") (simp_all add: created_before_def)
  show ?thesis
    using exchange_sort_spec [of created_before, OF trans asym]
    by (simp add: mem_ListRunning_def sortByCreatedAt_def)
qed

end
