(* ===== verification/Subscription_Repo.thy ===== *)
theory Subscription_Repo
  imports Prelude
begin

text \<open>
  Subscription persistence: the row of \<^verbatim>\<open>internal/repository/models.go\<close>, the
  \<^verbatim>\<open>SubscriptionRepository\<close> interface of \<^verbatim>\<open>interfaces.go\<close> as a record of operations on
  a repository state, its in-memory implementation (\<^verbatim>\<open>mock.go\<close>) and its PostgreSQL
  implementation (\<^verbatim>\<open>postgres_subscription_repo.go\<close> over the statements of
  \<^verbatim>\<open>postgres/subscriptions.sql.go\<close>).  The locale \<^verbatim>\<open>subscription_repository\<close> states what the
  service relies on; both implementations are interpretations of it.
\<close>

section \<open>Rows and the repository interface\<close>

record SubscriptionRow =
  sub_ID :: string
  sub_PlanID :: string
  sub_TenantID :: string
  sub_CustomerID :: string
  sub_Status :: string
  sub_Amount :: string
  sub_Currency :: string
  sub_Interval :: string
  sub_NextBilling :: string
  sub_UpdatedAt :: time
  sub_Version :: int
  sub_DeletedAt :: "time option"

text \<open>\<^verbatim>\<open>ErrNotFound\<close> and \<^verbatim>\<open>ErrConcurrentUpdate\<close>, or an error of the database driver.\<close>

datatype repo_error = RepoNotFound | RepoConcurrentUpdate | RepoDriver string

record 's sub_repo =
  repo_FindByID :: "'s \<Rightarrow> string \<Rightarrow> 's \<times> (repo_error, SubscriptionRow) result"
  repo_FindByIDAndTenant :: "'s \<Rightarrow> string \<Rightarrow> string \<Rightarrow> 's \<times> (repo_error, SubscriptionRow) result"
  repo_FindByIDsAndTenant ::
    "'s \<Rightarrow> string list \<Rightarrow> string \<Rightarrow> 's \<times> (repo_error, SubscriptionRow list) result"
  repo_ListByTenant :: "'s \<Rightarrow> string \<Rightarrow> 's \<times> (repo_error, SubscriptionRow list) result"
  repo_UpdateStatus :: "'s \<Rightarrow> string \<Rightarrow> string \<Rightarrow> string \<Rightarrow> 's \<times> repo_error option"

section \<open>In-memory implementation\<close>

type_synonym mock_repo = "(string \<times> SubscriptionRow) list"

definition NewMockSubscriptionRepo :: "SubscriptionRow list \<Rightarrow> mock_repo" where
  "NewMockSubscriptionRepo rows = foldl (\<lambda>m r. AList.update (sub_ID r) r m) [] rows"

definition mock_FindByID ::
  "mock_repo \<Rightarrow> string \<Rightarrow> mock_repo \<times> (repo_error, SubscriptionRow) result" where
  "mock_FindByID m sid =
     (m, case map_of m sid of None \<Rightarrow> Inl RepoNotFound | Some row \<Rightarrow> Inr row)"

definition mock_FindByIDAndTenant ::
  "mock_repo \<Rightarrow> string \<Rightarrow> string \<Rightarrow> mock_repo \<times> (repo_error, SubscriptionRow) result" where
  "mock_FindByIDAndTenant m sid tenantID =
     (m, case map_of m sid of
           None \<Rightarrow> Inl RepoNotFound
         | Some row \<Rightarrow> if sub_TenantID row \<noteq> tenantID then Inl RepoNotFound else Inr row)"

definition mock_FindByIDsAndTenant ::
  "mock_repo \<Rightarrow> string list \<Rightarrow> string \<Rightarrow> mock_repo \<times> (repo_error, SubscriptionRow list) result" where
  "mock_FindByIDsAndTenant m ids tenantID =
     (m, Inr (filter (\<lambda>r. sub_ID r \<in> set ids \<and> (tenantID = [] \<or> sub_TenantID r = tenantID))
                (map snd m)))"

definition mock_ListByTenant ::
  "mock_repo \<Rightarrow> string \<Rightarrow> mock_repo \<times> (repo_error, SubscriptionRow list) result" where
  "mock_ListByTenant m tenantID =
     (m, Inr (filter (\<lambda>r. sub_TenantID r = tenantID) (map snd m)))"

definition mock_UpdateStatus ::
  "mock_repo \<Rightarrow> string \<Rightarrow> string \<Rightarrow> string \<Rightarrow> mock_repo \<times> repo_error option" where
  "mock_UpdateStatus m sid tenantID status =
     (case map_of m sid of
        None \<Rightarrow> (m, Some RepoNotFound)
      | Some row \<Rightarrow>
          if sub_TenantID row \<noteq> tenantID then (m, Some RepoNotFound)
          else (AList.update sid (row\<lparr>sub_Status := status\<rparr>) m, None))"

definition MockSubscriptionRepo :: "mock_repo sub_repo" where
  "MockSubscriptionRepo =
     \<lparr>repo_FindByID = mock_FindByID,
      repo_FindByIDAndTenant = mock_FindByIDAndTenant,
      repo_FindByIDsAndTenant = mock_FindByIDsAndTenant,
      repo_ListByTenant = mock_ListByTenant,
      repo_UpdateStatus = mock_UpdateStatus\<rparr>"

section \<open>PostgreSQL implementation\<close>

text \<open>
  The \<^verbatim>\<open>subscriptions\<close> table (its primary key is \<^verbatim>\<open>id\<close>) and the errors the driver will
  return for the next statements; once the list is used up every statement
  succeeds.  A failing statement leaves the table as it was.
\<close>

record pg_db =
  pg_rows :: "SubscriptionRow list"
  pg_faults :: "string option list"

definition pg_next_fault :: "pg_db \<Rightarrow> string option \<times> pg_db" where
  "pg_next_fault db =
     (case pg_faults db of [] \<Rightarrow> (None, db) | f # fs \<Rightarrow> (f, db\<lparr>pg_faults := fs\<rparr>))"

text \<open>A \<^verbatim>\<open>:one\<close> query: the first matching row, \<^verbatim>\<open>sql.ErrNoRows\<close> mapped to \<^verbatim>\<open>ErrNotFound\<close>.\<close>

definition pg_select_one ::
  "(SubscriptionRow \<Rightarrow> bool) \<Rightarrow> pg_db \<Rightarrow> pg_db \<times> (repo_error, SubscriptionRow) result" where
  "pg_select_one P db =
     (case pg_next_fault db of
        (Some e, db1) \<Rightarrow> (db1, Inl (RepoDriver e))
      | (None, db1) \<Rightarrow>
          (db1, case find P (pg_rows db1) of None \<Rightarrow> Inl RepoNotFound | Some r \<Rightarrow> Inr r))"

definition pg_select_many ::
  "(SubscriptionRow \<Rightarrow> bool) \<Rightarrow> pg_db \<Rightarrow> pg_db \<times> (repo_error, SubscriptionRow list) result" where
  "pg_select_many P db =
     (case pg_next_fault db of
        (Some e, db1) \<Rightarrow> (db1, Inl (RepoDriver e))
      | (None, db1) \<Rightarrow> (db1, Inr (filter P (pg_rows db1))))"

text \<open>An \<^verbatim>\<open>:execrows\<close> statement: the new rows and the number of rows affected.\<close>

definition pg_update ::
  "(SubscriptionRow \<Rightarrow> bool) \<Rightarrow> (SubscriptionRow \<Rightarrow> SubscriptionRow) \<Rightarrow> pg_db \<Rightarrow>
   pg_db \<times> (repo_error, nat) result" where
  "pg_update P f db =
     (case pg_next_fault db of
        (Some e, db1) \<Rightarrow> (db1, Inl (RepoDriver e))
      | (None, db1) \<Rightarrow>
          (db1\<lparr>pg_rows := map (\<lambda>r. if P r then f r else r) (pg_rows db1)\<rparr>,
           Inr (length (filter P (pg_rows db1)))))"

definition pg_delete ::
  "(SubscriptionRow \<Rightarrow> bool) \<Rightarrow> pg_db \<Rightarrow> pg_db \<times> (repo_error, nat) result" where
  "pg_delete P db =
     (case pg_next_fault db of
        (Some e, db1) \<Rightarrow> (db1, Inl (RepoDriver e))
      | (None, db1) \<Rightarrow>
          (db1\<lparr>pg_rows := filter (\<lambda>r. \<not> P r) (pg_rows db1)\<rparr>,
           Inr (length (filter P (pg_rows db1)))))"

definition pg_FindByID ::
  "pg_db \<Rightarrow> string \<Rightarrow> pg_db \<times> (repo_error, SubscriptionRow) result" where
  "pg_FindByID db sid = pg_select_one (\<lambda>r. sub_ID r = sid) db"

definition pg_FindByIDAndTenant ::
  "pg_db \<Rightarrow> string \<Rightarrow> string \<Rightarrow> pg_db \<times> (repo_error, SubscriptionRow) result" where
  "pg_FindByIDAndTenant db sid tenantID =
     pg_select_one (\<lambda>r. sub_ID r = sid \<and> sub_TenantID r = tenantID) db"

definition pg_FindByIDsAndTenant ::
  "pg_db \<Rightarrow> string list \<Rightarrow> string \<Rightarrow> pg_db \<times> (repo_error, SubscriptionRow list) result" where
  "pg_FindByIDsAndTenant db ids tenantID =
     (if ids = [] then (db, Inr [])
      else pg_select_many
             (\<lambda>r. sub_ID r \<in> set ids \<and> (tenantID \<noteq> [] \<longrightarrow> sub_TenantID r = tenantID)) db)"

definition pg_ListByTenant ::
  "pg_db \<Rightarrow> string \<Rightarrow> pg_db \<times> (repo_error, SubscriptionRow list) result" where
  "pg_ListByTenant db tenantID = pg_select_many (\<lambda>r. sub_TenantID r = tenantID) db"

definition pg_UpdateStatus ::
  "pg_db \<Rightarrow> string \<Rightarrow> string \<Rightarrow> string \<Rightarrow> pg_db \<times> repo_error option" where
  "pg_UpdateStatus db sid tenantID status =
     (case pg_update (\<lambda>r. sub_ID r = sid \<and> sub_TenantID r = tenantID)
             (\<lambda>r. r\<lparr>sub_Status := status, sub_Version := sub_Version r + 1\<rparr>) db of
        (db1, Inl e) \<Rightarrow> (db1, Some e)
      | (db1, Inr affected) \<Rightarrow> (db1, if affected = 0 then Some RepoNotFound else None))"

text \<open>
  \<^verbatim>\<open>Update\<close> and \<^verbatim>\<open>Delete\<close> guard the statement with the version the caller read.  The
  parameter \<^verbatim>\<open>storedBilling\<close> is what the \<^verbatim>\<open>next_billing\<close> column gives back for the
  string written (parsed as RFC 3339 and formatted again in UTC).
\<close>

definition pg_Update ::
  "(string \<Rightarrow> string) \<Rightarrow> pg_db \<Rightarrow> SubscriptionRow \<Rightarrow> int \<Rightarrow> pg_db \<times> repo_error option" where
  "pg_Update storedBilling db sub expectedVersion =
     (case pg_update
             (\<lambda>r. sub_ID r = sub_ID sub \<and> sub_TenantID r = sub_TenantID sub
                  \<and> sub_Version r = expectedVersion)
             (\<lambda>r. r\<lparr>sub_PlanID := sub_PlanID sub, sub_Status := sub_Status sub,
                    sub_Amount := sub_Amount sub, sub_Currency := sub_Currency sub,
                    sub_Interval := sub_Interval sub,
                    sub_NextBilling := (if sub_NextBilling sub = [] then []
                                        else storedBilling (sub_NextBilling sub)),
                    sub_Version := sub_Version r + 1\<rparr>) db of
        (db1, Inl e) \<Rightarrow> (db1, Some e)
      | (db1, Inr affected) \<Rightarrow> (db1, if affected = 0 then Some RepoConcurrentUpdate else None))"

definition pg_Delete ::
  "pg_db \<Rightarrow> string \<Rightarrow> string \<Rightarrow> int \<Rightarrow> pg_db \<times> repo_error option" where
  "pg_Delete db sid tenantID expectedVersion =
     (case pg_delete (\<lambda>r. sub_ID r = sid \<and> sub_TenantID r = tenantID
                          \<and> sub_Version r = expectedVersion) db of
        (db1, Inl e) \<Rightarrow> (db1, Some e)
      | (db1, Inr affected) \<Rightarrow> (db1, if affected = 0 then Some RepoConcurrentUpdate else None))"

definition PostgresSubscriptionRepo :: "pg_db sub_repo" where
  "PostgresSubscriptionRepo =
     \<lparr>repo_FindByID = pg_FindByID,
      repo_FindByIDAndTenant = pg_FindByIDAndTenant,
      repo_FindByIDsAndTenant = pg_FindByIDsAndTenant,
      repo_ListByTenant = pg_ListByTenant,
      repo_UpdateStatus = pg_UpdateStatus\<rparr>"

section \<open>What the service relies on\<close>

text \<open>
  The state is observed through \<^verbatim>\<open>rows\<close>, a finite map from subscription ids.  A lookup
  never changes it and answers for the tenant asked about only; an update
  changes the status (and possibly the version) of the one row it names; every
  failing call leaves it unchanged.
\<close>

locale subscription_repository =
  fixes R :: "'s sub_repo"
    and rows :: "'s \<Rightarrow> string \<Rightarrow> SubscriptionRow option"
    and inv :: "'s \<Rightarrow> bool"
  assumes find_frame:
      "\<lbrakk>inv s; repo_FindByIDAndTenant R s sid t = (s', res)\<rbrakk> \<Longrightarrow> inv s' \<and> rows s' = rows s"
    and find_ok:
      "\<lbrakk>inv s; repo_FindByIDAndTenant R s sid t = (s', Inr row)\<rbrakk>
        \<Longrightarrow> rows s sid = Some row \<and> sub_TenantID row = t"
    and find_miss:
      "\<lbrakk>inv s; repo_FindByIDAndTenant R s sid t = (s', Inl RepoNotFound); rows s sid = Some row\<rbrakk>
        \<Longrightarrow> sub_TenantID row \<noteq> t"
    and update_fail:
      "\<lbrakk>inv s; repo_UpdateStatus R s sid t st = (s', Some e)\<rbrakk> \<Longrightarrow> inv s' \<and> rows s' = rows s"
    and update_ok:
      "\<lbrakk>inv s; repo_UpdateStatus R s sid t st = (s', None)\<rbrakk>
        \<Longrightarrow> inv s' \<and> (\<exists>row v. rows s sid = Some row \<and> sub_TenantID row = t
              \<and> rows s' = (rows s)(sid \<mapsto> row\<lparr>sub_Status := st, sub_Version := v\<rparr>))"
    and update_miss:
      "\<lbrakk>inv s; repo_UpdateStatus R s sid t st = (s', Some RepoNotFound); rows s sid = Some row\<rbrakk>
        \<Longrightarrow> sub_TenantID row \<noteq> t"
    and rows_keyed: "\<lbrakk>inv s; rows s sid = Some row\<rbrakk> \<Longrightarrow> sub_ID row = sid"

section \<open>The in-memory repository keeps the contract\<close>

definition mock_inv :: "mock_repo \<Rightarrow> bool" where
  "mock_inv m = (distinct (map fst m) \<and> list_all (\<lambda>(k, r). sub_ID r = k) m)"

lemma mock_inv_keyed: "\<lbrakk>mock_inv m; map_of m k = Some r\<rbrakk> \<Longrightarrow> sub_ID r = k"
  by (fastforce simp: mock_inv_def list_all_iff dest: map_of_SomeD)

lemma mock_inv_update [inv_intros]:
  "\<lbrakk>mock_inv m; sub_ID r = k\<rbrakk> \<Longrightarrow> mock_inv (AList.update k r m)"
  using set_alist_update [of k r m] by (auto simp: mock_inv_def list_all_iff)

lemma mock_inv_New [inv_intros]: "mock_inv (NewMockSubscriptionRepo rs)"
proof -
  have "mock_inv m \<Longrightarrow> mock_inv (foldl (\<lambda>m r. AList.update (sub_ID r) r m) m rs)" for m
    by (induction rs arbitrary: m) (auto intro: mock_inv_update)
  then show ?thesis
    by (simp add: NewMockSubscriptionRepo_def mock_inv_def)
qed

lemmas mock_defs =
  MockSubscriptionRepo_def mock_FindByID_def mock_FindByIDAndTenant_def
  mock_FindByIDsAndTenant_def mock_ListByTenant_def mock_UpdateStatus_def

interpretation mock: subscription_repository MockSubscriptionRepo map_of mock_inv
proof unfold_locales
  fix s s' :: mock_repo and sid t st
  assume "mock_inv s" "repo_UpdateStatus MockSubscriptionRepo s sid t st = (s', None)"
  then show "mock_inv s' \<and> (\<exists>row v. map_of s sid = Some row \<and> sub_TenantID row = t
              \<and> map_of s' = (map_of s)(sid \<mapsto> row\<lparr>sub_Status := st, sub_Version := v\<rparr>))"
    by (auto simp: mock_defs mock_inv_keyed split: option.splits if_splits
        intro!: inv_intros exI [where x = "sub_Version (the (map_of s sid))"])
qed (auto simp: mock_defs mock_inv_keyed split: option.splits if_splits)

section \<open>The PostgreSQL repository keeps the contract\<close>

definition by_id :: "SubscriptionRow list \<Rightarrow> string \<Rightarrow> SubscriptionRow option" where
  "by_id rs i = find (\<lambda>r. sub_ID r = i) rs"

definition pg_inv :: "pg_db \<Rightarrow> bool" where
  "pg_inv db = distinct (map sub_ID (pg_rows db))"

lemma by_id_keyed: "by_id rs i = Some r \<Longrightarrow> sub_ID r = i"
  by (auto simp: by_id_def find_Some_iff)

lemma by_id_update:
  assumes "\<And>r. sub_ID (f r) = sub_ID r"
  shows "by_id (map (\<lambda>r. if P r then f r else r) rs) i =
           map_option (\<lambda>r. if P r then f r else r) (by_id rs i)"
  using assms by (induction rs) (auto simp: by_id_def)

lemma by_id_mem: "distinct (map sub_ID rs) \<Longrightarrow> by_id rs i = Some r \<longleftrightarrow> r \<in> set rs \<and> sub_ID r = i"
  by (induction rs) (auto simp: by_id_def)

lemma by_id_None: "by_id rs i = None \<longleftrightarrow> i \<notin> sub_ID ` set rs"
  by (auto simp: by_id_def find_None_iff)

lemma find_by_id_and:
  "distinct (map sub_ID rs) \<Longrightarrow>
     find (\<lambda>r. sub_ID r = i \<and> Q r) rs =
       (case by_id rs i of None \<Rightarrow> None | Some r \<Rightarrow> if Q r then Some r else None)"
  unfolding by_id_def
proof (induction rs)
  case (Cons a rs)
  then show ?case
    using find_fresh [of i sub_ID rs Q] by (cases "sub_ID a = i") simp_all
qed simp

lemma filter_by_id_empty:
  "filter (\<lambda>r. sub_ID r = i \<and> Q r) rs = [] \<Longrightarrow> by_id rs i = Some r \<Longrightarrow> \<not> Q r"
  by (auto simp: by_id_def filter_empty_conv find_Some_iff)

lemma pg_next_fault_rows [store_simps]:
  "pg_next_fault db = (f, db1) \<Longrightarrow> pg_rows db1 = pg_rows db"
  by (auto simp: pg_next_fault_def split: list.splits)

lemmas pg_defs =
  PostgresSubscriptionRepo_def pg_FindByID_def pg_FindByIDAndTenant_def
  pg_FindByIDsAndTenant_def pg_ListByTenant_def pg_UpdateStatus_def
  pg_select_one_def pg_select_many_def pg_update_def

lemma by_id_single_update:
  assumes "distinct (map sub_ID rs)" "\<And>r. sub_ID (f r) = sub_ID r"
    and "filter (\<lambda>r. sub_ID r = i \<and> Q r) rs \<noteq> []"
  shows "\<exists>r. by_id rs i = Some r \<and> Q r \<and>
           by_id (map (\<lambda>r. if sub_ID r = i \<and> Q r then f r else r) rs) = (by_id rs)(i \<mapsto> f r)"
proof -
  obtain r where r: "r \<in> set rs" "sub_ID r = i" "Q r"
    using assms(3) by (auto simp: filter_empty_conv)
  have at: "by_id rs i = Some r"
    using assms(1) r by (simp add: by_id_mem)
  have "by_id (map (\<lambda>r. if sub_ID r = i \<and> Q r then f r else r) rs) j = ((by_id rs)(i \<mapsto> f r)) j"
    for j
  proof (cases "j = i")
    case True
    then show ?thesis
      using at r by (simp add: by_id_update [OF assms(2)])
  next
    case False
    then have "sub_ID r' \<noteq> i" if "by_id rs j = Some r'" for r'
      using by_id_keyed [OF that] by simp
    then show ?thesis
      using False by (cases "by_id rs j") (simp_all add: by_id_update [OF assms(2)])
  qed
  then show ?thesis
    using at r(3) by blast
qed

lemma sub_ID_comp_status [simp]:
  "sub_ID \<circ> (\<lambda>r. if P r then r\<lparr>sub_Status := st, sub_Version := v r\<rparr> else r) = sub_ID"
  by auto

lemma map_if_none [simp]: "filter P rs = [] \<Longrightarrow> map (\<lambda>r. if P r then f r else r) rs = rs"
  by (induction rs) (auto split: if_splits)

lemma pg_FindByIDAndTenant_cases:
  assumes "pg_inv db" "pg_FindByIDAndTenant db sid t = (db', res)"
  shows "pg_rows db' = pg_rows db"
    and "(\<exists>e. res = Inl (RepoDriver e)) \<or>
         res = (case by_id (pg_rows db) sid of
                  None \<Rightarrow> Inl RepoNotFound
                | Some r \<Rightarrow> if sub_TenantID r = t then Inr r else Inl RepoNotFound)"
proof -
  obtain f db1 where f: "pg_next_fault db = (f, db1)"
    by fastforce
  then have rows: "pg_rows db1 = pg_rows db"
    by (rule pg_next_fault_rows)
  note run = assms(2) [unfolded pg_FindByIDAndTenant_def pg_select_one_def f]
  show "pg_rows db' = pg_rows db"
    using run rows by (cases f) simp_all
  show "(\<exists>e. res = Inl (RepoDriver e)) \<or>
         res = (case by_id (pg_rows db) sid of
                  None \<Rightarrow> Inl RepoNotFound
                | Some r \<Rightarrow> if sub_TenantID r = t then Inr r else Inl RepoNotFound)"
  proof (cases f)
    case None
    then show ?thesis
      using run rows assms(1) by (cases "by_id (pg_rows db) sid") (simp_all add: pg_inv_def find_by_id_and split: if_splits)
  qed (use run in auto)
qed

lemma pg_UpdateStatus_cases:
  assumes "pg_UpdateStatus db sid t st = (db', res)"
  shows "(\<exists>e. res = Some (RepoDriver e) \<and> pg_rows db' = pg_rows db) \<or>
         res = (if filter (\<lambda>r. sub_ID r = sid \<and> sub_TenantID r = t) (pg_rows db) = []
                then Some RepoNotFound else None) \<and>
         pg_rows db' = map (\<lambda>r. if sub_ID r = sid \<and> sub_TenantID r = t
                               then r\<lparr>sub_Status := st, sub_Version := sub_Version r + 1\<rparr>
                               else r) (pg_rows db)"
proof -
  obtain f db1 where f: "pg_next_fault db = (f, db1)"
    by fastforce
  then have "pg_rows db1 = pg_rows db"
    by (rule pg_next_fault_rows)
  then show ?thesis
    using assms f by (cases f) (auto simp: pg_UpdateStatus_def pg_update_def)
qed

interpretation pg: subscription_repository PostgresSubscriptionRepo "\<lambda>db. by_id (pg_rows db)" pg_inv
proof unfold_locales
  fix s s' :: pg_db and sid t st res row e
  have find: "repo_FindByIDAndTenant PostgresSubscriptionRepo = pg_FindByIDAndTenant"
    and update: "repo_UpdateStatus PostgresSubscriptionRepo = pg_UpdateStatus"
    by (simp_all add: PostgresSubscriptionRepo_def)
  assume inv: "pg_inv s"
  show "by_id (pg_rows s) sid = Some row \<Longrightarrow> sub_ID row = sid"
    by (rule by_id_keyed)
  {
    assume call: "repo_FindByIDAndTenant PostgresSubscriptionRepo s sid t = (s', res)"
    note f = pg_FindByIDAndTenant_cases [OF inv call [unfolded find]]
    show "pg_inv s' \<and> by_id (pg_rows s') = by_id (pg_rows s)"
      using f(1) inv by (simp add: pg_inv_def)
  }
  {
    assume call: "repo_FindByIDAndTenant PostgresSubscriptionRepo s sid t = (s', Inr row)"
    show "by_id (pg_rows s) sid = Some row \<and> sub_TenantID row = t"
      using pg_FindByIDAndTenant_cases(2) [OF inv call [unfolded find]]
      by (auto split: option.splits if_splits)
  }
  {
    assume call: "repo_FindByIDAndTenant PostgresSubscriptionRepo s sid t = (s', Inl RepoNotFound)"
      and "by_id (pg_rows s) sid = Some row"
    then show "sub_TenantID row \<noteq> t"
      using pg_FindByIDAndTenant_cases(2) [OF inv call [unfolded find]]
      by (auto split: option.splits if_splits)
  }
  {
    assume call: "repo_UpdateStatus PostgresSubscriptionRepo s sid t st = (s', Some e)"
    have "pg_rows s' = pg_rows s"
      using pg_UpdateStatus_cases [OF call [unfolded update]]
      by (auto split: if_splits)
    then show "pg_inv s' \<and> by_id (pg_rows s') = by_id (pg_rows s)"
      using inv by (simp add: pg_inv_def)
  }
  {
    assume call: "repo_UpdateStatus PostgresSubscriptionRepo s sid t st = (s', Some RepoNotFound)"
      and "by_id (pg_rows s) sid = Some row"
    then show "sub_TenantID row \<noteq> t"
      using pg_UpdateStatus_cases [OF call [unfolded update]]
      by (auto split: if_splits dest: filter_by_id_empty)
  }
  {
    assume call: "repo_UpdateStatus PostgresSubscriptionRepo s sid t st = (s', None)"
    let ?f = "\<lambda>r. r\<lparr>sub_Status := st, sub_Version := sub_Version r + 1\<rparr>"
    have ne: "filter (\<lambda>r. sub_ID r = sid \<and> sub_TenantID r = t) (pg_rows s) \<noteq> []"
      and rows': "pg_rows s' =
          map (\<lambda>r. if sub_ID r = sid \<and> sub_TenantID r = t then ?f r else r) (pg_rows s)"
      using pg_UpdateStatus_cases [OF call [unfolded update]] by (auto split: if_splits)
    obtain r where "by_id (pg_rows s) sid = Some r" "sub_TenantID r = t"
        "by_id (pg_rows s') = (by_id (pg_rows s))(sid \<mapsto> ?f r)"
      using by_id_single_update [OF inv [unfolded pg_inv_def] _ ne, of ?f] rows' by auto
    moreover have "pg_inv s'"
      using inv by (simp add: pg_inv_def rows')
    ultimately show "pg_inv s' \<and> (\<exists>row v. by_id (pg_rows s) sid = Some row \<and> sub_TenantID row = t
        \<and> by_id (pg_rows s') = (by_id (pg_rows s))(sid \<mapsto> row\<lparr>sub_Status := st, sub_Version := v\<rparr>))"
      by blast
  }
qed

end
