(* ===== verification/Subscription_State.thy ===== *)
theory Subscription_State
  imports Prelude
begin

text \<open>
  The subscription status machine of \<^verbatim>\<open>internal/subscriptions/state_machine.go\<close>:
  the status constants, the transition table, \<^verbatim>\<open>IsKnownStatus\<close> and
  \<^verbatim>\<open>CanTransition\<close>, together with the transition relation the table induces and
  what can be reached along it.
\<close>

section \<open>Statuses and the transition table\<close>

definition StatusPending :: string where "StatusPending = ''pending''"
definition StatusActive :: string where "StatusActive = ''active''"
definition StatusPaused :: string where "StatusPaused = ''paused''"
definition StatusCancelled :: string where "StatusCancelled = ''cancelled''"
definition StatusExpired :: string where "StatusExpired = ''expired''"

lemmas status_defs =
  StatusPending_def StatusActive_def StatusPaused_def StatusCancelled_def StatusExpired_def

definition allowedTransitions :: "string \<rightharpoonup> string list" where
  "allowedTransitions = map_of
     [(StatusPending, [StatusActive, StatusCancelled]),
      (StatusActive, [StatusPaused, StatusCancelled, StatusExpired]),
      (StatusPaused, [StatusActive, StatusCancelled]),
      (StatusCancelled, []),
      (StatusExpired, [])]"

definition knownStatuses :: "(string \<times> bool) list" where
  "knownStatuses =
     [(StatusPending, True), (StatusActive, True), (StatusPaused, True),
      (StatusCancelled, True), (StatusExpired, True)]"

text \<open>Reading an absent key of a \<^verbatim>\<open>map[string]bool\<close> gives \<^verbatim>\<open>false\<close>.\<close>

definition IsKnownStatus :: "string \<Rightarrow> bool" where
  "IsKnownStatus s = (case map_of knownStatuses s of Some b \<Rightarrow> b | None \<Rightarrow> False)"

datatype transition_error = UnknownCurrentState string | InvalidTransition string string

definition CanTransition :: "string \<Rightarrow> string \<Rightarrow> transition_error option" where
  "CanTransition from to =
     (if from = to then None
      else case allowedTransitions from of
             None \<Rightarrow> Some (UnknownCurrentState from)
           | Some allowed \<Rightarrow>
               (if list_ex (\<lambda>a. a = to) allowed then None
                else Some (InvalidTransition from to)))"

section \<open>The induced transition relation\<close>

text \<open>One real status change: the two ends differ and the table allows it.\<close>

inductive transition :: "string \<Rightarrow> string \<Rightarrow> bool" where
  "\<lbrakk>CanTransition from to = None; from \<noteq> to\<rbrakk> \<Longrightarrow> transition from to"

inductive_simps transition_iff: "transition from to"

definition terminal :: "string \<Rightarrow> bool" where
  "terminal s = (s = StatusCancelled \<or> s = StatusExpired)"

lemma IsKnownStatus_iff [status_simps]:
  "IsKnownStatus s \<longleftrightarrow>
     s \<in> {StatusPending, StatusActive, StatusPaused, StatusCancelled, StatusExpired}"
  by (auto simp: IsKnownStatus_def knownStatuses_def status_defs)

lemma known_iff_table: "IsKnownStatus s \<longleftrightarrow> s \<in> dom allowedTransitions"
  by (auto simp: status_simps allowedTransitions_def status_defs)

lemma transition_table [status_simps]:
  "transition from to \<longleftrightarrow>
     (from, to) \<in> {(StatusPending, StatusActive), (StatusPending, StatusCancelled),
                   (StatusActive, StatusPaused), (StatusActive, StatusCancelled),
                   (StatusActive, StatusExpired), (StatusPaused, StatusActive),
                   (StatusPaused, StatusCancelled)}"
  by (auto simp: transition_iff CanTransition_def allowedTransitions_def status_defs
      split: option.splits if_splits)

lemma transition_known:
  assumes "transition from to"
  shows "IsKnownStatus from" "IsKnownStatus to"
  using assms by (auto simp: status_simps)

lemma terminal_no_transition: "terminal from \<Longrightarrow> \<not> transition from to"
  by (auto simp: status_simps terminal_def status_defs)

lemma no_transition_to_pending: "\<not> transition from StatusPending"
  by (auto simp: status_simps status_defs)

lemma transitions_known:
  "\<lbrakk>transition\<^sup>*\<^sup>* from to; IsKnownStatus from\<rbrakk> \<Longrightarrow> IsKnownStatus to"
  by (induction rule: rtranclp_induct) (auto dest: transition_known)

lemma terminal_absorbing: "\<lbrakk>transition\<^sup>*\<^sup>* from to; terminal from\<rbrakk> \<Longrightarrow> to = from"
  by (metis converse_rtranclpE terminal_no_transition)

lemma pending_unreachable: "transition\<^sup>*\<^sup>* from StatusPending \<Longrightarrow> from = StatusPending"
  by (metis rtranclp.cases no_transition_to_pending)

text \<open>Every known status can still be driven to the cancelled state unless it has expired.\<close>

lemma cancel_reachable:
  "\<lbrakk>IsKnownStatus s; s \<noteq> StatusExpired\<rbrakk> \<Longrightarrow> transition\<^sup>=\<^sup>= s StatusCancelled"
  by (auto simp: status_simps)

end
