(* ===== verification/Subscription_Service.thy ===== *)
theory Subscription_Service
  imports Subscription_State Subscription_Repo
begin

text \<open>
  The subscription service of \<^verbatim>\<open>internal/service/subscription_service.go\<close>
  (\<^verbatim>\<open>GetDetail\<close>, \<^verbatim>\<open>ChangeStatus\<close>), the batching loader of \<^verbatim>\<open>internal/repository/loader.go\<close>
  it reads through, and the two HTTP handlers of \<^verbatim>\<open>internal/handlers/subscriptions.go\<close>
  that expose it.  Its lemmas are proved once for every repository that keeps the
  contract \<^verbatim>\<open>subscription_repository\<close> and reach the code through the interpretations of
  that contract.
\<close>

section \<open>Errors and payloads\<close>

datatype service_error =
    ErrNotFound
  | ErrDeleted
  | ErrForbidden
  | ErrBillingParse
  | ErrInvalidTransition transition_error
  | ErrUnknownCurrentState string
  | ErrInvalidStatus string
  | ErrRepo repo_error

record SubscriptionStatusChange =
  chg_ID :: string
  chg_Status :: string
  chg_PreviousStatus :: string
  chg_Changed :: bool

record PlanRow =
  plan_ID :: string
  plan_TenantID :: string
  plan_Name :: string
  plan_Amount :: string
  plan_Currency :: string
  plan_Interval :: string
  plan_Description :: string
  plan_UpdatedAt :: time
  plan_Version :: int

record PlanMetadata =
  pm_PlanID :: string
  pm_Name :: string
  pm_Amount :: string
  pm_Currency :: string
  pm_Interval :: string
  pm_Description :: string

record BillingSummary =
  bill_AmountCents :: int
  bill_Currency :: string
  bill_NextBillingDate :: "string option"

record SubscriptionDetail =
  det_ID :: string
  det_PlanID :: string
  det_Customer :: string
  det_Status :: string
  det_Interval :: string
  det_Plan :: "PlanMetadata option"
  det_BillingSummary :: BillingSummary

section \<open>The batching loader\<close>

text \<open>
  The read side of \<^verbatim>\<open>PlanRepository\<close> that the service calls; \<^verbatim>\<open>MockPlanRepo\<close> answers
  from the list of stored plans.
\<close>

record plan_repo =
  plans_FindByID :: "string \<Rightarrow> (repo_error, PlanRow) result"
  plans_FindByIDs :: "string list \<Rightarrow> (repo_error, PlanRow list) result"
  plans_FindByIDsAndTenant :: "string list \<Rightarrow> string \<Rightarrow> (repo_error, PlanRow list) result"

definition MockPlanRepo :: "(string \<times> PlanRow) list \<Rightarrow> plan_repo" where
  "MockPlanRepo records =
     \<lparr>plans_FindByID = (\<lambda>pid. case map_of records pid of None \<Rightarrow> Inl RepoNotFound | Some r \<Rightarrow> Inr r),
      plans_FindByIDs = (\<lambda>ids. Inr (filter (\<lambda>r. plan_ID r \<in> set ids) (map snd records))),
      plans_FindByIDsAndTenant = (\<lambda>ids tenantID.
        Inr (filter (\<lambda>r. plan_ID r \<in> set ids \<and> (tenantID = [] \<or> plan_TenantID r = tenantID))
               (map snd records)))\<rparr>"

text \<open>
  One call of \<^verbatim>\<open>load\<close> waits for the batch its id is queued in.  What happens to it
  depends on the ids coalesced with it and on whether its context ends first.
\<close>

record load_call =
  lc_others :: "string list"
  lc_ctxErr :: "string option"

definition rowMap :: "('r \<Rightarrow> string) \<Rightarrow> 'r list \<Rightarrow> string \<rightharpoonup> 'r" where
  "rowMap key rs = foldl (\<lambda>m r. m(key r \<mapsto> r)) Map.empty rs"

definition dispatch_result ::
  "('r \<Rightarrow> string) \<Rightarrow> (repo_error, 'r list) result \<Rightarrow> string \<Rightarrow> (repo_error, 'r) result" where
  "dispatch_result key res i =
     (case res of
        Inl e \<Rightarrow> Inl e
      | Inr rs \<Rightarrow> (case rowMap key rs i of Some r \<Rightarrow> Inr r | None \<Rightarrow> Inl RepoNotFound))"

definition LoadSubscription ::
  "'s sub_repo \<Rightarrow> load_call \<Rightarrow> 's \<Rightarrow> string \<Rightarrow> string \<Rightarrow> 's \<times> (repo_error, SubscriptionRow) result" where
  "LoadSubscription R lc s tenantID i =
     (if i = [] then (s, Inl RepoNotFound)
      else case repo_FindByIDsAndTenant R s (i # lc_others lc) tenantID of
             (s1, res) \<Rightarrow>
               (s1, case lc_ctxErr lc of
                      Some e \<Rightarrow> Inl (RepoDriver e)
                    | None \<Rightarrow> dispatch_result sub_ID res i))"

definition LoadPlan ::
  "plan_repo \<Rightarrow> load_call \<Rightarrow> string \<Rightarrow> string \<Rightarrow> (repo_error, PlanRow) result" where
  "LoadPlan P lc tenantID i =
     (if i = [] then Inl RepoNotFound
      else case lc_ctxErr lc of
             Some e \<Rightarrow> Inl (RepoDriver e)
           | None \<Rightarrow>
               dispatch_result plan_ID
                 (if tenantID \<noteq> [] then plans_FindByIDsAndTenant P (i # lc_others lc) tenantID
                  else plans_FindByIDs P (i # lc_others lc)) i)"

section \<open>GetDetail\<close>

text \<open>
  The request's loader is \<^verbatim>\<open>None\<close> when the context carries none, otherwise the two
  calls the request makes through it.  \<^verbatim>\<open>normalizeUTC\<close> stands for
  \<^verbatim>\<open>timeutil.NormalizeRFC3339StringToUTC\<close>; \<^verbatim>\<open>None\<close> is its parse error.
\<close>

definition plan_metadata :: "PlanRow \<Rightarrow> PlanMetadata" where
  "plan_metadata p =
     \<lparr>pm_PlanID = plan_ID p, pm_Name = plan_Name p, pm_Amount = plan_Amount p,
      pm_Currency = plan_Currency p, pm_Interval = plan_Interval p,
      pm_Description = plan_Description p\<rparr>"

definition service_repo_error :: "repo_error \<Rightarrow> service_error" where
  "service_repo_error e = (if e = RepoNotFound then ErrNotFound else ErrRepo e)"

definition build_detail ::
  "(string \<Rightarrow> string option) \<Rightarrow> SubscriptionRow \<Rightarrow> PlanRow option \<Rightarrow> (service_error, SubscriptionDetail) result" where
  "build_detail normalizeUTC row planRow =
     (case ParseInt64 (sub_Amount row) of
        None \<Rightarrow> Inl ErrBillingParse
      | Some amountCents \<Rightarrow>
          Inr \<lparr>det_ID = sub_ID row, det_PlanID = sub_PlanID row, det_Customer = sub_CustomerID row,
               det_Status = sub_Status row, det_Interval = sub_Interval row,
               det_Plan = map_option plan_metadata planRow,
               det_BillingSummary =
                 \<lparr>bill_AmountCents = amountCents,
                  bill_Currency = ToUpper (sub_Currency row),
                  bill_NextBillingDate =
                    (if sub_NextBilling row \<noteq> []
                     then Some (case normalizeUTC (sub_NextBilling row) of
                                  None \<Rightarrow> sub_NextBilling row | Some nb \<Rightarrow> nb)
                     else None)\<rparr>\<rparr>)"

definition GetDetail ::
  "'s sub_repo \<Rightarrow> plan_repo \<Rightarrow> (string \<Rightarrow> string option) \<Rightarrow> (load_call \<times> load_call) option \<Rightarrow>
   's \<Rightarrow> string \<Rightarrow> string \<Rightarrow> string \<Rightarrow>
   's \<times> (service_error, SubscriptionDetail \<times> string list) result" where
  "GetDetail R P normalizeUTC loader s tenantID callerID subscriptionID =
     (case (case loader of
              Some (lc, _) \<Rightarrow> LoadSubscription R lc s tenantID subscriptionID
            | None \<Rightarrow> repo_FindByIDAndTenant R s subscriptionID tenantID) of
        (s1, Inl e) \<Rightarrow> (s1, Inl (service_repo_error e))
      | (s1, Inr row) \<Rightarrow>
          if sub_DeletedAt row \<noteq> None then (s1, Inl ErrDeleted)
          else if callerID \<noteq> sub_CustomerID row then (s1, Inl ErrForbidden)
          else
            (case (case loader of
                     Some (_, lc) \<Rightarrow> LoadPlan P lc tenantID (sub_PlanID row)
                   | None \<Rightarrow> plans_FindByID P (sub_PlanID row)) of
               Inl e \<Rightarrow>
                 if e = RepoNotFound
                 then (s1, map_sum (\<lambda>x. x) (\<lambda>d. (d, [''plan not found''])) (build_detail normalizeUTC row None))
                 else (s1, Inl (ErrRepo e))
             | Inr p \<Rightarrow>
                 (s1, map_sum (\<lambda>x. x) (\<lambda>d. (d, [])) (build_detail normalizeUTC row (Some p)))))"

section \<open>ChangeStatus\<close>

definition ChangeStatus ::
  "'s sub_repo \<Rightarrow> 's \<Rightarrow> string \<Rightarrow> string \<Rightarrow> string \<Rightarrow> string \<Rightarrow>
   's \<times> (service_error, SubscriptionStatusChange) result" where
  "ChangeStatus R s tenantID actorID subscriptionID targetStatus =
     (if \<not> IsKnownStatus targetStatus then (s, Inl (ErrInvalidStatus targetStatus))
      else case repo_FindByIDAndTenant R s subscriptionID tenantID of
        (s1, Inl e) \<Rightarrow> (s1, Inl (service_repo_error e))
      | (s1, Inr row) \<Rightarrow>
          if sub_DeletedAt row \<noteq> None then (s1, Inl ErrDeleted)
          else if \<not> IsKnownStatus (sub_Status row)
          then (s1, Inl (ErrUnknownCurrentState (sub_Status row)))
          else if sub_Status row = targetStatus
          then (s1, Inr \<lparr>chg_ID = sub_ID row, chg_Status = sub_Status row,
                        chg_PreviousStatus = sub_Status row, chg_Changed = False\<rparr>)
          else case CanTransition (sub_Status row) targetStatus of
            Some err \<Rightarrow> (s1, Inl (ErrInvalidTransition err))
          | None \<Rightarrow>
              (case repo_UpdateStatus R s1 subscriptionID tenantID targetStatus of
                 (s2, Some e) \<Rightarrow> (s2, Inl (ErrRepo e))
               | (s2, None) \<Rightarrow>
                   (s2, Inr \<lparr>chg_ID = sub_ID row, chg_Status = targetStatus,
                            chg_PreviousStatus = sub_Status row, chg_Changed = True\<rparr>)))"

section \<open>HTTP handlers\<close>

text \<open>
  A problem response is its status, error code and detail (before
  \<^verbatim>\<open>security.MaskPII\<close> is applied to the detail).
\<close>

datatype 'ok http_response = Problem nat string string | OK 'ok

definition transition_error_text :: "transition_error \<Rightarrow> string" where
  "transition_error_text e =
     (case e of
        UnknownCurrentState f \<Rightarrow> ''unknown current state: '' @ f
      | InvalidTransition f t \<Rightarrow> ''invalid transition from '' @ f @ '' to '' @ t)"

text \<open>\<^verbatim>\<open>svc\<close> is \<^verbatim>\<open>None\<close> when the handler was built without a service.\<close>

definition NewGetSubscriptionHandler ::
  "('s \<Rightarrow> string \<Rightarrow> string \<Rightarrow> string \<Rightarrow> 's \<times> (service_error, SubscriptionDetail \<times> string list) result) option \<Rightarrow>
   's \<Rightarrow> string option \<Rightarrow> string option \<Rightarrow> string \<Rightarrow>
   's \<times> (SubscriptionDetail \<times> string list) http_response" where
  "NewGetSubscriptionHandler svc s tenantID callerID i =
     (let tenantIDStr = (case tenantID of Some t \<Rightarrow> t | None \<Rightarrow> []);
          callerIDStr = (case callerID of Some c \<Rightarrow> c | None \<Rightarrow> [])
      in case svc of
           None \<Rightarrow> (s, Problem 503 ''system/service-unavailable'' ''subscription service is unavailable'')
         | Some getDetail \<Rightarrow>
             (case getDetail s tenantIDStr callerIDStr i of
                (s1, Inl ErrNotFound) \<Rightarrow>
                  (s1, Problem 404 ''client/not-found'' ''The requested resource was not found'')
              | (s1, Inl ErrDeleted) \<Rightarrow> (s1, Problem 410 ''client/not-found'' ''deleted'')
              | (s1, Inl ErrForbidden) \<Rightarrow> (s1, Problem 403 ''client/forbidden'' ''forbidden'')
              | (s1, Inl _) \<Rightarrow> (s1, Problem 500 ''system/internal-error'' ''Failed to retrieve subscription'')
              | (s1, Inr d) \<Rightarrow> (s1, OK d)))"

text \<open>The JSON body's \<^verbatim>\<open>status\<close> is \<^verbatim>\<open>None\<close> when binding fails.\<close>

definition NewChangeSubscriptionStatusHandler ::
  "('s \<Rightarrow> string \<Rightarrow> string \<Rightarrow> string \<Rightarrow> string \<Rightarrow> 's \<times> (service_error, SubscriptionStatusChange) result) option \<Rightarrow>
   's \<Rightarrow> string option \<Rightarrow> string option \<Rightarrow> string \<Rightarrow> string option \<Rightarrow>
   's \<times> SubscriptionStatusChange http_response" where
  "NewChangeSubscriptionStatusHandler svc s tenantID callerID i bodyStatus =
     (let tenantIDStr = (case tenantID of Some t \<Rightarrow> t | None \<Rightarrow> []);
          callerIDStr = (case callerID of Some c \<Rightarrow> c | None \<Rightarrow> [])
      in if tenantIDStr = [] then (s, Problem 401 ''client/unauthorized'' ''tenant context required'')
         else case bodyStatus of
           None \<Rightarrow> (s, Problem 400 ''client/bad-request'' ''status is required'')
         | Some status \<Rightarrow>
             if status = [] then (s, Problem 400 ''client/bad-request'' ''status is required'')
             else case svc of
               None \<Rightarrow> (s, Problem 503 ''system/service-unavailable'' ''subscription service unavailable'')
             | Some changeStatus \<Rightarrow>
                 (case changeStatus s tenantIDStr callerIDStr i status of
                    (s1, Inl ErrNotFound) \<Rightarrow> (s1, Problem 404 ''client/not-found'' ''subscription not found'')
                  | (s1, Inl ErrDeleted) \<Rightarrow> (s1, Problem 410 ''client/not-found'' ''subscription deleted'')
                  | (s1, Inl (ErrInvalidStatus st)) \<Rightarrow>
                      (s1, Problem 409 ''client/conflict'' (''invalid status: '' @ st))
                  | (s1, Inl (ErrInvalidTransition e)) \<Rightarrow>
                      (s1, Problem 409 ''client/conflict'' (''invalid status transition: '' @ transition_error_text e))
                  | (s1, Inl (ErrUnknownCurrentState st)) \<Rightarrow>
                      (s1, Problem 409 ''client/conflict'' (''unknown current state: '' @ st))
                  | (s1, Inl _) \<Rightarrow>
                      (s1, Problem 500 ''system/internal-error'' ''failed to change subscription status'')
                  | (s1, Inr change) \<Rightarrow> (s1, OK change)))"

section \<open>ChangeStatus over any repository that keeps the contract\<close>

text \<open>How one status change may alter a row: its status moves along the table, the version may grow.\<close>

inductive row_step :: "SubscriptionRow \<Rightarrow> SubscriptionRow \<Rightarrow> bool" where
  "\<lbrakk>transition (sub_Status r) st; sub_DeletedAt r = None\<rbrakk>
     \<Longrightarrow> row_step r (r\<lparr>sub_Status := st, sub_Version := v\<rparr>)"

text \<open>The fields of a row that no status change touches.\<close>

definition row_identity :: "SubscriptionRow \<Rightarrow> SubscriptionRow" where
  "row_identity r = r\<lparr>sub_Status := [], sub_Version := 0\<rparr>"

text \<open>A sequence of calls to the service, run one after another.\<close>

record status_call =
  sc_tenant :: string
  sc_actor :: string
  sc_sub :: string
  sc_target :: string

definition run_calls :: "'s sub_repo \<Rightarrow> 's \<Rightarrow> status_call list \<Rightarrow> 's" where
  "run_calls R s calls =
     foldl (\<lambda>s c. fst (ChangeStatus R s (sc_tenant c) (sc_actor c) (sc_sub c) (sc_target c))) s calls"

context subscription_repository
begin

lemma ChangeStatus_cases:
  assumes "inv s" "ChangeStatus R s t actor sid target = (s', res)"
  obtains
    (same) "inv s'" "rows s' = rows s" "\<And>c. res = Inr c \<Longrightarrow> \<not> chg_Changed c"
  | (moved) row v where "inv s'" "rows s sid = Some row" "sub_TenantID row = t"
      "sub_DeletedAt row = None" "transition (sub_Status row) target"
      "rows s' = (rows s)(sid \<mapsto> row\<lparr>sub_Status := target, sub_Version := v\<rparr>)"
      "res = Inr \<lparr>chg_ID = sid, chg_Status = target, chg_PreviousStatus = sub_Status row,
                  chg_Changed = True\<rparr>"
proof (cases "IsKnownStatus target")
  case False
  then show ?thesis
    using assms same by (auto simp: ChangeStatus_def)
next
  case known: True
  obtain s1 found where find: "repo_FindByIDAndTenant R s sid t = (s1, found)"
    by fastforce
  note frame = find_frame [OF assms(1) find]
  show ?thesis
  proof (cases found)
    case (Inl e)
    then show ?thesis
      using assms(2) frame same known find by (auto simp: ChangeStatus_def)
  next
    case (Inr row)
    have row: "rows s sid = Some row" "sub_TenantID row = t" "sub_ID row = sid"
      using find_ok [OF assms(1)] find Inr rows_keyed [OF assms(1)] by auto
    show ?thesis
    proof (cases "sub_DeletedAt row = None \<and> IsKnownStatus (sub_Status row)
                    \<and> transition (sub_Status row) target")
      case False
      then have "s' = s1 \<and> (\<forall>c. res = Inr c \<longrightarrow> \<not> chg_Changed c)"
        using assms(2) known find Inr
        by (auto simp: ChangeStatus_def transition_iff split: if_splits option.splits)
      then show ?thesis
        using frame same by blast
    next
      case True
      then have can: "sub_Status row \<noteq> target" "CanTransition (sub_Status row) target = None"
        by (auto simp: transition_iff)
      obtain s2 upd where update: "repo_UpdateStatus R s1 sid t target = (s2, upd)"
        by fastforce
      show ?thesis
      proof (cases upd)
        case (Some e)
        then have "s' = s2" "res = Inl (ErrRepo e)"
          using assms(2) known find Inr True can update by (auto simp: ChangeStatus_def)
        then show ?thesis
          using update_fail [of s1] frame update Some same by auto
      next
        case None
        then have s': "s' = s2" and res: "res = Inr \<lparr>chg_ID = sid, chg_Status = target,
            chg_PreviousStatus = sub_Status row, chg_Changed = True\<rparr>"
          using assms(2) known find Inr True can update row(3) by (auto simp: ChangeStatus_def)
        obtain row' v where upd: "inv s2" "rows s1 sid = Some row'"
            "rows s2 = (rows s1)(sid \<mapsto> row'\<lparr>sub_Status := target, sub_Version := v\<rparr>)"
          using update_ok [of s1] frame update None by blast
        then show ?thesis
          using moved [of row v] frame row True s' res by auto
      qed
    qed
  qed
qed

lemma ChangeStatus_inv: "inv s \<Longrightarrow> inv (fst (ChangeStatus R s t actor sid target))"
  by (metis ChangeStatus_cases prod.collapse)

lemma ChangeStatus_row:
  assumes "inv s" "rows s k = Some r"
  shows "\<exists>r'. rows (fst (ChangeStatus R s t actor sid target)) k = Some r' \<and>
           (r' = r \<or> k = sid \<and> sub_TenantID r = t \<and> row_step r r')"
proof -
  obtain s' res where call: "ChangeStatus R s t actor sid target = (s', res)"
    by fastforce
  with assms(1) show ?thesis
  proof (cases rule: ChangeStatus_cases)
    case same
    then show ?thesis using call assms(2) by auto
  next
    case (moved row v)
    then show ?thesis
      using call assms(2) row_step.intros [of row target v] by auto
  qed
qed

lemma ChangeStatus_absent:
  assumes "inv s" "rows s k = None"
  shows "rows (fst (ChangeStatus R s t actor sid target)) k = None"
proof -
  obtain s' res where call: "ChangeStatus R s t actor sid target = (s', res)"
    by fastforce
  then show ?thesis
    using assms(2) by (cases rule: ChangeStatus_cases [OF assms(1)]) auto
qed

lemma run_calls_inv: "inv s \<Longrightarrow> inv (run_calls R s cs)"
  by (induction cs arbitrary: s) (auto simp: run_calls_def ChangeStatus_inv)

lemma run_calls_row:
  assumes "inv s" "rows s k = Some r"
  shows "\<exists>r'. rows (run_calls R s cs) k = Some r' \<and> row_step\<^sup>*\<^sup>* r r'"
  using assms
proof (induction cs arbitrary: s r)
  case (Cons c cs)
  obtain r1 where r1: "rows (fst (ChangeStatus R s (sc_tenant c) (sc_actor c) (sc_sub c) (sc_target c))) k = Some r1"
      "row_step\<^sup>*\<^sup>* r r1"
    using ChangeStatus_row [OF Cons.prems, of "sc_tenant c" "sc_actor c" "sc_sub c" "sc_target c"] by blast
  show ?case
    using Cons.IH [OF ChangeStatus_inv [OF Cons.prems(1)] r1(1)] r1(2)
    by (auto simp: run_calls_def)
qed (simp add: run_calls_def)

lemma run_calls_other_tenant:
  assumes "inv s" "rows s k = Some r" "list_all (\<lambda>c. sc_tenant c \<noteq> sub_TenantID r) cs"
  shows "rows (run_calls R s cs) k = Some r"
  using assms
proof (induction cs arbitrary: s)
  case (Cons c cs)
  have "rows (fst (ChangeStatus R s (sc_tenant c) (sc_actor c) (sc_sub c) (sc_target c))) k = Some r"
    using ChangeStatus_row [OF Cons.prems(1,2), of "sc_tenant c" "sc_actor c" "sc_sub c" "sc_target c"]
      Cons.prems(3) by auto
  then show ?case
    using Cons.IH [OF ChangeStatus_inv [OF Cons.prems(1)]] Cons.prems(3) by (simp add: run_calls_def)
qed (simp add: run_calls_def)

end

lemma row_steps_transitions:
  "row_step\<^sup>*\<^sup>* r r' \<Longrightarrow>
     transition\<^sup>*\<^sup>* (sub_Status r) (sub_Status r') \<and> row_identity r' = row_identity r"
proof (induction rule: rtranclp_induct)
  case (step r1 r2)
  then show ?case
    by (auto elim!: row_step.cases simp: row_identity_def intro: rtranclp.rtrancl_into_rtrancl)
qed simp

section \<open>What one tenant can see of the PostgreSQL table\<close>

definition tenant_view :: "string \<Rightarrow> pg_db \<Rightarrow> string \<Rightarrow> SubscriptionRow option" where
  "tenant_view t db i =
     (case by_id (pg_rows db) i of
        None \<Rightarrow> None | Some r \<Rightarrow> if sub_TenantID r = t then Some r else None)"

lemma pg_find_view:
  assumes "pg_inv db"
  shows "pg_FindByIDAndTenant db sid t =
           (snd (pg_next_fault db),
            case fst (pg_next_fault db) of
              Some e \<Rightarrow> Inl (RepoDriver e)
            | None \<Rightarrow> (case tenant_view t db sid of None \<Rightarrow> Inl RepoNotFound | Some r \<Rightarrow> Inr r))"
proof -
  obtain f db1 where f: "pg_next_fault db = (f, db1)"
    by fastforce
  show ?thesis
    using assms f pg_next_fault_rows [OF f]
    by (cases f; cases "by_id (pg_rows db) sid")
       (simp_all add: pg_FindByIDAndTenant_def pg_select_one_def pg_inv_def find_by_id_and tenant_view_def)
qed

lemma view_filter_empty:
  assumes "pg_inv db"
  shows "filter (\<lambda>r. sub_ID r = sid \<and> sub_TenantID r = t) (pg_rows db) = [] \<longleftrightarrow> tenant_view t db sid = None"
proof -
  have "tenant_view t db sid = find (\<lambda>r. sub_ID r = sid \<and> sub_TenantID r = t) (pg_rows db)"
    using assms by (simp add: tenant_view_def pg_inv_def find_by_id_and)
  then show ?thesis
    by (auto simp: find_None_iff filter_empty_conv)
qed

lemma view_update:
  assumes "pg_inv db"
    and "pg_rows db' = map (\<lambda>r. if sub_ID r = sid \<and> sub_TenantID r = t
                               then r\<lparr>sub_Status := st, sub_Version := sub_Version r + 1\<rparr> else r) (pg_rows db)"
  shows "tenant_view t' db' i =
           (if t' = t \<and> i = sid
            then map_option (\<lambda>r. r\<lparr>sub_Status := st, sub_Version := sub_Version r + 1\<rparr>) (tenant_view t db sid)
            else tenant_view t' db i)"
proof -
  have "by_id (pg_rows db') i =
          map_option (\<lambda>r. if sub_ID r = sid \<and> sub_TenantID r = t
                         then r\<lparr>sub_Status := st, sub_Version := sub_Version r + 1\<rparr> else r) (by_id (pg_rows db) i)"
    unfolding assms(2) by (rule by_id_update) simp
  then show ?thesis
    using by_id_keyed [of "pg_rows db" i] by (cases "by_id (pg_rows db) i") (auto simp: tenant_view_def)
qed

lemma pg_update_view:
  assumes "pg_inv db" "pg_UpdateStatus db sid t st = (db', res)"
  shows "res = (case fst (pg_next_fault db) of
                  Some e \<Rightarrow> Some (RepoDriver e)
                | None \<Rightarrow> if tenant_view t db sid = None then Some RepoNotFound else None)"
    and "pg_faults db' = pg_faults (snd (pg_next_fault db))"
    and "tenant_view t' db' i =
           (if res = None \<and> t' = t \<and> i = sid
            then map_option (\<lambda>r. r\<lparr>sub_Status := st, sub_Version := sub_Version r + 1\<rparr>) (tenant_view t db sid)
            else tenant_view t' db i)"
proof -
  obtain f db1 where f: "pg_next_fault db = (f, db1)"
    by fastforce
  note rows1 = pg_next_fault_rows [OF f]
  show r: "res = (case fst (pg_next_fault db) of
                  Some e \<Rightarrow> Some (RepoDriver e)
                | None \<Rightarrow> if tenant_view t db sid = None then Some RepoNotFound else None)"
    and "pg_faults db' = pg_faults (snd (pg_next_fault db))"
    using assms(2) f rows1 view_filter_empty [OF assms(1), of sid t]
    by (cases f; auto simp: pg_UpdateStatus_def pg_update_def)+
  show "tenant_view t' db' i =
           (if res = None \<and> t' = t \<and> i = sid
            then map_option (\<lambda>r. r\<lparr>sub_Status := st, sub_Version := sub_Version r + 1\<rparr>) (tenant_view t db sid)
            else tenant_view t' db i)"
    using pg_UpdateStatus_cases [OF assms(2)]
  proof (elim disjE exE conjE)
    fix e
    assume "res = Some (RepoDriver e)" "pg_rows db' = pg_rows db"
    then show ?thesis
      by (simp add: tenant_view_def)
  next
    assume res: "res = (if filter (\<lambda>r. sub_ID r = sid \<and> sub_TenantID r = t) (pg_rows db) = []
                then Some RepoNotFound else None)"
      and rows: "pg_rows db' = map (\<lambda>r. if sub_ID r = sid \<and> sub_TenantID r = t
                   then r\<lparr>sub_Status := st, sub_Version := sub_Version r + 1\<rparr> else r) (pg_rows db)"
    show ?thesis
      using res by (simp add: view_update [OF assms(1) rows] view_filter_empty [OF assms(1)])
  qed
qed

text \<open>
  The contract of one \<^verbatim>\<open>ChangeStatus\<close> call, on the one row it may see and the driver
  errors ahead: what it answers and what becomes of the row.
\<close>

definition next_fault :: "string option list \<Rightarrow> string option" where
  "next_fault fs = (case fs of [] \<Rightarrow> None | f # _ \<Rightarrow> f)"

definition change_status_spec ::
  "string option list \<Rightarrow> SubscriptionRow option \<Rightarrow> string \<Rightarrow>
   SubscriptionRow option \<times> (service_error, SubscriptionStatusChange) result" where
  "change_status_spec fs v target =
     (if \<not> IsKnownStatus target then (v, Inl (ErrInvalidStatus target))
      else case next_fault fs of
        Some e \<Rightarrow> (v, Inl (ErrRepo (RepoDriver e)))
      | None \<Rightarrow>
         (case v of
            None \<Rightarrow> (v, Inl ErrNotFound)
          | Some row \<Rightarrow>
              let change = \<lparr>chg_ID = sub_ID row, chg_Status = target,
                            chg_PreviousStatus = sub_Status row,
                            chg_Changed = (sub_Status row \<noteq> target)\<rparr>
              in if sub_DeletedAt row \<noteq> None then (v, Inl ErrDeleted)
              else if \<not> IsKnownStatus (sub_Status row)
              then (v, Inl (ErrUnknownCurrentState (sub_Status row)))
              else if sub_Status row = target then (v, Inr change)
              else if \<not> transition (sub_Status row) target
              then (v, Inl (ErrInvalidTransition (InvalidTransition (sub_Status row) target)))
              else case next_fault (tl fs) of
                Some e \<Rightarrow> (v, Inl (ErrRepo (RepoDriver e)))
              | None \<Rightarrow> (Some (row\<lparr>sub_Status := target, sub_Version := sub_Version row + 1\<rparr>),
                         Inr change)))"

lemma pg_next_fault_spec:
  "fst (pg_next_fault db) = next_fault (pg_faults db)"
  "pg_faults (snd (pg_next_fault db)) = tl (pg_faults db)"
  "pg_rows (snd (pg_next_fault db)) = pg_rows db"
  by (simp_all add: pg_next_fault_def next_fault_def split: list.splits)

lemma tenant_view_next_fault [simp]: "tenant_view t (snd (pg_next_fault db)) = tenant_view t db"
  by (simp add: tenant_view_def pg_next_fault_spec fun_eq_iff)

lemma pg_inv_next_fault [simp]: "pg_inv (snd (pg_next_fault db)) = pg_inv db"
  by (simp add: pg_inv_def pg_next_fault_spec)

lemma CanTransition_known:
  "\<lbrakk>IsKnownStatus from; from \<noteq> to\<rbrakk> \<Longrightarrow>
     CanTransition from to = (if transition from to then None else Some (InvalidTransition from to))"
  by (auto simp: CanTransition_def transition_iff known_iff_table split: option.splits)

lemma ChangeStatus_spec:
  assumes "pg_inv db" "ChangeStatus PostgresSubscriptionRepo db t actor sid target = (db', res)"
  shows "res = snd (change_status_spec (pg_faults db) (tenant_view t db sid) target) \<and>
         tenant_view t' db' i =
           (if t' = t \<and> i = sid
            then fst (change_status_spec (pg_faults db) (tenant_view t db sid) target)
            else tenant_view t' db i)"
proof -
  have ops: "repo_FindByIDAndTenant PostgresSubscriptionRepo = pg_FindByIDAndTenant"
      "repo_UpdateStatus PostgresSubscriptionRepo = pg_UpdateStatus"
    by (simp_all add: PostgresSubscriptionRepo_def)
  note call = assms(2) [unfolded ChangeStatus_def ops pg_find_view [OF assms(1)] prod.case]
  let ?db1 = "snd (pg_next_fault db)"
  show ?thesis
  proof (cases "\<not> IsKnownStatus target \<or> next_fault (pg_faults db) \<noteq> None \<or> tenant_view t db sid = None")
    case True
    then show ?thesis
      using call
      by (cases "IsKnownStatus target"; cases "next_fault (pg_faults db)"; cases "tenant_view t db sid")
         (auto simp: change_status_spec_def pg_next_fault_spec service_repo_error_def)
  next
    case False
    then obtain row where row: "tenant_view t db sid = Some row"
      and known: "IsKnownStatus target" and fault: "next_fault (pg_faults db) = None"
      by auto
    show ?thesis
    proof (cases "sub_DeletedAt row = None \<and> IsKnownStatus (sub_Status row)
                    \<and> sub_Status row \<noteq> target \<and> transition (sub_Status row) target")
      case False
      then show ?thesis
        using call row known fault
        by (auto simp: change_status_spec_def pg_next_fault_spec CanTransition_known Let_def split: if_splits)
    next
      case True
      obtain db2 upd where update: "pg_UpdateStatus ?db1 sid t target = (db2, upd)"
        by fastforce
      note view = pg_update_view [OF _ update, unfolded pg_inv_next_fault, OF assms(1)]
      show ?thesis
        using call row known fault True update view(1) view(3) [of t' i]
        by (cases "next_fault (tl (pg_faults db))")
           (auto simp: change_status_spec_def pg_next_fault_spec CanTransition_known Let_def)
    qed
  qed
qed

section \<open>The loader answers like a direct lookup\<close>

lemma rowMap_find:
  "distinct (map key rs) \<Longrightarrow> rowMap key rs i = find (\<lambda>r. key r = i) rs"
proof -
  have "foldl (\<lambda>m r. m(key r \<mapsto> r)) m rs i = (case find (\<lambda>r. key r = i) rs of None \<Rightarrow> m i | Some r \<Rightarrow> Some r)"
    if "distinct (map key rs)" for m
    using that
  proof (induction rs arbitrary: m)
    case (Cons a rs)
    have "key a = i \<Longrightarrow> find (\<lambda>r. key r = i) rs = None"
      using Cons.prems by (auto intro: find_fresh_key)
    then show ?case
      using Cons by (cases "key a = i") simp_all
  qed simp
  then show "distinct (map key rs) \<Longrightarrow> ?thesis"
    by (simp add: rowMap_def split: option.splits)
qed

lemma dispatch_result_filter:
  assumes "distinct (map key rs)"
  shows "dispatch_result key (Inr (filter (\<lambda>r. key r \<in> set (i # others) \<and> Q r) rs)) i =
           (case find (\<lambda>r. key r = i \<and> Q r) rs of Some r \<Rightarrow> Inr r | None \<Rightarrow> Inl RepoNotFound)"
proof -
  have "(\<lambda>r. (key r = i \<or> key r \<in> set others) \<and> Q r \<and> key r = i) = (\<lambda>r. key r = i \<and> Q r)"
    by auto
  then show ?thesis
    using assms by (simp add: dispatch_result_def rowMap_find distinct_map_filter find_filter conj_ac)
qed

lemma LoadSubscription_direct:
  assumes "pg_inv db" "lc_ctxErr lc = None" "i \<noteq> []" "t \<noteq> []"
  shows "LoadSubscription PostgresSubscriptionRepo lc db t i = pg_FindByIDAndTenant db i t"
proof -
  obtain f db1 where f: "pg_next_fault db = (f, db1)"
    by fastforce
  then have "pg_inv db1"
    using assms(1) by (simp add: pg_inv_def pg_next_fault_rows)
  then show ?thesis
    using assms f dispatch_result_filter [of sub_ID "pg_rows db1" i "lc_others lc" "\<lambda>r. sub_TenantID r = t"]
    by (cases f)
       (auto simp: LoadSubscription_def PostgresSubscriptionRepo_def pg_FindByIDsAndTenant_def
         pg_select_many_def pg_FindByIDAndTenant_def pg_select_one_def dispatch_result_def pg_inv_def
         split: option.splits)
qed

lemma LoadSubscription_no_tenant:
  assumes "pg_inv db" "pg_faults db = []" "by_id (pg_rows db) i = Some r" "i \<noteq> []"
    and "lc_ctxErr lc = None"
  shows "LoadSubscription PostgresSubscriptionRepo lc db [] i = (db, Inr r)"
  using assms dispatch_result_filter [of sub_ID "pg_rows db" i "lc_others lc" "\<lambda>_. True"]
  by (simp add: LoadSubscription_def PostgresSubscriptionRepo_def pg_FindByIDsAndTenant_def
      pg_select_many_def pg_next_fault_def pg_inv_def by_id_def)

definition plans_of_tenant :: "string \<Rightarrow> (string \<times> PlanRow) list \<Rightarrow> bool" where
  "plans_of_tenant t plans =
     (distinct (map fst plans) \<and> list_all (\<lambda>(k, p). k \<noteq> [] \<and> plan_ID p = k \<and> plan_TenantID p = t) plans)"

lemma LoadPlan_direct:
  assumes "plans_of_tenant t plans" "lc_ctxErr lc = None"
  shows "LoadPlan (MockPlanRepo plans) lc t pid = plans_FindByID (MockPlanRepo plans) pid"
proof -
  have keys: "map plan_ID (map snd plans) = map fst plans"
    using assms(1) by (auto simp: plans_of_tenant_def list_all_iff)
  have all_t: "\<forall>p\<in>set (map snd plans). plan_TenantID p = t"
    using assms(1) by (auto simp: plans_of_tenant_def list_all_iff)
  have find: "find (\<lambda>p. plan_ID p = pid) (map snd plans) = map_of plans pid"
    using assms(1) unfolding plans_of_tenant_def list_all_iff by (induction plans) auto
  have same: "filter (\<lambda>p. P p \<and> plan_TenantID p = t) (map snd plans) = filter P (map snd plans)" for P
    using all_t by (intro filter_cong) auto
  have "map_of plans [] = None"
    using assms(1) by (auto simp: plans_of_tenant_def list_all_iff map_of_eq_None_iff)
  moreover have "distinct (map plan_ID (map snd plans))"
    using assms(1) unfolding keys by (simp add: plans_of_tenant_def)
  note dispatch_result_filter [OF this, of pid "lc_others lc" "\<lambda>_. True"]
  ultimately show ?thesis
    using assms(2) find
    by (auto simp: LoadPlan_def MockPlanRepo_def same simp del: filter_map map_map split: option.splits)
qed

section \<open>Overlapping calls\<close>

text \<open>
  \<^verbatim>\<open>ChangeStatus\<close> reads and checks the row in one statement and writes it in another; no
  transaction or lock spans the two.  Its two halves, and the steps of a set of
  calls whose halves interleave.
\<close>

datatype change_phase =
    Answered "(service_error, SubscriptionStatusChange) result"
  | Checked string string

definition change_status_check ::
  "'s sub_repo \<Rightarrow> 's \<Rightarrow> status_call \<Rightarrow> 's \<times> change_phase" where
  "change_status_check R s c =
     (if \<not> IsKnownStatus (sc_target c) then (s, Answered (Inl (ErrInvalidStatus (sc_target c))))
      else case repo_FindByIDAndTenant R s (sc_sub c) (sc_tenant c) of
        (s1, Inl e) \<Rightarrow> (s1, Answered (Inl (service_repo_error e)))
      | (s1, Inr row) \<Rightarrow>
          (s1, if sub_DeletedAt row \<noteq> None then Answered (Inl ErrDeleted)
               else if \<not> IsKnownStatus (sub_Status row)
               then Answered (Inl (ErrUnknownCurrentState (sub_Status row)))
               else if sub_Status row = sc_target c
               then Answered (Inr \<lparr>chg_ID = sub_ID row, chg_Status = sub_Status row,
                                   chg_PreviousStatus = sub_Status row, chg_Changed = False\<rparr>)
               else case CanTransition (sub_Status row) (sc_target c) of
                 Some err \<Rightarrow> Answered (Inl (ErrInvalidTransition err))
               | None \<Rightarrow> Checked (sub_ID row) (sub_Status row)))"

definition change_status_write ::
  "'s sub_repo \<Rightarrow> 's \<Rightarrow> status_call \<Rightarrow> string \<Rightarrow> string \<Rightarrow>
   's \<times> (service_error, SubscriptionStatusChange) result" where
  "change_status_write R s c rowID previousStatus =
     (case repo_UpdateStatus R s (sc_sub c) (sc_tenant c) (sc_target c) of
        (s2, Some e) \<Rightarrow> (s2, Inl (ErrRepo e))
      | (s2, None) \<Rightarrow> (s2, Inr \<lparr>chg_ID = rowID, chg_Status = sc_target c,
                               chg_PreviousStatus = previousStatus, chg_Changed = True\<rparr>))"

lemma ChangeStatus_two_halves:
  "ChangeStatus R s (sc_tenant c) (sc_actor c) (sc_sub c) (sc_target c) =
     (case change_status_check R s c of
        (s1, Answered res) \<Rightarrow> (s1, res)
      | (s1, Checked i prev) \<Rightarrow> change_status_write R s1 c i prev)"
  by (auto simp: ChangeStatus_def change_status_check_def change_status_write_def
      split: prod.splits sum.splits option.splits)

text \<open>A call that has not started is \<^verbatim>\<open>None\<close>.\<close>

inductive overlap_step ::
  "'s sub_repo \<Rightarrow> 's \<times> (status_call \<times> change_phase option) list \<Rightarrow>
   's \<times> (status_call \<times> change_phase option) list \<Rightarrow> bool" for R where
  run_check: "\<lbrakk>i < length cs; cs ! i = (c, None); change_status_check R s c = (s', ph)\<rbrakk>
     \<Longrightarrow> overlap_step R (s, cs) (s', cs[i := (c, Some ph)])"
| run_write: "\<lbrakk>i < length cs; cs ! i = (c, Some (Checked rowID prev));
           change_status_write R s c rowID prev = (s', res)\<rbrakk>
     \<Longrightarrow> overlap_step R (s, cs) (s', cs[i := (c, Some (Answered res))])"

definition succeeded :: "change_phase option \<Rightarrow> bool" where
  "succeeded ph = (case ph of Some (Answered (Inr c)) \<Rightarrow> chg_Changed c | _ \<Rightarrow> False)"

lemma pg_find_hit:
  assumes "pg_inv db" "pg_faults db = []" "by_id (pg_rows db) i = Some r" "sub_TenantID r = t"
  shows "repo_FindByIDAndTenant PostgresSubscriptionRepo db i t = (db, Inr r)"
  using assms pg_find_view [OF assms(1), of i t]
  by (simp add: PostgresSubscriptionRepo_def pg_next_fault_def tenant_view_def)

lemma pg_update_hit:
  assumes "pg_inv db" "pg_faults db = []" "by_id (pg_rows db) i = Some r" "sub_TenantID r = t"
  shows "\<exists>db'. repo_UpdateStatus PostgresSubscriptionRepo db i t st = (db', None) \<and> pg_inv db'
           \<and> pg_faults db' = []
           \<and> by_id (pg_rows db') i = Some (r\<lparr>sub_Status := st, sub_Version := sub_Version r + 1\<rparr>)"
proof -
  obtain db' res where call: "pg_UpdateStatus db i t st = (db', res)"
    by fastforce
  note view = pg_update_view [OF assms(1) call]
  have res: "res = None"
    using assms view(1) by (simp add: pg_next_fault_def tenant_view_def)
  have "tenant_view t db' i = Some (r\<lparr>sub_Status := st, sub_Version := sub_Version r + 1\<rparr>)"
    using assms res view(3) [of t i] by (simp add: tenant_view_def)
  then have "by_id (pg_rows db') i = Some (r\<lparr>sub_Status := st, sub_Version := sub_Version r + 1\<rparr>)"
    by (auto simp: tenant_view_def split: option.splits if_splits)
  moreover have "pg_inv db'"
    using pg.update_ok [OF assms(1)] call res by (simp add: PostgresSubscriptionRepo_def)
  moreover have "pg_faults db' = []"
    using view(2) assms(2) by (simp add: pg_next_fault_spec)
  ultimately show ?thesis
    using call res by (simp add: PostgresSubscriptionRepo_def)
qed

section \<open>Properties on the PostgreSQL repository\<close>

text \<open>A sample table: an active subscription of tenant t1, and one of tenant t2.\<close>

definition sample_row :: SubscriptionRow where
  "sample_row =
     \<lparr>sub_ID = ''s1'', sub_PlanID = ''p1'', sub_TenantID = ''t1'', sub_CustomerID = ''c1'',
      sub_Status = ''active'', sub_Amount = ''1999'', sub_Currency = ''usd'', sub_Interval = ''month'',
      sub_NextBilling = [], sub_UpdatedAt = 0, sub_Version = 1, sub_DeletedAt = None\<rparr>"

definition sample_db :: pg_db where
  "sample_db = \<lparr>pg_rows = [sample_row], pg_faults = []\<rparr>"

definition sample_db2 :: pg_db where
  "sample_db2 =
     \<lparr>pg_rows = [sample_row\<lparr>sub_ID := ''s2'', sub_TenantID := ''t2''\<rparr>, sample_row], pg_faults = []\<rparr>"

definition sample_plans :: "(string \<times> PlanRow) list" where
  "sample_plans = [(''p1'',
     \<lparr>plan_ID = ''p1'', plan_TenantID = ''t1'', plan_Name = ''basic'', plan_Amount = ''1999'',
      plan_Currency = ''usd'', plan_Interval = ''month'', plan_Description = [],
      plan_UpdatedAt = 0, plan_Version = 1\<rparr>)]"

lemma sample_facts:
  "pg_inv sample_db" "pg_faults sample_db = []" "by_id (pg_rows sample_db) ''s1'' = Some sample_row"
  "pg_inv sample_db2" "pg_faults sample_db2 = []" "plans_of_tenant ''t1'' sample_plans"
  "tenant_view ''t1'' sample_db i = tenant_view ''t1'' sample_db2 i"
  by (auto simp: sample_db_def sample_db2_def sample_row_def sample_plans_def pg_inv_def by_id_def
      plans_of_tenant_def tenant_view_def)



text \<open>
  C4: Tenants do not interfere.  The answer of a \<^verbatim>\<open>ChangeStatus\<close> call depends only on the
  calling tenant's own rows (a row of another tenant is answered exactly like a
  missing one), and the call leaves what every other tenant sees unchanged.
\<close>

theorem change_status_tenant_isolation:
  assumes "pg_inv db1" "pg_inv db2" "pg_faults db1 = pg_faults db2"
    and "\<And>i. tenant_view t db1 i = tenant_view t db2 i"
    and "ChangeStatus PostgresSubscriptionRepo db1 t actor sid target = (db1', res1)"
    and "ChangeStatus PostgresSubscriptionRepo db2 t actor sid target = (db2', res2)"
  shows "res1 = res2 \<and> tenant_view t db1' = tenant_view t db2' \<and>
         (\<forall>t'. t' \<noteq> t \<longrightarrow> tenant_view t' db1' = tenant_view t' db1)"
  using ChangeStatus_spec [OF assms(1,5)] ChangeStatus_spec [OF assms(2,6)] assms(3,4)
  by (auto simp: fun_eq_iff)

lemma change_status_tenant_isolation_witness:
  "snd (ChangeStatus PostgresSubscriptionRepo sample_db ''t1'' ''u'' ''s2'' ''paused'') =
   snd (ChangeStatus PostgresSubscriptionRepo sample_db2 ''t1'' ''u'' ''s2'' ''paused'')"
  using change_status_tenant_isolation [OF sample_facts(1,4) _ sample_facts(7) prod.collapse [symmetric]
      prod.collapse [symmetric], of "''u''" "''s2''" "''paused''"]
  by (simp add: sample_facts)

definition http_code :: "'a http_response \<Rightarrow> nat" where
  "http_code r = (case r of Problem c _ _ \<Rightarrow> c | OK _ \<Rightarrow> 200)"



text \<open>
  C28: Two overlapping calls break the state machine.  When one call cancels an active
  subscription while another pauses it, both may pass their check before either
  writes: the subscription is then stored as cancelled and afterwards as paused,
  and both calls report a successful change.
\<close>

theorem overlapping_changes_leave_cancelled:
  assumes "pg_inv db" "pg_faults db = []" "by_id (pg_rows db) sid = Some r"
    and "sub_TenantID r = t" "sub_Status r = StatusActive" "sub_DeletedAt r = None"
  shows "\<exists>db1 db2 cs1 cs2 r1 r2.
           (overlap_step PostgresSubscriptionRepo)\<^sup>*\<^sup>*
             (db, [(\<lparr>sc_tenant = t, sc_actor = a1, sc_sub = sid, sc_target = StatusPaused\<rparr>, None),
                   (\<lparr>sc_tenant = t, sc_actor = a2, sc_sub = sid, sc_target = StatusCancelled\<rparr>, None)])
             (db1, cs1)
           \<and> by_id (pg_rows db1) sid = Some r1 \<and> sub_Status r1 = StatusCancelled
           \<and> (overlap_step PostgresSubscriptionRepo)\<^sup>*\<^sup>* (db1, cs1) (db2, cs2)
           \<and> by_id (pg_rows db2) sid = Some r2 \<and> sub_Status r2 = StatusPaused
           \<and> list_all (\<lambda>(c, ph). succeeded ph) cs2"
proof -
  let ?R = PostgresSubscriptionRepo
  define p where "p = \<lparr>sc_tenant = t, sc_actor = a1, sc_sub = sid, sc_target = StatusPaused\<rparr>"
  define c where "c = \<lparr>sc_tenant = t, sc_actor = a2, sc_sub = sid, sc_target = StatusCancelled\<rparr>"
  define cs where "cs = [(p, None :: change_phase option), (c, None)]"
  have rid: "sub_ID r = sid"
    using assms(3) by (rule by_id_keyed)
  have known: "IsKnownStatus StatusPaused" "IsKnownStatus StatusCancelled" "IsKnownStatus StatusActive"
    by (simp_all add: status_simps)
  have can: "CanTransition StatusActive StatusPaused = None" "CanTransition StatusActive StatusCancelled = None"
      "StatusActive \<noteq> StatusPaused" "StatusActive \<noteq> StatusCancelled"
    by (simp_all add: CanTransition_def allowedTransitions_def status_defs)
  have chk: "change_status_check ?R db p = (db, Checked sid StatusActive)"
       "change_status_check ?R db c = (db, Checked sid StatusActive)"
    using assms(5,6) rid known can pg_find_hit [OF assms(1-4)]
    by (simp_all add: change_status_check_def p_def c_def)
  obtain db1 where db1: "repo_UpdateStatus ?R db sid t StatusCancelled = (db1, None)" "pg_inv db1"
      "pg_faults db1 = []"
      "by_id (pg_rows db1) sid = Some (r\<lparr>sub_Status := StatusCancelled, sub_Version := sub_Version r + 1\<rparr>)"
    using pg_update_hit [OF assms(1-4)] by blast
  obtain db2 r2 where db2: "repo_UpdateStatus ?R db1 sid t StatusPaused = (db2, None)"
      "by_id (pg_rows db2) sid = Some r2" "sub_Status r2 = StatusPaused"
    using pg_update_hit [OF db1(2-4), of t StatusPaused] assms(4) by auto
  define fin where "fin st = Some (Answered (Inr \<lparr>chg_ID = sid, chg_Status = st,
      chg_PreviousStatus = StatusActive, chg_Changed = True\<rparr>))" for st
  let ?k = "Some (Checked sid StatusActive)"
  have s1: "overlap_step ?R (db, cs) (db, [(p, ?k), (c, None)])"
    using overlap_step.run_check [of 0 cs p ?R db] chk by (simp add: cs_def)
  have s2: "overlap_step ?R (db, [(p, ?k), (c, None)]) (db, [(p, ?k), (c, ?k)])"
    using overlap_step.run_check [of 1 "[(p, ?k), (c, None)]" c ?R db] chk by simp
  have s3: "overlap_step ?R (db, [(p, ?k), (c, ?k)]) (db1, [(p, ?k), (c, fin StatusCancelled)])"
    using overlap_step.run_write [of 1 "[(p, ?k), (c, ?k)]" c _ _ ?R db] db1(1)
    by (simp add: change_status_write_def c_def fin_def)
  have s4: "overlap_step ?R (db1, [(p, ?k), (c, fin StatusCancelled)])
      (db2, [(p, fin StatusPaused), (c, fin StatusCancelled)])"
    using overlap_step.run_write [of 0 "[(p, ?k), (c, fin StatusCancelled)]" p _ _ ?R db1] db2(1)
    by (simp add: change_status_write_def p_def fin_def)
  have "(overlap_step ?R)\<^sup>*\<^sup>* (db, cs) (db1, [(p, ?k), (c, fin StatusCancelled)])"
    using s1 s2 s3 by (meson converse_rtranclp_into_rtranclp rtranclp.rtrancl_refl)
  moreover have "list_all (\<lambda>(c, ph). succeeded ph) [(p, fin StatusPaused), (c, fin StatusCancelled)]"
    by (simp add: succeeded_def fin_def)
  ultimately show ?thesis
    using s4 db1(4) db2(2,3) unfolding cs_def p_def [symmetric] c_def [symmetric]
    by (intro exI [of _ db1] exI [of _ db2] exI conjI) (auto intro: r_into_rtranclp)
qed

lemma overlapping_changes_leave_cancelled_witness:
  "\<exists>db2 cs2 r2. (overlap_step PostgresSubscriptionRepo)\<^sup>*\<^sup>*
     (sample_db, [(\<lparr>sc_tenant = ''t1'', sc_actor = ''u'', sc_sub = ''s1'', sc_target = StatusPaused\<rparr>, None),
                  (\<lparr>sc_tenant = ''t1'', sc_actor = ''v'', sc_sub = ''s1'', sc_target = StatusCancelled\<rparr>, None)])
     (db2, cs2) \<and> by_id (pg_rows db2) ''s1'' = Some r2 \<and> sub_Status r2 = StatusPaused"
  using overlapping_changes_leave_cancelled [OF sample_facts(1-3), of "''t1''" "''u''" "''v''"]
  by (auto simp: sample_row_def StatusActive_def intro: rtranclp_trans)



text \<open>
  A request without a tenant (the handler passes the empty string on) is not
  confined by the loader: the batch query drops its tenant condition, so the caller
  is answered with a subscription of any tenant that names the caller as customer.
  The direct lookup answers the same request with \<^verbatim>\<open>ErrNotFound\<close>.
\<close>

theorem loader_without_tenant_crosses_tenants:
  assumes "pg_inv db" "pg_faults db = []" "by_id (pg_rows db) sid = Some r" "sid \<noteq> []"
    and "sub_TenantID r \<noteq> []" "sub_DeletedAt r = None" "ParseInt64 (sub_Amount r) = Some cents"
    and "lc_ctxErr subCall = None" "lc_ctxErr planCall = None"
  shows "http_code (snd (NewGetSubscriptionHandler
           (Some (GetDetail PostgresSubscriptionRepo (MockPlanRepo plans) norm (Some (subCall, planCall))))
           db None (Some (sub_CustomerID r)) sid)) = 200
         \<and> http_code (snd (NewGetSubscriptionHandler
           (Some (GetDetail PostgresSubscriptionRepo (MockPlanRepo plans) norm None))
           db None (Some (sub_CustomerID r)) sid)) = 404"
proof -
  have sub: "LoadSubscription PostgresSubscriptionRepo subCall db [] sid = (db, Inr r)"
    by (rule LoadSubscription_no_tenant [OF assms(1-4,8)])
  have direct: "repo_FindByIDAndTenant PostgresSubscriptionRepo db sid [] = (db, Inl RepoNotFound)"
    using assms(2,3,5) pg_find_view [OF assms(1), of sid "[]"]
    by (simp add: PostgresSubscriptionRepo_def pg_next_fault_def tenant_view_def)
  have plan: "LoadPlan (MockPlanRepo plans) planCall [] (sub_PlanID r) = Inl RepoNotFound
      \<or> (\<exists>p. LoadPlan (MockPlanRepo plans) planCall [] (sub_PlanID r) = Inr p)"
    using assms(9)
    by (auto simp: LoadPlan_def MockPlanRepo_def dispatch_result_def split: option.splits)
  show ?thesis
    using plan sub direct assms(6,7)
    by (elim disjE exE) (simp_all add: NewGetSubscriptionHandler_def GetDetail_def http_code_def
        build_detail_def service_repo_error_def)
qed

lemma loader_without_tenant_crosses_tenants_witness:
  "http_code (snd (NewGetSubscriptionHandler
     (Some (GetDetail PostgresSubscriptionRepo (MockPlanRepo []) Some
        (Some (\<lparr>lc_others = [], lc_ctxErr = None\<rparr>, \<lparr>lc_others = [], lc_ctxErr = None\<rparr>))))
     sample_db None (Some (sub_CustomerID sample_row)) ''s1'')) = 200"
proof -
  have "ParseInt64 (sub_Amount sample_row) = Some 1999"
    by (simp add: sample_row_def ParseInt64_def parse_digits_def digits_value_def digit_val_def
        is_digit_def char_nat_def)
  then show ?thesis
    using loader_without_tenant_crosses_tenants [OF sample_facts(1-3), of 1999]
    by (simp add: sample_row_def)
qed

end
