(* ===== verification/Statements.thy ===== *)
theory Statements
  imports Subscription_Repo Subscription_Service
begin

text \<open>
  Billing statements: the row of \<^verbatim>\<open>internal/repository/models.go\<close>, the in-memory statement
  repository of \<^verbatim>\<open>mock.go\<close> and the read side of
  \<^verbatim>\<open>internal/service/statement_service.go\<close> with its role checks.
\<close>

section \<open>Rows and repository\<close>

record StatementRow =
  stmt_ID :: string
  stmt_TenantID :: string
  stmt_SubscriptionID :: string
  stmt_CustomerID :: string
  stmt_PeriodStart :: string
  stmt_PeriodEnd :: string
  stmt_IssuedAt :: string
  stmt_TotalAmount :: string
  stmt_Currency :: string
  stmt_Kind :: string
  stmt_Status :: string
  stmt_DeletedAt :: "time option"

record StatementQuery =
  q_SubscriptionID :: string
  q_Kind :: string
  q_Status :: string
  q_StartAfter :: string
  q_EndBefore :: string
  q_Limit :: int

record MockStatementRepo =
  sm_records :: "(string \<times> StatementRow) list"
  sm_listErr :: "repo_error option"
  sm_findErr :: "repo_error option"
  sm_createErr :: "repo_error option"

definition stmt_FindByID :: "MockStatementRepo \<Rightarrow> string \<Rightarrow> (repo_error, StatementRow) result" where
  "stmt_FindByID m i =
     (case sm_findErr m of
        Some e \<Rightarrow> Inl e
      | None \<Rightarrow> (case map_of (sm_records m) i of None \<Rightarrow> Inl RepoNotFound | Some row \<Rightarrow> Inr row))"

definition stmt_matches :: "string \<Rightarrow> StatementQuery \<Rightarrow> StatementRow \<Rightarrow> bool" where
  "stmt_matches customerID q r =
     (\<not> (stmt_CustomerID r \<noteq> customerID)
      \<and> \<not> (q_SubscriptionID q \<noteq> [] \<and> stmt_SubscriptionID r \<noteq> q_SubscriptionID q)
      \<and> \<not> (q_Kind q \<noteq> [] \<and> stmt_Kind r \<noteq> q_Kind q)
      \<and> \<not> (q_Status q \<noteq> [] \<and> stmt_Status r \<noteq> q_Status q)
      \<and> \<not> (q_StartAfter q \<noteq> [] \<and> str_less (stmt_PeriodStart r) (q_StartAfter q))
      \<and> \<not> (q_EndBefore q \<noteq> [] \<and> str_less (q_EndBefore q) (stmt_PeriodEnd r)))"

definition stmt_ListByCustomerID ::
  "MockStatementRepo \<Rightarrow> string \<Rightarrow> StatementQuery \<Rightarrow> (repo_error, StatementRow list \<times> nat) result" where
  "stmt_ListByCustomerID m customerID q =
     (case sm_listErr m of
        Some e \<Rightarrow> Inl e
      | None \<Rightarrow>
          (let out = filter (stmt_matches customerID q) (map snd (sm_records m));
               limit = (if q_Limit q \<le> 0 then 10 else nat (q_Limit q))
           in Inr (if length out > limit then take limit out else out, length out)))"

definition stmt_Create :: "MockStatementRepo \<Rightarrow> StatementRow \<Rightarrow> MockStatementRepo \<times> repo_error option" where
  "stmt_Create m stmt =
     (case sm_createErr m of
        Some e \<Rightarrow> (m, Some e)
      | None \<Rightarrow> (m\<lparr>sm_records := AList.update (stmt_ID stmt) stmt (sm_records m)\<rparr>, None))"

definition stmt_UpdateArchivedData ::
  "MockStatementRepo \<Rightarrow> string \<Rightarrow> StatementRow \<Rightarrow> MockStatementRepo \<times> repo_error option" where
  "stmt_UpdateArchivedData m i stmt =
     (case map_of (sm_records m) i of
        Some _ \<Rightarrow> (m\<lparr>sm_records := AList.update i stmt (sm_records m)\<rparr>, None)
      | None \<Rightarrow> (m, Some RepoNotFound))"

section \<open>Statement service\<close>

record StatementDetail =
  sd_ID :: string
  sd_SubscriptionID :: string
  sd_Customer :: string
  sd_PeriodStart :: string
  sd_PeriodEnd :: string
  sd_IssuedAt :: string
  sd_TotalAmount :: string
  sd_Currency :: string
  sd_Kind :: string
  sd_Status :: string

definition normalizeRFC3339OrKeep :: "(string \<Rightarrow> string option) \<Rightarrow> string \<Rightarrow> string" where
  "normalizeRFC3339OrKeep normalizeUTC raw = (case normalizeUTC raw of None \<Rightarrow> raw | Some n \<Rightarrow> n)"

definition statement_detail :: "(string \<Rightarrow> string option) \<Rightarrow> StatementRow \<Rightarrow> StatementDetail" where
  "statement_detail norm row =
     \<lparr>sd_ID = stmt_ID row, sd_SubscriptionID = stmt_SubscriptionID row, sd_Customer = stmt_CustomerID row,
      sd_PeriodStart = normalizeRFC3339OrKeep norm (stmt_PeriodStart row),
      sd_PeriodEnd = normalizeRFC3339OrKeep norm (stmt_PeriodEnd row),
      sd_IssuedAt = normalizeRFC3339OrKeep norm (stmt_IssuedAt row),
      sd_TotalAmount = stmt_TotalAmount row, sd_Currency = stmt_Currency row,
      sd_Kind = stmt_Kind row, sd_Status = stmt_Status row\<rparr>"

text \<open>The loop over the caller's roles: (is admin, is merchant); it stops at the first admin.\<close>

fun scan_roles :: "string list \<Rightarrow> bool \<Rightarrow> bool \<times> bool" where
  "scan_roles [] isMerchant = (False, isMerchant)"
| "scan_roles (role # roles) isMerchant =
     (if role = ''admin'' then (True, isMerchant)
      else scan_roles roles (isMerchant \<or> role = ''merchant''))"

definition Statement_GetDetail ::
  "'s sub_repo \<Rightarrow> (string \<Rightarrow> string option) \<Rightarrow> 's \<Rightarrow> MockStatementRepo \<Rightarrow> string \<Rightarrow> string list \<Rightarrow> string \<Rightarrow>
   's \<times> (service_error, StatementDetail) result" where
  "Statement_GetDetail R norm s m callerID roles statementID =
     (case stmt_FindByID m statementID of
        Inl e \<Rightarrow> (s, Inl (service_repo_error e))
      | Inr row \<Rightarrow>
          if stmt_DeletedAt row \<noteq> None then (s, Inl ErrDeleted)
          else
            (case scan_roles roles False of (isAdmin, isMerchant) \<Rightarrow>
               if isAdmin then (s, Inr (statement_detail norm row))
               else if isMerchant
               then (case repo_FindByID R s (stmt_SubscriptionID row) of
                       (s1, Inr sub) \<Rightarrow>
                         if sub_TenantID sub = callerID then (s1, Inr (statement_detail norm row))
                         else (s1, Inl ErrForbidden)
                     | (s1, Inl _) \<Rightarrow> (s1, Inl ErrForbidden))
               else if callerID = stmt_CustomerID row then (s, Inr (statement_detail norm row))
               else (s, Inl ErrForbidden)))"

definition Statement_ListByCustomer ::
  "(string \<Rightarrow> string option) \<Rightarrow> MockStatementRepo \<Rightarrow> string \<Rightarrow> string list \<Rightarrow> string \<Rightarrow> StatementQuery \<Rightarrow>
   (service_error, StatementDetail list \<times> nat) result" where
  "Statement_ListByCustomer norm m callerID roles customerID q =
     (case scan_roles roles False of (isAdmin, isMerchant) \<Rightarrow>
        if isAdmin \<or> isMerchant \<or> callerID = customerID
        then (case stmt_ListByCustomerID m customerID q of
                Inl e \<Rightarrow> Inl (ErrRepo e)
              | Inr (rows, cnt) \<Rightarrow> Inr (map (statement_detail norm) rows, cnt))
        else Inl ErrForbidden)"

lemma scan_roles_admin: "fst (scan_roles roles b) \<longleftrightarrow> ''admin'' \<in> set roles"
  by (induction roles b rule: scan_roles.induct) auto

lemma scan_roles_merchant:
  "''admin'' \<notin> set roles \<Longrightarrow> snd (scan_roles roles b) \<longleftrightarrow> b \<or> ''merchant'' \<in> set roles"
  by (induction roles b rule: scan_roles.induct) auto

lemma pg_FindByID_hit:
  "\<lbrakk>pg_faults db = []\<rbrakk> \<Longrightarrow>
     repo_FindByID PostgresSubscriptionRepo db i =
       (db, case by_id (pg_rows db) i of None \<Rightarrow> Inl RepoNotFound | Some r \<Rightarrow> Inr r)"
  by (simp add: PostgresSubscriptionRepo_def pg_FindByID_def pg_select_one_def pg_next_fault_def by_id_def)



text \<open>
  Listing is not confined for merchants: any caller with the merchant role is
  answered with any customer's statements, whoever owns the subscriptions.
\<close>

theorem merchant_lists_any_customer:
  assumes "''merchant'' \<in> set roles" "sm_listErr m = None"
  shows "\<exists>n. Statement_ListByCustomer norm m caller roles customer q =
    Inr (map (statement_detail norm)
           (take (if q_Limit q \<le> 0 then 10 else nat (q_Limit q))
              (filter (stmt_matches customer q) (map snd (sm_records m)))), n)"
proof -
  have "fst (scan_roles roles False) \<or> snd (scan_roles roles False)"
    using assms(1) scan_roles_admin [of roles False] scan_roles_merchant [of roles False] by auto
  then show ?thesis
    using assms(2)
    by (cases "scan_roles roles False")
       (auto simp: Statement_ListByCustomer_def stmt_ListByCustomerID_def Let_def)
qed

lemma merchant_lists_any_customer_witness:
  "\<exists>n. Statement_ListByCustomer Some
     \<lparr>sm_records = [], sm_listErr = None, sm_findErr = None, sm_createErr = None\<rparr> ''t2'' [''merchant''] ''c1''
     \<lparr>q_SubscriptionID = [], q_Kind = [], q_Status = [], q_StartAfter = [], q_EndBefore = [], q_Limit = 0\<rparr> =
     Inr ([], n)"
  using merchant_lists_any_customer [of "[''merchant'']"
      "\<lparr>sm_records = [], sm_listErr = None, sm_findErr = None, sm_createErr = None\<rparr>" Some "''t2''" "''c1''"
      "\<lparr>q_SubscriptionID = [], q_Kind = [], q_Status = [], q_StartAfter = [], q_EndBefore = [], q_Limit = 0\<rparr>"]
  by simp

end
