(* ===== verification/Cancel_Flow.thy ===== *)
theory Cancel_Flow
  imports Saga Statements
begin

text \<open>
  The cancellation saga of \<^verbatim>\<open>internal/saga/flows.go\<close>: \<^verbatim>\<open>CancelSubscriptionFlow\<close> over the
  subscription service on the PostgreSQL repository and the statement repository,
  and what its compensation can achieve given the status machine.
\<close>

section \<open>The flow\<close>

text \<open>
  What the flow's steps act on.  The rendering of a service error and of the current
  time are parameters of the flow.
\<close>

record flow_world =
  fw_db :: pg_db
  fw_stmts :: MockStatementRepo
  fw_clock :: time

definition refund_id :: "string \<Rightarrow> string" where
  "refund_id sagaID = ''stmt-'' @ sagaID @ ''-refund''"

definition cancel_execute ::
  "(service_error \<Rightarrow> string) \<Rightarrow> string \<Rightarrow> string \<Rightarrow> string \<Rightarrow> flow_world StepFn" where
  "cancel_execute errText tenantID actorID subscriptionID w sc =
     (case ChangeStatus PostgresSubscriptionRepo (fw_db w) tenantID actorID subscriptionID ''cancelled'' of
        (db, Inl err) \<Rightarrow> (w\<lparr>fw_db := db\<rparr>, sc, Some (''cancel subscription: '' @ errText err))
      | (db, Inr res) \<Rightarrow>
          (w\<lparr>fw_db := db\<rparr>, sc(''previous_status'' \<mapsto> CtxString (chg_PreviousStatus res)), None))"

definition cancel_compensate ::
  "(service_error \<Rightarrow> string) \<Rightarrow> string \<Rightarrow> string \<Rightarrow> string \<Rightarrow> flow_world StepFn" where
  "cancel_compensate errText tenantID actorID subscriptionID w sc =
     (case sc ''previous_status'' of
        None \<Rightarrow> (w, sc, Some ''previous status not found in saga context'')
      | Some (CtxBool _) \<Rightarrow> (w, sc, Some ''previous status is not a string'')
      | Some (CtxString prevStr) \<Rightarrow>
          (case ChangeStatus PostgresSubscriptionRepo (fw_db w) tenantID actorID subscriptionID prevStr of
             (db, Inl err) \<Rightarrow>
               (w\<lparr>fw_db := db\<rparr>, sc,
                Some (''restore subscription status to '' @ prevStr @ '': '' @ errText err))
           | (db, Inr _) \<Rightarrow> (w\<lparr>fw_db := db\<rparr>, sc, None)))"

definition refund_execute ::
  "(service_error \<Rightarrow> string) \<Rightarrow> (time \<Rightarrow> string) \<Rightarrow> string \<Rightarrow> string \<Rightarrow> string \<Rightarrow> string \<Rightarrow> string \<Rightarrow>
   flow_world StepFn" where
  "refund_execute errText rfc3339 refundStatementID subscriptionID customerID refundAmount refundCurrency w sc =
     (let now = rfc3339 (fw_clock w);
          stmt = \<lparr>stmt_ID = refundStatementID, stmt_TenantID = [], stmt_SubscriptionID = subscriptionID,
                  stmt_CustomerID = customerID, stmt_PeriodStart = now, stmt_PeriodEnd = now,
                  stmt_IssuedAt = now, stmt_TotalAmount = refundAmount, stmt_Currency = refundCurrency,
                  stmt_Kind = ''refund'', stmt_Status = ''issued'', stmt_DeletedAt = None\<rparr>
      in case stmt_Create (fw_stmts w) stmt of
           (m, Some e) \<Rightarrow> (w\<lparr>fw_stmts := m\<rparr>, sc, Some (''create refund statement: '' @ errText (ErrRepo e)))
         | (m, None) \<Rightarrow> (w\<lparr>fw_stmts := m\<rparr>, sc(''refund_created'' \<mapsto> CtxBool True), None))"

definition refund_compensate ::
  "(service_error \<Rightarrow> string) \<Rightarrow> string \<Rightarrow> flow_world StepFn" where
  "refund_compensate errText refundStatementID w sc =
     (if sc ''refund_created'' \<noteq> Some (CtxBool True) then (w, sc, None)
      else case stmt_FindByID (fw_stmts w) refundStatementID of
        Inl e \<Rightarrow>
          if e = RepoNotFound then (w, sc, None)
          else (w, sc, Some (''find refund statement for void: '' @ errText (ErrRepo e)))
      | Inr existing \<Rightarrow>
          (case stmt_UpdateArchivedData (fw_stmts w) refundStatementID (existing\<lparr>stmt_Status := ''voided''\<rparr>) of
             (m, Some e) \<Rightarrow> (w\<lparr>fw_stmts := m\<rparr>, sc, Some (''void refund statement: '' @ errText (ErrRepo e)))
           | (m, None) \<Rightarrow> (w\<lparr>fw_stmts := m\<rparr>, sc, None)))"

definition CancelSubscriptionFlow ::
  "(service_error \<Rightarrow> string) \<Rightarrow> (time \<Rightarrow> string) \<Rightarrow>
   string \<Rightarrow> string \<Rightarrow> string \<Rightarrow> string \<Rightarrow> string \<Rightarrow> string \<Rightarrow> string \<Rightarrow> flow_world Saga" where
  "CancelSubscriptionFlow errText rfc3339 sagaID tenantID actorID subscriptionID customerID
     refundAmount refundCurrency =
     \<lparr>saga_ID = sagaID,
      saga_Name = ''cancel_subscription_with_refund'',
      saga_Status = SagaRunning,
      saga_Context = map_of
        [(''tenant_id'', CtxString tenantID), (''actor_id'', CtxString actorID),
         (''subscription_id'', CtxString subscriptionID), (''customer_id'', CtxString customerID),
         (''refund_amount'', CtxString refundAmount), (''refund_currency'', CtxString refundCurrency),
         (''refund_statement_id'', CtxString (refund_id sagaID))],
      saga_Steps =
        [\<lparr>step_Key = ''cancel_subscription'',
          step_Execute = cancel_execute errText tenantID actorID subscriptionID,
          step_Compensate = Some (cancel_compensate errText tenantID actorID subscriptionID),
          step_RetryPolicy = None\<rparr>,
         \<lparr>step_Key = ''create_refund_statement'',
          step_Execute = refund_execute errText rfc3339 (refund_id sagaID) subscriptionID customerID
            refundAmount refundCurrency,
          step_Compensate = Some (refund_compensate errText (refund_id sagaID)),
          step_RetryPolicy = None\<rparr>],
      saga_CreatedAt = None,
      saga_UpdatedAt = None\<rparr>"

section \<open>ChangeStatus on a healthy row\<close>

lemma change_status_moves:
  assumes "pg_inv db" "pg_faults db = []" "by_id (pg_rows db) i = Some r" "sub_TenantID r = t"
    and "sub_DeletedAt r = None" "transition (sub_Status r) target"
  shows "\<exists>db'. ChangeStatus PostgresSubscriptionRepo db t a i target =
      (db', Inr \<lparr>chg_ID = i, chg_Status = target, chg_PreviousStatus = sub_Status r, chg_Changed = True\<rparr>)
    \<and> pg_inv db' \<and> pg_faults db' = []
    \<and> by_id (pg_rows db') i = Some (r\<lparr>sub_Status := target, sub_Version := sub_Version r + 1\<rparr>)"
proof -
  obtain db' where db': "repo_UpdateStatus PostgresSubscriptionRepo db i t target = (db', None)" "pg_inv db'"
      "pg_faults db' = []"
      "by_id (pg_rows db') i = Some (r\<lparr>sub_Status := target, sub_Version := sub_Version r + 1\<rparr>)"
    using pg_update_hit [OF assms(1-4)] by blast
  have "sub_ID r = i"
    using assms(3) by (rule by_id_keyed)
  then show ?thesis
    using db' assms(5,6) transition_known [OF assms(6)] pg_find_hit [OF assms(1-4)]
    by (auto simp: ChangeStatus_def transition_iff)
qed

lemma change_status_refused:
  assumes "pg_inv db" "pg_faults db = []" "by_id (pg_rows db) i = Some r" "sub_TenantID r = t"
    and "sub_DeletedAt r = None" "IsKnownStatus (sub_Status r)" "IsKnownStatus target"
    and "sub_Status r \<noteq> target" "\<not> transition (sub_Status r) target"
  shows "ChangeStatus PostgresSubscriptionRepo db t a i target =
    (db, Inl (ErrInvalidTransition (InvalidTransition (sub_Status r) target)))"
  using assms(5-) pg_find_hit [OF assms(1-4)] by (simp add: ChangeStatus_def CanTransition_known)

section \<open>Compensation cannot restore the subscription\<close>

lemma cancel_execute_moves:
  assumes "pg_inv (fw_db w)" "pg_faults (fw_db w) = []" "by_id (pg_rows (fw_db w)) sid = Some r"
    and "sub_TenantID r = t" "sub_DeletedAt r = None" "transition (sub_Status r) StatusCancelled"
  shows "\<exists>db1. cancel_execute errText t actor sid w sc =
      (w\<lparr>fw_db := db1\<rparr>, sc(''previous_status'' \<mapsto> CtxString (sub_Status r)), None)
    \<and> map_option sub_Status (by_id (pg_rows db1) sid) = Some StatusCancelled
    \<and> (\<forall>w1 sc1. fw_db w1 = db1 \<longrightarrow> sc1 ''previous_status'' = Some (CtxString (sub_Status r)) \<longrightarrow>
         (\<exists>msg. cancel_compensate errText t actor sid w1 sc1 = (w1, sc1, Some msg)))"
proof -
  obtain db1 where db1: "ChangeStatus PostgresSubscriptionRepo (fw_db w) t actor sid StatusCancelled =
      (db1, Inr \<lparr>chg_ID = sid, chg_Status = StatusCancelled, chg_PreviousStatus = sub_Status r, chg_Changed = True\<rparr>)"
      "pg_inv db1" "pg_faults db1 = []"
      "by_id (pg_rows db1) sid = Some (r\<lparr>sub_Status := StatusCancelled, sub_Version := sub_Version r + 1\<rparr>)"
    using change_status_moves [OF assms] by blast
  have "sub_Status r \<noteq> StatusCancelled" "IsKnownStatus (sub_Status r)" "IsKnownStatus StatusCancelled"
    using assms(6) transition_known [OF assms(6)] by (auto simp: transition_iff)
  then have "ChangeStatus PostgresSubscriptionRepo db1 t actor sid (sub_Status r) =
      (db1, Inl (ErrInvalidTransition (InvalidTransition StatusCancelled (sub_Status r))))"
    using change_status_refused [OF db1(2-4), of t "sub_Status r" actor] assms(4,5)
      terminal_no_transition [of StatusCancelled "sub_Status r"]
    by (simp add: terminal_def)
  then show ?thesis
    using db1 by (auto simp: cancel_execute_def cancel_compensate_def StatusCancelled_def)
qed

lemmas coordinator_unfolds =
  Execute_def run_and_complete_def saga_begin_def saga_save_def runStep_def failAndCompensate_def
  memory_store_def mem_Save_def mem_SaveStepResult_def ShouldRetry_def Let_def

lemma two_steps_fail:
  assumes "saga_Steps sg = [a, b]" "step_RetryPolicy b = None" "saga_ID sg \<noteq> []" "co_store C = memory_store"
    and "step_Execute a w (saga_Context sg) = (w1, c1, None)"
    and "step_Execute b w1 c1 = (w2, c2, Some e1)"
    and "step_Compensate a = Some undo" "undo w2 c2 = (w3, c3, Some e2)"
  shows "\<exists>st' sg'. Execute C (w, st, sg) = ((w3, st', sg'), Some (ErrStep e1)) \<and> saga_Status sg' = SagaFailed
    \<and> map_of (ms_sagas st') (saga_ID sg) = Some sg'"
  using assms by (simp add: coordinator_unfolds)

text \<open>
  When the refund statement cannot be created for a subscription that was still
  cancellable, the cancellation saga ends failed, not compensated, and the
  subscription stays cancelled: its compensation asks the service to leave the
  cancelled status, which the status machine refuses.
\<close>

theorem cancel_flow_cannot_compensate:
  assumes "pg_inv (fw_db w)" "pg_faults (fw_db w) = []" "by_id (pg_rows (fw_db w)) sid = Some r"
    and "sub_TenantID r = t" "sub_DeletedAt r = None" "transition (sub_Status r) StatusCancelled"
    and "sm_createErr (fw_stmts w) = Some err" "sagaID \<noteq> []" "co_store C = memory_store"
    and "Execute C (w, st, CancelSubscriptionFlow errText fmt sagaID t actor sid cust amt cur) = ((w', st', sg'), e)"
  shows "e \<noteq> None \<and> saga_Status sg' = SagaFailed \<and> map_of (ms_sagas st') sagaID = Some sg'
    \<and> map_option sub_Status (by_id (pg_rows (fw_db w')) sid) = Some StatusCancelled"
proof -
  let ?sg = "CancelSubscriptionFlow errText fmt sagaID t actor sid cust amt cur"
  let ?sc = "(saga_Context ?sg)(''previous_status'' \<mapsto> CtxString (sub_Status r))"
  obtain db1 msg where ex: "cancel_execute errText t actor sid w (saga_Context ?sg) = (w\<lparr>fw_db := db1\<rparr>, ?sc, None)"
      and cancelled: "map_option sub_Status (by_id (pg_rows db1) sid) = Some StatusCancelled"
      and undo: "cancel_compensate errText t actor sid (w\<lparr>fw_db := db1\<rparr>) ?sc = (w\<lparr>fw_db := db1\<rparr>, ?sc, Some msg)"
    using cancel_execute_moves [OF assms(1-6), of errText actor "saga_Context ?sg"] by fastforce
  have refund: "refund_execute errText fmt (refund_id sagaID) sid cust amt cur (w\<lparr>fw_db := db1\<rparr>) ?sc =
      (w\<lparr>fw_db := db1\<rparr>, ?sc, Some (''create refund statement: '' @ errText (ErrRepo err)))"
    using assms(7) by (simp add: refund_execute_def stmt_Create_def Let_def)
  obtain a b where steps: "saga_Steps ?sg = [a, b]" "step_Execute a = cancel_execute errText t actor sid"
      "step_Compensate a = Some (cancel_compensate errText t actor sid)" "step_RetryPolicy b = None"
      "step_Execute b = refund_execute errText fmt (refund_id sagaID) sid cust amt cur"
    and sid: "saga_ID ?sg = sagaID"
    by (simp add: CancelSubscriptionFlow_def)
  have ne: "saga_ID ?sg \<noteq> []"
    using sid assms(8) by simp
  note run = two_steps_fail [OF steps(1,4) ne assms(9) ex [folded steps(2)] refund [folded steps(5)] steps(3) undo]
  show ?thesis
    using run [of st] assms(10) cancelled sid by auto
qed

lemma cancel_flow_cannot_compensate_witness:
  "saga_Status (snd (snd (fst (Execute
     \<lparr>co_store = memory_store, co_constructor = None, co_now = fw_clock, co_wait = (\<lambda>w n. (w, None))\<rparr>
     (\<lparr>fw_db = sample_db, fw_stmts = \<lparr>sm_records = [], sm_listErr = None, sm_findErr = None,
        sm_createErr = Some (RepoDriver ''down'')\<rparr>, fw_clock = 0\<rparr>, NewMemoryStore,
      CancelSubscriptionFlow (\<lambda>_. []) (\<lambda>_. []) ''sg'' ''t1'' ''u'' ''s1'' ''c1'' ''5'' ''usd''))))) = SagaFailed"
proof -
  let ?w = "\<lparr>fw_db = sample_db, fw_stmts = \<lparr>sm_records = [], sm_listErr = None, sm_findErr = None,
      sm_createErr = Some (RepoDriver ''down'')\<rparr>, fw_clock = 0\<rparr>"
  have "transition (sub_Status sample_row) StatusCancelled" "sub_TenantID sample_row = ''t1''"
      "sub_DeletedAt sample_row = None"
    by (simp_all add: status_simps sample_row_def status_defs)
  then show ?thesis
    using cancel_flow_cannot_compensate [of ?w "''s1''" sample_row "''t1''" "RepoDriver ''down''" "''sg''"
        "\<lparr>co_store = memory_store, co_constructor = None, co_now = fw_clock, co_wait = (\<lambda>w n. (w, None))\<rparr>"
        NewMemoryStore "\<lambda>_. []" "\<lambda>_. []" "''u''" "''c1''" "''5''" "''usd''"]
    by (simp add: sample_facts prod_eq_iff)
qed

lemma resumed_second_step_fails:
  assumes "map_of (ms_sagas st) i = Some sg" "saga_ID sg = i" "saga_Steps sg = [a, b]"
    and "ms_results st i = Some [(step_Key a, res)]" "sr_StepKey res = step_Key a" "sr_Status res = StepCompleted"
    and "step_Key a \<noteq> step_Key b" "step_RetryPolicy b = None" "co_store C = memory_store" "co_constructor C = None"
    and "step_Execute b w (saga_Context sg) = (w1, c1, Some e1)"
    and "step_Compensate a = Some undo" "undo w1 c1 = (w2, c2, Some e2)"
    and "Resume C w st i = ((w', st', sg'), e)"
  shows "map_option saga_Status sg' = Some SagaFailed \<and> w' = w2
    \<and> map_option sr_ErrorMessage (mem_recorded st' i (step_Key a)) = Some e2"
  using assms(14)
  by (auto simp: Resume_def assms(1-13) assms(7) [symmetric] mem_Load_def done_map_def coordinator_unfolds
      mem_recorded_def step_result_def)

text \<open>
  The saga context is stored when a run begins and when it ends, not after each step.
  A cancellation saga that is interrupted after its first step and resumed later has
  lost the previous status; if the refund then fails, compensation fails with
  exactly that complaint, whatever the status machine would allow.
\<close>

theorem resumed_cancel_flow_lost_context:
  assumes "map_of (ms_sagas st) sagaID = Some (CancelSubscriptionFlow errText fmt sagaID t actor sid cust amt cur)"
    and "ms_results st sagaID = Some [(''cancel_subscription'', res)]"
    and "sr_StepKey res = ''cancel_subscription''" "sr_Status res = StepCompleted"
    and "sm_createErr (fw_stmts w) = Some err" "co_store C = memory_store" "co_constructor C = None"
    and "Resume C w st sagaID = ((w', st', sg'), e)"
  shows "map_option saga_Status sg' = Some SagaFailed \<and> fw_db w' = fw_db w
    \<and> map_option sr_ErrorMessage (mem_recorded st' sagaID ''cancel_subscription'')
        = Some ''previous status not found in saga context''"
proof -
  let ?sg = "CancelSubscriptionFlow errText fmt sagaID t actor sid cust amt cur"
  obtain a b where steps: "saga_Steps ?sg = [a, b]" "step_Key a = ''cancel_subscription''"
      "step_Compensate a = Some (cancel_compensate errText t actor sid)" "step_RetryPolicy b = None"
      "step_Execute b = refund_execute errText fmt (refund_id sagaID) sid cust amt cur"
      "step_Key b = ''create_refund_statement''"
    and sid: "saga_ID ?sg = sagaID" "saga_Context ?sg ''previous_status'' = None"
    by (simp add: CancelSubscriptionFlow_def)
  have refund: "refund_execute errText fmt (refund_id sagaID) sid cust amt cur w (saga_Context ?sg) =
      (w, saga_Context ?sg, Some (''create refund statement: '' @ errText (ErrRepo err)))"
    using assms(5) by (simp add: refund_execute_def stmt_Create_def Let_def)
  have undo: "cancel_compensate errText t actor sid w (saga_Context ?sg) =
      (w, saga_Context ?sg, Some ''previous status not found in saga context'')"
    using sid(2) by (simp add: cancel_compensate_def)
  show ?thesis
    using resumed_second_step_fails [OF assms(1) sid(1) steps(1) _ _ assms(4) _ steps(4) assms(6,7)
        refund [folded steps(5)] steps(3) undo assms(8)] assms(2,3) steps(2,6)
    by simp
qed

definition sample_world :: flow_world where
  "sample_world = \<lparr>fw_db = sample_db, fw_stmts = \<lparr>sm_records = [], sm_listErr = None, sm_findErr = None,
     sm_createErr = Some (RepoDriver ''down'')\<rparr>, fw_clock = 0\<rparr>"

definition sample_result :: StepResult where
  "sample_result =
     \<lparr>sr_SagaID = ''sg'', sr_StepKey = ''cancel_subscription'', sr_Status = StepCompleted, sr_ErrorMessage = [],
      sr_ExecutedAt = None, sr_CompensatedAt = None, sr_RetryAttempt = 0\<rparr>"

definition sample_flow_store :: "flow_world memoryStore" where
  "sample_flow_store =
     \<lparr>ms_sagas = [(''sg'', CancelSubscriptionFlow (\<lambda>_. []) (\<lambda>_. []) ''sg'' ''t1'' ''u'' ''s1'' ''c1'' ''5'' ''usd'')],
      ms_results = [''sg'' \<mapsto> [(''cancel_subscription'', sample_result)]]\<rparr>"

definition sample_flow_coordinator :: "(flow_world, flow_world memoryStore) coordinator" where
  "sample_flow_coordinator =
     \<lparr>co_store = memory_store, co_constructor = None, co_now = fw_clock, co_wait = (\<lambda>w n. (w, None))\<rparr>"

lemma resumed_cancel_flow_lost_context_witness:
  "map_option saga_Status
     (snd (snd (fst (Resume sample_flow_coordinator sample_world sample_flow_store ''sg'')))) = Some SagaFailed"
proof -
  obtain w' st' sg' e where r: "Resume sample_flow_coordinator sample_world sample_flow_store ''sg'' = ((w', st', sg'), e)"
    by (metis prod.collapse)
  have "map_option saga_Status sg' = Some SagaFailed \<and> fw_db w' = fw_db sample_world
    \<and> map_option sr_ErrorMessage (mem_recorded st' ''sg'' ''cancel_subscription'')
        = Some ''previous status not found in saga context''"
    by (rule resumed_cancel_flow_lost_context [where res = sample_result, OF _ _ _ _ _ _ _ r])
       (simp_all add: sample_flow_store_def sample_world_def sample_flow_coordinator_def sample_result_def)
  then show ?thesis
    by (simp add: r)
qed

end
