(* ===== verification/Job_Store.thy ===== *)
theory Job_Store
  imports Prelude
begin

text \<open>
  Billing jobs and their in-memory store (\<^verbatim>\<open>internal/worker/job.go\<close> and \<^verbatim>\<open>store_memory.go\<close>):
  creation and update, the pending lists the scheduler reads, the dead-letter list
  and the per-job locks with an expiry.  Times are read from the store's clock and
  passed as \<^verbatim>\<open>now\<close>.
\<close>

section \<open>Jobs\<close>

datatype JobStatus = JobPending | JobRunning | JobCompleted | JobFailed | JobDeadLetter

type_synonym Priority = int

definition PriorityHigh :: Priority where "PriorityHigh = 10"
definition PriorityNormal :: Priority where "PriorityNormal = 20"
definition PriorityLow :: Priority where "PriorityLow = 30"

definition DefaultLaneWeights :: "(Priority \<times> int) list" where
  "DefaultLaneWeights = [(PriorityHigh, 3), (PriorityNormal, 2), (PriorityLow, 1)]"

definition laneOrder :: "Priority list" where
  "laneOrder = [PriorityHigh, PriorityNormal, PriorityLow]"

record Job =
  job_ID :: string
  job_SubscriptionID :: string
  job_Type :: string
  job_Status :: JobStatus
  job_Priority :: Priority
  job_ScheduledAt :: time
  job_StartedAt :: "time option"
  job_CompletedAt :: "time option"
  job_Attempts :: nat
  job_MaxAttempts :: nat
  job_LastError :: string
  job_Payload :: "(string \<times> string) list option"
  job_CreatedAt :: "time option"
  job_UpdatedAt :: "time option"
  job_ParentTraceID :: string

definition sched_before :: "Job \<Rightarrow> Job \<Rightarrow> bool" where
  "sched_before a b = (job_ScheduledAt a < job_ScheduledAt b)"

definition job_before :: "Job \<Rightarrow> Job \<Rightarrow> bool" where
  "job_before a b =
     (if job_Priority a \<noteq> job_Priority b then job_Priority a < job_Priority b
      else job_ScheduledAt a < job_ScheduledAt b)"

definition SortJobs :: "Job list \<Rightarrow> Job list" where
  "SortJobs jobs = sort_slice job_before jobs"

section \<open>The in-memory store\<close>

record lockInfo =
  lock_workerID :: string
  lock_expiresAt :: time

record MemoryStore =
  jobs :: "(string \<times> Job) list"
  locks :: "string \<rightharpoonup> lockInfo"

datatype store_error = ErrJobNotFound | ErrLockNotHeld | ErrJobIDRequired

definition NewJobStore :: MemoryStore where
  "NewJobStore = \<lparr>jobs = [], locks = Map.empty\<rparr>"

definition Create :: "time \<Rightarrow> MemoryStore \<Rightarrow> Job \<Rightarrow> MemoryStore \<times> store_error option" where
  "Create now s job =
     (if job_ID job = [] then (s, Some ErrJobIDRequired)
      else let job1 = job\<lparr>job_CreatedAt := (case job_CreatedAt job of None \<Rightarrow> Some now | t \<Rightarrow> t),
                          job_UpdatedAt := (case job_UpdatedAt job of None \<Rightarrow> Some now | t \<Rightarrow> t)\<rparr>
           in (s\<lparr>jobs := AList.update (job_ID job) job1 (jobs s)\<rparr>, None))"

definition Get :: "MemoryStore \<Rightarrow> string \<Rightarrow> (store_error, Job) result" where
  "Get s i = (case map_of (jobs s) i of None \<Rightarrow> Inl ErrJobNotFound | Some j \<Rightarrow> Inr j)"

definition Update :: "time \<Rightarrow> MemoryStore \<Rightarrow> Job \<Rightarrow> MemoryStore \<times> store_error option" where
  "Update now s job =
     (if map_of (jobs s) (job_ID job) = None then (s, Some ErrJobNotFound)
      else (s\<lparr>jobs := AList.update (job_ID job) (job\<lparr>job_UpdatedAt := Some now\<rparr>) (jobs s)\<rparr>, None))"

definition due :: "time \<Rightarrow> Job \<Rightarrow> bool" where
  "due now j = (job_Status j = JobPending \<and> \<not> job_ScheduledAt j > now)"

text \<open>A slice is cut at \<^verbatim>\<open>limit\<close> only when it is longer.\<close>

definition ListPending :: "time \<Rightarrow> MemoryStore \<Rightarrow> nat \<Rightarrow> Job list" where
  "ListPending now s limit =
     (let pending = SortJobs (filter (due now) (map snd (jobs s)))
      in if length pending > limit then take limit pending else pending)"

definition ListPendingByPriority :: "time \<Rightarrow> MemoryStore \<Rightarrow> Priority \<Rightarrow> nat \<Rightarrow> Job list" where
  "ListPendingByPriority now s priority limit =
     (let pending = sort_slice sched_before
            (filter (\<lambda>j. job_Priority j = priority \<and> due now j) (map snd (jobs s)))
      in if length pending > limit then take limit pending else pending)"

definition LaneDepth :: "time \<Rightarrow> MemoryStore \<Rightarrow> Priority \<Rightarrow> nat" where
  "LaneDepth now s priority =
     length (filter (\<lambda>j. job_Priority j = priority \<and> due now j) (map snd (jobs s)))"

definition QueueDepth :: "time \<Rightarrow> MemoryStore \<Rightarrow> nat" where
  "QueueDepth now s = length (filter (due now) (map snd (jobs s)))"

definition ListDeadLetter :: "MemoryStore \<Rightarrow> Job list" where
  "ListDeadLetter s = filter (\<lambda>j. job_Status j = JobDeadLetter) (map snd (jobs s))"

text \<open>The loop of \<^verbatim>\<open>OldestPending\<close>: an absent creation time is the zero time, before every other.\<close>

definition created_earlier :: "Job \<Rightarrow> Job \<Rightarrow> bool" where
  "created_earlier a b =
     (case (job_CreatedAt a, job_CreatedAt b) of
        (None, Some _) \<Rightarrow> True | (Some x, Some y) \<Rightarrow> x < y | (_, None) \<Rightarrow> False)"

definition OldestPending :: "time \<Rightarrow> MemoryStore \<Rightarrow> Job option" where
  "OldestPending now s =
     foldl (\<lambda>oldest j. if due now j
              then (case oldest of None \<Rightarrow> Some j
                    | Some o1 \<Rightarrow> if created_earlier j o1 then Some j else oldest)
              else oldest) None (map snd (jobs s))"

section \<open>Locks\<close>

definition AcquireLock ::
  "time \<Rightarrow> MemoryStore \<Rightarrow> string \<Rightarrow> string \<Rightarrow> duration \<Rightarrow> MemoryStore \<times> bool" where
  "AcquireLock now s jobID workerID ttl =
     (let blocked = (case locks s jobID of
                       None \<Rightarrow> False
                     | Some lock \<Rightarrow>
                         if now > lock_expiresAt lock then False else lock_workerID lock \<noteq> workerID)
      in if blocked then (s, False)
         else (s\<lparr>locks := (locks s)(jobID \<mapsto> \<lparr>lock_workerID = workerID, lock_expiresAt = now + ttl\<rparr>)\<rparr>, True))"

definition ReleaseLock :: "MemoryStore \<Rightarrow> string \<Rightarrow> string \<Rightarrow> MemoryStore \<times> store_error option" where
  "ReleaseLock s jobID workerID =
     (case locks s jobID of
        None \<Rightarrow> (s, None)
      | Some lock \<Rightarrow>
          if lock_workerID lock \<noteq> workerID then (s, Some ErrLockNotHeld)
          else (s\<lparr>locks := (locks s)(jobID := None)\<rparr>, None))"

section \<open>Invariant and pending lists\<close>

definition job_inv :: "MemoryStore \<Rightarrow> bool" where
  "job_inv s = (distinct (map fst (jobs s)) \<and> list_all (\<lambda>(k, j). job_ID j = k) (jobs s))"

lemma job_inv_New [inv_intros]: "job_inv NewJobStore"
  by (simp add: job_inv_def NewJobStore_def)

lemma job_inv_put:
  assumes "job_inv s" "job_ID j = k"
  shows "job_inv (s\<lparr>jobs := AList.update k j (jobs s)\<rparr>)"
  using assms set_alist_update [of k j "jobs s"] by (auto simp: job_inv_def list_all_iff)

lemma job_inv_Create [inv_intros]: "job_inv s \<Longrightarrow> job_inv (fst (Create now s job))"
  by (simp add: Create_def Let_def job_inv_put)

lemma job_inv_Update [inv_intros]: "job_inv s \<Longrightarrow> job_inv (fst (Update now s job))"
  by (simp add: Update_def job_inv_put)

lemma job_inv_locks [inv_intros]: "job_inv s \<Longrightarrow> job_inv (s\<lparr>locks := l\<rparr>)"
  by (simp add: job_inv_def)

lemma job_inv_AcquireLock [inv_intros]: "job_inv s \<Longrightarrow> job_inv (fst (AcquireLock now s i w ttl))"
  by (simp add: AcquireLock_def Let_def job_inv_locks)

lemma job_inv_ReleaseLock [inv_intros]: "job_inv s \<Longrightarrow> job_inv (fst (ReleaseLock s i w))"
  by (simp add: ReleaseLock_def job_inv_locks split: option.splits)

lemma job_stored:
  assumes "job_inv s"
  shows "j \<in> set (map snd (jobs s)) \<longleftrightarrow> map_of (jobs s) (job_ID j) = Some j"
proof
  assume "j \<in> set (map snd (jobs s))"
  then obtain k where "(k, j) \<in> set (jobs s)"
    by auto
  then show "map_of (jobs s) (job_ID j) = Some j"
    using assms by (auto simp: job_inv_def list_all_iff)
next
  assume "map_of (jobs s) (job_ID j) = Some j"
  then show "j \<in> set (map snd (jobs s))"
    by (force dest: map_of_SomeD)
qed

lemma job_stored_key: "\<lbrakk>job_inv s; map_of (jobs s) i = Some j\<rbrakk> \<Longrightarrow> job_ID j = i"
  by (auto simp: job_inv_def list_all_iff dest: map_of_SomeD)

lemma strict_weak_sched [simp]: "strict_weak sched_before"
  using strict_weak_key [of job_ScheduledAt] by (simp add: sched_before_def [abs_def])

lemma cut_slice: "(if length xs > n then take n xs else xs) = take n xs"
  by simp

text \<open>The one job a lane offers: a due job of the lane that is scheduled no later than the others.\<close>

definition lane_jobs :: "time \<Rightarrow> MemoryStore \<Rightarrow> Priority \<Rightarrow> Job list" where
  "lane_jobs now s p = filter (\<lambda>j. job_Priority j = p \<and> due now j) (map snd (jobs s))"

lemma lane_head:
  "ListPendingByPriority now s p 1 =
     (if lane_jobs now s p = [] then [] else [hd (sort_slice sched_before (lane_jobs now s p))])"
proof -
  have "take 1 xs = (if xs = [] then [] else [hd xs])" for xs :: "Job list"
    by (cases xs) simp_all
  then show ?thesis
    unfolding ListPendingByPriority_def Let_def cut_slice lane_jobs_def by simp
qed

lemma lane_head_earliest:
  assumes "ListPendingByPriority now s p 1 = [j]"
  shows "j \<in> set (lane_jobs now s p)" "j' \<in> set (lane_jobs now s p) \<Longrightarrow> job_ScheduledAt j \<le> job_ScheduledAt j'"
proof -
  have "lane_jobs now s p \<noteq> []" "j = hd (sort_slice sched_before (lane_jobs now s p))"
    using assms unfolding lane_head by (auto split: if_splits)
  then show "j \<in> set (lane_jobs now s p)"
      "j' \<in> set (lane_jobs now s p) \<Longrightarrow> job_ScheduledAt j \<le> job_ScheduledAt j'"
    using hd_sort_slice [OF strict_weak_sched] by (auto simp: sched_before_def not_less)
qed

lemma lane_jobs_iff:
  "job_inv s \<Longrightarrow> j \<in> set (lane_jobs now s p) \<longleftrightarrow>
     map_of (jobs s) (job_ID j) = Some j \<and> job_Priority j = p \<and> due now j"
  using job_stored [of s j] by (auto simp: lane_jobs_def)

section \<open>Leases\<close>

text \<open>
  A sequence of lock operations, each with the time it is run at, and the answers
  they get (a release always answers true).
\<close>

datatype ('k, 'w) lock_op = Acquire 'k 'w duration | Release 'k 'w

fun run_lock_ops ::
  "(time \<Rightarrow> 's \<Rightarrow> 'k \<Rightarrow> 'w \<Rightarrow> duration \<Rightarrow> 's \<times> bool) \<Rightarrow> ('s \<Rightarrow> 'k \<Rightarrow> 'w \<Rightarrow> 's) \<Rightarrow>
   (time \<times> ('k, 'w) lock_op) list \<Rightarrow> 's \<Rightarrow> 's \<times> bool list" where
  "run_lock_ops acq rel [] s = (s, [])"
| "run_lock_ops acq rel ((t, Acquire k w ttl) # ops) s =
     (case acq t s k w ttl of (s1, ok) \<Rightarrow>
        case run_lock_ops acq rel ops s1 of (s2, oks) \<Rightarrow> (s2, ok # oks))"
| "run_lock_ops acq rel ((t, Release k w) # ops) s =
     (case run_lock_ops acq rel ops (rel s k w) of (s2, oks) \<Rightarrow> (s2, True # oks))"

text \<open>
  What a client of the locks relies on: who holds a key and until when, that an
  acquisition succeeds unless somebody else's lease still runs, and that only its
  holder gives a lease up.
\<close>

locale lease =
  fixes acquire :: "time \<Rightarrow> 's \<Rightarrow> 'k \<Rightarrow> 'w \<Rightarrow> duration \<Rightarrow> 's \<times> bool"
    and release :: "'s \<Rightarrow> 'k \<Rightarrow> 'w \<Rightarrow> 's"
    and holder :: "'s \<Rightarrow> 'k \<Rightarrow> ('w \<times> time) option"
  assumes acquire_free:
      "(\<And>v t. holder s k = Some (v, t) \<Longrightarrow> t < now \<or> v = w) \<Longrightarrow>
         snd (acquire now s k w ttl) \<and> holder (fst (acquire now s k w ttl)) = (holder s)(k \<mapsto> (w, now + ttl))"
    and acquire_blocked:
      "\<lbrakk>holder s k = Some (v, t); now \<le> t; v \<noteq> w\<rbrakk> \<Longrightarrow> acquire now s k w ttl = (s, False)"
    and release_own: "holder s k = Some (w, t) \<Longrightarrow> holder (release s k w) = (holder s)(k := None)"
    and release_other: "(\<And>t. holder s k \<noteq> Some (w, t)) \<Longrightarrow> holder (release s k w) = holder s"
begin

lemma acquire_elsewhere:
  assumes "k' \<noteq> k"
  shows "holder (fst (acquire now s k' v ttl)) k = holder s k"
proof (cases "\<exists>u t. holder s k' = Some (u, t) \<and> now \<le> t \<and> u \<noteq> v")
  case True
  then show ?thesis
    using acquire_blocked by force
next
  case False
  then show ?thesis
    using acquire_free [of s k' now v ttl] assms by force
qed

lemma release_elsewhere: "(k', v) \<noteq> (k, w) \<Longrightarrow> holder s k = Some (w, t) \<Longrightarrow> holder (release s k' v) k = Some (w, t)"
  by (cases "\<exists>t. holder s k' = Some (v, t)") (auto simp: release_own release_other)

text \<open>
  Operations run while the lease of \<^verbatim>\<open>w\<close> on \<^verbatim>\<open>k\<close> lasts, none of them giving it up or
  cutting it short.
\<close>

lemma lease_lasts:
  assumes "holder s k = Some (w, e)" "T \<le> e"
    and "\<forall>(t, p) \<in> set ops. t \<le> T \<and> p \<noteq> Release k w \<and> (\<forall>ttl. p = Acquire k w ttl \<longrightarrow> T \<le> t + ttl)"
  shows "list_all2 (\<lambda>op ok. \<forall>v ttl. snd op = Acquire k v ttl \<and> v \<noteq> w \<longrightarrow> \<not> ok) ops
           (snd (run_lock_ops acquire release ops s))"
  using assms
proof (induction ops arbitrary: s e)
  case (Cons op ops)
  obtain t p where op: "op = (t, p)"
    by fastforce
  have ops: "\<forall>(t, p) \<in> set ops. t \<le> T \<and> p \<noteq> Release k w \<and> (\<forall>ttl. p = Acquire k w ttl \<longrightarrow> T \<le> t + ttl)"
    and p: "t \<le> T" "p \<noteq> Release k w" "\<And>ttl. p = Acquire k w ttl \<Longrightarrow> T \<le> t + ttl"
    using Cons.prems(3) op by auto
  show ?case
  proof (cases p)
    case (Release k' v)
    have "holder (release s k' v) k = Some (w, e)"
      using release_elsewhere [OF _ Cons.prems(1)] p(2) Release by auto
    from Cons.IH [OF this Cons.prems(2) ops] show ?thesis
      by (cases "run_lock_ops acquire release ops (release s k' v)") (simp add: op Release)
  next
    case (Acquire k' v ttl)
    obtain s1 ok where a: "acquire t s k' v ttl = (s1, ok)"
      by fastforce
    have "\<exists>e1. holder s1 k = Some (w, e1) \<and> T \<le> e1 \<and> (k' = k \<and> v \<noteq> w \<longrightarrow> \<not> ok)"
    proof (cases "k' = k")
      case False
      then show ?thesis
        using acquire_elsewhere [OF False, of t s v ttl] a Cons.prems(1,2) by simp
    next
      case True
      show ?thesis
      proof (cases "v = w")
        case False
        then show ?thesis
          using acquire_blocked [OF Cons.prems(1), of t v ttl] a True p(1) Cons.prems(1,2) by auto
      next
        case vw: True
        then show ?thesis
          using acquire_free [of s k t w ttl] a True p(3) [of ttl] Acquire Cons.prems(1) by auto
      qed
    qed
    then obtain e1 where e1: "holder s1 k = Some (w, e1)" "T \<le> e1" and no: "k' = k \<and> v \<noteq> w \<longrightarrow> \<not> ok"
      by blast
    from Cons.IH [OF e1 ops] no show ?thesis
      by (cases "run_lock_ops acquire release ops s1") (simp add: op Acquire a)
  qed
qed simp

end

definition lock_holder :: "MemoryStore \<Rightarrow> string \<Rightarrow> (string \<times> time) option" where
  "lock_holder s k = map_option (\<lambda>l. (lock_workerID l, lock_expiresAt l)) (locks s k)"

interpretation job_lease: lease AcquireLock "\<lambda>s k w. fst (ReleaseLock s k w)" lock_holder
proof unfold_locales
  fix s :: MemoryStore and k w v :: string and t now ttl :: int
  show "(\<And>v t. lock_holder s k = Some (v, t) \<Longrightarrow> t < now \<or> v = w) \<Longrightarrow>
      snd (AcquireLock now s k w ttl) \<and>
      lock_holder (fst (AcquireLock now s k w ttl)) = (lock_holder s)(k \<mapsto> (w, now + ttl))"
    by (cases "locks s k") (auto simp: AcquireLock_def lock_holder_def fun_eq_iff)
  show "lock_holder s k = Some (v, t) \<Longrightarrow> now \<le> t \<Longrightarrow> v \<noteq> w \<Longrightarrow> AcquireLock now s k w ttl = (s, False)"
    by (cases "locks s k") (auto simp: AcquireLock_def lock_holder_def)
  show "lock_holder s k = Some (w, t) \<Longrightarrow> lock_holder (fst (ReleaseLock s k w)) = (lock_holder s)(k := None)"
    by (cases "locks s k") (auto simp: ReleaseLock_def lock_holder_def fun_eq_iff)
  show "(\<And>t. lock_holder s k \<noteq> Some (w, t)) \<Longrightarrow> lock_holder (fst (ReleaseLock s k w)) = lock_holder s"
    by (cases "locks s k") (auto simp: ReleaseLock_def lock_holder_def fun_eq_iff)
qed

text \<open>
  C18: A job lock is exclusive for its time to live.  Once a worker has acquired it, every
  other worker's attempt until the lease ends is refused, whatever acquisitions and
  releases of any job and any worker happen in between, as long as the holder
  itself neither releases the lock nor renews it for a shorter time.
\<close>

theorem job_lock_exclusive:
  assumes "AcquireLock t0 s k w ttl = (s1, True)"
    and "\<forall>(t, p) \<in> set ops. t \<le> t0 + ttl \<and> p \<noteq> Release k w
           \<and> (\<forall>ttl'. p = Acquire k w ttl' \<longrightarrow> t0 + ttl \<le> t + ttl')"
  shows "list_all2 (\<lambda>op ok. \<forall>v ttl'. snd op = Acquire k v ttl' \<and> v \<noteq> w \<longrightarrow> \<not> ok) ops
           (snd (run_lock_ops AcquireLock (\<lambda>s k w. fst (ReleaseLock s k w)) ops s1))"
proof -
  have "lock_holder s1 k = Some (w, t0 + ttl)"
    using assms(1) by (auto simp: AcquireLock_def lock_holder_def Let_def split: if_splits)
  from job_lease.lease_lasts [OF this order_refl assms(2)] show ?thesis .
qed

lemma job_lock_exclusive_witness:
  "snd (run_lock_ops AcquireLock (\<lambda>s k w. fst (ReleaseLock s k w))
     [(5, Acquire ''j'' ''b'' 30)] (fst (AcquireLock 0 NewJobStore ''j'' ''a'' 30))) = [False]"
proof -
  have "AcquireLock 0 NewJobStore ''j'' ''a'' 30 = (fst (AcquireLock 0 NewJobStore ''j'' ''a'' 30), True)"
    by (simp add: AcquireLock_def NewJobStore_def)
  from job_lock_exclusive [OF this, of "[(5, Acquire ''j'' ''b'' 30)]"] show ?thesis
    by (cases "run_lock_ops AcquireLock (\<lambda>s k w. fst (ReleaseLock s k w))
          [(5, Acquire ''j'' ''b'' 30)] (fst (AcquireLock 0 NewJobStore ''j'' ''a'' 30))")
       (auto simp: list_all2_Cons1)
qed

end
