(* ===== verification/Job_Scheduler.thy ===== *)
theory Job_Scheduler
  imports Job_Store
begin

text \<open>
  The priority scheduler of \<^verbatim>\<open>internal/worker/scheduler.go\<close>: weighted round-robin over the
  lanes with a starvation guard (\<^verbatim>\<open>Next\<close>, \<^verbatim>\<open>tryLane\<close>, \<^verbatim>\<open>pickHighestPriority\<close>, \<^verbatim>\<open>laneForIdx\<close>),
  the setters, and the creation of charge, invoice and reminder jobs.
\<close>

section \<open>State and settings\<close>

record Scheduler =
  sch_counter :: int
  sch_weights :: "(Priority \<times> int) list"
  sch_totalWeight :: int
  sch_starvationCount :: int
  sch_starvationLimit :: int

definition recalcWeight :: "Scheduler \<Rightarrow> Scheduler" where
  "recalcWeight s = s\<lparr>sch_totalWeight := sum_list (map snd (sch_weights s))\<rparr>"

definition NewScheduler :: Scheduler where
  "NewScheduler =
     recalcWeight \<lparr>sch_counter = 0, sch_weights = DefaultLaneWeights, sch_totalWeight = 0,
                   sch_starvationCount = 0, sch_starvationLimit = 10\<rparr>"

definition SetWeights :: "Scheduler \<Rightarrow> (Priority \<times> int) list \<Rightarrow> Scheduler" where
  "SetWeights s w = recalcWeight (s\<lparr>sch_weights := w\<rparr>)"

definition SetStarvationLimit :: "Scheduler \<Rightarrow> int \<Rightarrow> Scheduler" where
  "SetStarvationLimit s n = s\<lparr>sch_starvationLimit := n\<rparr>"

text \<open>Reading an absent key of a \<^verbatim>\<open>map[Priority]int\<close> gives 0.\<close>

definition lane_weight :: "Scheduler \<Rightarrow> Priority \<Rightarrow> int" where
  "lane_weight s p = (case map_of (sch_weights s) p of None \<Rightarrow> 0 | Some w \<Rightarrow> w)"

section \<open>Picking the next job\<close>

fun lane_scan :: "Scheduler \<Rightarrow> int \<Rightarrow> int \<Rightarrow> Priority list \<Rightarrow> Priority" where
  "lane_scan s idx cumulative [] = PriorityNormal"
| "lane_scan s idx cumulative (p # ps) =
     (let c = cumulative + lane_weight s p in if idx < c then p else lane_scan s idx c ps)"

definition laneForIdx :: "Scheduler \<Rightarrow> int \<Rightarrow> bool \<Rightarrow> Priority" where
  "laneForIdx s idx forceLow = (if forceLow then PriorityLow else lane_scan s idx 0 laneOrder)"

text \<open>\<^verbatim>\<open>lane\<close> is the store's \<^verbatim>\<open>ListPendingByPriority(p, 1)\<close>.\<close>

type_synonym lane_query = "Priority \<Rightarrow> (string, Job list) result"

definition tryLane :: "lane_query \<Rightarrow> Priority \<Rightarrow> (string, Job option) result" where
  "tryLane lane p =
     (case lane p of
        Inl e \<Rightarrow> Inl e
      | Inr js \<Rightarrow> Inr (case js of [] \<Rightarrow> None | j # _ \<Rightarrow> Some j))"

fun pick_first :: "lane_query \<Rightarrow> Priority list \<Rightarrow> (string, Job option) result" where
  "pick_first lane [] = Inr None"
| "pick_first lane (p # ps) =
     (case lane p of
        Inl e \<Rightarrow> Inl e
      | Inr [] \<Rightarrow> pick_first lane ps
      | Inr (j # _) \<Rightarrow> Inr (Some j))"

definition pickHighestPriority :: "lane_query \<Rightarrow> (string, Job option) result" where
  "pickHighestPriority lane = pick_first lane laneOrder"

text \<open>The lane the next call of \<^verbatim>\<open>Next\<close> turns to first; Go's remainder takes the sign of the counter.\<close>

definition next_lane :: "Scheduler \<Rightarrow> Priority" where
  "next_lane s =
     (let tw = (if sch_totalWeight s = 0 then 1 else sch_totalWeight s);
          idx = sch_counter s mod \<bar>tw\<bar>;
          forceLow = sch_starvationCount s \<ge> sch_starvationLimit s
      in laneForIdx s idx forceLow)"

definition Next :: "lane_query \<Rightarrow> Scheduler \<Rightarrow> Scheduler \<times> (string, Job option) result" where
  "Next lane s =
     (let p = next_lane s;
          s1 = s\<lparr>sch_counter := sch_counter s + 1\<rparr>
      in case tryLane lane p of
           Inl e \<Rightarrow> (s1, Inl e)
         | Inr (Some job) \<Rightarrow>
             (s1\<lparr>sch_starvationCount := (if p \<noteq> PriorityLow then sch_starvationCount s + 1 else 0)\<rparr>,
              Inr (Some job))
         | Inr None \<Rightarrow> (s1, pickHighestPriority lane))"

section \<open>Creating jobs\<close>

definition generateJobID :: "(int \<Rightarrow> string) \<Rightarrow> string \<Rightarrow> time \<Rightarrow> string" where
  "generateJobID decimal jobType now = jobType @ ''-'' @ decimal now"

definition jobBase ::
  "(int \<Rightarrow> string) \<Rightarrow> time \<Rightarrow> string \<Rightarrow> string \<Rightarrow> time \<Rightarrow> nat \<Rightarrow> Priority \<Rightarrow> Job" where
  "jobBase decimal now jobType subscriptionID scheduledAt maxAttempts priority =
     \<lparr>job_ID = generateJobID decimal jobType now, job_SubscriptionID = subscriptionID, job_Type = jobType,
      job_Status = JobPending, job_Priority = priority, job_ScheduledAt = scheduledAt,
      job_StartedAt = None, job_CompletedAt = None, job_Attempts = 0, job_MaxAttempts = maxAttempts,
      job_LastError = [], job_Payload = None, job_CreatedAt = Some now, job_UpdatedAt = Some now,
      job_ParentTraceID = []\<rparr>"

text \<open>
  \<^verbatim>\<open>ScheduleCharge\<close>, \<^verbatim>\<open>ScheduleInvoice\<close> and \<^verbatim>\<open>ScheduleReminder\<close> differ in the job type only; the
  clock is read once for the job and again by the store.
\<close>

definition schedule_job ::
  "(int \<Rightarrow> string) \<Rightarrow> time \<Rightarrow> time \<Rightarrow> MemoryStore \<Rightarrow> string \<Rightarrow> string \<Rightarrow> time \<Rightarrow> nat \<Rightarrow> Priority \<Rightarrow>
   MemoryStore \<times> (store_error, Job) result" where
  "schedule_job decimal now now' s jobType subscriptionID scheduledAt maxAttempts priority =
     (let job = jobBase decimal now jobType subscriptionID scheduledAt maxAttempts priority
      in case Create now' s job of
           (s1, Some e) \<Rightarrow> (s1, Inl e)
         | (s1, None) \<Rightarrow> (s1, Inr job))"

definition ScheduleCharge where
  "ScheduleCharge decimal now now' s = schedule_job decimal now now' s ''charge''"

definition ScheduleInvoice where
  "ScheduleInvoice decimal now now' s = schedule_job decimal now now' s ''invoice''"

definition ScheduleReminder where
  "ScheduleReminder decimal now now' s = schedule_job decimal now now' s ''reminder''"

section \<open>What the scheduler needs of a store\<close>

text \<open>
  A lane offers nothing exactly when no job of it is eligible, otherwise one eligible job
  that is scheduled no later than the others.
\<close>

locale lane_store =
  fixes offer :: "'s \<Rightarrow> Priority \<Rightarrow> Job list"
    and eligible :: "'s \<Rightarrow> Priority \<Rightarrow> Job set"
  assumes offer_empty: "offer s p = [] \<longleftrightarrow> eligible s p = {}"
    and offer_one: "offer s p = j # js \<Longrightarrow>
        js = [] \<and> j \<in> eligible s p \<and> (\<forall>j' \<in> eligible s p. job_ScheduledAt j \<le> job_ScheduledAt j')"
begin

definition query :: "'s \<Rightarrow> lane_query" where
  "query s p = Inr (offer s p)"

lemma pick_first_result:
  "pick_first (query s) ps = Inr res \<Longrightarrow>
     (case res of
        None \<Rightarrow> \<forall>p \<in> set ps. eligible s p = {}
      | Some j \<Rightarrow> \<exists>p \<in> set ps. j \<in> eligible s p
          \<and> (\<forall>j' \<in> eligible s p. job_ScheduledAt j \<le> job_ScheduledAt j'))"
proof (induction ps)
  case (Cons p ps)
  show ?case
  proof (cases "offer s p")
    case Nil
    then show ?thesis
      using Cons offer_empty [of s p] by (auto simp: query_def split: option.splits)
  next
    case (Cons j js)
    then show ?thesis
      using Cons.prems offer_one [OF Cons] by (auto simp: query_def)
  qed
qed simp

lemma pick_first_ok: "\<exists>res. pick_first (query s) ps = Inr res"
  by (induction ps) (auto simp: query_def split: list.splits)

lemma laneForIdx_range: "laneForIdx sch idx f \<in> set laneOrder"
  by (simp add: laneForIdx_def laneOrder_def Let_def)

lemma Next_result:
  assumes "Next (query s) sch = (sch', Inr res)"
  shows "case res of
        None \<Rightarrow> \<forall>p \<in> set laneOrder. eligible s p = {}
      | Some j \<Rightarrow> \<exists>p \<in> set laneOrder. j \<in> eligible s p
          \<and> (\<forall>j' \<in> eligible s p. job_ScheduledAt j \<le> job_ScheduledAt j')"
proof (cases "offer s (next_lane sch)")
  case Nil
  then have "pick_first (query s) laneOrder = Inr res"
    using assms by (simp add: Next_def tryLane_def query_def Let_def pickHighestPriority_def)
  then show ?thesis
    by (rule pick_first_result)
next
  case (Cons j js)
  then have "res = Some j"
    using assms by (simp add: Next_def tryLane_def query_def Let_def)
  moreover have "next_lane sch \<in> set laneOrder"
    by (simp add: next_lane_def Let_def laneForIdx_range)
  ultimately show ?thesis
    using offer_one [OF Cons] by auto
qed

lemma Next_ok: "\<exists>sch' res. Next (query s) sch = (sch', Inr res)"
  using pick_first_ok [of s laneOrder]
  by (cases "offer s (next_lane sch)")
     (auto simp: Next_def tryLane_def query_def Let_def pickHighestPriority_def)

lemma Next_none_iff:
  "snd (Next (query s) sch) = Inr None \<longleftrightarrow> (\<forall>p \<in> set laneOrder. eligible s p = {})"
proof -
  obtain sch' res where r: "Next (query s) sch = (sch', Inr res)"
    using Next_ok by blast
  show ?thesis
    using Next_result [OF r] r by (cases res) auto
qed

end

interpretation mem_lanes: lane_store "\<lambda>(now, s) p. ListPendingByPriority now s p 1"
    "\<lambda>(now, s) p. set (lane_jobs now s p)"
proof unfold_locales
  fix s p
  show "(case s of (now, s) \<Rightarrow> \<lambda>p. ListPendingByPriority now s p 1) p = [] \<longleftrightarrow>
      (case s of (now, s) \<Rightarrow> \<lambda>p. set (lane_jobs now s p)) p = {}"
    unfolding split_beta lane_head by simp
next
  fix s p j js
  assume a: "(case s of (now, s) \<Rightarrow> \<lambda>p. ListPendingByPriority now s p 1) p = j # js"
  then have "js = []" "ListPendingByPriority (fst s) (snd s) p 1 = [j]"
    unfolding split_beta lane_head by (auto split: if_splits)
  then show "js = [] \<and> j \<in> (case s of (now, s) \<Rightarrow> \<lambda>p. set (lane_jobs now s p)) p \<and>
      (\<forall>j' \<in> (case s of (now, s) \<Rightarrow> \<lambda>p. set (lane_jobs now s p)) p. job_ScheduledAt j \<le> job_ScheduledAt j')"
    using lane_head_earliest [of "fst s" "snd s" p j] unfolding split_beta by blast
qed

definition store_lanes :: "time \<Rightarrow> MemoryStore \<Rightarrow> lane_query" where
  "store_lanes now s p = Inr (ListPendingByPriority now s p 1)"

lemma store_lanes_query: "store_lanes now s = mem_lanes.query (now, s)"
  by (simp only: fun_eq_iff store_lanes_def mem_lanes.query_def prod.case) simp

section \<open>Properties\<close>

text \<open>
  C24: \<^verbatim>\<open>Next\<close> is work-conserving over the three lanes: it returns no job exactly when no
  stored job of high, normal or low priority is due; otherwise it returns a stored
  due job of one of these lanes that is scheduled no later than any other due job
  of its lane.
\<close>

theorem next_work_conserving:
  assumes "job_inv s" "Next (store_lanes now s) sch = (sch', res)"
  shows "(res = Inr None \<longleftrightarrow>
            (\<forall>i j. map_of (jobs s) i = Some j \<longrightarrow> due now j \<longrightarrow> job_Priority j \<notin> set laneOrder))
    \<and> (res \<noteq> Inr None \<longrightarrow>
        (\<exists>j. res = Inr (Some j) \<and> map_of (jobs s) (job_ID j) = Some j \<and> due now j
           \<and> job_Priority j \<in> set laneOrder
           \<and> (\<forall>i j'. map_of (jobs s) i = Some j' \<longrightarrow> due now j' \<longrightarrow> job_Priority j' = job_Priority j
                \<longrightarrow> job_ScheduledAt j \<le> job_ScheduledAt j')))"
proof -
  obtain r where r: "res = Inr r"
    using mem_lanes.Next_ok [of "(now, s)" sch] assms(2) by (auto simp: store_lanes_query)
  have lane: "j \<in> set (lane_jobs now s p) \<longleftrightarrow>
      map_of (jobs s) (job_ID j) = Some j \<and> job_Priority j = p \<and> due now j" for j p
    using lane_jobs_iff [OF assms(1)] .
  have stored: "map_of (jobs s) (job_ID j) = Some j" if "map_of (jobs s) i = Some j" for i j
    using job_stored_key [OF assms(1) that] that by simp
  note res = mem_lanes.Next_result [OF assms(2) [unfolded store_lanes_query r], unfolded prod.case]
  show ?thesis
  proof (cases r)
    case None
    then have "\<forall>p \<in> set laneOrder. lane_jobs now s p = []"
      using res by simp
    then have "job_Priority j \<notin> set laneOrder" if "map_of (jobs s) i = Some j" "due now j" for i j
      using lane [of j "job_Priority j"] stored [OF that(1)] that(2) by auto
    then show ?thesis
      using r None by auto
  next
    case (Some j)
    then obtain p where p: "p \<in> set laneOrder" "j \<in> set (lane_jobs now s p)"
        "\<forall>j' \<in> set (lane_jobs now s p). job_ScheduledAt j \<le> job_ScheduledAt j'"
      using res by auto
    then have j: "map_of (jobs s) (job_ID j) = Some j" "job_Priority j = p" "due now j"
      using lane by simp_all
    have "job_ScheduledAt j \<le> job_ScheduledAt j'"
      if "map_of (jobs s) i = Some j'" "due now j'" "job_Priority j' = job_Priority j" for i j'
      using p(3) lane [of j' p] stored [OF that(1)] that(2,3) j(2) by simp
    then show ?thesis
      using r Some j p(1) by auto
  qed
qed

lemma next_work_conserving_witness:
  "snd (Next (store_lanes 7 NewJobStore) NewScheduler) = Inr None"
  using next_work_conserving [OF job_inv_New, of 7 NewScheduler]
  by (cases "Next (store_lanes 7 NewJobStore) NewScheduler") (simp add: NewJobStore_def)

lemma lane_scan_in:
  "\<lbrakk>d \<le> i; i < d + sum_list (map (lane_weight s) ps)\<rbrakk> \<Longrightarrow> lane_scan s i d ps \<in> set ps"
  by (induction ps arbitrary: d) (auto simp: Let_def)

lemma count_lane_scan:
  assumes "distinct ps" "\<forall>p \<in> set ps. 0 \<le> lane_weight s p" "p \<in> set ps"
  shows "card {i. c \<le> i \<and> i < c + sum_list (map (lane_weight s) ps) \<and> lane_scan s i c ps = p} =
           nat (lane_weight s p)"
  using assms
proof (induction ps arbitrary: c)
  case (Cons q ps)
  let ?w = "lane_weight s q"
  have nonneg: "0 \<le> sum_list (map (lane_weight s) ps)"
    using Cons.prems(2) by (intro sum_list_nonneg) auto
  show ?case
  proof (cases "p = q")
    case True
    have "i < c + ?w" if "lane_scan s i (c + ?w) ps = q" "i < c + ?w + sum_list (map (lane_weight s) ps)" for i
      using lane_scan_in [of "c + ?w" i s ps] that Cons.prems(1) by (cases "c + ?w \<le> i") auto
    then have "{i. c \<le> i \<and> i < c + sum_list (map (lane_weight s) (q # ps)) \<and> lane_scan s i c (q # ps) = q} = {c..<c + ?w}"
      using nonneg by (auto simp: Let_def add.assoc [symmetric] not_less split: if_splits)
    then show ?thesis
      using True by simp
  next
    case False
    then have "{i. c \<le> i \<and> i < c + sum_list (map (lane_weight s) (q # ps)) \<and> lane_scan s i c (q # ps) = p} =
        {i. c + ?w \<le> i \<and> i < c + ?w + sum_list (map (lane_weight s) ps) \<and> lane_scan s i (c + ?w) ps = p}"
      using Cons.prems by (auto simp: Let_def)
    then show ?thesis
      using Cons.IH [of "c + ?w"] Cons.prems False by simp
  qed
qed simp

text \<open>
  Over one round of indices below the total weight, the weighted selection turns to
  each of the three lanes exactly as often as the lane's weight says, for weights
  given for these lanes only and none negative.
\<close>

theorem weighted_lane_shares:
  assumes "map fst (sch_weights s) = laneOrder" "\<forall>(p, w) \<in> set (sch_weights s). 0 \<le> w"
    and "p \<in> set laneOrder"
  shows "card {i. 0 \<le> i \<and> i < sch_totalWeight (recalcWeight s) \<and> laneForIdx s i False = p} =
           nat (lane_weight s p)"
proof -
  obtain a b c where w: "sch_weights s = [(PriorityHigh, a), (PriorityNormal, b), (PriorityLow, c)]"
    using assms(1) by (auto simp: laneOrder_def map_eq_Cons_conv)
  have "map snd (sch_weights s) = map (lane_weight s) laneOrder"
    by (simp add: w lane_weight_def laneOrder_def PriorityHigh_def PriorityNormal_def PriorityLow_def)
  then have "sch_totalWeight (recalcWeight s) = 0 + sum_list (map (lane_weight s) laneOrder)"
    by (simp add: recalcWeight_def)
  moreover have "distinct laneOrder" "\<forall>p \<in> set laneOrder. 0 \<le> lane_weight s p"
    using assms(2)
    by (simp_all add: w lane_weight_def laneOrder_def PriorityHigh_def PriorityNormal_def PriorityLow_def)
  ultimately show ?thesis
    using count_lane_scan [of laneOrder s p 0] assms(3) by (simp only: laneForIdx_def if_False)
qed

lemma weighted_lane_shares_witness:
  "card {i. 0 \<le> i \<and> i < sch_totalWeight (recalcWeight NewScheduler) \<and> laneForIdx NewScheduler i False = PriorityHigh} = 3"
proof -
  have "sch_weights NewScheduler = DefaultLaneWeights"
    by (simp add: NewScheduler_def recalcWeight_def)
  then show ?thesis
    using weighted_lane_shares [of NewScheduler PriorityHigh]
    by (simp add: DefaultLaneWeights_def laneOrder_def lane_weight_def)
qed

text \<open>
  Repeated calls against lanes whose offers may change between calls: the jobs returned
  by \<^verbatim>\<open>n\<close> calls, the \<^verbatim>\<open>k\<close>-th of them against \<^verbatim>\<open>lanes k\<close>.
\<close>

fun next_calls :: "(nat \<Rightarrow> lane_query) \<Rightarrow> nat \<Rightarrow> Scheduler \<Rightarrow> Scheduler \<times> (string, Job option) result list" where
  "next_calls lanes 0 s = (s, [])"
| "next_calls lanes (Suc n) s =
     (case next_calls lanes n s of (s1, rs) \<Rightarrow>
        case Next (lanes n) s1 of (s2, r) \<Rightarrow> (s2, rs @ [r]))"

definition all_lanes_busy :: "lane_query \<Rightarrow> bool" where
  "all_lanes_busy lane =
     (\<forall>p \<in> set laneOrder. \<exists>j js. lane p = Inr (j # js) \<and> job_Priority j = p)"

definition picked_low :: "(string, Job option) result \<Rightarrow> bool" where
  "picked_low r = (case r of Inr (Some j) \<Rightarrow> job_Priority j = PriorityLow | _ \<Rightarrow> False)"

lemma next_lane_range: "next_lane s \<in> set laneOrder"
  by (simp add: next_lane_def Let_def laneForIdx_def laneOrder_def)

lemma Next_busy:
  assumes "all_lanes_busy lane" "Next lane s = (s', r)"
  shows "sch_starvationLimit s' = sch_starvationLimit s"
    and "picked_low r \<longleftrightarrow> next_lane s = PriorityLow"
    and "sch_starvationCount s' = (if picked_low r then 0 else sch_starvationCount s + 1)"
proof -
  obtain j js where "lane (next_lane s) = Inr (j # js)" "job_Priority j = next_lane s"
    using assms(1) next_lane_range [of s] by (auto simp: all_lanes_busy_def)
  then show "sch_starvationLimit s' = sch_starvationLimit s"
      "picked_low r \<longleftrightarrow> next_lane s = PriorityLow"
      "sch_starvationCount s' = (if picked_low r then 0 else sch_starvationCount s + 1)"
    using assms(2) by (auto simp: Next_def tryLane_def Let_def picked_low_def)
qed

lemma next_calls_starvation:
  assumes "\<forall>k < n. all_lanes_busy (lanes k)" "next_calls lanes n s = (s', rs)" "\<not> list_ex picked_low rs"
  shows "sch_starvationCount s' = sch_starvationCount s + int n \<and> sch_starvationLimit s' = sch_starvationLimit s"
  using assms
proof (induction n arbitrary: s' rs)
  case (Suc n)
  obtain s1 rs1 r where c: "next_calls lanes n s = (s1, rs1)" "Next (lanes n) s1 = (s', r)" "rs = rs1 @ [r]"
    using Suc.prems(2) by (auto split: prod.splits)
  have "\<not> list_ex picked_low rs1" "\<not> picked_low r"
    using Suc.prems(3) c(3) by auto
  then show ?case
    using Suc.IH [OF _ c(1)] Next_busy [OF _ c(2)] Suc.prems(1) by auto
qed simp

text \<open>
  C38: While every lane keeps offering work, the starvation guard keeps the low lane
  served: among any \<^verbatim>\<open>starvationLimit + 1\<close> consecutive calls, started with a starvation count
  that is not negative, at least one returns a low-priority job, whatever the weights.
\<close>

theorem low_lane_served:
  assumes "\<forall>k. all_lanes_busy (lanes k)" "0 \<le> sch_starvationCount s" "0 \<le> sch_starvationLimit s"
    and "next_calls lanes (nat (sch_starvationLimit s) + 1) s = (s', rs)"
  shows "list_ex picked_low rs"
proof (rule ccontr)
  assume no: "\<not> list_ex picked_low rs"
  obtain s1 rs1 r where c: "next_calls lanes (nat (sch_starvationLimit s)) s = (s1, rs1)"
      "Next (lanes (nat (sch_starvationLimit s))) s1 = (s', r)" "rs = rs1 @ [r]"
    using assms(4) by (auto split: prod.splits)
  have "sch_starvationCount s1 \<ge> sch_starvationLimit s1"
    using next_calls_starvation [OF _ c(1)] assms(1-3) no c(3) by auto
  then have "next_lane s1 = PriorityLow"
    by (simp add: next_lane_def Let_def laneForIdx_def)
  then have "picked_low r"
    using Next_busy(2) [OF _ c(2)] assms(1) by simp
  then show False
    using no c(3) by simp
qed

definition sample_job :: "Priority \<Rightarrow> Job" where
  "sample_job p = jobBase (\<lambda>_. ''1'') 0 ''charge'' ''s1'' 0 3 p"

lemma low_lane_served_witness:
  "list_ex picked_low (snd (next_calls (\<lambda>k p. Inr [sample_job p]) (nat 10 + 1) NewScheduler))"
proof -
  have "sch_starvationLimit NewScheduler = 10" "sch_starvationCount NewScheduler = 0"
    by (simp_all add: NewScheduler_def recalcWeight_def)
  then show ?thesis
    using low_lane_served [of "\<lambda>k p. Inr [sample_job p]" NewScheduler]
    by (cases "next_calls (\<lambda>k p. Inr [sample_job p]) (nat 10 + 1) NewScheduler")
       (simp add: all_lanes_busy_def sample_job_def jobBase_def)
qed

text \<open>
  Work taken over by the fallback does not count towards the starvation guard.  With all
  the weight on a high lane that is empty, every call falls back to the normal lane
  and leaves the starvation count as it was, so jobs of the low lane are never
  picked, however many calls are made.
\<close>

theorem fallback_starves_low_lane:
  assumes "sch_weights s = [(PriorityHigh, w)]" "0 < w" "sch_totalWeight s = w"
    and "sch_starvationCount s < sch_starvationLimit s"
    and "\<forall>k. lanes k PriorityHigh = Inr []"
    and "\<forall>k. \<exists>j js. lanes k PriorityNormal = Inr (j # js) \<and> job_Priority j = PriorityNormal"
    and "next_calls lanes n s = (s', rs)"
  shows "length rs = n \<and> \<not> list_ex picked_low rs
    \<and> list_all (\<lambda>r. \<exists>j. r = Inr (Some j) \<and> job_Priority j = PriorityNormal) rs
    \<and> sch_starvationCount s' = sch_starvationCount s"
proof -
  have "length rs = n \<and> list_all (\<lambda>r. \<exists>j. r = Inr (Some j) \<and> job_Priority j = PriorityNormal) rs
      \<and> sch_weights s' = sch_weights s \<and> sch_totalWeight s' = sch_totalWeight s
      \<and> sch_starvationCount s' = sch_starvationCount s \<and> sch_starvationLimit s' = sch_starvationLimit s"
    using assms(7)
  proof (induction n arbitrary: s' rs)
    case (Suc n)
    obtain s1 rs1 r where c: "next_calls lanes n s = (s1, rs1)" "Next (lanes n) s1 = (s', r)" "rs = rs1 @ [r]"
      using Suc.prems by (auto split: prod.splits)
    note IH = Suc.IH [OF c(1)]
    have "sch_counter s1 mod w < w"
      using assms(2) by simp
    then have lane: "next_lane s1 = PriorityHigh"
      using IH assms(1-4)
      by (simp add: next_lane_def Let_def laneForIdx_def laneOrder_def lane_weight_def)
    obtain j js where "lanes n PriorityNormal = Inr (j # js)" "job_Priority j = PriorityNormal"
      using assms(6) by blast
    then show ?case
      using IH c(2,3) assms(5)
      by (auto simp: Next_def lane tryLane_def pickHighestPriority_def laneOrder_def Let_def)
  qed simp
  then show ?thesis
    by (auto simp: list_ex_iff list_all_iff picked_low_def PriorityNormal_def PriorityLow_def)
qed

lemma fallback_starves_low_lane_witness:
  "\<not> list_ex picked_low (snd (next_calls (\<lambda>k p. Inr (if p = PriorityHigh then [] else [sample_job p])) 100
     (SetWeights NewScheduler [(PriorityHigh, 1)])))"
proof -
  let ?s = "SetWeights NewScheduler [(PriorityHigh, 1)]"
  let ?lanes = "\<lambda>(k :: nat) p. Inr (if p = PriorityHigh then [] else [sample_job p]) :: (string, Job list) result"
  obtain s' rs where c: "next_calls ?lanes 100 ?s = (s', rs)"
    by fastforce
  have "\<not> list_ex picked_low rs"
    using fallback_starves_low_lane [of ?s 1 ?lanes 100 s' rs] c
    by (simp add: SetWeights_def recalcWeight_def NewScheduler_def sample_job_def jobBase_def
        PriorityHigh_def PriorityNormal_def)
  then show ?thesis
    using c by simp
qed

end
