(* ===== verification/Job_Worker.thy ===== *)
theory Job_Worker
  imports Job_Scheduler
begin

text \<open>
  The billing worker of \<^verbatim>\<open>internal/worker/worker.go\<close> and its executor (\<^verbatim>\<open>executor.go\<close>): running one
  job with its outcome, retry and dead-letter handling, and the dispatch loop whose
  goroutines interleave with it.  Metrics are the worker's four counters.
\<close>

section \<open>Configuration and executor\<close>

record Config =
  cfg_WorkerID :: string
  cfg_PollInterval :: duration
  cfg_LockTTL :: duration
  cfg_MaxAttempts :: nat
  cfg_BatchSize :: nat
  cfg_MaxConcurrency :: nat
  cfg_MaxQueueDepth :: nat

definition DefaultConfig :: "string \<Rightarrow> Config" where
  "DefaultConfig workerID =
     \<lparr>cfg_WorkerID = workerID, cfg_PollInterval = 5 * Second, cfg_LockTTL = 30 * Second,
      cfg_MaxAttempts = 3, cfg_BatchSize = 10, cfg_MaxConcurrency = 10, cfg_MaxQueueDepth = 1000\<rparr>"

record Metrics =
  m_Processed :: int
  m_Succeeded :: int
  m_Failed :: int
  m_DeadLettered :: int

text \<open>
  \<^verbatim>\<open>BillingExecutor.Execute\<close>: each known job type waits for its timer unless the context ends
  first (\<^verbatim>\<open>ctxErr\<close>); the error is \<^verbatim>\<open>None\<close> on success.
\<close>

definition BillingExecutor_Execute :: "string option \<Rightarrow> Job \<Rightarrow> string option" where
  "BillingExecutor_Execute ctxErr job =
     (if job_Type job \<in> {''charge'', ''invoice'', ''reminder''} then ctxErr
      else Some (''unknown job type: '' @ job_Type job))"

section \<open>Running one job\<close>

definition handleJobSuccess :: "time \<Rightarrow> MemoryStore \<times> Metrics \<Rightarrow> Job \<Rightarrow> MemoryStore \<times> Metrics" where
  "handleJobSuccess now sm job =
     (case sm of (s, m) \<Rightarrow>
        let job1 = job\<lparr>job_Status := JobCompleted, job_CompletedAt := Some now, job_LastError := []\<rparr>
        in case Update now s job1 of
             (s1, Some _) \<Rightarrow> (s1, m)
           | (s1, None) \<Rightarrow> (s1, m\<lparr>m_Succeeded := m_Succeeded m + 1\<rparr>))"

definition handleJobFailure ::
  "Config \<Rightarrow> time \<Rightarrow> MemoryStore \<times> Metrics \<Rightarrow> Job \<Rightarrow> string \<Rightarrow> MemoryStore \<times> Metrics" where
  "handleJobFailure cfg now sm job execErr =
     (case sm of (s, m) \<Rightarrow>
        let job0 = job\<lparr>job_LastError := execErr\<rparr>
        in if job_Attempts job0 \<ge> cfg_MaxAttempts cfg
           then (fst (Update now s (job0\<lparr>job_Status := JobDeadLetter, job_CompletedAt := Some now\<rparr>)),
                 m\<lparr>m_DeadLettered := m_DeadLettered m + 1\<rparr>)
           else (fst (Update now s
                   (job0\<lparr>job_Status := JobPending,
                         job_ScheduledAt := now + int (job_Attempts job0 * job_Attempts job0) * Second\<rparr>)),
                 m\<lparr>m_Failed := m_Failed m + 1\<rparr>))"

text \<open>
  \<^verbatim>\<open>executeJob\<close> up to the call of the executor (\<^verbatim>\<open>None\<close> when the update fails and the job is
  given up), and from the executor's answer to the deferred release of the lock.
\<close>

definition start_job ::
  "Config \<Rightarrow> time \<Rightarrow> MemoryStore \<times> Metrics \<Rightarrow> Job \<Rightarrow> (MemoryStore \<times> Metrics) \<times> Job option" where
  "start_job cfg now sm job =
     (case sm of (s, m) \<Rightarrow>
        let m1 = m\<lparr>m_Processed := m_Processed m + 1\<rparr>;
            job1 = job\<lparr>job_Status := JobRunning, job_Attempts := job_Attempts job + 1,
                       job_StartedAt := Some now\<rparr>
        in case Update now s job1 of
             (s1, Some _) \<Rightarrow> ((fst (ReleaseLock s1 (job_ID job) (cfg_WorkerID cfg)), m1), None)
           | (s1, None) \<Rightarrow> ((s1, m1), Some job1))"

definition finish_job ::
  "Config \<Rightarrow> time \<Rightarrow> MemoryStore \<times> Metrics \<Rightarrow> Job \<Rightarrow> string option \<Rightarrow> MemoryStore \<times> Metrics" where
  "finish_job cfg now sm job err =
     (case (case err of
              Some e \<Rightarrow> handleJobFailure cfg now sm job e
            | None \<Rightarrow> handleJobSuccess now sm job) of
        (s, m) \<Rightarrow> (fst (ReleaseLock s (job_ID job) (cfg_WorkerID cfg)), m))"

definition executeJob ::
  "Config \<Rightarrow> (Job \<Rightarrow> string option) \<Rightarrow> time \<Rightarrow> time \<Rightarrow> MemoryStore \<times> Metrics \<Rightarrow> Job \<Rightarrow> MemoryStore \<times> Metrics" where
  "executeJob cfg exec now now' sm job =
     (case start_job cfg now sm job of
        (sm1, None) \<Rightarrow> sm1
      | (sm1, Some job1) \<Rightarrow> finish_job cfg now' sm1 job1 (exec job1))"

section \<open>The dispatch loop and its goroutines\<close>

text \<open>
  The state that a set of workers shares and keeps: the clock and the store; for each
  worker its scheduler, the rounds left in its current poll and the job its loop is
  working on (with whether its lock is acquired); the goroutines spawned and not yet
  started, those whose executor is running, and the ids of the jobs handed to an
  executor so far.
\<close>

record dispatch_state =
  ds_now :: time
  ds_store :: "MemoryStore \<times> Metrics"
  ds_sched :: "string \<Rightarrow> Scheduler"
  ds_left :: "string \<Rightarrow> nat"
  ds_picked :: "string \<Rightarrow> (Job \<times> bool) option"
  ds_spawned :: "(string \<times> Job) list"
  ds_running :: "(string \<times> Job) list"
  ds_executed :: "string list"

definition goroutines :: "dispatch_state \<Rightarrow> string \<Rightarrow> nat" where
  "goroutines d w = length (filter (\<lambda>(v, _). v = w) (ds_spawned d @ ds_running d))"

text \<open>
  The steps of \<^verbatim>\<open>pollAndDispatch\<close> (begin a poll unless the queue is too deep, pick, lock, spawn
  once the semaphore has room) and of the goroutine running \<^verbatim>\<open>executeJob\<close> (start, finish), for
  workers that run with the configuration \<^verbatim>\<open>cfg w\<close>.
\<close>

inductive dispatch_step :: "(string \<Rightarrow> Config) \<Rightarrow> dispatch_state \<Rightarrow> dispatch_state \<Rightarrow> bool" for cfg where
  tick: "ds_now d \<le> t \<Longrightarrow> dispatch_step cfg d (d\<lparr>ds_now := t\<rparr>)"
| poll: "\<lbrakk>ds_left d w = 0; ds_picked d w = None;
          QueueDepth (ds_now d) (fst (ds_store d)) \<le> cfg_MaxQueueDepth (cfg w)\<rbrakk>
    \<Longrightarrow> dispatch_step cfg d (d\<lparr>ds_left := (ds_left d)(w := cfg_BatchSize (cfg w))\<rparr>)"
| pick: "\<lbrakk>ds_left d w = Suc n; ds_picked d w = None;
          Next (store_lanes (ds_now d) (fst (ds_store d))) (ds_sched d w) = (sch, Inr next)\<rbrakk>
    \<Longrightarrow> dispatch_step cfg d
          (d\<lparr>ds_sched := (ds_sched d)(w := sch),
             ds_left := (ds_left d)(w := (if next = None then 0 else n)),
             ds_picked := (ds_picked d)(w := map_option (\<lambda>j. (j, False)) next)\<rparr>)"
| lock: "\<lbrakk>ds_picked d w = Some (j, False);
          AcquireLock (ds_now d) (fst (ds_store d)) (job_ID j) (cfg_WorkerID (cfg w)) (cfg_LockTTL (cfg w)) = (s, ok)\<rbrakk>
    \<Longrightarrow> dispatch_step cfg d
          (d\<lparr>ds_store := (s, snd (ds_store d)),
             ds_picked := (ds_picked d)(w := (if ok then Some (j, True) else None))\<rparr>)"
| spawn: "\<lbrakk>ds_picked d w = Some (j, True); goroutines d w < cfg_MaxConcurrency (cfg w)\<rbrakk>
    \<Longrightarrow> dispatch_step cfg d
          (d\<lparr>ds_picked := (ds_picked d)(w := None), ds_spawned := ds_spawned d @ [(w, j)]\<rparr>)"
| start: "\<lbrakk>ds_spawned d = xs @ (w, j) # ys;
           start_job (cfg w) (ds_now d) (ds_store d) j = (sm, started)\<rbrakk>
    \<Longrightarrow> dispatch_step cfg d
          (d\<lparr>ds_store := sm, ds_spawned := xs @ ys,
             ds_running := ds_running d @ (case started of None \<Rightarrow> [] | Some j1 \<Rightarrow> [(w, j1)]),
             ds_executed := ds_executed d @ (case started of None \<Rightarrow> [] | Some j1 \<Rightarrow> [job_ID j1])\<rparr>)"
| finish: "ds_running d = xs @ (w, j) # ys
    \<Longrightarrow> dispatch_step cfg d
          (d\<lparr>ds_store := finish_job (cfg w) (ds_now d) (ds_store d) j err, ds_running := xs @ ys\<rparr>)"

section \<open>Updates of a stored job\<close>

lemma Update_stored:
  assumes "map_of (jobs s) (job_ID j) \<noteq> None"
  shows "\<exists>s1. Update now s j = (s1, None) \<and> locks s1 = locks s
    \<and> map_of (jobs s1) = (map_of (jobs s))(job_ID j \<mapsto> j\<lparr>job_UpdatedAt := Some now\<rparr>)"
  using assms by (simp add: Update_def)

lemma ReleaseLock_jobs [simp]: "jobs (fst (ReleaseLock s i w)) = jobs s"
  by (simp add: ReleaseLock_def split: option.splits)

lemma executeJob_stored:
  assumes "map_of (jobs s) (job_ID j) \<noteq> None"
  shows "map_of (jobs (fst (executeJob cfg exec t t' (s, m) j))) (job_ID j) =
    Some (let j1 = j\<lparr>job_Status := JobRunning, job_Attempts := job_Attempts j + 1, job_StartedAt := Some t\<rparr>
          in case exec j1 of
               None \<Rightarrow> j1\<lparr>job_Status := JobCompleted, job_CompletedAt := Some t', job_LastError := [],
                          job_UpdatedAt := Some t'\<rparr>
             | Some e \<Rightarrow>
                 if job_Attempts j + 1 \<ge> cfg_MaxAttempts cfg
                 then j1\<lparr>job_LastError := e, job_Status := JobDeadLetter, job_CompletedAt := Some t',
                         job_UpdatedAt := Some t'\<rparr>
                 else j1\<lparr>job_LastError := e, job_Status := JobPending,
                         job_ScheduledAt := t' + int ((job_Attempts j + 1) * (job_Attempts j + 1)) * Second,
                         job_UpdatedAt := Some t'\<rparr>)"
  using assms
  by (simp add: executeJob_def start_job_def finish_job_def handleJobFailure_def handleJobSuccess_def
      Update_def Let_def split: option.splits prod.splits)

section \<open>Properties\<close>

text \<open>One execution of the stored copy of a job, and a series of failing ones (start, end, error).\<close>

definition execute_stored ::
  "Config \<Rightarrow> (Job \<Rightarrow> string option) \<Rightarrow> time \<Rightarrow> time \<Rightarrow> string \<Rightarrow> MemoryStore \<times> Metrics \<Rightarrow> MemoryStore \<times> Metrics" where
  "execute_stored cfg exec t t' i sm =
     (case Get (fst sm) i of Inl _ \<Rightarrow> sm | Inr j \<Rightarrow> executeJob cfg exec t t' sm j)"

fun run_failures ::
  "Config \<Rightarrow> string \<Rightarrow> (time \<times> time \<times> string) list \<Rightarrow> MemoryStore \<times> Metrics \<Rightarrow> MemoryStore \<times> Metrics" where
  "run_failures cfg i [] sm = sm"
| "run_failures cfg i ((t, t', e) # es) sm =
     run_failures cfg i es (execute_stored cfg (\<lambda>_. Some e) t t' i sm)"

lemma run_failures_snoc:
  "run_failures cfg i (es @ [(t, t', e)]) sm = execute_stored cfg (\<lambda>_. Some e) t t' i (run_failures cfg i es sm)"
  by (induction cfg i es sm rule: run_failures.induct) simp_all

lemma execute_stored_job:
  assumes "map_of (jobs (fst sm)) i = Some j" "job_ID j = i"
  shows "map_of (jobs (fst (execute_stored cfg exec t t' i sm))) i =
         map_of (jobs (fst (executeJob cfg exec t t' sm j))) (job_ID j)"
  using assms by (simp add: execute_stored_def Get_def)

lemma run_failures_attempts:
  assumes "map_of (jobs (fst sm)) i = Some j" "job_ID j = i"
  shows "\<exists>j'. map_of (jobs (fst (run_failures cfg i es sm))) i = Some j' \<and> job_ID j' = i
    \<and> job_Attempts j' = job_Attempts j + length es"
proof (induction es rule: rev_induct)
  case Nil
  then show ?case
    using assms by simp
next
  case (snoc x es)
  obtain t t' e where x: "x = (t, t', e)"
    by (cases x)
  obtain j' where j': "map_of (jobs (fst (run_failures cfg i es sm))) i = Some j'" "job_ID j' = i"
      "job_Attempts j' = job_Attempts j + length es"
    using snoc by blast
  obtain s1 m1 where sm1: "run_failures cfg i es sm = (s1, m1)"
    by fastforce
  show ?case
    using execute_stored_job [OF j'(1,2)] executeJob_stored [of s1 j' cfg "\<lambda>_. Some e" t t' m1] j' sm1
    by (simp add: x run_failures_snoc Let_def)
qed

text \<open>
  A job that keeps failing is retried after a backoff of the square of its attempts in
  seconds and becomes a dead letter at exactly the configured number of attempts,
  never earlier and never later.
\<close>

theorem failing_job_dead_letters:
  assumes "job_inv s" "map_of (jobs s) i = Some j" "job_Attempts j = 0"
    and "es = es' @ [(t, t', e)]" "length es \<le> cfg_MaxAttempts cfg"
  shows "\<exists>j'. map_of (jobs (fst (run_failures cfg i es (s, m)))) i = Some j'
    \<and> job_Attempts j' = length es \<and> job_LastError j' = e
    \<and> (if length es < cfg_MaxAttempts cfg
       then job_Status j' = JobPending \<and> job_ScheduledAt j' = t' + int (length es * length es) * Second
       else job_Status j' = JobDeadLetter \<and> job_CompletedAt j' = Some t')"
proof -
  have "job_ID j = i"
    using job_stored_key [OF assms(1,2)] .
  then obtain j1 where j1: "map_of (jobs (fst (run_failures cfg i es' (s, m)))) i = Some j1" "job_ID j1 = i"
      "job_Attempts j1 = length es'"
    using run_failures_attempts [of "(s, m)" i j cfg es'] assms(2,3) by auto
  obtain s1 m1 where sm1: "run_failures cfg i es' (s, m) = (s1, m1)"
    by fastforce
  show ?thesis
    using execute_stored_job [OF j1(1,2)] executeJob_stored [of s1 j1 cfg "\<lambda>_. Some e" t t' m1] j1 sm1 assms(5)
    by (simp add: assms(4) run_failures_snoc Let_def)
qed

lemma failing_job_dead_letters_witness:
  "\<exists>j'. map_of (jobs (fst (run_failures (DefaultConfig ''w'') ''charge-1'' [(1, 2, ''e1''), (3, 4, ''e2''), (5, 6, ''e3'')]
     (fst (Create 0 NewJobStore (sample_job PriorityHigh)), \<lparr>m_Processed = 0, m_Succeeded = 0, m_Failed = 0,
        m_DeadLettered = 0\<rparr>)))) ''charge-1'' = Some j' \<and> job_Status j' = JobDeadLetter"
proof -
  let ?s = "fst (Create 0 NewJobStore (sample_job PriorityHigh))"
  have "job_inv ?s"
    by (intro inv_intros)
  moreover have "\<exists>j. map_of (jobs ?s) ''charge-1'' = Some j \<and> job_Attempts j = 0"
    by (simp add: Create_def NewJobStore_def sample_job_def jobBase_def generateJobID_def)
  ultimately show ?thesis
    using failing_job_dead_letters [of ?s "''charge-1''" _ "[(1, 2, ''e1''), (3, 4, ''e2''), (5, 6, ''e3'')]"
        "[(1, 2, ''e1''), (3, 4, ''e2'')]" 5 6 "''e3''" "DefaultConfig ''w''"]
    by (fastforce simp: DefaultConfig_def)
qed

section \<open>Jobs that run twice\<close>

lemma Next_single:
  assumes "jobs s = [(job_ID j, j)]" "due now j" "job_Priority j \<in> set laneOrder"
  shows "\<exists>sch'. Next (store_lanes now s) sch = (sch', Inr (Some j))"
proof -
  have lanes: "lane_jobs now s p = (if job_Priority j = p then [j] else [])" for p
    using assms(1,2) by (simp add: lane_jobs_def)
  obtain sch' res where r: "Next (store_lanes now s) sch = (sch', Inr res)"
    using mem_lanes.Next_ok [of "(now, s)" sch] by (auto simp: store_lanes_query)
  show ?thesis
    using mem_lanes.Next_result [OF r [unfolded store_lanes_query], unfolded prod.case] r assms(3)
    by (cases res) (auto simp: lanes split: if_splits)
qed

definition idle_state :: "time \<Rightarrow> MemoryStore \<Rightarrow> dispatch_state" where
  "idle_state now s =
     \<lparr>ds_now = now, ds_store = (s, \<lparr>m_Processed = 0, m_Succeeded = 0, m_Failed = 0, m_DeadLettered = 0\<rparr>),
      ds_sched = (\<lambda>_. NewScheduler), ds_left = (\<lambda>_. 0), ds_picked = (\<lambda>_. None),
      ds_spawned = [], ds_running = [], ds_executed = []\<rparr>"

text \<open>Polling, picking, locking and spawning the only due job, as one run of steps.\<close>

lemma pick_single:
  assumes "jobs (fst (ds_store d)) = [(job_ID j, j)]" "due (ds_now d) j" "job_Priority j \<in> set laneOrder"
    and "ds_left d w = Suc n" "ds_picked d w = None"
  shows "\<exists>sch. dispatch_step cfg d
      (d\<lparr>ds_sched := (ds_sched d)(w := sch), ds_left := (ds_left d)(w := n),
         ds_picked := (ds_picked d)(w := Some (j, False))\<rparr>)"
proof -
  obtain sch where "Next (store_lanes (ds_now d) (fst (ds_store d))) (ds_sched d w) = (sch, Inr (Some j))"
    using Next_single [OF assms(1-3)] by blast
  from dispatch_step.pick [OF assms(4,5) this] show ?thesis
    by auto
qed

lemma claim_single:
  assumes "jobs (fst (ds_store d)) = [(job_ID j, j)]" "due (ds_now d) j" "job_Priority j \<in> set laneOrder"
    and "ds_left d w = Suc n" "ds_picked d w = None" "goroutines d w < cfg_MaxConcurrency (cfg w)"
    and "\<And>v e. lock_holder (fst (ds_store d)) (job_ID j) = Some (v, e) \<Longrightarrow> v = cfg_WorkerID (cfg w)"
  shows "\<exists>d'. (dispatch_step cfg)\<^sup>*\<^sup>* d d' \<and> jobs (fst (ds_store d')) = jobs (fst (ds_store d))
    \<and> lock_holder (fst (ds_store d')) (job_ID j) = Some (cfg_WorkerID (cfg w), ds_now d + cfg_LockTTL (cfg w))
    \<and> ds_now d' = ds_now d \<and> ds_left d' w = n \<and> ds_picked d' w = None
    \<and> ds_spawned d' = ds_spawned d @ [(w, j)] \<and> ds_running d' = ds_running d \<and> ds_executed d' = ds_executed d"
proof -
  obtain sch where pick: "dispatch_step cfg d
      (d\<lparr>ds_sched := (ds_sched d)(w := sch), ds_left := (ds_left d)(w := n),
         ds_picked := (ds_picked d)(w := Some (j, False))\<rparr>)" (is "dispatch_step cfg d ?d1")
    using pick_single [OF assms(1-5)] by blast
  obtain s ok where acq: "AcquireLock (ds_now d) (fst (ds_store d)) (job_ID j) (cfg_WorkerID (cfg w)) (cfg_LockTTL (cfg w)) = (s, ok)"
    by fastforce
  have free: "ok" "lock_holder s (job_ID j) = Some (cfg_WorkerID (cfg w), ds_now d + cfg_LockTTL (cfg w))"
    using job_lease.acquire_free [of "fst (ds_store d)" "job_ID j" "ds_now d" "cfg_WorkerID (cfg w)" "cfg_LockTTL (cfg w)"]
      assms(7) acq by auto
  have same_jobs: "jobs s = jobs (fst (ds_store d))"
    using acq by (auto simp: AcquireLock_def Let_def split: if_splits)
  let ?d2 = "?d1\<lparr>ds_store := (s, snd (ds_store d)), ds_picked := (ds_picked d)(w := Some (j, True))\<rparr>"
  have lock: "dispatch_step cfg ?d1 ?d2"
    using dispatch_step.lock [of ?d1 w j cfg s ok] acq free(1) by simp
  let ?d3 = "?d2\<lparr>ds_picked := (ds_picked d)(w := None), ds_spawned := ds_spawned d @ [(w, j)]\<rparr>"
  have "goroutines ?d2 w < cfg_MaxConcurrency (cfg w)"
    using assms(6) by (simp add: goroutines_def)
  then have spawn: "dispatch_step cfg ?d2 ?d3"
    using dispatch_step.spawn [of ?d2 w j cfg] by simp
  have "(dispatch_step cfg)\<^sup>*\<^sup>* d ?d3"
    using pick lock spawn by (meson converse_rtranclp_into_rtranclp r_into_rtranclp)
  then show ?thesis
    using free(2) same_jobs by (intro exI [of _ ?d3]) simp
qed

lemma start_spawned:
  assumes "ds_spawned d = (w, j) # ys" "map_of (jobs (fst (ds_store d))) (job_ID j) \<noteq> None"
  shows "\<exists>d' j1. dispatch_step cfg d d' \<and> ds_spawned d' = ys \<and> ds_running d' = ds_running d @ [(w, j1)]
    \<and> job_ID j1 = job_ID j \<and> ds_executed d' = ds_executed d @ [job_ID j] \<and> ds_now d' = ds_now d
    \<and> map_of (jobs (fst (ds_store d'))) (job_ID j) = Some (j1\<lparr>job_UpdatedAt := Some (ds_now d)\<rparr>)
    \<and> locks (fst (ds_store d')) = locks (fst (ds_store d)) \<and> ds_left d' = ds_left d \<and> ds_picked d' = ds_picked d"
proof -
  let ?j1 = "j\<lparr>job_Status := JobRunning, job_Attempts := job_Attempts j + 1, job_StartedAt := Some (ds_now d)\<rparr>"
  obtain s m where sm: "ds_store d = (s, m)"
    by fastforce
  obtain s1 where s1: "Update (ds_now d) s ?j1 = (s1, None)" "locks s1 = locks s"
      "map_of (jobs s1) = (map_of (jobs s))(job_ID j \<mapsto> ?j1\<lparr>job_UpdatedAt := Some (ds_now d)\<rparr>)"
    using Update_stored [of s ?j1 "ds_now d"] assms(2) sm by auto
  have "start_job (cfg w) (ds_now d) (ds_store d) j = ((s1, m\<lparr>m_Processed := m_Processed m + 1\<rparr>), Some ?j1)"
    using s1(1) by (simp add: start_job_def sm Let_def)
  from dispatch_step.start [of d "[]" w j ys cfg, OF _ this] show ?thesis
    using assms(1) s1(2,3) sm by fastforce
qed

text \<open>
  A job can be executed twice by one worker at the same time.  Until its goroutine has
  marked it running the job is still pending, so the dispatch loop picks it again in
  the same poll, and the lock does not stop it because a worker renews its own lock:
  from an idle worker and one due job, a run reaches a state where the executor has
  been handed the same job twice and both executions are in progress.
\<close>

theorem same_worker_runs_job_twice:
  assumes "jobs s = [(job_ID j, j)]" "locks s (job_ID j) = None" "due now j" "job_Priority j \<in> set laneOrder"
    and "2 \<le> cfg_BatchSize (cfg w)" "2 \<le> cfg_MaxConcurrency (cfg w)" "1 \<le> cfg_MaxQueueDepth (cfg w)"
  shows "\<exists>d. (dispatch_step cfg)\<^sup>*\<^sup>* (idle_state now s) d \<and> ds_now d = now
    \<and> ds_executed d = [job_ID j, job_ID j] \<and> map (job_ID \<circ> snd) (ds_running d) = [job_ID j, job_ID j]"
proof -
  obtain n where n: "cfg_BatchSize (cfg w) = Suc (Suc n)"
    using assms(5) by (intro that [of "cfg_BatchSize (cfg w) - 2"]) simp
  let ?d0 = "(idle_state now s)\<lparr>ds_left := (ds_left (idle_state now s))(w := cfg_BatchSize (cfg w))\<rparr>"
  have poll: "dispatch_step cfg (idle_state now s) ?d0"
    using assms(1,7) by (intro dispatch_step.poll) (simp_all add: idle_state_def QueueDepth_def)
  have d0: "jobs (fst (ds_store ?d0)) = [(job_ID j, j)]" "due (ds_now ?d0) j" "ds_left ?d0 w = Suc (Suc n)"
      "ds_picked ?d0 w = None" "goroutines ?d0 w = 0" "lock_holder (fst (ds_store ?d0)) (job_ID j) = None"
      "ds_now ?d0 = now" "ds_spawned ?d0 = []" "ds_running ?d0 = []" "ds_executed ?d0 = []"
    using assms(1-3) n by (simp_all add: idle_state_def goroutines_def lock_holder_def)
  obtain d1 where d1: "(dispatch_step cfg)\<^sup>*\<^sup>* ?d0 d1" "jobs (fst (ds_store d1)) = [(job_ID j, j)]"
      "lock_holder (fst (ds_store d1)) (job_ID j) = Some (cfg_WorkerID (cfg w), now + cfg_LockTTL (cfg w))"
      "ds_now d1 = now" "ds_left d1 w = Suc n" "ds_picked d1 w = None" "ds_spawned d1 = [(w, j)]"
      "ds_running d1 = []" "ds_executed d1 = []"
    using claim_single [OF d0(1,2) assms(4) d0(3,4), of cfg] d0 assms(6) by auto
  obtain d2 where d2: "(dispatch_step cfg)\<^sup>*\<^sup>* d1 d2" "jobs (fst (ds_store d2)) = [(job_ID j, j)]"
      "ds_now d2 = now" "ds_spawned d2 = [(w, j), (w, j)]" "ds_running d2 = []" "ds_executed d2 = []"
    using claim_single [of d1 j w n cfg] d1 assms(3,4,6) by (auto simp: goroutines_def)
  obtain d3 j3 where d3: "dispatch_step cfg d2 d3" "ds_spawned d3 = [(w, j)]" "ds_running d3 = [(w, j3)]"
      "job_ID j3 = job_ID j" "ds_executed d3 = [job_ID j]" "ds_now d3 = now"
      "map_of (jobs (fst (ds_store d3))) (job_ID j) \<noteq> None"
    using start_spawned [of d2 w j "[(w, j)]" cfg] d2 by auto
  obtain d4 j4 where d4: "dispatch_step cfg d3 d4" "ds_running d4 = [(w, j3), (w, j4)]"
      "job_ID j4 = job_ID j" "ds_executed d4 = [job_ID j, job_ID j]" "ds_now d4 = now"
    using start_spawned [of d3 w j "[]" cfg] d3 by auto
  have "(dispatch_step cfg)\<^sup>*\<^sup>* (idle_state now s) d4"
    using poll d1(1) d2(1) d3(1) d4(1)
    by (meson converse_rtranclp_into_rtranclp rtranclp.rtrancl_into_rtrancl rtranclp_trans)
  then show ?thesis
    using d3(4) d4 by (intro exI [of _ d4]) simp
qed

lemma same_worker_runs_job_twice_witness:
  "\<exists>d. (dispatch_step DefaultConfig)\<^sup>*\<^sup>*
      (idle_state 0 \<lparr>jobs = [(job_ID (sample_job PriorityHigh), sample_job PriorityHigh)], locks = Map.empty\<rparr>) d
    \<and> ds_executed d = [job_ID (sample_job PriorityHigh), job_ID (sample_job PriorityHigh)]"
  using same_worker_runs_job_twice
    [of "\<lparr>jobs = [(job_ID (sample_job PriorityHigh), sample_job PriorityHigh)], locks = Map.empty\<rparr>"
        "sample_job PriorityHigh" 0 DefaultConfig "''w''"]
  by (auto simp: DefaultConfig_def due_def sample_job_def jobBase_def laneOrder_def)

end
