(* ===== verification/Outbox_Repo.thy ===== *)
theory Outbox_Repo
  imports Prelude "HOL-Library.Word"
begin

text \<open>
  The transactional outbox over PostgreSQL: the event type of
  \<^verbatim>\<open>internal/outbox/types.go\<close> and the repository of \<^verbatim>\<open>internal/outbox/repository.go\<close>.
  The database is the list of rows of \<^verbatim>\<open>outbox_events\<close>, the rows of
  \<^verbatim>\<open>outbox_publisher_progress\<close>, and the faults the driver will report for the next
  statements; every statement consumes one entry of that list.  The constraints and the
  \<^verbatim>\<open>updated_at\<close> trigger are those of the migrations 0002, 0009, 0011 and 0014.  The
  column \<^verbatim>\<open>last_event_id\<close> is \<^verbatim>\<open>NOT NULL\<close>, as \<^verbatim>\<open>EnsurePublisherProgressTable\<close> creates it.
\<close>

section \<open>Event identifiers\<close>

text \<open>
  A UUID is a 128-bit number; PostgreSQL compares UUIDs bytewise, that is as numbers,
  while the repository compares their printed forms as strings.
\<close>

type_synonym uuid = "128 word"

definition hex_digit :: "nat \<Rightarrow> char" where
  "hex_digit d = char_of (if d < 10 then 48 + d else 87 + d)"

fun uuid_chars :: "nat \<Rightarrow> nat \<Rightarrow> string" where
  "uuid_chars 0 u = []"
| "uuid_chars (Suc k) u =
     (if Suc k \<in> {24, 20, 16, 12} then ''-'' else []) @ hex_digit (u div 16 ^ k mod 16) # uuid_chars k u"

definition uuid_String :: "uuid \<Rightarrow> string" where
  "uuid_String u = uuid_chars 32 (unat u)"

section \<open>Events and the database\<close>

datatype Status = StatusPending | StatusProcessing | StatusCompleted | StatusFailed

record Event =
  ev_ID :: uuid
  ev_TenantID :: string
  ev_EventType :: string
  ev_EventData :: string
  ev_AggregateID :: "string option"
  ev_AggregateType :: "string option"
  ev_OccurredAt :: time
  ev_Status :: Status
  ev_RetryCount :: int
  ev_MaxRetries :: int
  ev_NextRetryAt :: "time option"
  ev_ErrorMessage :: "string option"
  ev_CreatedAt :: time
  ev_UpdatedAt :: time
  ev_Version :: int
  ev_DeduplicationID :: "string option"
  ev_Partition :: int

record outbox_db =
  ob_events :: "Event list"
  ob_progress :: "(string \<times> (uuid \<times> time)) list"
  ob_faults :: "string option list"

definition ob_next_fault :: "outbox_db \<Rightarrow> string option \<times> outbox_db" where
  "ob_next_fault db =
     (case ob_faults db of [] \<Rightarrow> (None, db) | f # fs \<Rightarrow> (f, db\<lparr>ob_faults := fs\<rparr>))"

text \<open>
  One statement: a driver fault is returned wrapped in the caller's message, otherwise
  the statement runs on the tables.
\<close>

definition ob_stmt :: "string \<Rightarrow> (outbox_db \<Rightarrow> outbox_db \<times> (string, 'a) result) \<Rightarrow> outbox_db
    \<Rightarrow> outbox_db \<times> (string, 'a) result" where
  "ob_stmt msg f db =
     (case ob_next_fault db of
        (Some e, db1) \<Rightarrow> (db1, Inl (msg @ e))
      | (None, db1) \<Rightarrow> f db1)"

text \<open>\<^verbatim>\<open>UPDATE outbox_events SET ... WHERE ...\<close>, with the trigger on \<^verbatim>\<open>updated_at\<close>, and the
  number of rows affected.\<close>

definition ob_update :: "time \<Rightarrow> (Event \<Rightarrow> bool) \<Rightarrow> (Event \<Rightarrow> Event) \<Rightarrow> outbox_db
    \<Rightarrow> outbox_db \<times> (string, nat) result" where
  "ob_update now wh upd db =
     (db\<lparr>ob_events := map (\<lambda>e. if wh e then (upd e)\<lparr>ev_UpdatedAt := now\<rparr> else e) (ob_events db)\<rparr>,
      Inr (length (filter wh (ob_events db))))"

text \<open>\<^verbatim>\<open>SELECT ... LIMIT n\<close>: PostgreSQL rejects a negative limit.\<close>

definition ob_select :: "int \<Rightarrow> (outbox_db \<Rightarrow> Event list) \<Rightarrow> outbox_db
    \<Rightarrow> outbox_db \<times> (string, Event list) result" where
  "ob_select limit q db =
     (if limit < 0 then (db, Inl ''LIMIT must not be negative'')
      else (db, Inr (take (nat limit) (q db))))"

section \<open>Repository operations\<close>

text \<open>
  \<^verbatim>\<open>scanEvent\<close> does not select the partition column, and \<^verbatim>\<open>Store\<close> does not insert it: the
  row takes the column's default and the scanned event the zero value.
\<close>

definition scanEvent :: "Event \<Rightarrow> Event" where
  "scanEvent row = row\<lparr>ev_Partition := 0\<rparr>"

definition violates_unique :: "Event \<Rightarrow> Event list \<Rightarrow> bool" where
  "violates_unique e rows =
     (ev_ID e \<in> ev_ID ` set rows
      \<or> ev_DeduplicationID e \<noteq> None \<and> ev_DeduplicationID e \<in> ev_DeduplicationID ` set rows)"

definition Store :: "Event \<Rightarrow> outbox_db \<Rightarrow> outbox_db \<times> (string, unit) result" where
  "Store e = ob_stmt ''failed to store outbox event: ''
     (\<lambda>db. if violates_unique e (ob_events db)
            then (db, Inl ''failed to store outbox event: duplicate key value violates unique constraint'')
            else (db\<lparr>ob_events := ob_events db @ [e\<lparr>ev_Partition := 0\<rparr>]\<rparr>, Inr ()))"

fun BulkInsert :: "Event list \<Rightarrow> outbox_db \<Rightarrow> outbox_db \<times> (string, unit) result" where
  "BulkInsert [] db = (db, Inr ())"
| "BulkInsert (e # es) db =
     (case Store e db of
        (db1, Inl err) \<Rightarrow> (db1, Inl (''failed to bulk insert event '' @ uuid_String (ev_ID e) @ '': '' @ err))
      | (db1, Inr _) \<Rightarrow> BulkInsert es db1)"

definition deliverable :: "time \<Rightarrow> Event \<Rightarrow> bool" where
  "deliverable now e =
     (ev_Status e = StatusPending
      \<or> ev_Status e = StatusFailed \<and> (\<exists>t \<in> set_option (ev_NextRetryAt e). t \<le> now))"

definition GetPendingEvents :: "time \<Rightarrow> int \<Rightarrow> outbox_db \<Rightarrow> outbox_db \<times> (string, Event list) result" where
  "GetPendingEvents now limit = ob_stmt ''failed to get pending events: ''
     (ob_select limit
       (\<lambda>db. map scanEvent
          (sort_slice (\<lambda>a b. ev_OccurredAt a < ev_OccurredAt b) (filter (deliverable now) (ob_events db)))))"

definition GetByID :: "uuid \<Rightarrow> outbox_db \<Rightarrow> outbox_db \<times> (string, Event) result" where
  "GetByID i = ob_stmt ''failed to scan event: ''
     (\<lambda>db. (db, case find (\<lambda>e. ev_ID e = i) (ob_events db) of
                   None \<Rightarrow> Inl ''failed to scan event: sql: no rows in result set''
                 | Some row \<Rightarrow> Inr (scanEvent row)))"

definition drop_count :: "outbox_db \<times> (string, nat) result \<Rightarrow> outbox_db \<times> (string, unit) result" where
  "drop_count r = (fst r, map_sum (\<lambda>e. e) (\<lambda>_. ()) (snd r))"

definition UpdateStatus :: "time \<Rightarrow> uuid \<Rightarrow> Status \<Rightarrow> string option \<Rightarrow> outbox_db
    \<Rightarrow> outbox_db \<times> (string, unit) result" where
  "UpdateStatus now i st msg db = drop_count (ob_stmt ''failed to update event status: ''
     (ob_update now (\<lambda>e. ev_ID e = i) (\<lambda>e. e\<lparr>ev_Status := st, ev_ErrorMessage := msg\<rparr>)) db)"

definition require_row :: "string \<Rightarrow> outbox_db \<times> (string, nat) result
    \<Rightarrow> outbox_db \<times> (string, unit) result" where
  "require_row msg r = (case r of
      (db, Inl e) \<Rightarrow> (db, Inl e)
    | (db, Inr n) \<Rightarrow> (db, if n = 0 then Inl msg else Inr ()))"

definition MarkAsProcessing :: "time \<Rightarrow> uuid \<Rightarrow> outbox_db \<Rightarrow> outbox_db \<times> (string, unit) result" where
  "MarkAsProcessing now i db =
     require_row ''event not found or not in pending status''
       (ob_stmt ''failed to mark event as processing: ''
         (ob_update now (\<lambda>e. ev_ID e = i \<and> ev_Status e = StatusPending)
            (\<lambda>e. e\<lparr>ev_Status := StatusProcessing\<rparr>)) db)"

definition IncrementRetryCount :: "time \<Rightarrow> uuid \<Rightarrow> time \<Rightarrow> string option \<Rightarrow> outbox_db
    \<Rightarrow> outbox_db \<times> (string, unit) result" where
  "IncrementRetryCount now i nextRetryAt msg db = drop_count (ob_stmt ''failed to increment retry count: ''
     (ob_update now (\<lambda>e. ev_ID e = i)
       (\<lambda>e. e\<lparr>ev_RetryCount := ev_RetryCount e + 1, ev_NextRetryAt := Some nextRetryAt,
               ev_Status := StatusFailed, ev_ErrorMessage := msg\<rparr>)) db)"

definition DeleteCompletedEvents :: "time \<Rightarrow> outbox_db \<Rightarrow> outbox_db \<times> (string, nat) result" where
  "DeleteCompletedEvents olderThan = ob_stmt ''failed to delete completed events: ''
     (\<lambda>db. let old = \<lambda>e. ev_Status e = StatusCompleted \<and> ev_UpdatedAt e < olderThan
            in (db\<lparr>ob_events := filter (\<lambda>e. \<not> old e) (ob_events db)\<rparr>,
                Inr (length (filter old (ob_events db)))))"

definition ListDeadLetteredEvents :: "int \<Rightarrow> outbox_db \<Rightarrow> outbox_db \<times> (string, Event list) result" where
  "ListDeadLetteredEvents limit = ob_stmt ''failed to list dead-lettered events: ''
     (ob_select limit
       (\<lambda>db. map scanEvent
          (sort_slice (\<lambda>a b. ev_OccurredAt b < ev_OccurredAt a)
            (filter (\<lambda>e. ev_Status e = StatusFailed) (ob_events db)))))"

definition RequeueEvent :: "time \<Rightarrow> uuid \<Rightarrow> outbox_db \<Rightarrow> outbox_db \<times> (string, unit) result" where
  "RequeueEvent now i db =
     require_row ''event not found or not in failed status''
       (ob_stmt ''failed to requeue event: ''
         (ob_update now (\<lambda>e. ev_ID e = i \<and> ev_Status e = StatusFailed)
            (\<lambda>e. e\<lparr>ev_Status := StatusPending, ev_RetryCount := 0, ev_NextRetryAt := None,
                    ev_ErrorMessage := None\<rparr>)) db)"

section \<open>Publisher progress\<close>

definition progress_of :: "outbox_db \<Rightarrow> string \<Rightarrow> uuid option" where
  "progress_of db p = map_option fst (map_of (ob_progress db) p)"

definition GetPublisherProgress :: "string \<Rightarrow> outbox_db \<Rightarrow> outbox_db \<times> (string, uuid option) result" where
  "GetPublisherProgress p = ob_stmt ''failed to get publisher progress: ''
     (\<lambda>db. (db, Inr (progress_of db p)))"

definition above_mark :: "outbox_db \<Rightarrow> string \<Rightarrow> uuid \<Rightarrow> bool" where
  "above_mark db p i = (case progress_of db p of None \<Rightarrow> True | Some l \<Rightarrow> l < i)"

definition GetPendingEventsForPublisher :: "time \<Rightarrow> string \<Rightarrow> int \<Rightarrow> outbox_db
    \<Rightarrow> outbox_db \<times> (string, Event list) result" where
  "GetPendingEventsForPublisher now p limit = ob_stmt ''failed to get pending events for publisher: ''
     (ob_select limit
       (\<lambda>db. map scanEvent
          (sort_slice (\<lambda>a b. ev_ID a < ev_ID b)
            (filter (\<lambda>e. deliverable now e \<and> above_mark db p (ev_ID e)) (ob_events db)))))"

definition raise_mark :: "time \<Rightarrow> string \<Rightarrow> uuid \<Rightarrow> (string \<times> (uuid \<times> time)) list
    \<Rightarrow> (string \<times> (uuid \<times> time)) list" where
  "raise_mark now p i prog =
     (case map_of prog p of
        None \<Rightarrow> prog @ [(p, (i, now))]
      | Some (l, t) \<Rightarrow> AList.update p (if l < i then (i, now) else (l, t)) prog)"

definition upsertPublisherProgress :: "time \<Rightarrow> string \<Rightarrow> uuid \<Rightarrow> outbox_db
    \<Rightarrow> outbox_db \<times> (string, unit) result" where
  "upsertPublisherProgress now p i = ob_stmt ''failed to update publisher progress: ''
     (\<lambda>db. (db\<lparr>ob_progress := raise_mark now p i (ob_progress db)\<rparr>, Inr ()))"

fun publisherProgressReached :: "uuid \<Rightarrow> string list \<Rightarrow> outbox_db
    \<Rightarrow> outbox_db \<times> (string, bool) result" where
  "publisherProgressReached i [] db = (db, Inr True)"
| "publisherProgressReached i (p # ps) db =
     (case ob_stmt ''failed to read publisher progress: '' (\<lambda>db. (db, Inr (progress_of db p))) db of
        (db1, Inl e) \<Rightarrow> (db1, Inl e)
      | (db1, Inr None) \<Rightarrow> (db1, Inr False)
      | (db1, Inr (Some l)) \<Rightarrow>
          if str_less (uuid_String l) (uuid_String i) then (db1, Inr False)
          else publisherProgressReached i ps db1)"

definition markPublished :: "time \<Rightarrow> string \<Rightarrow> Event \<Rightarrow> string list \<Rightarrow> outbox_db
    \<Rightarrow> outbox_db \<times> (string, unit) result" where
  "markPublished now p event publishers db =
     (case upsertPublisherProgress now p (ev_ID event) db of
        (db1, Inl e) \<Rightarrow> (db1, Inl e)
      | (db1, Inr _) \<Rightarrow>
          (case publisherProgressReached (ev_ID event) publishers db1 of
             (db2, Inl e) \<Rightarrow> (db2, Inl e)
           | (db2, Inr False) \<Rightarrow> (db2, Inr ())
           | (db2, Inr True) \<Rightarrow>
               (case ob_stmt ''failed to mark event completed: ''
                       (ob_update now (\<lambda>e. ev_ID e = ev_ID event)
                          (\<lambda>e. e\<lparr>ev_Status := StatusCompleted, ev_ErrorMessage := None\<rparr>)) db2 of
                  (db3, Inl e) \<Rightarrow> (db3, Inl e)
                | (db3, Inr _) \<Rightarrow> (db3, Inr ()))))"

text \<open>
  \<^verbatim>\<open>MarkPublished\<close> runs \<^verbatim>\<open>markPublished\<close> in a transaction of its own: any error, the commit's
  included, rolls both tables back.
\<close>

definition rollback_to :: "outbox_db \<Rightarrow> outbox_db \<Rightarrow> outbox_db" where
  "rollback_to old db = old\<lparr>ob_faults := ob_faults db\<rparr>"

definition MarkPublished :: "time \<Rightarrow> string \<Rightarrow> Event \<Rightarrow> string list \<Rightarrow> outbox_db
    \<Rightarrow> outbox_db \<times> (string, unit) result" where
  "MarkPublished now p event publishers db =
     (case ob_stmt ''failed to begin publisher progress transaction: '' (\<lambda>db. (db, Inr ())) db of
        (db1, Inl e) \<Rightarrow> (db1, Inl e)
      | (db1, Inr _) \<Rightarrow>
          (case markPublished now p event publishers db1 of
             (db2, Inl e) \<Rightarrow> (rollback_to db1 db2, Inl e)
           | (db2, Inr _) \<Rightarrow>
               (case ob_stmt ''failed to commit publisher progress transaction: '' (\<lambda>db. (db, Inr ())) db2 of
                  (db3, Inl e) \<Rightarrow> (rollback_to db1 db3, Inl e)
                | (db3, Inr _) \<Rightarrow> (db3, Inr ()))))"

definition NewEventWithDeduplication :: "time \<Rightarrow> uuid \<Rightarrow> (string \<Rightarrow> (string, string) result) \<Rightarrow> string
    \<Rightarrow> string option \<Rightarrow> string option \<Rightarrow> string option \<Rightarrow> (string, Event) result" where
  "NewEventWithDeduplication now fresh marshal eventType aggregateID aggregateType deduplicationID =
     (case marshal eventType of
        Inl e \<Rightarrow> Inl (''failed to marshal event data: '' @ e)
      | Inr data \<Rightarrow> Inr \<lparr>ev_ID = fresh, ev_TenantID = [], ev_EventType = eventType, ev_EventData = data,
          ev_AggregateID = aggregateID, ev_AggregateType = aggregateType, ev_OccurredAt = now,
          ev_Status = StatusPending, ev_RetryCount = 0, ev_MaxRetries = 3, ev_NextRetryAt = None,
          ev_ErrorMessage = None, ev_CreatedAt = now, ev_UpdatedAt = now, ev_Version = 1,
          ev_DeduplicationID = deduplicationID, ev_Partition = 0\<rparr>)"

section \<open>The order on identifiers\<close>

lemma char_nat_hex_digit: "d < 16 \<Longrightarrow> char_nat (hex_digit d) = (if d < 10 then 48 + d else 87 + d)"
  by (simp add: char_nat_def hex_digit_def)

lemma str_less_append_same: "str_less (zs @ xs) (zs @ ys) = str_less xs ys"
  by (induction zs) simp_all

lemma digit_less:
  fixes m a b x y :: nat
  assumes "x < m" "y < m"
  shows "(m * a + x < m * b + y) = (a < b \<or> a = b \<and> x < y)"
proof (cases a b rule: linorder_cases)
  case less
  then have "m * a + m \<le> m * b"
    by (metis Suc_leI add.commute mult_Suc_right mult_le_mono2)
  then show ?thesis
    using less assms by linarith
next
  case greater
  then have "m * b + m \<le> m * a"
    by (metis Suc_leI add.commute mult_Suc_right mult_le_mono2)
  then show ?thesis
    using greater assms by linarith
qed simp

lemma hex_digit_order:
  assumes "a < 16" "b < 16"
  shows "char_nat (hex_digit a) < char_nat (hex_digit b) \<longleftrightarrow> a < b"
    "char_nat (hex_digit a) = char_nat (hex_digit b) \<longleftrightarrow> a = b"
  using assms by (simp_all add: char_nat_hex_digit)

lemma str_less_uuid_chars:
  "str_less (uuid_chars k u) (uuid_chars k v) = (u mod 16 ^ k < v mod 16 ^ k)"
proof (induction k)
  case (Suc k)
  have split: "x mod 16 ^ Suc k = 16 ^ k * (x div 16 ^ k mod 16) + x mod 16 ^ k" for x :: nat
    using mod_mult2_eq [of x "16 ^ k" 16] by (simp add: mult.commute)
  show ?case
    unfolding split
    by (subst digit_less) (simp_all add: str_less_append_same hex_digit_order Suc)
qed simp

text \<open>The string comparison of \<^verbatim>\<open>publisherProgressReached\<close> agrees with the database's order.\<close>

lemma uuid_String_less: "str_less (uuid_String a) (uuid_String b) \<longleftrightarrow> a < b"
proof -
  have "unat x mod 16 ^ 32 = unat x" for x :: uuid
    using unsigned_less [of x, where 'a = nat] by simp
  then show ?thesis
    by (simp add: uuid_String_def str_less_uuid_chars word_less_nat_alt)
qed

section \<open>Effect of the operations on the tables\<close>

definition same_tables :: "outbox_db \<Rightarrow> outbox_db \<Rightarrow> bool" where
  "same_tables db db' \<longleftrightarrow> ob_events db' = ob_events db \<and> ob_progress db' = ob_progress db"

lemma same_tables_simps [store_simps]:
  "same_tables db db"
  "same_tables db (rollback_to db db')"
  by (simp_all add: same_tables_def rollback_to_def)

lemma same_tablesD:
  assumes "same_tables db db'"
  shows "ob_events db' = ob_events db" "ob_progress db' = ob_progress db"
    "progress_of db' = progress_of db"
  using assms by (simp_all add: same_tables_def progress_of_def fun_eq_iff)

lemma ob_stmt_cases:
  assumes "ob_stmt msg f db = (db', r)"
  obtains (fault) e where "same_tables db db'" "r = Inl e"
  | (ran) db1 where "same_tables db db1" "f db1 = (db', r)"
proof -
  obtain flt db1 where nf: "ob_next_fault db = (flt, db1)"
    by (cases "ob_next_fault db")
  then have st: "same_tables db db1"
    by (auto simp: ob_next_fault_def same_tables_def split: list.splits)
  show thesis
    using assms nf st fault ran by (cases flt) (auto simp: ob_stmt_def)
qed

lemma ob_stmt_read:
  assumes "ob_stmt msg (\<lambda>db. (db, g db)) db = (db', r)"
  shows "same_tables db db' \<and> ((\<exists>e. r = Inl e) \<or> (\<exists>db1. same_tables db db1 \<and> r = g db1))"
  using assms by (cases rule: ob_stmt_cases) auto

lemma map_of_raise_mark:
  "map_option fst (map_of (raise_mark now p i prog) q) =
     (if q = p then Some (case map_option fst (map_of prog p) of None \<Rightarrow> i | Some l \<Rightarrow> max l i)
      else map_option fst (map_of prog q))"
proof (cases "map_of prog p")
  case None
  then show ?thesis
    by (auto simp: raise_mark_def map_add_def split: option.splits)
next
  case (Some lt)
  then show ?thesis
    by (cases lt) (auto simp: raise_mark_def max_def)
qed

text \<open>All publishers have reached an event when each has a mark at or above it.\<close>

definition all_reached :: "outbox_db \<Rightarrow> uuid \<Rightarrow> string list \<Rightarrow> bool" where
  "all_reached db i ps = list_all (\<lambda>p. case progress_of db p of None \<Rightarrow> False | Some l \<Rightarrow> i \<le> l) ps"

lemma publisherProgressReached_spec:
  "publisherProgressReached i ps db = (db', r) \<Longrightarrow>
     same_tables db db' \<and> ((\<exists>e. r = Inl e) \<or> r = Inr (all_reached db i ps))"
proof (induction ps arbitrary: db)
  case (Cons p ps)
  obtain db1 r1 where read: "ob_stmt ''failed to read publisher progress: ''
      (\<lambda>db. (db, Inr (progress_of db p))) db = (db1, r1)"
    by (rule prod.exhaust)
  have st: "same_tables db db1"
    using ob_stmt_read [OF read] by (rule conjunct1)
  have r1: "(\<exists>e. r1 = Inl e) \<or> r1 = Inr (progress_of db p)"
    using ob_stmt_read [OF read, THEN conjunct2] same_tablesD(3) by metis
  have same: "same_tables db1 db' \<Longrightarrow> same_tables db db'"
    using st by (simp add: same_tables_def)
  have reached: "all_reached db1 i ps = all_reached db i ps"
    using same_tablesD(3) [OF st] by (simp add: all_reached_def)
  show ?case
  proof (cases r1)
    case (Inl e)
    then show ?thesis
      using Cons.prems read st by auto
  next
    case (Inr m)
    then have m: "progress_of db p = m"
      using r1 by simp
    show ?thesis
    proof (cases m)
      case None
      then show ?thesis
        using Cons.prems read st Inr m by (simp add: all_reached_def)
    next
      case (Some l)
      show ?thesis
      proof (cases "l < i")
        case True
        then show ?thesis
          using Cons.prems read st Inr m Some by (auto simp: all_reached_def uuid_String_less)
      next
        case False
        then have "publisherProgressReached i ps db1 = (db', r)"
          using Cons.prems read Inr Some by (simp add: uuid_String_less)
        note rec = Cons.IH [OF this, unfolded reached]
        have "all_reached db i (p # ps) = all_reached db i ps"
          using m Some False by (simp add: all_reached_def not_less)
        then show ?thesis
          using rec same by simp
      qed
    qed
  qed
qed (simp add: store_simps all_reached_def)

definition complete_event :: "time \<Rightarrow> uuid \<Rightarrow> Event list \<Rightarrow> Event list" where
  "complete_event now i rows =
     map (\<lambda>e. if ev_ID e = i
           then e\<lparr>ev_Status := StatusCompleted, ev_ErrorMessage := None, ev_UpdatedAt := now\<rparr> else e) rows"

lemma complete_event_ids [simp]: "map ev_ID (complete_event now i rows) = map ev_ID rows"
  by (induction rows) (simp_all add: complete_event_def)

lemma markPublished_spec:
  assumes "markPublished now p event ps db = (db', r)"
  shows "(\<exists>e. r = Inl e)
    \<or> r = Inr () \<and> ob_progress db' = raise_mark now p (ev_ID event) (ob_progress db)
        \<and> ob_events db' = (if all_reached db' (ev_ID event) ps
                           then complete_event now (ev_ID event) (ob_events db) else ob_events db)"
proof -
  obtain db1 r1 where up: "upsertPublisherProgress now p (ev_ID event) db = (db1, r1)"
    by (rule prod.exhaust)
  show ?thesis
  proof (cases r1)
    case (Inl e)
    then show ?thesis
      using assms up by (auto simp: markPublished_def)
  next
    case (Inr u)
    have "ob_progress db1 = raise_mark now p (ev_ID event) (ob_progress db) \<and> ob_events db1 = ob_events db"
      using up [unfolded upsertPublisherProgress_def] Inr
      by (cases rule: ob_stmt_cases) (auto simp: same_tables_def)
    then have db1: "ob_progress db1 = raise_mark now p (ev_ID event) (ob_progress db)"
        "ob_events db1 = ob_events db"
      by simp_all
    obtain db2 r2 where reach: "publisherProgressReached (ev_ID event) ps db1 = (db2, r2)"
      by (rule prod.exhaust)
    note st2 = publisherProgressReached_spec [OF reach]
    obtain db3 r3 where upd: "ob_stmt ''failed to mark event completed: ''
        (ob_update now (\<lambda>e. ev_ID e = ev_ID event)
           (\<lambda>e. e\<lparr>ev_Status := StatusCompleted, ev_ErrorMessage := None\<rparr>)) db2 = (db3, r3)"
      by (rule prod.exhaust)
    have done3: "ob_progress db3 = ob_progress db2
        \<and> ob_events db3 = complete_event now (ev_ID event) (ob_events db2)" if "r3 = Inr n" for n
      using upd that
      by (cases rule: ob_stmt_cases) (auto simp: ob_update_def complete_event_def same_tables_def)
    have reached_eq: "all_reached a i qs = all_reached b i qs" if "ob_progress a = ob_progress b" for a b i qs
      using that by (simp add: all_reached_def progress_of_def)
    note unfold = assms [unfolded markPublished_def, simplified up Inr reach upd prod.case sum.case]
    show ?thesis
    proof (cases r2)
      case (Inl e)
      then show ?thesis
        using unfold by (intro disjI1) auto
    next
      case r2: (Inr b)
      show ?thesis
      proof (cases b)
        case False
        then have eqs: "r = Inr ()" "db' = db2" "\<not> all_reached db1 (ev_ID event) ps"
          using unfold r2 st2 by auto
        have "\<not> all_reached db2 (ev_ID event) ps"
          using eqs st2 reached_eq [of db2 db1] by (simp add: same_tables_def)
        then show ?thesis
          using eqs st2 db1 by (simp add: same_tables_def)
      next
        case True
        then have reached: "all_reached db1 (ev_ID event) ps"
          using r2 st2 by simp
        show ?thesis
        proof (cases r3)
          case (Inl e)
          then show ?thesis
            using unfold r2 True by (intro disjI1) auto
        next
          case (Inr n)
          then have eqs: "r = Inr ()" "db' = db3"
            using unfold r2 True by auto
          then have "all_reached db' (ev_ID event) ps"
            using reached done3 [OF Inr] st2 reached_eq [of db3 db1] by (simp add: same_tables_def)
          then show ?thesis
            using eqs done3 [OF Inr] st2 db1 by (simp add: same_tables_def)
        qed
      qed
    qed
  qed
qed

lemma MarkPublished_spec:
  assumes "MarkPublished now p event ps db = (db', r)"
  shows "(\<exists>e. r = Inl e) \<and> same_tables db db'
    \<or> r = Inr () \<and> ob_progress db' = raise_mark now p (ev_ID event) (ob_progress db)
        \<and> ob_events db' = (if all_reached db' (ev_ID event) ps
                           then complete_event now (ev_ID event) (ob_events db) else ob_events db)"
proof -
  obtain db1 r1 where b: "ob_stmt ''failed to begin publisher progress transaction: ''
      (\<lambda>db. (db, Inr ())) db = (db1, r1)"
    by (rule prod.exhaust)
  have st1: "same_tables db db1"
    using ob_stmt_read [OF b] by (rule conjunct1)
  obtain db2 r2 where mp: "markPublished now p event ps db1 = (db2, r2)"
    by (rule prod.exhaust)
  obtain db3 r3 where c: "ob_stmt ''failed to commit publisher progress transaction: ''
      (\<lambda>db. (db, Inr ())) db2 = (db3, r3)"
    by (rule prod.exhaust)
  have st3: "same_tables db2 db3"
    using ob_stmt_read [OF c] by (rule conjunct1)
  have rolled: "same_tables db (rollback_to db1 d)" for d
    using st1 by (simp add: same_tables_def rollback_to_def)
  note unfold = assms [unfolded MarkPublished_def, simplified b mp c prod.case sum.case]
  show ?thesis
  proof (cases "r1 = Inr () \<and> r2 = Inr () \<and> r3 = Inr ()")
    case False
    then have "(\<exists>e. r = Inl e) \<and> same_tables db db'"
      using unfold st1 rolled by (auto split: sum.splits)
    then show ?thesis ..
  next
    case True
    then have eqs: "r = Inr ()" "db' = db3"
      using unfold by auto
    have "all_reached db3 (ev_ID event) ps = all_reached db2 (ev_ID event) ps"
      using same_tablesD(3) [OF st3] by (simp add: all_reached_def)
    then show ?thesis
      using eqs True markPublished_spec [OF mp] same_tablesD [OF st1] same_tablesD [OF st3] by simp
  qed
qed

section \<open>The repository contract\<close>

text \<open>
  The \<^verbatim>\<open>Repository\<close> interface, and what the dispatcher relies on: the batch fetched for a
  publisher is in ascending order of identifiers, above the publisher's mark; a successful
  acknowledgement raises that publisher's mark to the event and touches no other; nothing
  else moves a mark.
\<close>

record 's Repository =
  repo_Store :: "Event \<Rightarrow> 's \<Rightarrow> 's \<times> (string, unit) result"
  repo_GetPendingEvents :: "time \<Rightarrow> int \<Rightarrow> 's \<Rightarrow> 's \<times> (string, Event list) result"
  repo_UpdateStatus :: "time \<Rightarrow> uuid \<Rightarrow> Status \<Rightarrow> string option \<Rightarrow> 's \<Rightarrow> 's \<times> (string, unit) result"
  repo_MarkAsProcessing :: "time \<Rightarrow> uuid \<Rightarrow> 's \<Rightarrow> 's \<times> (string, unit) result"
  repo_IncrementRetryCount :: "time \<Rightarrow> uuid \<Rightarrow> time \<Rightarrow> string option \<Rightarrow> 's \<Rightarrow> 's \<times> (string, unit) result"
  repo_DeleteCompletedEvents :: "time \<Rightarrow> 's \<Rightarrow> 's \<times> (string, nat) result"
  repo_RequeueEvent :: "time \<Rightarrow> uuid \<Rightarrow> 's \<Rightarrow> 's \<times> (string, unit) result"
  repo_GetPendingEventsForPublisher :: "time \<Rightarrow> string \<Rightarrow> int \<Rightarrow> 's \<Rightarrow> 's \<times> (string, Event list) result"
  repo_MarkPublished :: "time \<Rightarrow> string \<Rightarrow> Event \<Rightarrow> string list \<Rightarrow> 's \<Rightarrow> 's \<times> (string, unit) result"

definition postgresRepository :: "outbox_db Repository" where
  "postgresRepository = \<lparr>repo_Store = Store, repo_GetPendingEvents = GetPendingEvents,
     repo_UpdateStatus = UpdateStatus, repo_MarkAsProcessing = MarkAsProcessing,
     repo_IncrementRetryCount = IncrementRetryCount, repo_DeleteCompletedEvents = DeleteCompletedEvents,
     repo_RequeueEvent = RequeueEvent, repo_GetPendingEventsForPublisher = GetPendingEventsForPublisher,
     repo_MarkPublished = MarkPublished\<rparr>"

lemma postgresRepository_simps [simp]:
  "repo_Store postgresRepository = Store" "repo_GetPendingEvents postgresRepository = GetPendingEvents"
  "repo_UpdateStatus postgresRepository = UpdateStatus"
  "repo_MarkAsProcessing postgresRepository = MarkAsProcessing"
  "repo_IncrementRetryCount postgresRepository = IncrementRetryCount"
  "repo_DeleteCompletedEvents postgresRepository = DeleteCompletedEvents"
  "repo_RequeueEvent postgresRepository = RequeueEvent"
  "repo_GetPendingEventsForPublisher postgresRepository = GetPendingEventsForPublisher"
  "repo_MarkPublished postgresRepository = MarkPublished"
  by (simp_all add: postgresRepository_def)

definition keeps_marks :: "('s \<Rightarrow> bool) \<Rightarrow> ('s \<Rightarrow> string \<Rightarrow> uuid option) \<Rightarrow> ('s \<Rightarrow> 's \<times> 'a) \<Rightarrow> bool" where
  "keeps_marks ok mark f \<longleftrightarrow> (\<forall>s. ok s \<longrightarrow> ok (fst (f s)) \<and> mark (fst (f s)) = mark s)"

definition mark_below :: "uuid option \<Rightarrow> uuid \<Rightarrow> bool" where
  "mark_below m i = (case m of None \<Rightarrow> True | Some l \<Rightarrow> l < i)"

definition raised :: "uuid option \<Rightarrow> uuid \<Rightarrow> uuid option" where
  "raised m i = Some (case m of None \<Rightarrow> i | Some l \<Rightarrow> max l i)"

locale outbox_repository =
  fixes repo :: "'s Repository" and ok :: "'s \<Rightarrow> bool" and mark :: "'s \<Rightarrow> string \<Rightarrow> uuid option"
  assumes keeps:
      "keeps_marks ok mark (repo_Store repo e)"
      "keeps_marks ok mark (repo_UpdateStatus repo now i st msg)"
      "keeps_marks ok mark (repo_MarkAsProcessing repo now i)"
      "keeps_marks ok mark (repo_IncrementRetryCount repo now i next msg)"
      "keeps_marks ok mark (repo_DeleteCompletedEvents repo now)"
      "keeps_marks ok mark (repo_RequeueEvent repo now i)"
      "keeps_marks ok mark (repo_GetPendingEventsForPublisher repo now p limit)"
    and fetched: "ok s \<Longrightarrow> repo_GetPendingEventsForPublisher repo now p limit s = (s', Inr es) \<Longrightarrow>
        sorted_wrt (<) (map ev_ID es) \<and> list_all (\<lambda>e. mark_below (mark s p) (ev_ID e)) es"
    and published: "ok s \<Longrightarrow> repo_MarkPublished repo now p e ps s = (s', Inr u) \<Longrightarrow>
        ok s' \<and> mark s' = (mark s)(p := raised (mark s p) (ev_ID e))"
    and not_published: "ok s \<Longrightarrow> repo_MarkPublished repo now p e ps s = (s', Inl err) \<Longrightarrow>
        ok s' \<and> mark s' = mark s"

definition ob_inv :: "outbox_db \<Rightarrow> bool" where
  "ob_inv db = distinct (map ev_ID (ob_events db))"

lemma ob_inv_same: "same_tables db db' \<Longrightarrow> ob_inv db' = ob_inv db"
  by (simp add: ob_inv_def same_tables_def)

lemma keeps_marksI:
  assumes "\<And>s s' r. ok s \<Longrightarrow> f s = (s', r) \<Longrightarrow> ok s' \<and> mark s' = mark s"
  shows "keeps_marks ok mark f"
  unfolding keeps_marks_def using assms by (metis prod.collapse)

lemma keeps_marks_stmt:
  assumes "keeps_marks ob_inv progress_of f"
  shows "keeps_marks ob_inv progress_of (ob_stmt msg f)"
proof (rule keeps_marksI)
  fix db db' r
  assume "ob_inv db" "ob_stmt msg f db = (db', r)"
  from this(2,1) show "ob_inv db' \<and> progress_of db' = progress_of db"
  proof (cases rule: ob_stmt_cases)
    case (fault e)
    then show ?thesis
      using \<open>ob_inv db\<close> ob_inv_same same_tablesD(3) by blast
  next
    case (ran db1)
    then have "ob_inv (fst (f db1)) \<and> progress_of (fst (f db1)) = progress_of db1"
      using assms \<open>ob_inv db\<close> ob_inv_same unfolding keeps_marks_def by blast
    then show ?thesis
      using ran same_tablesD(3) by simp
  qed
qed

lemma keeps_marks_update:
  assumes "\<And>e. ev_ID (upd e) = ev_ID e"
  shows "keeps_marks ob_inv progress_of (ob_update now wh upd)"
proof -
  have "map ev_ID (map (\<lambda>e. if wh e then (upd e)\<lparr>ev_UpdatedAt := now\<rparr> else e) rows) = map ev_ID rows" for rows
    using assms by (induction rows) simp_all
  then show ?thesis
    by (simp add: keeps_marks_def ob_update_def ob_inv_def progress_of_def fun_eq_iff del: map_map)
qed

lemma keeps_marks_post:
  assumes "keeps_marks ok mark f" "\<And>r. fst (g r) = fst r"
  shows "keeps_marks ok mark (\<lambda>s. g (f s))"
  using assms by (simp add: keeps_marks_def)

lemma keeps_marks_select: "keeps_marks ob_inv progress_of (ob_select limit q)"
  by (simp add: keeps_marks_def ob_select_def)

lemma fst_results [simp]: "fst (drop_count r) = fst r" "fst (require_row msg r') = fst r'"
  by (auto simp: drop_count_def require_row_def split: prod.splits sum.splits)

lemma distinct_ids_filter: "distinct (map ev_ID rows) \<Longrightarrow> distinct (map ev_ID (filter P rows))"
  by (induction rows) auto

lemma store_keeps_marks: "keeps_marks ob_inv progress_of (Store e)"
  unfolding Store_def
  by (rule keeps_marks_stmt)
     (auto simp: keeps_marks_def ob_inv_def progress_of_def violates_unique_def fun_eq_iff)

lemma delete_keeps_marks: "keeps_marks ob_inv progress_of (DeleteCompletedEvents t)"
  unfolding DeleteCompletedEvents_def
  by (rule keeps_marks_stmt)
     (simp add: keeps_marks_def ob_inv_def progress_of_def distinct_ids_filter fun_eq_iff)

lemma fetch_sorted:
  assumes "ob_inv db"
  shows "sorted_wrt (<) (map ev_ID (sort_slice (\<lambda>a b. ev_ID a < ev_ID b) (filter P (ob_events db))))"
proof -
  let ?xs = "sort_slice (\<lambda>a b. ev_ID a < ev_ID b) (filter P (ob_events db))"
  have "mset (map ev_ID ?xs) = mset (map ev_ID (filter P (ob_events db)))"
    unfolding mset_map mset_sort_slice ..
  then have "distinct (map ev_ID ?xs)"
    using distinct_ids_filter assms mset_eq_imp_distinct_iff unfolding ob_inv_def by blast
  moreover have "sorted (map ev_ID ?xs)"
    using sorted_sort_slice [OF strict_weak_key, of ev_ID "filter P (ob_events db)"]
    by (simp add: sorted_map not_less)
  ultimately show ?thesis
    by (simp add: strict_sorted_iff)
qed

lemma fetched_batch:
  assumes "ob_inv db" "GetPendingEventsForPublisher now p limit db = (db', Inr es)"
  shows "sorted_wrt (<) (map ev_ID es) \<and> list_all (\<lambda>e. mark_below (progress_of db p) (ev_ID e)) es"
  using assms(2) [unfolded GetPendingEventsForPublisher_def]
proof (cases rule: ob_stmt_cases)
  case (ran db1)
  let ?rows = "sort_slice (\<lambda>a b. ev_ID a < ev_ID b)
      (filter (\<lambda>e. deliverable now e \<and> above_mark db1 p (ev_ID e)) (ob_events db1))"
  have es: "es = take (nat limit) (map scanEvent ?rows)"
    using ran(2) by (auto simp: ob_select_def split: if_splits)
  have ids: "map ev_ID (take (nat limit) (map scanEvent rows)) = take (nat limit) (map ev_ID rows)" for rows
    by (simp add: take_map scanEvent_def comp_def)
  have "sorted_wrt (<) (map ev_ID es)"
    unfolding es ids using fetch_sorted ran(1) assms(1) ob_inv_same
    by (intro sorted_wrt_take) blast
  moreover have "mark_below (progress_of db p) (ev_ID e)" if "e \<in> set es" for e
    using that same_tablesD(3) [OF ran(1)] unfolding es
    by (cases "progress_of db p")
       (auto dest!: in_set_takeD simp: above_mark_def mark_below_def scanEvent_def)
  ultimately show ?thesis
    by (simp add: list_all_iff)
qed simp

interpretation pg: outbox_repository postgresRepository ob_inv progress_of
proof unfold_locales
  show "keeps_marks ob_inv progress_of (repo_Store postgresRepository e)" for e
    by (simp add: postgresRepository_def store_keeps_marks)
  show "keeps_marks ob_inv progress_of (repo_UpdateStatus postgresRepository now i st msg)" for now i st msg
    by (simp add: postgresRepository_def UpdateStatus_def [abs_def] keeps_marks_post keeps_marks_stmt keeps_marks_update)
  show "keeps_marks ob_inv progress_of (repo_MarkAsProcessing postgresRepository now i)" for now i
    by (simp add: postgresRepository_def MarkAsProcessing_def [abs_def] keeps_marks_post keeps_marks_stmt keeps_marks_update)
  show "keeps_marks ob_inv progress_of (repo_IncrementRetryCount postgresRepository now i t msg)" for now i t msg
    by (simp add: postgresRepository_def IncrementRetryCount_def [abs_def] keeps_marks_post keeps_marks_stmt keeps_marks_update)
  show "keeps_marks ob_inv progress_of (repo_DeleteCompletedEvents postgresRepository now)" for now
    by (simp add: postgresRepository_def delete_keeps_marks)
  show "keeps_marks ob_inv progress_of (repo_RequeueEvent postgresRepository now i)" for now i
    by (simp add: postgresRepository_def RequeueEvent_def [abs_def] keeps_marks_post keeps_marks_stmt keeps_marks_update)
  show "keeps_marks ob_inv progress_of (repo_GetPendingEventsForPublisher postgresRepository now p limit)" for now p limit
    by (simp add: postgresRepository_def GetPendingEventsForPublisher_def keeps_marks_stmt keeps_marks_select)
next
  fix s now p limit s' es
  assume "ob_inv s" "repo_GetPendingEventsForPublisher postgresRepository now p limit s = (s', Inr es)"
  then show "sorted_wrt (<) (map ev_ID es) \<and> list_all (\<lambda>e. mark_below (progress_of s p) (ev_ID e)) es"
    by (intro fetched_batch) (simp_all add: postgresRepository_def)
next
  fix s now p e ps s' u
  assume "ob_inv s" and "repo_MarkPublished postgresRepository now p e ps s = (s', Inr u)"
  then show "ob_inv s' \<and> progress_of s' = (progress_of s)(p := raised (progress_of s p) (ev_ID e))"
    using MarkPublished_spec [of now p e ps s s' "Inr u"] complete_event_ids
    by (auto simp: postgresRepository_def ob_inv_def progress_of_def raised_def map_of_raise_mark fun_eq_iff)
next
  fix s now p e ps s' err
  assume "ob_inv s" and "repo_MarkPublished postgresRepository now p e ps s = (s', Inl err)"
  then show "ob_inv s' \<and> progress_of s' = progress_of s"
    using MarkPublished_spec [of now p e ps s s' "Inl err"] ob_inv_same same_tablesD(3)
    by (auto simp: postgresRepository_def)
qed

section \<open>A healthy database\<close>

lemma ob_stmt_healthy [simp]: "ob_faults db = [] \<Longrightarrow> ob_stmt msg f db = f db"
  by (simp add: ob_stmt_def ob_next_fault_def)

lemma publisherProgressReached_healthy [simp]:
  "ob_faults db = [] \<Longrightarrow> publisherProgressReached i ps db = (db, Inr (all_reached db i ps))"
  by (induction ps) (auto simp: all_reached_def uuid_String_less not_less split: option.splits)

lemma MarkPublished_healthy:
  assumes "ob_faults db = []"
  shows "MarkPublished now p e ps db =
    (let db1 = db\<lparr>ob_progress := raise_mark now p (ev_ID e) (ob_progress db)\<rparr>
     in (if all_reached db1 (ev_ID e) ps
         then db1\<lparr>ob_events := complete_event now (ev_ID e) (ob_events db1)\<rparr> else db1, Inr ()))"
  using assms
  by (simp add: MarkPublished_def markPublished_def upsertPublisherProgress_def ob_update_def
      complete_event_def Let_def if_distrib)

end
