(* ===== verification/Outbox_Dispatcher.thy ===== *)
theory Outbox_Dispatcher
  imports Outbox_Repo Complex_Main
begin

text \<open>
  The outbox dispatcher of \<^verbatim>\<open>internal/outbox/dispatcher.go\<close>: one drain loop per publisher,
  each with its own high-water mark in the database and its own backoff.  A drain is modelled
  twice, as the function the code writes and, since the drains of several publishers run
  concurrently with the requests that store events, as a step relation whose steps are the
  repository calls.  The outcome of a publication is an input, as are the clock readings.
  \<^verbatim>\<open>RetryBackoffFactor\<close> is a rational number and its powers are exact.
\<close>

section \<open>Configuration and state\<close>

record DispatcherConfig =
  dc_PollInterval :: duration
  dc_BatchSize :: int
  dc_MaxRetries :: int
  dc_RetryBackoffFactor :: rat
  dc_CleanupInterval :: duration
  dc_CompletedEventTTL :: duration
  dc_ProcessingTimeout :: duration
  dc_ShardCount :: int
  dc_OwnedShards :: "int list"
  dc_HeartbeatInterval :: duration

definition DefaultDispatcherConfig :: DispatcherConfig where
  "DefaultDispatcherConfig = \<lparr>dc_PollInterval = 5 * Second, dc_BatchSize = 10, dc_MaxRetries = 3,
     dc_RetryBackoffFactor = 2, dc_CleanupInterval = Hour, dc_CompletedEventTTL = 24 * Hour,
     dc_ProcessingTimeout = 30 * Second, dc_ShardCount = 0, dc_OwnedShards = [],
     dc_HeartbeatInterval = 30 * Second\<rparr>"

record dispatcher =
  d_config :: DispatcherConfig
  d_publisherMap :: "string list"
  d_publisherFailCount :: "string \<Rightarrow> int"
  d_publisherNextAttempt :: "string \<Rightarrow> time option"

text \<open>\<^verbatim>\<open>Start\<close> names the publishers it drains by the kind of publisher it was given; \<open>fmt\<close> is
  \<^verbatim>\<open>fmt.Sprintf\<close> of the index.\<close>

datatype publisher_kind = MultiPublisher nat | ConsolePublisher | HTTPPublisher | OtherPublisher

definition publisher_map :: "(nat \<Rightarrow> string) \<Rightarrow> publisher_kind \<Rightarrow> string list" where
  "publisher_map fmt k = (case k of
      MultiPublisher n \<Rightarrow> map (\<lambda>i. ''publisher-'' @ fmt i) [0..<n]
    | ConsolePublisher \<Rightarrow> [''console'']
    | HTTPPublisher \<Rightarrow> [''http'']
    | OtherPublisher \<Rightarrow> [''default''])"

definition start_dispatcher :: "DispatcherConfig \<Rightarrow> string list \<Rightarrow> dispatcher" where
  "start_dispatcher cfg names = \<lparr>d_config = cfg, d_publisherMap = names,
     d_publisherFailCount = (\<lambda>_. 0), d_publisherNextAttempt = (\<lambda>_. None)\<rparr>"

definition publisherNames :: "dispatcher \<Rightarrow> string list" where
  "publisherNames d = sort_slice str_less (d_publisherMap d)"

section \<open>Draining one publisher\<close>

text \<open>
  What a publication can come to: success, an error (permanent or not), a processing
  timeout, or an error or timeout seen after the dispatcher was stopped.
\<close>

datatype publish_result = Published | PublishError bool string | PublishTimeout | DispatcherStopped

definition set_backoff :: "string \<Rightarrow> int \<Rightarrow> time option \<Rightarrow> dispatcher \<Rightarrow> dispatcher" where
  "set_backoff name n next d =
     d\<lparr>d_publisherFailCount := (d_publisherFailCount d)(name := n),
       d_publisherNextAttempt := (d_publisherNextAttempt d)(name := next)\<rparr>"

definition drain_backoff :: "rat \<Rightarrow> int \<Rightarrow> duration" where
  "drain_backoff factor failCount = \<lfloor>min 3600 (max 1 (factor ^ nat failCount))\<rfloor> * Second"

definition handleDrainPublishError :: "'s Repository \<Rightarrow> time \<Rightarrow> string \<Rightarrow> Event \<Rightarrow> bool \<Rightarrow> string
    \<Rightarrow> dispatcher \<Rightarrow> 's \<Rightarrow> dispatcher \<times> 's" where
  "handleDrainPublishError repo now name event permanent msg d s =
     (if permanent then (d, fst (repo_UpdateStatus repo now (ev_ID event) StatusFailed (Some msg) s))
      else
        let failCount = d_publisherFailCount d name + 1
        in if dc_MaxRetries (d_config d) \<le> failCount
           then (set_backoff name 0 None d,
                 fst (repo_UpdateStatus repo now (ev_ID event) StatusFailed (Some msg) s))
           else (set_backoff name failCount
                   (Some (now + drain_backoff (dc_RetryBackoffFactor (d_config d)) failCount)) d, s))"

text \<open>
  One iteration of the loop: the new state, the delivery made if the publisher accepted the
  event (with whether its acknowledgement was recorded), and whether the loop goes on.
\<close>

type_synonym delivery = "string \<times> uuid \<times> bool"

definition drain_event :: "'s Repository \<Rightarrow> time \<Rightarrow> string \<Rightarrow> Event \<Rightarrow> publish_result
    \<Rightarrow> dispatcher \<Rightarrow> 's \<Rightarrow> dispatcher \<times> 's \<times> delivery list \<times> bool" where
  "drain_event repo now name event res d s = (case res of
      DispatcherStopped \<Rightarrow> (d, s, [], False)
    | PublishError permanent msg \<Rightarrow>
        (case handleDrainPublishError repo now name event permanent msg d s of (d', s') \<Rightarrow> (d', s', [], True))
    | PublishTimeout \<Rightarrow>
        (case handleDrainPublishError repo now name event False ''processing timeout'' d s of
           (d', s') \<Rightarrow> (d', s', [], True))
    | Published \<Rightarrow>
        (case repo_MarkPublished repo now name event (publisherNames d) s of
           (s', r) \<Rightarrow> (set_backoff name 0 None d, s', [(name, ev_ID event, is_ok r)], True)))"

fun drain_events :: "'s Repository \<Rightarrow> string \<Rightarrow> (Event \<Rightarrow> time \<times> publish_result) \<Rightarrow> Event list
    \<Rightarrow> dispatcher \<Rightarrow> 's \<Rightarrow> dispatcher \<times> 's \<times> delivery list" where
  "drain_events repo name pub [] d s = (d, s, [])"
| "drain_events repo name pub (e # es) d s =
     (case drain_event repo (fst (pub e)) name e (snd (pub e)) d s of
        (d1, s1, dl, goon) \<Rightarrow>
          if goon then (case drain_events repo name pub es d1 s1 of (d2, s2, dls) \<Rightarrow> (d2, s2, dl @ dls))
          else (d1, s1, dl))"

definition backing_off :: "time \<Rightarrow> string \<Rightarrow> dispatcher \<Rightarrow> bool" where
  "backing_off now name d = (case d_publisherNextAttempt d name of None \<Rightarrow> False | Some t \<Rightarrow> now < t)"

definition drainOnceForPublisher :: "'s Repository \<Rightarrow> time \<Rightarrow> string \<Rightarrow> (Event \<Rightarrow> time \<times> publish_result)
    \<Rightarrow> dispatcher \<Rightarrow> 's \<Rightarrow> dispatcher \<times> 's \<times> delivery list" where
  "drainOnceForPublisher repo now name pub d s =
     (if backing_off now name d then (d, s, [])
      else case repo_GetPendingEventsForPublisher repo now name (dc_BatchSize (d_config d)) s of
             (s1, Inl e) \<Rightarrow> (d, s1, [])
           | (s1, Inr events) \<Rightarrow> drain_events repo name pub events d s1)"

definition cleanupCompletedEvents :: "'s Repository \<Rightarrow> time \<Rightarrow> dispatcher \<Rightarrow> 's \<Rightarrow> 's" where
  "cleanupCompletedEvents repo now d s =
     fst (repo_DeleteCompletedEvents repo (now - dc_CompletedEventTTL (d_config d)) s)"

section \<open>The batch path\<close>

text \<open>
  \<^verbatim>\<open>processEvent\<close> and \<^verbatim>\<open>processPendingEvents\<close> are the earlier, single-publisher path, which the
  dispatcher keeps but does not start.  The result is the state, whether the event was
  handed to the publisher, and the error returned.
\<close>

definition retry_backoff :: "rat \<Rightarrow> int \<Rightarrow> duration" where
  "retry_backoff factor n = \<lfloor>factor ^ nat n\<rfloor> * Second"

definition handlePublishError :: "'s Repository \<Rightarrow> time \<Rightarrow> dispatcher \<Rightarrow> Event \<Rightarrow> bool \<Rightarrow> string
    \<Rightarrow> 's \<Rightarrow> 's \<times> (string, unit) result" where
  "handlePublishError repo now d event permanent msg s =
     (let failed = (\<lambda>s. case repo_UpdateStatus repo now (ev_ID event) StatusFailed (Some msg) s of
                (s', Inl e) \<Rightarrow> (s', Inl e) | (s', Inr _) \<Rightarrow> (s', Inl msg))
      in if permanent then failed s
         else
           let retryCount = ev_RetryCount event + 1
           in if dc_MaxRetries (d_config d) \<le> retryCount then failed s
              else (case repo_IncrementRetryCount repo now (ev_ID event)
                           (now + retry_backoff (dc_RetryBackoffFactor (d_config d)) retryCount) (Some msg) s of
                      (s', Inl e) \<Rightarrow> (s', Inl e)
                    | (s', Inr _) \<Rightarrow> (s', Inl msg)))"

definition processEvent :: "'s Repository \<Rightarrow> time \<Rightarrow> dispatcher \<Rightarrow> Event \<Rightarrow> publish_result
    \<Rightarrow> 's \<Rightarrow> 's \<times> bool \<times> (string, unit) result" where
  "processEvent repo now d event res s =
     (case repo_MarkAsProcessing repo now (ev_ID event) s of
        (s1, Inl e) \<Rightarrow> (s1, False, Inl e)
      | (s1, Inr _) \<Rightarrow>
          (case res of
             Published \<Rightarrow>
               (case repo_UpdateStatus repo now (ev_ID event) StatusCompleted None s1 of
                  (s2, r) \<Rightarrow> (s2, True, r))
           | PublishError permanent msg \<Rightarrow>
               (case handlePublishError repo now d event permanent msg s1 of (s2, r) \<Rightarrow> (s2, True, r))
           | _ \<Rightarrow>
               (case handlePublishError repo now d event False ''processing timeout'' s1 of
                  (s2, r) \<Rightarrow> (s2, True, r))))"

fun process_events :: "'s Repository \<Rightarrow> dispatcher \<Rightarrow> (Event \<Rightarrow> time \<times> publish_result) \<Rightarrow> Event list
    \<Rightarrow> 's \<Rightarrow> 's" where
  "process_events repo d pub [] s = s"
| "process_events repo d pub (e # es) s =
     process_events repo d pub es (fst (processEvent repo (fst (pub e)) d e (snd (pub e)) s))"

definition processPendingEvents :: "'s Repository \<Rightarrow> time \<Rightarrow> dispatcher \<Rightarrow> (Event \<Rightarrow> time \<times> publish_result)
    \<Rightarrow> 's \<Rightarrow> 's" where
  "processPendingEvents repo now d pub s =
     (case repo_GetPendingEvents repo now (dc_BatchSize (d_config d)) s of
        (s1, Inl e) \<Rightarrow> s1
      | (s1, Inr events) \<Rightarrow> process_events repo d pub events s1)"

section \<open>Concurrent drains\<close>

record 's outbox_run =
  run_db :: 's
  run_disp :: dispatcher
  run_batch :: "string \<Rightarrow> Event list"
  run_log :: "delivery list"

definition start_run :: "dispatcher \<Rightarrow> 's \<Rightarrow> 's outbox_run" where
  "start_run d s = \<lparr>run_db = s, run_disp = d, run_batch = (\<lambda>_. []), run_log = []\<rparr>"

definition advance :: "'s outbox_run \<Rightarrow> string \<Rightarrow> dispatcher \<Rightarrow> 's \<Rightarrow> Event list \<Rightarrow> delivery list \<Rightarrow> 's outbox_run" where
  "advance st name d s es dls = st\<lparr>run_db := s, run_disp := d, run_batch := (run_batch st)(name := es),
     run_log := run_log st @ dls\<rparr>"

inductive outbox_step :: "'s Repository \<Rightarrow> 's outbox_run \<Rightarrow> 's outbox_run \<Rightarrow> bool" for repo where
  request_store:
    "outbox_step repo st (st\<lparr>run_db := fst (repo_Store repo e (run_db st))\<rparr>)"
| request_requeue:
    "outbox_step repo st (st\<lparr>run_db := fst (repo_RequeueEvent repo now i (run_db st))\<rparr>)"
| cleanup:
    "outbox_step repo st (st\<lparr>run_db := cleanupCompletedEvents repo now (run_disp st) (run_db st)\<rparr>)"
| fetch:
    "\<lbrakk>name \<in> set (d_publisherMap (run_disp st)); run_batch st name = [];
      \<not> backing_off now name (run_disp st);
      repo_GetPendingEventsForPublisher repo now name (dc_BatchSize (d_config (run_disp st))) (run_db st) = (s', r)\<rbrakk>
     \<Longrightarrow> outbox_step repo st
           (advance st name (run_disp st) s' (case r of Inl _ \<Rightarrow> [] | Inr events \<Rightarrow> events) [])"
| deliver:
    "\<lbrakk>run_batch st name = e # es;
      drain_event repo now name e res (run_disp st) (run_db st) = (d', s', dl, goon)\<rbrakk>
     \<Longrightarrow> outbox_step repo st (advance st name d' s' (if goon then es else []) dl)"

definition acknowledged :: "string \<Rightarrow> delivery list \<Rightarrow> uuid list" where
  "acknowledged p dls = map (\<lambda>(q, i, a). i) (filter (\<lambda>(q, i, a). q = p \<and> a) dls)"

definition deliveries :: "string \<Rightarrow> uuid \<Rightarrow> delivery list \<Rightarrow> delivery list" where
  "deliveries p i dls = filter (\<lambda>(q, j, a). q = p \<and> j = i) dls"

section \<open>What the contract gives the dispatcher\<close>

text \<open>
  A publisher's batch ascends and lies above its mark, and everything the publisher has
  acknowledged ascends and lies at or below the mark.
\<close>

definition batch_ok :: "uuid option \<Rightarrow> Event list \<Rightarrow> bool" where
  "batch_ok m es \<longleftrightarrow> sorted_wrt (<) (map ev_ID es) \<and> list_all (\<lambda>e. mark_below m (ev_ID e)) es"

definition acked_ok :: "uuid option \<Rightarrow> uuid list \<Rightarrow> bool" where
  "acked_ok m is \<longleftrightarrow> sorted_wrt (<) is \<and> list_all (\<lambda>i. case m of None \<Rightarrow> False | Some l \<Rightarrow> i \<le> l) is"

definition run_ok :: "('s \<Rightarrow> bool) \<Rightarrow> ('s \<Rightarrow> string \<Rightarrow> uuid option) \<Rightarrow> 's outbox_run \<Rightarrow> bool" where
  "run_ok ok mark st \<longleftrightarrow> ok (run_db st)
     \<and> (\<forall>p. batch_ok (mark (run_db st) p) (run_batch st p)
            \<and> acked_ok (mark (run_db st) p) (acknowledged p (run_log st)))"

lemma acknowledged_append [simp]:
  "acknowledged p (xs @ ys) = acknowledged p xs @ acknowledged p ys" "acknowledged p [] = []"
  by (simp_all add: acknowledged_def)

lemma deliveries_append [simp]:
  "deliveries p i (xs @ ys) = deliveries p i xs @ deliveries p i ys" "deliveries p i [] = []"
  by (simp_all add: deliveries_def)

lemma acknowledged_single [simp]: "acknowledged p [(q, i, a)] = (if q = p \<and> a then [i] else [])"
  by (simp add: acknowledged_def)

lemma deliveries_single [simp]: "deliveries p i [(q, j, a)] = (if q = p \<and> j = i then [(q, j, a)] else [])"
  by (auto simp: deliveries_def)

lemma raised_mark_below: "mark_below m i \<Longrightarrow> raised m i = Some i"
  by (auto simp: mark_below_def raised_def max_def split: option.splits)

lemma batch_ok_raise:
  assumes "batch_ok m (e # es)"
  shows "batch_ok (raised m (ev_ID e)) es" "mark_below m (ev_ID e)" "batch_ok m es"
  using assms by (auto simp: batch_ok_def raised_mark_below list_all_iff mark_below_def)

lemma acked_ok_raise:
  assumes "acked_ok m is" "mark_below m i"
  shows "acked_ok (raised m i) (is @ [i])"
  using assms unfolding raised_mark_below [OF assms(2)]
  by (cases m) (auto simp: acked_ok_def mark_below_def sorted_wrt_append list_all_iff)

context outbox_repository
begin

lemma keepsD:
  assumes "keeps_marks ok mark f" "ok s" "f s = (s', r)"
  shows "ok s' \<and> mark s' = mark s"
  using assms unfolding keeps_marks_def by (metis fst_conv)

lemma drain_error_keeps:
  assumes "ok s" "handleDrainPublishError repo now name e permanent msg d s = (d', s')"
  shows "ok s' \<and> mark s' = mark s"
proof -
  have "s' = s \<or> s' = fst (repo_UpdateStatus repo now (ev_ID e) StatusFailed (Some msg) s)"
    using assms(2) by (auto simp: handleDrainPublishError_def Let_def split: if_splits)
  then show ?thesis
    using keeps(2) [of now "ev_ID e" StatusFailed "Some msg"] assms(1) by (auto simp: keeps_marks_def)
qed

lemma drain_event_marks:
  assumes "ok s" "drain_event repo now name e res d s = (d', s', dl, goon)"
  shows "ok s' \<and> (dl = [] \<and> mark s' = mark s
                 \<or> dl = [(name, ev_ID e, False)] \<and> goon \<and> mark s' = mark s
                 \<or> dl = [(name, ev_ID e, True)] \<and> goon
                   \<and> mark s' = (mark s)(name := raised (mark s name) (ev_ID e)))"
proof (cases res)
  case Published
  obtain s1 r where mp: "repo_MarkPublished repo now name e (publisherNames d) s = (s1, r)"
    by (rule prod.exhaust)
  then show ?thesis
    using assms Published published [OF assms(1)] not_published [OF assms(1)]
    by (cases r) (simp_all add: drain_event_def)
next
  case (PublishError permanent msg)
  obtain d1 s1 where "handleDrainPublishError repo now name e permanent msg d s = (d1, s1)"
    by (rule prod.exhaust)
  then show ?thesis
    using assms PublishError drain_error_keeps [OF assms(1)] by (simp add: drain_event_def)
next
  case PublishTimeout
  obtain d1 s1 where "handleDrainPublishError repo now name e False ''processing timeout'' d s = (d1, s1)"
    by (rule prod.exhaust)
  then show ?thesis
    using assms PublishTimeout drain_error_keeps [OF assms(1)] by (simp add: drain_event_def)
qed (use assms in \<open>simp add: drain_event_def\<close>)

lemma deliver_ok:
  assumes "run_ok ok mark st" "run_batch st name = e # es"
    and "drain_event repo now name e res (run_disp st) (run_db st) = (d', s', dl, goon)"
  shows "run_ok ok mark (advance st name d' s' (if goon then es else []) dl)"
proof -
  have b: "batch_ok (mark (run_db st) name) (e # es)"
      and a: "acked_ok (mark (run_db st) p) (acknowledged p (run_log st))" for p
    using assms(1,2) by (auto simp: run_ok_def) (metis)
  have empty: "batch_ok m []" for m
    by (simp add: batch_ok_def)
  note eff = drain_event_marks [OF _ assms(3)]
  show ?thesis
    using assms(1) eff b batch_ok_raise [OF b] acked_ok_raise [OF a] empty
    by (auto simp: run_ok_def advance_def)
qed

lemma step_ok:
  assumes "outbox_step repo st st'" "run_ok ok mark st"
  shows "run_ok ok mark st'"
  using assms
proof (cases rule: outbox_step.cases)
  case (fetch name now s' r)
  have "ok s' \<and> mark s' = mark (run_db st)"
    using keepsD [OF keeps(7) _ fetch(5)] assms(2) by (simp add: run_ok_def)
  moreover have "batch_ok (mark (run_db st) name) (case r of Inl _ \<Rightarrow> [] | Inr events \<Rightarrow> events)"
    using fetched [of "run_db st"] fetch assms(2) by (cases r) (simp_all add: batch_ok_def run_ok_def)
  ultimately show ?thesis
    using fetch(1) assms(2) by (simp add: run_ok_def advance_def)
next
  case (deliver name e es now res d' s' dl goon)
  then show ?thesis
    using deliver_ok [OF assms(2)] by simp
qed (use assms(2) keeps in \<open>auto simp: run_ok_def keeps_marks_def cleanupCompletedEvents_def\<close>)

lemma run_ok_star:
  assumes "(outbox_step repo)\<^sup>*\<^sup>* st st'" "run_ok ok mark st"
  shows "run_ok ok mark st'"
  using assms by (induction rule: rtranclp_induct) (simp_all add: step_ok)

text \<open>An event at or below a publisher's mark is never handed to that publisher again.\<close>

lemma step_below_mark:
  assumes "outbox_step repo st st'" "run_ok ok mark st" "mark (run_db st) p = Some l" "i \<le> l"
  shows "deliveries p i (run_log st') = deliveries p i (run_log st)
     \<and> (\<exists>l'. mark (run_db st') p = Some l' \<and> i \<le> l')"
  using assms(1)
proof (cases rule: outbox_step.cases)
  case (fetch name now s' r)
  have "mark s' = mark (run_db st)"
    using keepsD [OF keeps(7) _ fetch(5)] assms(2) by (simp add: run_ok_def)
  then show ?thesis
    using fetch(1) assms(3,4) by (simp add: advance_def)
next
  case (deliver name e es now res d' s' dl goon)
  have b: "batch_ok (mark (run_db st) name) (e # es)" and okdb: "ok (run_db st)"
    using assms(2) deliver(2) unfolding run_ok_def by metis+
  have above: "name = p \<Longrightarrow> l < ev_ID e"
    using batch_ok_raise(2) [OF b] assms(3) by (auto simp: mark_below_def)
  have "deliveries p i dl = []"
    using drain_event_marks [OF okdb deliver(3)] above assms(4) by auto
  moreover have "\<exists>l'. mark s' p = Some l' \<and> i \<le> l'"
    using drain_event_marks [OF okdb deliver(3)] above assms(3,4) order_trans [OF assms(4)]
    by (auto simp: raised_def max_def)
  ultimately show ?thesis
    using deliver(1) by (simp add: advance_def)
qed (use assms(2-4) keeps in \<open>auto simp: run_ok_def keeps_marks_def cleanupCompletedEvents_def\<close>)

lemma below_mark_never_delivered:
  assumes "(outbox_step repo)\<^sup>*\<^sup>* st st'" "run_ok ok mark st" "mark (run_db st) p = Some l" "i \<le> l"
  shows "deliveries p i (run_log st') = deliveries p i (run_log st)
     \<and> (\<exists>l'. mark (run_db st') p = Some l' \<and> i \<le> l')"
  using assms(1)
proof (induction rule: rtranclp_induct)
  case (step y z)
  then obtain l' where "mark (run_db y) p = Some l'" "i \<le> l'"
    by blast
  then show ?case
    using step_below_mark [OF step(2) run_ok_star [OF step(1) assms(2)]] step(3) by simp
qed (use assms(3,4) in simp)

end

section \<open>A drain is a run of steps\<close>

lemma advance_simps [simp]:
  "run_db (advance st name d s es dls) = s" "run_disp (advance st name d s es dls) = d"
  "run_log (advance st name d s es dls) = run_log st @ dls"
  "run_batch (advance st name d s es dls) name = es"
  "advance (advance st name d s es dls) name d' s' es' dls' = advance st name d' s' es' (dls @ dls')"
  by (simp_all add: advance_def)

lemma advance_idle: "run_batch st name = [] \<Longrightarrow> advance st name (run_disp st) (run_db st) [] [] = st"
  by (simp add: advance_def fun_upd_idem)

lemma drain_events_run:
  assumes "run_batch st name = es"
    and "drain_events repo name pub es (run_disp st) (run_db st) = (d', s', dls)"
  shows "(outbox_step repo)\<^sup>*\<^sup>* st (advance st name d' s' [] dls)"
  using assms
proof (induction es arbitrary: st dls)
  case Nil
  then show ?case
    using advance_idle [of st name] by auto
next
  case (Cons e es)
  obtain d1 s1 dl goon where de:
      "drain_event repo (fst (pub e)) name e (snd (pub e)) (run_disp st) (run_db st) = (d1, s1, dl, goon)"
    by (rule prod_cases4)
  have step: "outbox_step repo st (advance st name d1 s1 (if goon then es else []) dl)"
    using Cons.prems(1) de by (rule outbox_step.deliver)
  show ?case
  proof (cases goon)
    case False
    then show ?thesis
      using step Cons.prems(2) de by auto
  next
    case True
    obtain d2 s2 dls2 where rest: "drain_events repo name pub es d1 s1 = (d2, s2, dls2)"
      by (rule prod_cases3)
    let ?st1 = "advance st name d1 s1 es dl"
    have eqs: "d2 = d'" "s2 = s'" "dls = dl @ dls2"
      using Cons.prems(2) de rest True by simp_all
    have "(outbox_step repo)\<^sup>*\<^sup>* ?st1 (advance ?st1 name d' s' [] dls2)"
      by (rule Cons.IH) (use rest eqs in simp_all)
    then show ?thesis
      using step True eqs by (simp add: converse_rtranclp_into_rtranclp)
  qed
qed

lemma drain_is_run:
  assumes "name \<in> set (d_publisherMap (run_disp st))" "run_batch st name = []"
    and "drainOnceForPublisher repo now name pub (run_disp st) (run_db st) = (d', s', dls)"
  shows "(outbox_step repo)\<^sup>*\<^sup>* st (advance st name d' s' [] dls)"
proof (cases "backing_off now name (run_disp st)")
  case True
  then have "d' = run_disp st" "s' = run_db st" "dls = []"
    using assms(3) by (simp_all add: drainOnceForPublisher_def)
  then show ?thesis
    using advance_idle [OF assms(2)] by simp
next
  case False
  obtain s1 r where f: "repo_GetPendingEventsForPublisher repo now name
      (dc_BatchSize (d_config (run_disp st))) (run_db st) = (s1, r)"
    by (rule prod.exhaust)
  let ?st1 = "advance st name (run_disp st) s1 (case r of Inl _ \<Rightarrow> [] | Inr events \<Rightarrow> events) []"
  have step: "outbox_step repo st ?st1"
    using assms(1,2) False f by (rule outbox_step.fetch)
  show ?thesis
  proof (cases r)
    case (Inl e)
    then have "d' = run_disp st" "s' = s1" "dls = []"
      using assms(3) False f by (simp_all add: drainOnceForPublisher_def)
    then show ?thesis
      using step Inl by simp
  next
    case (Inr es)
    then have "(outbox_step repo)\<^sup>*\<^sup>* ?st1 (advance ?st1 name d' s' [] dls)"
      by (intro drain_events_run) (use assms(3) False f in \<open>simp_all add: drainOnceForPublisher_def\<close>)
    then show ?thesis
      using step Inr by (simp add: converse_rtranclp_into_rtranclp)
  qed
qed

section \<open>The queue of a publisher\<close>

text \<open>
  What a publisher still has to see, as an abstract queue: the identifiers of the pending
  events above its mark, in ascending order.
\<close>

definition queued :: "outbox_db \<Rightarrow> string \<Rightarrow> uuid set" where
  "queued db p = set (filter (above_mark db p)
     (map ev_ID (filter (\<lambda>e. ev_Status e = StatusPending) (ob_events db))))"

definition queue :: "outbox_db \<Rightarrow> string \<Rightarrow> uuid list" where
  "queue db p = sorted_list_of_set (queued db p)"

definition no_retries :: "outbox_db \<Rightarrow> bool" where
  "no_retries db = list_all (\<lambda>e. ev_NextRetryAt e = None) (ob_events db)"

definition calm :: "outbox_db \<Rightarrow> bool" where
  "calm db \<longleftrightarrow> ob_inv db \<and> ob_faults db = [] \<and> no_retries db"

lemma finite_queued [simp]: "finite (queued db p)"
  by (simp add: queued_def)

lemma set_queue [simp]: "set (queue db p) = queued db p"
  by (simp add: queue_def)

lemma queue_eqI: "sorted_wrt (<) xs \<Longrightarrow> set xs = queued db p \<Longrightarrow> queue db p = xs"
  unfolding queue_def by (metis finite_queued sorted_list_of_set.idem_if_sorted_distinct strict_sorted_iff)

lemma sorted_queue: "sorted_wrt (<) (queue db p)"
  unfolding queue_def by simp

lemma fetch_queue:
  assumes "calm db" "0 \<le> limit"
  obtains es where "GetPendingEventsForPublisher now p limit db = (db, Inr es)"
    "map ev_ID es = take (nat limit) (queue db p)"
proof -
  let ?P = "\<lambda>e. deliverable now e \<and> above_mark db p (ev_ID e)"
  let ?rows = "sort_slice (\<lambda>a b. ev_ID a < ev_ID b) (filter ?P (ob_events db))"
  have pend: "deliverable now e \<longleftrightarrow> ev_Status e = StatusPending" if "e \<in> set (ob_events db)" for e
    using that assms(1) by (auto simp: deliverable_def calm_def no_retries_def list_all_iff)
  have "set (map ev_ID ?rows) = queued db p"
    using pend by (auto simp: queued_def image_iff)
  then have q: "queue db p = map ev_ID ?rows"
    using fetch_sorted assms(1) by (intro queue_eqI) (simp_all add: calm_def)
  show thesis
  proof (rule that)
    show "GetPendingEventsForPublisher now p limit db = (db, Inr (take (nat limit) (map scanEvent ?rows)))"
      using assms by (simp add: GetPendingEventsForPublisher_def ob_select_def calm_def)
    show "map ev_ID (take (nat limit) (map scanEvent ?rows)) = take (nat limit) (queue db p)"
      by (simp add: q take_map scanEvent_def comp_def)
  qed
qed

lemma above_mark_below: "above_mark db p i = mark_below (progress_of db p) i"
  by (simp add: above_mark_def mark_below_def)

lemma mark_below_trans: "mark_below m i \<Longrightarrow> i < j \<Longrightarrow> mark_below m j"
  by (auto simp: mark_below_def split: option.splits)

lemma pending_complete_event:
  "map ev_ID (filter (\<lambda>e. ev_Status e = StatusPending) (complete_event now i rows))
    = filter (\<lambda>j. j \<noteq> i) (map ev_ID (filter (\<lambda>e. ev_Status e = StatusPending) rows))"
  by (induction rows) (simp_all add: complete_event_def)

lemma no_retries_complete_event:
  "list_all (\<lambda>e. ev_NextRetryAt e = None) (complete_event now i rows)
    = list_all (\<lambda>e. ev_NextRetryAt e = None) rows"
  by (induction rows) (simp_all add: complete_event_def)

text \<open>
  Acknowledging the head of the queue takes it off this publisher's queue and leaves the
  queues of the other publishers alone: an event is completed only when it is below
  every publisher's mark.
\<close>

lemma mark_takes_head:
  assumes "calm db" "queue db p = i # rest" "ev_ID e = i" "set ps = set names" "p \<in> set names"
  obtains db' where "MarkPublished now p e ps db = (db', Inr ())" "calm db'" "queue db' p = rest"
    "\<And>q. q \<in> set names \<Longrightarrow> q \<noteq> p \<Longrightarrow> queue db' q = queue db q"
proof -
  obtain db' r where mp: "MarkPublished now p e ps db = (db', r)"
    by (rule prod.exhaust)
  have faults: "ob_faults db' = []" and r: "r = Inr ()"
    using mp assms(1) MarkPublished_healthy [of db now p e ps] by (auto simp: calm_def Let_def split: if_splits)
  have "i \<in> queued db p" and lt: "\<And>j. j \<in> set rest \<Longrightarrow> i < j"
    using assms(2) set_queue [of db p] sorted_queue [of db p] by auto
  then have head: "mark_below (progress_of db p) i"
    by (simp add: queued_def above_mark_below)
  have prog: "progress_of db' = (progress_of db)(p := Some i)"
    using pg.published [of db now p e ps db' "()"] mp r assms(1,3) raised_mark_below [OF head]
    by (simp add: postgresRepository_def calm_def)
  have ev: "ob_events db' = (if all_reached db' i ps then complete_event now i (ob_events db) else ob_events db)"
    using MarkPublished_spec [OF mp] r assms(3) by simp
  define pend where "pend = map ev_ID (filter (\<lambda>e. ev_Status e = StatusPending) (ob_events db))"
  have qs: "queued db' q = {j \<in> set pend. mark_below (progress_of db' q) j \<and> (all_reached db' i ps \<longrightarrow> j \<noteq> i)}" for q
    unfolding queued_def ev pend_def
    by (cases "all_reached db' i ps") (auto simp only: if_True if_False pending_complete_event above_mark_below set_filter)
  have q0: "queued db q = {j \<in> set pend. mark_below (progress_of db q) j}" for q
    unfolding queued_def pend_def by (auto simp only: above_mark_below set_filter)
  show thesis
  proof (rule that)
    show "MarkPublished now p e ps db = (db', Inr ())"
      using mp r by simp
    show "calm db'"
      using assms(1) faults by (simp add: calm_def ob_inv_def no_retries_def ev no_retries_complete_event)
    have "queued db' p = {j \<in> queued db p. i < j}"
      unfolding qs q0 prog using mark_below_trans [OF head] by (auto simp: mark_below_def [of "Some i"])
    also have "queued db p = insert i (set rest)"
      using set_queue [of db p] assms(2) by simp
    also have "{j \<in> insert i (set rest). i < j} = set rest"
      using lt by auto
    finally show "queue db' p = rest"
      using sorted_queue [of db p] assms(2) by (intro queue_eqI) simp_all
    show "queue db' q = queue db q" if "q \<in> set names" "q \<noteq> p" for q
    proof -
      have "\<not> mark_below (progress_of db q) i" if "all_reached db' i ps"
        using that assms(4) \<open>q \<in> set names\<close> \<open>q \<noteq> p\<close> prog
        by (auto simp: all_reached_def list_all_iff mark_below_def split: option.splits)
      then have "queued db' q = queued db q"
        unfolding qs q0 using that prog by auto
      then show ?thesis
        by (simp add: queue_def)
    qed
  qed
qed

lemma drain_events_queue:
  assumes "calm db" "map ev_ID es = take n (queue db p)" "p \<in> set (d_publisherMap d)"
    and "\<And>e. snd (pub e) = Published"
  obtains d' db' where
    "drain_events postgresRepository p pub es d db = (d', db', map (\<lambda>e. (p, ev_ID e, True)) es)"
    "calm db'" "queue db' p = drop (length es) (queue db p)"
    "\<And>q. q \<in> set (d_publisherMap d) \<Longrightarrow> q \<noteq> p \<Longrightarrow> queue db' q = queue db q"
  using assms
proof (induction es arbitrary: n d db thesis)
  case (Cons e es)
  obtain m where n: "n = Suc m"
    using Cons.prems(3) by (cases n) simp_all
  obtain rest where q: "queue db p = ev_ID e # rest"
    using Cons.prems(3) n by (cases "queue db p") simp_all
  obtain db1 where m1: "MarkPublished (fst (pub e)) p e (publisherNames d) db = (db1, Inr ())"
      "calm db1" "queue db1 p = rest"
      "\<And>q. q \<in> set (d_publisherMap d) \<Longrightarrow> q \<noteq> p \<Longrightarrow> queue db1 q = queue db q"
    by (rule mark_takes_head [OF Cons.prems(2) q refl _ Cons.prems(4), where ps = "publisherNames d" and now = "fst (pub e)"])
       (simp_all add: publisherNames_def)
  let ?d1 = "set_backoff p 0 None d"
  have ids: "map ev_ID es = take m (queue db1 p)"
    using Cons.prems(3) n q m1(3) by simp
  have names: "d_publisherMap ?d1 = d_publisherMap d"
    by (simp add: set_backoff_def)
  obtain d' db' where rec:
      "drain_events postgresRepository p pub es ?d1 db1 = (d', db', map (\<lambda>e. (p, ev_ID e, True)) es)"
      "calm db'" "queue db' p = drop (length es) (queue db1 p)"
      "\<And>q. q \<in> set (d_publisherMap d) \<Longrightarrow> q \<noteq> p \<Longrightarrow> queue db' q = queue db1 q"
    by (rule Cons.IH [where db = db1 and n = m and d = ?d1]) (use m1(2) ids Cons.prems(4,5) names in simp_all)
  show ?case
  proof (rule Cons.prems(1))
    show "drain_events postgresRepository p pub (e # es) d db = (d', db', map (\<lambda>e. (p, ev_ID e, True)) (e # es))"
      using m1(1) rec(1) Cons.prems(5) by (simp add: drain_event_def)
  qed (use rec m1 q in simp_all)
qed simp

lemma fetch_pair:
  assumes "ev_ID e1 < ev_ID e2" "ev_Status e1 = StatusPending" "ev_Status e2 = StatusPending"
    and "progress_of db p = None" "ob_events db = [e1, e2]" "ob_faults db = []" "2 \<le> limit"
  shows "GetPendingEventsForPublisher now p limit db = (db, Inr [scanEvent e1, scanEvent e2])"
  using assms
  by (simp add: GetPendingEventsForPublisher_def ob_select_def deliverable_def above_mark_def
      sort_slice_def numeral_2_eq_2 take_Cons' nat_le_iff)

lemma scanEvent_ID [simp]: "ev_ID (scanEvent e) = ev_ID e"
  by (simp add: scanEvent_def)

text \<open>The first publisher refuses the first event and accepts the second; the other accepts both.\<close>

definition refuses :: "uuid \<Rightarrow> Event \<Rightarrow> time \<times> publish_result" where
  "refuses i e = (0, if ev_ID e = i then PublishError False ''connection refused'' else Published)"

definition accepts :: "Event \<Rightarrow> time \<times> publish_result" where
  "accepts e = (0, Published)"

lemma skipping_drain:
  assumes "ev_ID e1 < ev_ID e2" "ev_Status e1 = StatusPending" "ev_Status e2 = StatusPending"
    and "p1 \<noteq> p2" "2 \<le> dc_BatchSize cfg" "2 \<le> dc_MaxRetries cfg"
  obtains d1 where "drainOnceForPublisher postgresRepository 0 p1 (refuses (ev_ID e1))
      (start_dispatcher cfg [p1, p2]) \<lparr>ob_events = [e1, e2], ob_progress = [], ob_faults = []\<rparr>
    = (d1, \<lparr>ob_events = [e1, e2], ob_progress = [(p1, (ev_ID e2, 0))], ob_faults = []\<rparr>, [(p1, ev_ID e2, True)])"
    "d_config d1 = cfg" "d_publisherMap d1 = [p1, p2]" "d_publisherNextAttempt d1 p2 = None"
  using assms(4-6) order.strict_implies_not_eq [OF assms(1)] order.strict_implies_order [OF assms(1)]
  by (simp add: drainOnceForPublisher_def backing_off_def start_dispatcher_def progress_of_def
      fetch_pair [OF assms(1-3)] refuses_def drain_event_def eq_commute [of "ev_ID e2" "ev_ID e1"] assms(1) handleDrainPublishError_def Let_def
      set_backoff_def MarkPublished_healthy raise_mark_def all_reached_def list_all_iff publisherNames_def)

lemma completing_drain:
  assumes "ev_ID e1 < ev_ID e2" "ev_Status e1 = StatusPending" "ev_Status e2 = StatusPending"
    and "p1 \<noteq> p2" "2 \<le> dc_BatchSize (d_config d)" "d_publisherMap d = [p1, p2]"
    and "d_publisherNextAttempt d p2 = None"
  obtains d2 db2 where "drainOnceForPublisher postgresRepository 0 p2 accepts d
      \<lparr>ob_events = [e1, e2], ob_progress = [(p1, (ev_ID e2, 0))], ob_faults = []\<rparr>
    = (d2, db2, [(p2, ev_ID e1, True), (p2, ev_ID e2, True)])"
    "ob_events db2 = complete_event 0 (ev_ID e2) (complete_event 0 (ev_ID e1) [e1, e2])"
    "progress_of db2 p1 = Some (ev_ID e2)"
  using assms(4-7) order.strict_implies_not_eq [OF assms(1)] order.strict_implies_order [OF assms(1)]
  by (simp add: drainOnceForPublisher_def backing_off_def progress_of_def Let_def
      fetch_pair [OF assms(1-3)] accepts_def drain_event_def assms(1)
      set_backoff_def MarkPublished_healthy raise_mark_def all_reached_def list_all_iff publisherNames_def)

lemma two_drains:
  assumes "ev_ID e1 < ev_ID e2" "ev_Status e1 = StatusPending" "ev_Status e2 = StatusPending"
    and "p1 \<noteq> p2" "2 \<le> dc_BatchSize cfg" "2 \<le> dc_MaxRetries cfg"
  obtains st where "(outbox_step postgresRepository)\<^sup>*\<^sup>*
      (start_run (start_dispatcher cfg [p1, p2]) \<lparr>ob_events = [e1, e2], ob_progress = [], ob_faults = []\<rparr>) st"
    "run_log st = [(p1, ev_ID e2, True), (p2, ev_ID e1, True), (p2, ev_ID e2, True)]"
    "ob_events (run_db st) = complete_event 0 (ev_ID e2) (complete_event 0 (ev_ID e1) [e1, e2])"
    "progress_of (run_db st) p1 = Some (ev_ID e2)"
proof -
  let ?db = "\<lparr>ob_events = [e1, e2], ob_progress = [], ob_faults = []\<rparr>"
  let ?db1 = "\<lparr>ob_events = [e1, e2], ob_progress = [(p1, (ev_ID e2, 0))], ob_faults = []\<rparr>"
  let ?st0 = "start_run (start_dispatcher cfg [p1, p2]) ?db"
  obtain d1 where drain1: "drainOnceForPublisher postgresRepository 0 p1 (refuses (ev_ID e1))
      (start_dispatcher cfg [p1, p2]) ?db = (d1, ?db1, [(p1, ev_ID e2, True)])"
    and d1: "d_config d1 = cfg" "d_publisherMap d1 = [p1, p2]" "d_publisherNextAttempt d1 p2 = None"
    by (rule skipping_drain [OF assms])
  define st1 where "st1 = advance ?st0 p1 d1 ?db1 [] [(p1, ev_ID e2, True)]"
  have run1: "(outbox_step postgresRepository)\<^sup>*\<^sup>* ?st0 st1"
    unfolding st1_def by (rule drain_is_run) (use drain1 in \<open>simp_all add: start_run_def start_dispatcher_def\<close>)
  obtain d2 db2 where drain2: "drainOnceForPublisher postgresRepository 0 p2 accepts d1 (run_db st1)
        = (d2, db2, [(p2, ev_ID e1, True), (p2, ev_ID e2, True)])"
    and db2: "ob_events db2 = complete_event 0 (ev_ID e2) (complete_event 0 (ev_ID e1) [e1, e2])"
      "progress_of db2 p1 = Some (ev_ID e2)"
    unfolding st1_def advance_simps
    by (rule completing_drain [of e1 e2 p1 p2 d1]) (use assms d1 in simp_all)
  let ?st2 = "advance st1 p2 d2 db2 [] [(p2, ev_ID e1, True), (p2, ev_ID e2, True)]"
  have run2: "(outbox_step postgresRepository)\<^sup>*\<^sup>* st1 ?st2"
    by (rule drain_is_run) (use drain2 d1 assms(4) in \<open>simp_all add: st1_def advance_def start_run_def\<close>)
  show thesis
    by (rule that [OF rtranclp_trans [OF run1 run2]]) (simp_all add: st1_def start_run_def db2)
qed

definition sample_event :: "uuid \<Rightarrow> Event" where
  "sample_event i = \<lparr>ev_ID = i, ev_TenantID = ''t1'', ev_EventType = ''subscription.cancelled'', ev_EventData = ''{}'',
     ev_AggregateID = None, ev_AggregateType = None, ev_OccurredAt = 0, ev_Status = StatusPending,
     ev_RetryCount = 0, ev_MaxRetries = 3, ev_NextRetryAt = None, ev_ErrorMessage = None, ev_CreatedAt = 0,
     ev_UpdatedAt = 0, ev_Version = 1, ev_DeduplicationID = None, ev_Partition = 0\<rparr>"

definition sample_outbox :: outbox_db where
  "sample_outbox = \<lparr>ob_events = [sample_event 5, sample_event 3], ob_progress = [], ob_faults = []\<rparr>"

lemma sample_outbox_facts:
  "calm sample_outbox" "ob_inv sample_outbox" "queue sample_outbox p = [3, 5]"
proof -
  show "calm sample_outbox" "ob_inv sample_outbox"
    by (simp_all add: calm_def ob_inv_def no_retries_def sample_outbox_def sample_event_def)
  show "queue sample_outbox p = [3, 5]"
    by (rule queue_eqI)
       (auto simp: queued_def above_mark_def progress_of_def sample_outbox_def sample_event_def)
qed


text \<open>
  C12: Whatever requests, cleanups and drains of the other publishers run in between, the
  events a publisher has acknowledged have strictly ascending identifiers: no event is
  acknowledged by the same publisher twice, and none out of order.
\<close>

theorem acknowledgements_ascend:
  assumes "ob_inv db"
    and "(outbox_step postgresRepository)\<^sup>*\<^sup>* (start_run (start_dispatcher cfg names) db) st"
  shows "sorted_wrt (<) (acknowledged p (run_log st))"
proof -
  have "run_ok ob_inv progress_of (start_run (start_dispatcher cfg names) db)"
    using assms(1) by (simp add: run_ok_def start_run_def batch_ok_def acked_ok_def acknowledged_def)
  then have "run_ok ob_inv progress_of st"
    by (rule pg.run_ok_star [OF assms(2)])
  then show ?thesis
    by (simp add: run_ok_def acked_ok_def)
qed

theorem acknowledgements_ascend_witness:
  "\<exists>st. (outbox_step postgresRepository)\<^sup>*\<^sup>*
      (start_run (start_dispatcher DefaultDispatcherConfig [''publisher-0'', ''publisher-1''])
         \<lparr>ob_events = [sample_event 3, sample_event 5], ob_progress = [], ob_faults = []\<rparr>) st
    \<and> acknowledged ''publisher-1'' (run_log st) = [3, 5]
    \<and> sorted_wrt (<) (acknowledged ''publisher-1'' (run_log st))"
proof -
  let ?db = "\<lparr>ob_events = [sample_event 3, sample_event 5], ob_progress = [], ob_faults = []\<rparr>"
  let ?names = "[''publisher-0'', ''publisher-1'']"
  obtain st where run: "(outbox_step postgresRepository)\<^sup>*\<^sup>*
        (start_run (start_dispatcher DefaultDispatcherConfig ?names) ?db) st"
      and l: "run_log st = [(''publisher-0'', ev_ID (sample_event 5), True),
        (''publisher-1'', ev_ID (sample_event 3), True), (''publisher-1'', ev_ID (sample_event 5), True)]"
    by (rule two_drains [of "sample_event 3" "sample_event 5" "''publisher-0''" "''publisher-1''" DefaultDispatcherConfig])
       (simp_all add: sample_event_def DefaultDispatcherConfig_def)
  have "ob_inv ?db"
    by (simp add: ob_inv_def sample_event_def)
  then have "sorted_wrt (<) (acknowledged ''publisher-1'' (run_log st))"
    by (rule acknowledgements_ascend [OF _ run])
  moreover have "acknowledged ''publisher-1'' (run_log st) = [3, 5]"
    by (simp add: l acknowledged_def sample_event_def)
  ultimately show ?thesis
    using run by blast
qed


text \<open>
  The mark makes the dispatcher lose events.  With two publishers and two pending events,
  it is enough that the first publisher refuses the first event once and accepts the second:
  the event it refused is marked completed as soon as the other publisher has it, and no
  later step, whatever happens, hands it to the first publisher again.
\<close>

theorem refused_event_is_lost:
  assumes "ev_ID e1 < ev_ID e2" "ev_Status e1 = StatusPending" "ev_Status e2 = StatusPending"
    and "p1 \<noteq> p2" "2 \<le> dc_BatchSize cfg" "2 \<le> dc_MaxRetries cfg"
  shows "\<exists>st. (outbox_step postgresRepository)\<^sup>*\<^sup>*
        (start_run (start_dispatcher cfg [p1, p2]) \<lparr>ob_events = [e1, e2], ob_progress = [], ob_faults = []\<rparr>) st
      \<and> (ev_ID e1, StatusCompleted) \<in> set (map (\<lambda>e. (ev_ID e, ev_Status e)) (ob_events (run_db st)))
      \<and> (\<forall>st'. (outbox_step postgresRepository)\<^sup>*\<^sup>* st st' \<longrightarrow> deliveries p1 (ev_ID e1) (run_log st') = [])"
proof -
  let ?st0 = "start_run (start_dispatcher cfg [p1, p2]) \<lparr>ob_events = [e1, e2], ob_progress = [], ob_faults = []\<rparr>"
  obtain st where run: "(outbox_step postgresRepository)\<^sup>*\<^sup>* ?st0 st"
    and st: "run_log st = [(p1, ev_ID e2, True), (p2, ev_ID e1, True), (p2, ev_ID e2, True)]"
      "ob_events (run_db st) = complete_event 0 (ev_ID e2) (complete_event 0 (ev_ID e1) [e1, e2])"
    and mark: "progress_of (run_db st) p1 = Some (ev_ID e2)"
    by (rule two_drains [OF assms])
  have "run_ok ob_inv progress_of ?st0"
    using assms(1) by (auto simp: run_ok_def start_run_def batch_ok_def acked_ok_def ob_inv_def)
  then have ok: "run_ok ob_inv progress_of st"
    by (rule pg.run_ok_star [OF run])
  have unseen: "deliveries p1 (ev_ID e1) (run_log st) = []"
    using assms(1,4) by (auto simp: st deliveries_def)
  have "deliveries p1 (ev_ID e1) (run_log st') = []" if "(outbox_step postgresRepository)\<^sup>*\<^sup>* st st'" for st'
    using pg.below_mark_never_delivered [OF that ok mark] unseen assms(1) by simp
  moreover have "(ev_ID e1, StatusCompleted) \<in> set (map (\<lambda>e. (ev_ID e, ev_Status e)) (ob_events (run_db st)))"
    by (simp add: st complete_event_def)
  ultimately show ?thesis
    using run by blast
qed

theorem refused_event_is_lost_witness:
  "\<exists>st. (outbox_step postgresRepository)\<^sup>*\<^sup>*
        (start_run (start_dispatcher DefaultDispatcherConfig [''publisher-0'', ''publisher-1''])
           \<lparr>ob_events = [sample_event 3, sample_event 5], ob_progress = [], ob_faults = []\<rparr>) st
      \<and> (3, StatusCompleted) \<in> set (map (\<lambda>e. (ev_ID e, ev_Status e)) (ob_events (run_db st)))
      \<and> (\<forall>st'. (outbox_step postgresRepository)\<^sup>*\<^sup>* st st' \<longrightarrow> deliveries ''publisher-0'' 3 (run_log st') = [])"
  using refused_event_is_lost [of "sample_event 3" "sample_event 5" "''publisher-0''" "''publisher-1''" DefaultDispatcherConfig]
  by (simp add: sample_event_def DefaultDispatcherConfig_def)

text \<open>
  An event stored with an identifier below a publisher's mark never reaches that
  publisher.  Identifiers are random UUIDs, so this happens to an ordinary new event.
\<close>

theorem late_event_below_mark_is_lost:
  assumes "ob_inv db"
    and "(outbox_step postgresRepository)\<^sup>*\<^sup>* (start_run (start_dispatcher cfg names) db) st"
    and "ev_ID e \<notin> ev_ID ` set (ob_events (run_db st))" "ev_DeduplicationID e = None" "ob_faults (run_db st) = []"
    and "progress_of (run_db st) p = Some l" "ev_ID e < l" "deliveries p (ev_ID e) (run_log st) = []"
    and "(outbox_step postgresRepository)\<^sup>*\<^sup>* (st\<lparr>run_db := fst (Store e (run_db st))\<rparr>) st'"
  shows "e\<lparr>ev_Partition := 0\<rparr> \<in> set (ob_events (fst (Store e (run_db st))))
    \<and> deliveries p (ev_ID e) (run_log st') = []"
proof -
  have "run_ok ob_inv progress_of (start_run (start_dispatcher cfg names) db)"
    using assms(1) by (simp add: run_ok_def start_run_def batch_ok_def acked_ok_def acknowledged_def)
  then have ok: "run_ok ob_inv progress_of st"
    by (rule pg.run_ok_star [OF assms(2)])
  have "outbox_step postgresRepository st (st\<lparr>run_db := fst (repo_Store postgresRepository e (run_db st))\<rparr>)"
    by (rule outbox_step.request_store)
  then have run: "(outbox_step postgresRepository)\<^sup>*\<^sup>* st st'"
    using assms(9) by (simp add: converse_rtranclp_into_rtranclp)
  have "deliveries p (ev_ID e) (run_log st') = []"
    using pg.below_mark_never_delivered [OF run ok assms(6)] assms(7,8) by simp
  moreover have "e\<lparr>ev_Partition := 0\<rparr> \<in> set (ob_events (fst (Store e (run_db st))))"
    using assms(3-5) by (simp add: Store_def violates_unique_def)
  ultimately show ?thesis
    by simp
qed

theorem late_event_below_mark_is_lost_witness:
  "deliveries ''http'' 3 (run_log
     ((start_run (start_dispatcher DefaultDispatcherConfig [''http''])
        \<lparr>ob_events = [], ob_progress = [(''http'', (9, 0))], ob_faults = []\<rparr>)
      \<lparr>run_db := fst (Store (sample_event 3) \<lparr>ob_events = [], ob_progress = [(''http'', (9, 0))], ob_faults = []\<rparr>)\<rparr>)) = []"
  using late_event_below_mark_is_lost [of "\<lparr>ob_events = [], ob_progress = [(''http'', (9, 0))], ob_faults = []\<rparr>"
      DefaultDispatcherConfig "[''http'']"
      "start_run (start_dispatcher DefaultDispatcherConfig [''http''])
         \<lparr>ob_events = [], ob_progress = [(''http'', (9, 0))], ob_faults = []\<rparr>"
      "sample_event 3" "''http''" 9, OF _ rtranclp.rtrancl_refl _ _ _ _ _ _ rtranclp.rtrancl_refl]
  by (simp add: ob_inv_def progress_of_def start_run_def deliveries_def sample_event_def)

end
