(* ===== verification/Hash_Ring.thy ===== *)
theory Hash_Ring
  imports Prelude "HOL-Library.Word"
begin

text \<open>
  The consistent hash ring of \<^verbatim>\<open>internal/outbox/hash.go\<close>, which assigns tenants to outbox
  partitions, with the FNV-1a hash and the binary search of Go's standard library.
\<close>

unbundle bit_operations_syntax

section \<open>FNV-1a and sort.Search\<close>

type_synonym uint32 = "32 word"
type_synonym bytes = "8 word list"

definition fnv_step :: "uint32 \<Rightarrow> 8 word \<Rightarrow> uint32" where
  "fnv_step h b = (h XOR ucast b) * 16777619"

definition fnv32a :: "bytes \<Rightarrow> uint32" where
  "fnv32a bs = foldl fnv_step 2166136261 bs"

definition string_bytes :: "string \<Rightarrow> bytes" where
  "string_bytes s = map (\<lambda>c. of_nat (char_nat c)) s"

text \<open>\<^verbatim>\<open>sort.Search\<close>: the smallest index of \<open>[lo, hi)\<close> at which a monotone predicate holds.\<close>

function search_range :: "(nat \<Rightarrow> bool) \<Rightarrow> nat \<Rightarrow> nat \<Rightarrow> nat" where
  "search_range f lo hi =
     (if lo < hi
      then let h = (lo + hi) div 2
           in if f h then search_range f lo h else search_range f (h + 1) hi
      else lo)"
  by auto
termination
  by (relation "measure (\<lambda>(f, lo, hi). hi - lo)") auto

declare search_range.simps [simp del]

definition Search :: "nat \<Rightarrow> (nat \<Rightarrow> bool) \<Rightarrow> nat" where
  "Search n f = search_range f 0 n"

section \<open>The ring\<close>

record ConsistentHashRing =
  ring :: "(uint32 \<times> int) list"
  sorted_positions :: "uint32 list"
  partitions :: int
  replicas :: int

definition appendUint32 :: "bytes \<Rightarrow> uint32 \<Rightarrow> bytes" where
  "appendUint32 buf v = buf @ [ucast (drop_bit 24 v), ucast (drop_bit 16 v), ucast (drop_bit 8 v), ucast v]"

definition virtual_node :: "int \<Rightarrow> nat \<Rightarrow> uint32" where
  "virtual_node part i =
     fnv32a (appendUint32 (appendUint32 [] (word_of_int part)) (of_nat i))"

definition add_node :: "int \<Rightarrow> nat \<Rightarrow> ConsistentHashRing \<Rightarrow> ConsistentHashRing" where
  "add_node part i r =
     r\<lparr>ring := AList.update (virtual_node part i) part (ring r),
       sorted_positions := sorted_positions r @ [virtual_node part i]\<rparr>"

definition addPartition :: "ConsistentHashRing \<Rightarrow> int \<Rightarrow> ConsistentHashRing" where
  "addPartition r part = fold (add_node part) [0..<nat (replicas r)] r"

definition NewConsistentHashRing :: "int \<Rightarrow> int \<Rightarrow> ConsistentHashRing" where
  "NewConsistentHashRing n reps =
     (let n' = (if n \<le> 0 then 1 else n);
          reps' = (if reps \<le> 0 then 150 else reps);
          r = foldl addPartition
                \<lparr>ring = [], sorted_positions = [], partitions = n', replicas = reps'\<rparr>
                (map int [0..<nat n'])
      in r\<lparr>sorted_positions := sort_slice (<) (sorted_positions r)\<rparr>)"

definition GetPartition :: "ConsistentHashRing \<Rightarrow> string \<Rightarrow> int" where
  "GetPartition r tenantID =
     (if sorted_positions r = [] then 0
      else let hash = fnv32a (string_bytes tenantID);
               idx = Search (length (sorted_positions r)) (\<lambda>i. hash \<le> sorted_positions r ! i);
               idx' = (if length (sorted_positions r) \<le> idx then 0 else idx)
           in case map_of (ring r) (sorted_positions r ! idx') of None \<Rightarrow> 0 | Some p \<Rightarrow> p)"

definition Partitions :: "ConsistentHashRing \<Rightarrow> int list" where
  "Partitions r = sort_slice (<) (remdups (map snd (ring r)))"

definition NumPartitions :: "ConsistentHashRing \<Rightarrow> int" where
  "NumPartitions r = partitions r"

section \<open>Binary search\<close>

lemma search_range_spec:
  assumes "lo \<le> hi" "\<And>i j. i \<le> j \<Longrightarrow> j < hi \<Longrightarrow> f i \<Longrightarrow> f j"
  shows "lo \<le> search_range f lo hi \<and> search_range f lo hi \<le> hi
     \<and> (\<forall>i. lo \<le> i \<longrightarrow> i < search_range f lo hi \<longrightarrow> \<not> f i)
     \<and> (search_range f lo hi < hi \<longrightarrow> f (search_range f lo hi))"
  using assms
proof (induction f lo hi rule: search_range.induct)
  case (1 f lo hi)
  define h where "h = (lo + hi) div 2"
  show ?case
  proof (cases "lo < hi")
    case False
    then show ?thesis
      using "1.prems"(1) by (simp add: search_range.simps [of f hi hi])
  next
    case True
    then have h: "lo \<le> h" "h < hi"
      by (auto simp: h_def)
    show ?thesis
    proof (cases "f h")
      case fh: True
      have "search_range f lo hi = search_range f lo h"
        using True fh by (simp add: search_range.simps [of f lo hi] Let_def h_def)
      moreover have "f i \<Longrightarrow> f j" if "i \<le> j" "j < h" for i j
        using "1.prems"(2) [of i j] that h by simp
      ultimately show ?thesis
        using "1.IH"(1) [OF True h_def fh h(1)] h fh
        by (cases "search_range f lo h = h") auto
    next
      case fh: False
      have eq: "search_range f lo hi = search_range f (h + 1) hi"
        using True fh by (simp add: search_range.simps [of f lo hi] Let_def h_def)
      have low: "\<not> f i" if "i \<le> h" for i
        using "1.prems"(2) [of i h] that fh h by blast
      have rec: "h + 1 \<le> search_range f (h + 1) hi \<and> search_range f (h + 1) hi \<le> hi
          \<and> (\<forall>i. h + 1 \<le> i \<longrightarrow> i < search_range f (h + 1) hi \<longrightarrow> \<not> f i)
          \<and> (search_range f (h + 1) hi < hi \<longrightarrow> f (search_range f (h + 1) hi))"
        by (rule "1.IH"(2) [OF True h_def fh]) (use h "1.prems"(2) in auto)
      have "\<not> f i" if "i < search_range f (h + 1) hi" for i
        using low [of i] rec that by (cases "i \<le> h") auto
      then show ?thesis
        unfolding eq using rec h by simp
    qed
  qed
qed

text \<open>The entry found in a sorted list is its least element at or above the key.\<close>

lemma Search_sorted:
  fixes xs :: "'a :: linorder list" and h :: 'a
  assumes "sorted xs"
  defines "k \<equiv> Search (length xs) (\<lambda>i. h \<le> xs ! i)"
  shows "k < length xs \<Longrightarrow> h \<le> xs ! k \<and> (\<forall>x \<in> set xs. h \<le> x \<longrightarrow> xs ! k \<le> x)"
    "\<not> k < length xs \<Longrightarrow> \<forall>x \<in> set xs. x < h"
proof -
  have mono: "i \<le> j \<Longrightarrow> j < length xs \<Longrightarrow> h \<le> xs ! i \<Longrightarrow> h \<le> xs ! j" for i j
    using sorted_nth_mono [OF assms(1)] order_trans by blast
  have spec: "k \<le> length xs \<and> (\<forall>i. i < k \<longrightarrow> \<not> h \<le> xs ! i) \<and> (k < length xs \<longrightarrow> h \<le> xs ! k)"
    using search_range_spec [of 0 "length xs" "\<lambda>i. h \<le> xs ! i"] mono by (simp add: k_def Search_def)
  show "h \<le> xs ! k \<and> (\<forall>x \<in> set xs. h \<le> x \<longrightarrow> xs ! k \<le> x)" if "k < length xs"
  proof (intro conjI ballI impI)
    show "h \<le> xs ! k"
      using spec that by simp
    fix x
    assume "x \<in> set xs" "h \<le> x"
    then obtain i where i: "i < length xs" "x = xs ! i"
      by (auto simp: in_set_conv_nth)
    then have "k \<le> i"
      using spec \<open>h \<le> x\<close> by (meson le0 not_le_imp_less)
    then show "xs ! k \<le> x"
      using sorted_nth_mono [OF assms(1)] i by simp
  qed
  show "\<forall>x \<in> set xs. x < h" if "\<not> k < length xs"
    using spec that by (auto simp: in_set_conv_nth not_le [symmetric])
qed

section \<open>Building the ring\<close>

lemma addPartition_effect:
  "sorted_positions (addPartition r p) = sorted_positions r @ map (virtual_node p) [0..<nat (replicas r)]"
  "map_of (ring (addPartition r p)) x =
     (if x \<in> virtual_node p ` {0..<nat (replicas r)} then Some p else map_of (ring r) x)"
  "replicas (addPartition r p) = replicas r" "partitions (addPartition r p) = partitions r"
proof -
  have "sorted_positions (fold (add_node p) is r) = sorted_positions r @ map (virtual_node p) is
      \<and> map_of (ring (fold (add_node p) is r)) x = (if x \<in> virtual_node p ` set is then Some p else map_of (ring r) x)
      \<and> replicas (fold (add_node p) is r) = replicas r \<and> partitions (fold (add_node p) is r) = partitions r" for "is" r
    by (induction "is" arbitrary: r) (auto simp: add_node_def)
  from this [of "[0..<nat (replicas r)]" r] show
    "sorted_positions (addPartition r p) = sorted_positions r @ map (virtual_node p) [0..<nat (replicas r)]"
    "map_of (ring (addPartition r p)) x =
       (if x \<in> virtual_node p ` {0..<nat (replicas r)} then Some p else map_of (ring r) x)"
    "replicas (addPartition r p) = replicas r" "partitions (addPartition r p) = partitions r"
    by (simp_all add: addPartition_def)
qed

definition ring_of :: "int \<Rightarrow> int \<Rightarrow> nat \<Rightarrow> ConsistentHashRing" where
  "ring_of n reps k = foldl addPartition
     \<lparr>ring = [], sorted_positions = [], partitions = n, replicas = reps\<rparr> (map int [0..<k])"

lemma ring_of_Suc: "ring_of n reps (Suc k) = addPartition (ring_of n reps k) (int k)"
  by (simp add: ring_of_def)

lemma replicas_ring_of: "replicas (ring_of n reps k) = reps"
  by (induction k) (simp_all add: ring_of_Suc addPartition_effect, simp add: ring_of_def)

lemma ring_of_partitions:
  "map_of (ring (ring_of n reps k)) x = map_of (ring (ring_of n' reps k)) x
   \<and> set (sorted_positions (ring_of n reps k)) = set (sorted_positions (ring_of n' reps k))"
  by (induction k) (simp_all add: ring_of_Suc addPartition_effect replicas_ring_of, simp add: ring_of_def)

lemma ring_of_wf:
  "(x \<in> set (sorted_positions (ring_of n reps k)) \<longrightarrow>
      (\<exists>p. map_of (ring (ring_of n reps k)) x = Some p \<and> 0 \<le> p \<and> p < int k))"
proof (induction k)
  case (Suc k)
  then show ?case
    by (auto simp: ring_of_Suc addPartition_effect replicas_ring_of)
qed (simp add: ring_of_def)

lemma NewConsistentHashRing_of:
  assumes "0 < n" "0 < reps"
  shows "map_of (ring (NewConsistentHashRing n reps)) = map_of (ring (ring_of n reps (nat n)))"
    "set (sorted_positions (NewConsistentHashRing n reps)) = set (sorted_positions (ring_of n reps (nat n)))"
    "sorted (sorted_positions (NewConsistentHashRing n reps))"
    "sorted_positions (NewConsistentHashRing n reps) \<noteq> []"
proof -
  have new: "NewConsistentHashRing n reps = (ring_of n reps (nat n))
      \<lparr>sorted_positions := sort_slice (<) (sorted_positions (ring_of n reps (nat n)))\<rparr>"
    using assms by (simp add: NewConsistentHashRing_def ring_of_def Let_def)
  have "sorted_wrt (\<lambda>a b. \<not> b < a) (sort_slice (<) xs)" for xs :: "uint32 list"
    by (rule sorted_sort_slice [OF strict_weak_key [of "\<lambda>x. x"]])
  then show "sorted (sorted_positions (NewConsistentHashRing n reps))"
    by (simp add: new not_less)
  obtain k where k: "nat n = Suc k"
    using assms(1) by (cases "nat n") simp_all
  show "sorted_positions (NewConsistentHashRing n reps) \<noteq> []"
    using assms(2) by (simp add: new k ring_of_Suc addPartition_effect replicas_ring_of)
qed (use assms in \<open>simp_all add: NewConsistentHashRing_def ring_of_def Let_def\<close>)

section \<open>The position that serves a key\<close>

definition cyc_first :: "'a :: linorder set \<Rightarrow> 'a \<Rightarrow> 'a \<Rightarrow> bool" where
  "cyc_first P h x \<longleftrightarrow> x \<in> P \<and> (h \<le> x \<and> (\<forall>y \<in> P. h \<le> y \<longrightarrow> x \<le> y) \<or> (\<forall>y \<in> P. y < h \<and> x \<le> y))"

lemma cyc_first_unique: "cyc_first P h x \<Longrightarrow> cyc_first P h y \<Longrightarrow> x = y"
  by (auto simp: cyc_first_def not_le [symmetric] intro: antisym)

lemma cyc_first_subset: "cyc_first P' h x \<Longrightarrow> P \<subseteq> P' \<Longrightarrow> x \<in> P \<Longrightarrow> cyc_first P h x"
  by (auto simp: cyc_first_def)

lemma GetPartition_position:
  assumes "0 < n" "0 < reps"
  obtains x where "cyc_first (set (sorted_positions (ring_of n reps (nat n)))) (fnv32a (string_bytes t)) x"
    "map_of (ring (ring_of n reps (nat n))) x = Some (GetPartition (NewConsistentHashRing n reps) t)"
    "0 \<le> GetPartition (NewConsistentHashRing n reps) t" "GetPartition (NewConsistentHashRing n reps) t < n"
proof -
  define r h where "r = NewConsistentHashRing n reps" and "h = fnv32a (string_bytes t)"
  define xs where "xs = sorted_positions r"
  note new = NewConsistentHashRing_of [OF assms, folded r_def, folded xs_def]
  define k where "k = Search (length xs) (\<lambda>i. h \<le> xs ! i)"
  define x where "x = xs ! (if length xs \<le> k then 0 else k)"
  note found = Search_sorted [OF new(3), of h, folded k_def]
  have mem: "x \<in> set xs"
    using new(4) by (simp add: x_def)
  have cyc: "cyc_first (set xs) h x"
  proof (cases "k < length xs")
    case True
    then show ?thesis
      using found(1) mem by (simp add: cyc_first_def x_def)
  next
    case False
    have "x \<le> y" if "y \<in> set xs" for y
      using that False new(3) by (auto simp: x_def in_set_conv_nth intro: sorted_nth_mono)
    then show ?thesis
      using found(2) [OF False] mem by (simp add: cyc_first_def)
  qed
  obtain p where p: "map_of (ring r) x = Some p" "0 \<le> p" "p < n"
    using ring_of_wf [of x n reps "nat n"] mem new(1,2) assms(1) by auto
  have "GetPartition r t = p"
    using new(4) p(1) [unfolded x_def] unfolding GetPartition_def Let_def
    by (simp add: xs_def [symmetric] h_def [symmetric] k_def [symmetric] split: if_splits)
  then show thesis
    using that [of x] cyc p new(1,2) by (simp add: h_def r_def)
qed

text \<open>
  C32: Growing the ring by one partition moves tenants only to the new partition: every tenant
  keeps its partition or gets the new one, and a partition is always in range.
\<close>

theorem resize_moves_only_to_new_partition:
  assumes "0 < n" "0 < reps"
  shows "GetPartition (NewConsistentHashRing (n + 1) reps) t
      \<in> {GetPartition (NewConsistentHashRing n reps) t, n}
    \<and> 0 \<le> GetPartition (NewConsistentHashRing n reps) t \<and> GetPartition (NewConsistentHashRing n reps) t < n"
proof -
  let ?h = "fnv32a (string_bytes t)"
  let ?p = "GetPartition (NewConsistentHashRing n reps) t"
  let ?p' = "GetPartition (NewConsistentHashRing (n + 1) reps) t"
  define R P where "R = (\<lambda>k. map_of (ring (ring_of n reps k)))"
    and "P = (\<lambda>k. set (sorted_positions (ring_of n reps k)))"
  have bigger: "nat (n + 1) = Suc (nat n)"
    using assms(1) by simp
  have grow: "P (nat n) \<subseteq> P (Suc (nat n))"
      "R (Suc (nat n)) y = Some n \<or> R (Suc (nat n)) y = R (nat n) y \<and> (y \<in> P (Suc (nat n)) \<longrightarrow> y \<in> P (nat n))" for y
    using assms(1) by (auto simp: R_def P_def ring_of_Suc addPartition_effect replicas_ring_of)
  obtain x where x: "cyc_first (P (nat n)) ?h x" "R (nat n) x = Some ?p" "0 \<le> ?p" "?p < n"
    using GetPartition_position [OF assms, of t] unfolding R_def P_def by metis
  obtain x' where x': "cyc_first (P (Suc (nat n))) ?h x'" "R (Suc (nat n)) x' = Some ?p'"
    using GetPartition_position [of "n + 1" reps t] assms bigger
      ring_of_partitions [of "n + 1" reps _ _ n] unfolding R_def P_def
    by (metis add_pos_pos zero_less_one)
  have "?p' = ?p" if "?p' \<noteq> n"
  proof -
    have same: "R (Suc (nat n)) x' = R (nat n) x'" and "x' \<in> P (nat n)"
      using grow(2) [of x'] x' that by (auto simp: cyc_first_def)
    then have "x = x'"
      using cyc_first_unique [OF x(1)] cyc_first_subset [OF x'(1) grow(1)] by blast
    then show ?thesis
      using same x(2) x'(2) by simp
  qed
  then show ?thesis
    using x(3,4) by auto
qed

theorem resize_moves_only_to_new_partition_witness:
  "GetPartition (NewConsistentHashRing 3 2) ''tenant-a'' \<in> {GetPartition (NewConsistentHashRing 2 2) ''tenant-a'', 2}"
  using resize_moves_only_to_new_partition [of 2 2 "''tenant-a''"] by simp

end
