(* ===== verification/RSQL.thy ===== *)
theory RSQL
  imports Prelude
begin

text \<open>
  The RSQL filter language of \<^verbatim>\<open>internal/requestparams/rsql.go\<close>: a recursive-descent parser
  over the bytes of the query parameter, checked against an allow-list of fields, and the
  compilation of its tree to a parameterised \<^verbatim>\<open>squirrel\<close> expression.  The parser's position is
  the rest of the input.  Its mutually recursive routines carry fuel, and the development
  shows that the fuel the entry point gives them is always enough.
\<close>

section \<open>UTF-8\<close>

text \<open>\<^verbatim>\<open>utf8.ValidString\<close>: well-formed sequences, without overlong forms, surrogates and values
  above U+10FFFF.\<close>

definition byte_in :: "char \<Rightarrow> nat \<Rightarrow> nat \<Rightarrow> bool" where
  "byte_in c lo hi = (lo \<le> char_nat c \<and> char_nat c \<le> hi)"

definition utf8_rune_length :: "string \<Rightarrow> nat option" where
  "utf8_rune_length s = (case s of
      [] \<Rightarrow> None
    | c # cs \<Rightarrow>
        if byte_in c 0 0x7F then Some 1
        else case cs of
          [] \<Rightarrow> None
        | c1 # cs1 \<Rightarrow>
            if byte_in c 0xC2 0xDF \<and> byte_in c1 0x80 0xBF then Some 2
            else case cs1 of
              [] \<Rightarrow> None
            | c2 # cs2 \<Rightarrow>
                if (byte_in c 0xE0 0xE0 \<and> byte_in c1 0xA0 0xBF
                    \<or> (byte_in c 0xE1 0xEC \<or> byte_in c 0xEE 0xEF) \<and> byte_in c1 0x80 0xBF
                    \<or> byte_in c 0xED 0xED \<and> byte_in c1 0x80 0x9F) \<and> byte_in c2 0x80 0xBF then Some 3
                else case cs2 of
                  [] \<Rightarrow> None
                | c3 # _ \<Rightarrow>
                    if (byte_in c 0xF0 0xF0 \<and> byte_in c1 0x90 0xBF
                        \<or> byte_in c 0xF1 0xF3 \<and> byte_in c1 0x80 0xBF
                        \<or> byte_in c 0xF4 0xF4 \<and> byte_in c1 0x80 0x8F)
                       \<and> byte_in c2 0x80 0xBF \<and> byte_in c3 0x80 0xBF then Some 4
                    else None)"

function utf8_valid :: "string \<Rightarrow> bool" where
  "utf8_valid s =
     (if s = [] then True
      else case utf8_rune_length s of None \<Rightarrow> False | Some n \<Rightarrow> utf8_valid (drop n s))"
  by auto
termination
  by (relation "measure length") (auto simp: utf8_rune_length_def split: list.splits if_splits)

declare utf8_valid.simps [simp del]

section \<open>Options, trees and errors\<close>

record FieldRule =
  fr_Indexed :: bool
  fr_Column :: string

record ParseOptions =
  po_AllowUnindexed :: bool
  po_AllowedFields :: "(string \<times> FieldRule) list option"

datatype rsqlNode =
    Predicate (pr_field: string) (pr_operator: string) (pr_values: "string list") (pr_column: string)
  | AndNode rsqlNode rsqlNode
  | OrNode rsqlNode rsqlNode

datatype rsql_error =
    FilterEmpty | UnexpectedEnd | ExpectedClosingParen | ExpectedOpeningParen | ExpectedFieldName
  | ExpectedOperator | InvalidOperator | UnsupportedOperator string | UnsupportedOperatorSyntax
  | UnsupportedField string | FieldNotIndexed string | ExpectedValue | DanglingEscape | InvalidUTF8
  | ExpectedCommaOrParen | OutOfFuel

record RSQLFilter =
  rf_root :: rsqlNode
  rf_raw :: string

definition defaultAllowedFields :: "(string \<times> FieldRule) list" where
  "defaultAllowedFields =
     [(''amount'', \<lparr>fr_Indexed = True, fr_Column = ''total_amount''\<rparr>),
      (''customer_id'', \<lparr>fr_Indexed = True, fr_Column = ''customer_id''\<rparr>),
      (''kind'', \<lparr>fr_Indexed = True, fr_Column = ''kind''\<rparr>),
      (''status'', \<lparr>fr_Indexed = True, fr_Column = ''status''\<rparr>),
      (''subscription_id'', \<lparr>fr_Indexed = True, fr_Column = ''subscription_id''\<rparr>)]"

section \<open>Lexical routines\<close>

definition is_blank :: "char \<Rightarrow> bool" where
  "is_blank c = (char_nat c \<in> {32, 9, 10, 13})"

definition skipWhitespace :: "string \<Rightarrow> string" where
  "skipWhitespace s = dropWhile is_blank s"

definition ident_char :: "char \<Rightarrow> bool" where
  "ident_char c = (byte_in c 97 122 \<or> byte_in c 65 90 \<or> byte_in c 48 57
     \<or> c = CHR ''.'' \<or> c = CHR ''_'' \<or> c = CHR ''-'')"

type_synonym 'a parsed = "(rsql_error, 'a \<times> string) result"

definition parseIdentifier :: "string \<Rightarrow> string parsed" where
  "parseIdentifier s =
     (let w = takeWhile ident_char s
      in if w = [] then Inl ExpectedFieldName else Inr (w, dropWhile ident_char s))"

definition operators :: "string list" where
  "operators = [''gt'', ''ge'', ''lt'', ''le'', ''in'', ''out'', ''eq'', ''ne'']"

definition parseOperator :: "string \<Rightarrow> string parsed" where
  "parseOperator s0 = (case skipWhitespace s0 of
      [] \<Rightarrow> Inl ExpectedOperator
    | c # s \<Rightarrow>
        if c \<noteq> CHR ''='' then Inl UnsupportedOperatorSyntax
        else if s \<noteq> [] \<and> hd s = CHR ''='' then Inr (''eq'', tl s)
        else
          let w = takeWhile (\<lambda>d. d \<noteq> CHR ''='') s; r = dropWhile (\<lambda>d. d \<noteq> CHR ''='') s
          in if r = [] then Inl InvalidOperator
             else if w \<in> set operators then Inr (w, tl r) else Inl (UnsupportedOperator w))"

definition value_end :: "char \<Rightarrow> bool" where
  "value_end c = (c = CHR '';'' \<or> c = CHR '','' \<or> c = CHR '')'')"

definition backslash :: char where
  "backslash = CHR 0x5C"

fun scan_value :: "string \<Rightarrow> string parsed" where
  "scan_value [] = Inr ([], [])"
| "scan_value (c # s) =
     (if value_end c then Inr ([], c # s)
      else if c = backslash then
        (case s of
           [] \<Rightarrow> Inl DanglingEscape
         | d # s' \<Rightarrow> (case scan_value s' of Inl e \<Rightarrow> Inl e | Inr (v, r) \<Rightarrow> Inr (d # v, r)))
      else (case scan_value s of Inl e \<Rightarrow> Inl e | Inr (v, r) \<Rightarrow> Inr (c # v, r)))"

definition parseValue :: "string \<Rightarrow> string parsed" where
  "parseValue s0 = (case skipWhitespace s0 of
      [] \<Rightarrow> Inl ExpectedValue
    | c # s \<Rightarrow>
        (case scan_value (c # s) of
           Inl e \<Rightarrow> Inl e
         | Inr (v, r) \<Rightarrow>
             if v = [] then Inl ExpectedValue
             else if utf8_valid v then Inr (v, r) else Inl InvalidUTF8))"

text \<open>The loop of \<^verbatim>\<open>parseListValue\<close>; every iteration consumes input.\<close>

lemma scan_value_shorter: "scan_value s = Inr (v, r) \<Longrightarrow> length r + length v \<le> length s"
  by (induction s arbitrary: v rule: scan_value.induct)
     (auto split: if_splits list.splits sum.splits prod.splits; force)+

lemma length_skipWhitespace: "length (skipWhitespace s) \<le> length s"
  by (simp add: skipWhitespace_def length_dropWhile_le)

lemma parseValue_shorter:
  assumes "parseValue s = Inr (v, r)"
  shows "length r < length s"
proof -
  obtain c s' where s': "skipWhitespace s = c # s'"
    using assms by (cases "skipWhitespace s") (simp_all add: parseValue_def)
  then have "scan_value (c # s') = Inr (v, r)" "v \<noteq> []"
    using assms by (auto simp: parseValue_def simp del: scan_value.simps split: sum.splits if_splits)
  then have "length r + length v \<le> length (c # s')" "0 < length v"
    using scan_value_shorter [of "c # s'" v r] by simp_all
  then have "length r < length (skipWhitespace s)"
    unfolding s' by linarith
  then show ?thesis
    using length_skipWhitespace [of s] by linarith
qed

function list_values :: "string \<Rightarrow> string list parsed" where
  "list_values s =
     (if s = [] then Inl ExpectedClosingParen
      else if hd s = CHR '')'' then Inr ([], tl s)
      else case parseValue s of
             Inl e \<Rightarrow> Inl e
           | Inr (v, s1) \<Rightarrow>
               (let s2 = skipWhitespace s1
                in if s2 \<noteq> [] \<and> hd s2 = CHR '',''
                   then (case list_values (skipWhitespace (tl s2)) of
                           Inl e \<Rightarrow> Inl e | Inr (vs, r) \<Rightarrow> Inr (v # vs, r))
                   else if s2 \<noteq> [] \<and> hd s2 = CHR '')'' then Inr ([v], tl s2)
                   else Inl ExpectedCommaOrParen))"
  by auto
termination
proof (relation "measure length", simp, goal_cases)
  case (1 s p v s1 s2)
  have "length (skipWhitespace (tl s2)) \<le> length s1"
    using length_skipWhitespace [of "tl s2"] length_skipWhitespace [of s1] 1 by simp
  also have "\<dots> < length s"
    using 1 parseValue_shorter [of s v s1] by simp
  finally show ?case
    by simp
qed

declare list_values.simps [simp del]

definition parseListValue :: "string \<Rightarrow> string list parsed" where
  "parseListValue s0 = (case skipWhitespace s0 of
      [] \<Rightarrow> Inl ExpectedOpeningParen
    | c # s \<Rightarrow> if c = CHR ''('' then list_values (skipWhitespace s) else Inl ExpectedOpeningParen)"

section \<open>The parser\<close>

definition parsePredicate :: "bool \<Rightarrow> (string \<times> FieldRule) list \<Rightarrow> string \<Rightarrow> rsqlNode parsed" where
  "parsePredicate allowUnindexed allowed s = (case parseIdentifier s of
      Inl e \<Rightarrow> Inl e
    | Inr (field, s1) \<Rightarrow>
        if skipWhitespace s1 = [] then Inl UnexpectedEnd
        else (case parseOperator (skipWhitespace s1) of
           Inl e \<Rightarrow> Inl e
         | Inr (operator, s2) \<Rightarrow>
             (case map_of allowed field of
                None \<Rightarrow> Inl (UnsupportedField field)
              | Some rule \<Rightarrow>
                  if \<not> fr_Indexed rule \<and> \<not> allowUnindexed then Inl (FieldNotIndexed field)
                  else if operator = ''in'' \<or> operator = ''out'' then
                    (case parseListValue (skipWhitespace s2) of
                       Inl e \<Rightarrow> Inl e
                     | Inr (vs, r) \<Rightarrow> Inr (Predicate field operator vs (fr_Column rule), r))
                  else
                    (case parseValue (skipWhitespace s2) of
                       Inl e \<Rightarrow> Inl e
                     | Inr (v, r) \<Rightarrow> Inr (Predicate field operator [v] (fr_Column rule), r)))))"

function (sequential) parseOr :: "nat \<Rightarrow> bool \<Rightarrow> (string \<times> FieldRule) list \<Rightarrow> string \<Rightarrow> rsqlNode parsed"
  and or_loop :: "nat \<Rightarrow> bool \<Rightarrow> (string \<times> FieldRule) list \<Rightarrow> rsqlNode \<Rightarrow> string \<Rightarrow> rsqlNode parsed"
  and parseAnd :: "nat \<Rightarrow> bool \<Rightarrow> (string \<times> FieldRule) list \<Rightarrow> string \<Rightarrow> rsqlNode parsed"
  and and_loop :: "nat \<Rightarrow> bool \<Rightarrow> (string \<times> FieldRule) list \<Rightarrow> rsqlNode \<Rightarrow> string \<Rightarrow> rsqlNode parsed"
  and parsePrimary :: "nat \<Rightarrow> bool \<Rightarrow> (string \<times> FieldRule) list \<Rightarrow> string \<Rightarrow> rsqlNode parsed" where
  "parseOr 0 u fs s = Inl OutOfFuel"
| "parseOr (Suc n) u fs s =
     (case parseAnd n u fs s of Inl e \<Rightarrow> Inl e | Inr (left, s1) \<Rightarrow> or_loop n u fs left s1)"
| "or_loop 0 u fs left s = Inl OutOfFuel"
| "or_loop (Suc n) u fs left s =
     (if s \<noteq> [] \<and> hd s = CHR '',''
      then (case parseAnd n u fs (tl s) of
              Inl e \<Rightarrow> Inl e
            | Inr (right, s1) \<Rightarrow> or_loop n u fs (OrNode left right) s1)
      else Inr (left, s))"
| "parseAnd 0 u fs s = Inl OutOfFuel"
| "parseAnd (Suc n) u fs s =
     (case parsePrimary n u fs s of Inl e \<Rightarrow> Inl e | Inr (left, s1) \<Rightarrow> and_loop n u fs left s1)"
| "and_loop 0 u fs left s = Inl OutOfFuel"
| "and_loop (Suc n) u fs left s =
     (if s \<noteq> [] \<and> hd s = CHR '';''
      then (case parsePrimary n u fs (tl s) of
              Inl e \<Rightarrow> Inl e
            | Inr (right, s1) \<Rightarrow> and_loop n u fs (AndNode left right) s1)
      else Inr (left, s))"
| "parsePrimary 0 u fs s = Inl OutOfFuel"
| "parsePrimary (Suc n) u fs s0 =
     (case skipWhitespace s0 of
        [] \<Rightarrow> Inl UnexpectedEnd
      | c # s \<Rightarrow>
          if c = CHR ''('' then
            (case parseOr n u fs s of
               Inl e \<Rightarrow> Inl e
             | Inr (node, s1) \<Rightarrow>
                 (case skipWhitespace s1 of
                    [] \<Rightarrow> Inl ExpectedClosingParen
                  | d # s2 \<Rightarrow> if d = CHR '')'' then Inr (node, s2) else Inl ExpectedClosingParen))
          else parsePredicate u fs (c # s))"
  by pat_completeness auto
termination
  by (relation "measure (\<lambda>x. case x of
        Inl (Inl a) \<Rightarrow> fst a | Inl (Inr a) \<Rightarrow> fst a
      | Inr (Inl a) \<Rightarrow> fst a | Inr (Inr (Inl a)) \<Rightarrow> fst a | Inr (Inr (Inr a)) \<Rightarrow> fst a)") simp_all

definition parse_fuel :: "string \<Rightarrow> nat" where
  "parse_fuel s = 4 * length s + 3"

definition ParseRSQLWithOptions :: "string \<Rightarrow> ParseOptions \<Rightarrow> (rsql_error, RSQLFilter) result" where
  "ParseRSQLWithOptions input opts =
     (let trimmed = TrimSpace input;
          allowed = (case po_AllowedFields opts of None \<Rightarrow> defaultAllowedFields | Some fs \<Rightarrow> fs)
      in if trimmed = [] then Inl FilterEmpty
         else (case parseOr (parse_fuel trimmed) (po_AllowUnindexed opts) allowed trimmed of
                 Inl e \<Rightarrow> Inl e
               | Inr (root, _) \<Rightarrow> Inr \<lparr>rf_root = root, rf_raw = trimmed\<rparr>))"

definition ParseRSQL :: "string \<Rightarrow> (rsql_error, RSQLFilter) result" where
  "ParseRSQL input = ParseRSQLWithOptions input \<lparr>po_AllowUnindexed = False, po_AllowedFields = None\<rparr>"

section \<open>Compilation\<close>

datatype Sqlizer = Expr string "string list" | SqlAnd "Sqlizer list" | SqlOr "Sqlizer list"

definition placeholders :: "nat \<Rightarrow> string" where
  "placeholders n = concat (map (\<lambda>i. if i = 0 then ''?'' else '', ?'') [0..<n])"

definition predicate_sql :: "string \<Rightarrow> string \<Rightarrow> nat \<Rightarrow> string option" where
  "predicate_sql column operator n =
     (if operator = ''eq'' then Some (column @ '' = ?'')
      else if operator = ''ne'' then Some (column @ '' != ?'')
      else if operator = ''gt'' then Some (column @ '' > ?'')
      else if operator = ''ge'' then Some (column @ '' >= ?'')
      else if operator = ''lt'' then Some (column @ '' < ?'')
      else if operator = ''le'' then Some (column @ '' <= ?'')
      else if operator = ''in'' then Some (column @ '' IN ('' @ placeholders n @ '')'')
      else if operator = ''out'' then Some (column @ '' NOT IN ('' @ placeholders n @ '')'')
      else None)"

definition predicateToSquirrel :: "string \<Rightarrow> string \<Rightarrow> string list \<Rightarrow> string \<Rightarrow> (rsql_error, Sqlizer) result" where
  "predicateToSquirrel field operator values column =
     (case predicate_sql (if column = [] then field else column) operator (length values) of
        None \<Rightarrow> Inl (UnsupportedOperator operator)
      | Some sql \<Rightarrow> Inr (Expr sql (if operator = ''in'' \<or> operator = ''out'' then values else [values ! 0])))"

fun toSquirrel :: "rsqlNode \<Rightarrow> (rsql_error, Sqlizer) result" where
  "toSquirrel (Predicate f oper vs col) = predicateToSquirrel f oper vs col"
| "toSquirrel (AndNode l r) =
     (case toSquirrel l of Inl e \<Rightarrow> Inl e
      | Inr a \<Rightarrow> (case toSquirrel r of Inl e \<Rightarrow> Inl e | Inr b \<Rightarrow> Inr (SqlAnd [a, b])))"
| "toSquirrel (OrNode l r) =
     (case toSquirrel l of Inl e \<Rightarrow> Inl e
      | Inr a \<Rightarrow> (case toSquirrel r of Inl e \<Rightarrow> Inl e | Inr b \<Rightarrow> Inr (SqlOr [a, b])))"

definition ToSquirrel :: "RSQLFilter \<Rightarrow> (rsql_error, Sqlizer) result" where
  "ToSquirrel f = toSquirrel (rf_root f)"

text \<open>\<^verbatim>\<open>Fingerprint\<close>; \<open>hex_sha256\<close> is the hexadecimal SHA-256 of the standard library.\<close>

definition Fingerprint :: "(string \<Rightarrow> string) \<Rightarrow> RSQLFilter option \<Rightarrow> string" where
  "Fingerprint hex_sha256 f = (case f of
      None \<Rightarrow> []
    | Some f \<Rightarrow> if rf_raw f = [] then [] else take 16 (hex_sha256 (TrimSpace (rf_raw f))))"

section \<open>Consumption of input\<close>

lemma parseIdentifier_shorter: "parseIdentifier s = Inr (w, r) \<Longrightarrow> length r < length s"
proof -
  assume "parseIdentifier s = Inr (w, r)"
  then have "takeWhile ident_char s \<noteq> []" "r = dropWhile ident_char s"
    by (auto simp: parseIdentifier_def Let_def split: if_splits)
  then show ?thesis
    by (cases s) (auto split: if_splits simp: le_imp_less_Suc length_dropWhile_le)
qed

lemma parseOperator_shorter: "parseOperator s = Inr (w, r) \<Longrightarrow> length r \<le> length s \<and> w \<in> set operators"
proof -
  assume a: "parseOperator s = Inr (w, r)"
  then obtain c s' where s': "skipWhitespace s = c # s'"
    by (cases "skipWhitespace s") (simp_all add: parseOperator_def)
  have "''eq'' \<in> set operators"
    by (simp add: operators_def)
  then have "(r = tl s' \<or> r = tl (dropWhile (\<lambda>d. d \<noteq> CHR ''='') s')) \<and> w \<in> set operators"
    using a s' by (auto simp: parseOperator_def Let_def split: if_splits)
  moreover have "length (tl (dropWhile P s')) \<le> length s'" for P
    using length_dropWhile_le [of P s'] by simp
  moreover have "length s' \<le> length s"
    using length_skipWhitespace [of s] s' by simp
  ultimately show ?thesis
    by (metis diff_le_self length_tl order_trans)
qed

lemma list_values_shorter: "list_values s = Inr (vs, r) \<Longrightarrow> length r < length s"
proof (induction s arbitrary: vs r rule: list_values.induct)
  case (1 s)
  show ?case
  proof (cases "s = [] \<or> hd s = CHR '')''")
    case True
    then show ?thesis
      using "1.prems" by (auto simp: list_values.simps [of s] neq_Nil_conv split: if_splits)
  next
    case False
    obtain v s1 where v: "parseValue s = Inr (v, s1)"
      using "1.prems" False by (auto simp: list_values.simps [of s] split: sum.splits)
    let ?s2 = "skipWhitespace s1"
    have short: "length ?s2 < length s"
      using parseValue_shorter [OF v] length_skipWhitespace [of s1] by linarith
    show ?thesis
    proof (cases "?s2 \<noteq> [] \<and> hd ?s2 = CHR '',''")
      case True
      obtain vs' r' where rec: "list_values (skipWhitespace (tl ?s2)) = Inr (vs', r')"
        using "1.prems" False v True by (auto simp: list_values.simps [of s] Let_def split: sum.splits)
      have "length r' < length (skipWhitespace (tl ?s2))"
        by (rule "1.IH" [OF _ _ v refl refl True rec]) (use False in auto)
      moreover have "r = r'"
        using "1.prems" False v True rec by (simp add: list_values.simps [of s] Let_def)
      moreover have "length (skipWhitespace (tl ?s2)) \<le> length ?s2"
        using length_skipWhitespace [of "tl ?s2"] by simp
      ultimately show ?thesis
        using short by simp
    next
      case last: False
      then have "r = tl ?s2"
        using "1.prems" False v by (auto simp: list_values.simps [of s] Let_def split: if_splits)
      then show ?thesis
        using short by simp
    qed
  qed
qed

lemma parseListValue_shorter: "parseListValue s = Inr (vs, r) \<Longrightarrow> length r < length s"
proof -
  assume a: "parseListValue s = Inr (vs, r)"
  then obtain c s' where s': "skipWhitespace s = c # s'" "list_values (skipWhitespace s') = Inr (vs, r)"
    by (cases "skipWhitespace s") (auto simp: parseListValue_def split: if_splits)
  show ?thesis
    using list_values_shorter [OF s'(2)] length_skipWhitespace [of s'] length_skipWhitespace [of s] s'(1) by simp
qed

lemma parsePredicate_result:
  assumes "parsePredicate u fs s = Inr (node, r)"
  obtains field rule oper vs where "node = Predicate field oper vs (fr_Column rule)" "map_of fs field = Some rule"
    "fr_Indexed rule \<or> u" "oper \<in> set operators" "oper \<in> {''in'', ''out''} \<or> length vs = 1" "length r < length s"
proof -
  obtain field s1 where f: "parseIdentifier s = Inr (field, s1)"
    using assms by (auto simp: parsePredicate_def split: sum.splits)
  obtain oper s2 where o: "parseOperator (skipWhitespace s1) = Inr (oper, s2)"
    using assms f by (auto simp: parsePredicate_def split: sum.splits if_splits)
  obtain rule where rule: "map_of fs field = Some rule" "fr_Indexed rule \<or> u"
    using assms f o by (auto simp: parsePredicate_def split: sum.splits if_splits option.splits)
  have lens: "length s2 < length s" "length (skipWhitespace s2) \<le> length s2"
    using parseIdentifier_shorter [OF f] parseOperator_shorter [OF o] length_skipWhitespace [of s1]
      length_skipWhitespace [of s2] by linarith+
  note unfold = assms [unfolded parsePredicate_def]
  show thesis
  proof (cases "oper = ''in'' \<or> oper = ''out''")
    case True
    obtain vs where vs: "parseListValue (skipWhitespace s2) = Inr (vs, r)" "node = Predicate field oper vs (fr_Column rule)"
      using unfold f o rule True by (auto split: sum.splits if_splits)
    show thesis
      by (rule that [OF vs(2) rule]) (use True parseOperator_shorter [OF o] parseListValue_shorter [OF vs(1)] lens in auto)
  next
    case False
    obtain v where v: "parseValue (skipWhitespace s2) = Inr (v, r)" "node = Predicate field oper [v] (fr_Column rule)"
      using unfold f o rule False by (auto split: sum.splits if_splits)
    show thesis
      by (rule that [OF v(2) rule]) (use parseOperator_shorter [OF o] parseValue_shorter [OF v(1)] lens in auto)
  qed
qed

section \<open>The parser only accepts allowed fields\<close>

fun node_ok :: "bool \<Rightarrow> (string \<times> FieldRule) list \<Rightarrow> rsqlNode \<Rightarrow> bool" where
  "node_ok u fs (Predicate f oper vs col) \<longleftrightarrow>
     (case map_of fs f of
        None \<Rightarrow> False
      | Some rule \<Rightarrow> col = fr_Column rule \<and> (fr_Indexed rule \<or> u) \<and> oper \<in> set operators
                      \<and> (oper \<in> {''in'', ''out''} \<or> length vs = 1))"
| "node_ok u fs (AndNode l r) \<longleftrightarrow> node_ok u fs l \<and> node_ok u fs r"
| "node_ok u fs (OrNode l r) \<longleftrightarrow> node_ok u fs l \<and> node_ok u fs r"

lemma parsePredicate_ok:
  "parsePredicate u fs s = Inr (x, r) \<Longrightarrow> node_ok u fs x \<and> length r < length s"
  by (erule parsePredicate_result) simp

lemma parser_sound:
  "parseOr n u fs s = Inr (x, r) \<Longrightarrow> node_ok u fs x \<and> length r < length s"
  "or_loop n u fs l s = Inr (x, r) \<Longrightarrow> node_ok u fs l \<Longrightarrow> node_ok u fs x \<and> length r \<le> length s"
  "parseAnd n u fs s = Inr (x, r) \<Longrightarrow> node_ok u fs x \<and> length r < length s"
  "and_loop n u fs l s = Inr (x, r) \<Longrightarrow> node_ok u fs l \<Longrightarrow> node_ok u fs x \<and> length r \<le> length s"
  "parsePrimary n u fs s = Inr (x, r) \<Longrightarrow> node_ok u fs x \<and> length r < length s"
proof (induction n u fs s and n u fs l s and n u fs s and n u fs l s and n u fs s
    arbitrary: x r and x r and x r and x r and x r
    rule: parseOr_or_loop_parseAnd_and_loop_parsePrimary.induct)
  case (2 n u fs s)
  then obtain l s1 where a: "parseAnd n u fs s = Inr (l, s1)" "or_loop n u fs l s1 = Inr (x, r)"
    by (auto split: sum.splits)
  then show ?case
    using "2.IH"(1) [OF a(1)] "2.IH"(2) [OF a(1) refl a(2)] by simp
next
  case (4 n u fs l s)
  show ?case
  proof (cases "s \<noteq> [] \<and> hd s = CHR '',''")
    case True
    then obtain m s1 where a: "parseAnd n u fs (tl s) = Inr (m, s1)" "or_loop n u fs (OrNode l m) s1 = Inr (x, r)"
      using "4.prems"(1) by (auto split: sum.splits)
    obtain s' where s': "s = CHR '','' # s'"
      using True by (cases s) auto
    show ?thesis
      using "4.IH"(1) [OF True a(1)] "4.IH"(2) [OF True a(1) refl a(2)] "4.prems"(2) s' by simp
  next
    case False
    then show ?thesis
      using "4.prems" by auto
  qed
next
  case (6 n u fs s)
  then obtain l s1 where a: "parsePrimary n u fs s = Inr (l, s1)" "and_loop n u fs l s1 = Inr (x, r)"
    by (auto split: sum.splits)
  then show ?case
    using "6.IH"(1) [OF a(1)] "6.IH"(2) [OF a(1) refl a(2)] by simp
next
  case (8 n u fs l s)
  show ?case
  proof (cases "s \<noteq> [] \<and> hd s = CHR '';''")
    case True
    then obtain m s1 where a: "parsePrimary n u fs (tl s) = Inr (m, s1)" "and_loop n u fs (AndNode l m) s1 = Inr (x, r)"
      using "8.prems"(1) by (auto split: sum.splits)
    obtain s' where s': "s = CHR '';'' # s'"
      using True by (cases s) auto
    show ?thesis
      using "8.IH"(1) [OF True a(1)] "8.IH"(2) [OF True a(1) refl a(2)] "8.prems"(2) s' by simp
  next
    case False
    then show ?thesis
      using "8.prems" by auto
  qed
next
  case (10 n u fs s)
  then obtain c s1 where s1: "skipWhitespace s = c # s1"
    by (cases "skipWhitespace s") simp_all
  then have len: "length s1 < length s"
    using length_skipWhitespace [of s] by simp
  show ?case
  proof (cases "c = CHR ''(''")
    case True
    then obtain s2 where a: "parseOr n u fs s1 = Inr (x, s2)"
      using "10.prems" s1 by (auto split: sum.splits list.splits if_splits)
    then obtain s3 where s3: "skipWhitespace s2 = CHR '')'' # s3" "r = s3"
      using "10.prems" s1 True by (auto split: list.splits if_splits)
    show ?thesis
      using "10.IH" [OF s1 True a] s3 length_skipWhitespace [of s2] len by simp
  next
    case False
    then have "parsePredicate u fs (skipWhitespace s) = Inr (x, r)"
      using "10.prems" s1 by simp
    then show ?thesis
      using parsePredicate_ok length_skipWhitespace [of s] less_le_trans by blast
  qed
qed simp_all

text \<open>
  Every routine returns with something other than \<^const>\<open>OutOfFuel\<close> when its fuel is a small
  multiple of the length of its input.
\<close>

lemma fuel_case:
  assumes "r \<noteq> Inl OutOfFuel" "\<And>p. f p \<noteq> Inl OutOfFuel"
  shows "(case r of Inl e \<Rightarrow> Inl e | Inr p \<Rightarrow> f p) \<noteq> Inl OutOfFuel"
  using assms by (cases r) simp_all

lemma scan_value_fuel_free: "scan_value s \<noteq> Inl OutOfFuel"
proof (induction s rule: scan_value.induct)
  case (2 c s)
  show ?case
  proof (cases "value_end c")
    case False
    show ?thesis
    proof (cases "c = backslash")
      case True
      then show ?thesis
        using 2(1) False by (cases s) (simp, simp, rule fuel_case, auto split: prod.split)
    next
      case nb: False
      show ?thesis
        unfolding scan_value.simps if_not_P [OF False] if_not_P [OF nb]
        by (rule fuel_case [OF 2(2) [OF False nb]]) (simp split: prod.split)
    qed
  qed simp
qed simp

lemma fuel_free:
  "parseIdentifier s \<noteq> Inl OutOfFuel" "parseValue s \<noteq> Inl OutOfFuel" "parseOperator s \<noteq> Inl OutOfFuel"
proof -
  show "parseIdentifier s \<noteq> Inl OutOfFuel"
    by (simp add: parseIdentifier_def Let_def)
  show "parseOperator s \<noteq> Inl OutOfFuel"
    by (simp add: parseOperator_def Let_def split: list.split)
  show "parseValue s \<noteq> Inl OutOfFuel"
  proof (cases "skipWhitespace s")
    case (Cons c s')
    show ?thesis
      unfolding parseValue_def Cons list.case
      by (rule fuel_case [OF scan_value_fuel_free]) (simp split: prod.split)
  qed (simp add: parseValue_def)
qed

lemma list_values_fuel_free: "list_values s \<noteq> Inl OutOfFuel"
proof (induction s rule: list_values.induct)
  case (1 s)
  show ?case
  proof (cases "s = [] \<or> hd s = CHR '')''")
    case True
    then show ?thesis
      by (auto simp: list_values.simps [of s])
  next
    case False
    show ?thesis
    proof (cases "parseValue s")
      case (Inl e)
      then show ?thesis
        using False fuel_free(2) [of s] by (simp add: list_values.simps [of s])
    next
      case (Inr p)
      obtain v s1 where p: "p = (v, s1)"
        by (rule prod.exhaust)
      have rec: "skipWhitespace s1 \<noteq> [] \<and> hd (skipWhitespace s1) = CHR '','' \<Longrightarrow>
          list_values (skipWhitespace (tl (skipWhitespace s1))) \<noteq> Inl OutOfFuel"
        using "1.IH" [of p v s1] False Inr p by blast
      show ?thesis
      proof (cases "list_values (skipWhitespace (tl (skipWhitespace s1)))")
        case l: (Inl e)
        then show ?thesis
          using rec False Inr p by (auto simp: list_values.simps [of s] Let_def)
      next
        case r: (Inr q)
        then show ?thesis
          using False Inr p by (cases q) (simp add: list_values.simps [of s] Let_def)
      qed
    qed
  qed
qed

lemma parseListValue_fuel_free: "parseListValue s \<noteq> Inl OutOfFuel"
  using list_values_fuel_free by (simp add: parseListValue_def split: list.split)

lemma parsePredicate_fuel_free: "parsePredicate u fs s \<noteq> Inl OutOfFuel"
proof (cases "parseIdentifier s")
  case (Inl e)
  then show ?thesis
    using fuel_free(1) [of s] by (simp add: parsePredicate_def)
next
  case (Inr p)
  obtain field s1 where p: "p = (field, s1)"
    by (rule prod.exhaust)
  show ?thesis
  proof (cases "parseOperator (skipWhitespace s1)")
    case l: (Inl e)
    then show ?thesis
      using Inr p fuel_free(3) [of "skipWhitespace s1"] by (simp add: parsePredicate_def)
  next
    case r: (Inr q)
    obtain oper s2 where q: "q = (oper, s2)"
      by (rule prod.exhaust)
    have "(case parseListValue (skipWhitespace s2) of Inl e \<Rightarrow> Inl e | Inr (vs, r) \<Rightarrow> Inr (f vs r)) \<noteq> Inl OutOfFuel"
      "(case parseValue (skipWhitespace s2) of Inl e \<Rightarrow> Inl e | Inr (vs, r) \<Rightarrow> Inr (g vs r)) \<noteq> Inl OutOfFuel"
      for f :: "_ \<Rightarrow> _ \<Rightarrow> rsqlNode \<times> string" and g :: "_ \<Rightarrow> _ \<Rightarrow> rsqlNode \<times> string"
      using parseListValue_fuel_free [of "skipWhitespace s2"] fuel_free(2) [of "skipWhitespace s2"]
      by (auto split: sum.split prod.split)
    then show ?thesis
      using Inr p r q by (simp add: parsePredicate_def split: option.split)
  qed
qed

lemma enough_fuel:
  "4 * length s + 3 \<le> n \<Longrightarrow> parseOr n u fs s \<noteq> Inl OutOfFuel"
  "4 * length s + 1 \<le> n \<Longrightarrow> node_ok u fs l \<Longrightarrow> or_loop n u fs l s \<noteq> Inl OutOfFuel"
  "4 * length s + 2 \<le> n \<Longrightarrow> parseAnd n u fs s \<noteq> Inl OutOfFuel"
  "4 * length s + 1 \<le> n \<Longrightarrow> node_ok u fs l \<Longrightarrow> and_loop n u fs l s \<noteq> Inl OutOfFuel"
  "4 * length s + 1 \<le> n \<Longrightarrow> parsePrimary n u fs s \<noteq> Inl OutOfFuel"
proof (induction n u fs s and n u fs l s and n u fs s and n u fs l s and n u fs s
    rule: parseOr_or_loop_parseAnd_and_loop_parsePrimary.induct)
  case (2 n u fs s)
  show ?case
  proof (cases "parseAnd n u fs s")
    case (Inl e)
    then show ?thesis
      using "2.IH"(1) "2.prems" by simp
  next
    case (Inr p)
    obtain l s1 where p: "p = (l, s1)"
      by (rule prod.exhaust)
    note sound = parser_sound(3) [OF Inr [unfolded p]]
    show ?thesis
      using "2.IH"(2) [OF Inr] p sound "2.prems" Inr by simp
  qed
next
  case (4 n u fs l s)
  show ?case
  proof (cases "s \<noteq> [] \<and> hd s = CHR '',''")
    case True
    obtain s' where s': "s = CHR '','' # s'"
      using True by (cases s) auto
    show ?thesis
    proof (cases "parseAnd n u fs (tl s)")
      case (Inl e)
      then show ?thesis
        using "4.IH"(1) [OF True] "4.prems" s' by simp
    next
      case (Inr p)
      obtain m s1 where p: "p = (m, s1)"
        by (rule prod.exhaust)
      note sound = parser_sound(3) [OF Inr [unfolded p]]
      show ?thesis
        using "4.IH"(2) [OF True Inr] p sound "4.prems" Inr s' by simp
    qed
  qed auto
next
  case (6 n u fs s)
  show ?case
  proof (cases "parsePrimary n u fs s")
    case (Inl e)
    then show ?thesis
      using "6.IH"(1) "6.prems" by simp
  next
    case (Inr p)
    obtain l s1 where p: "p = (l, s1)"
      by (rule prod.exhaust)
    note sound = parser_sound(5) [OF Inr [unfolded p]]
    show ?thesis
      using "6.IH"(2) [OF Inr] p sound "6.prems" Inr by simp
  qed
next
  case (8 n u fs l s)
  show ?case
  proof (cases "s \<noteq> [] \<and> hd s = CHR '';''")
    case True
    obtain s' where s': "s = CHR '';'' # s'"
      using True by (cases s) auto
    show ?thesis
    proof (cases "parsePrimary n u fs (tl s)")
      case (Inl e)
      then show ?thesis
        using "8.IH"(1) [OF True] "8.prems" s' by simp
    next
      case (Inr p)
      obtain m s1 where p: "p = (m, s1)"
        by (rule prod.exhaust)
      note sound = parser_sound(5) [OF Inr [unfolded p]]
      show ?thesis
        using "8.IH"(2) [OF True Inr] p sound "8.prems" Inr s' by simp
    qed
  qed auto
next
  case (10 n u fs s)
  show ?case
  proof (cases "skipWhitespace s")
    case (Cons c s1)
    then have "length s1 < length s"
      using length_skipWhitespace [of s] by simp
    then show ?thesis
      using "10.IH" [OF Cons] "10.prems" Cons parsePredicate_fuel_free
      by (cases "c = CHR ''(''"; cases "parseOr n u fs s1") (auto split: prod.split list.split)
  qed simp
qed simp_all

section \<open>Printing\<close>

text \<open>A printer for filter trees: binary nodes in parentheses, values with every significant
  byte escaped.\<close>

definition escape :: "char \<Rightarrow> string" where
  "escape c = (if value_end c \<or> c = backslash \<or> is_blank c then [backslash, c] else [c])"

definition escape_value :: "string \<Rightarrow> string" where
  "escape_value v = concat (map escape v)"

fun show_values :: "string list \<Rightarrow> string" where
  "show_values [] = []"
| "show_values [v] = escape_value v"
| "show_values (v # w # vs) = escape_value v @ '','' @ show_values (w # vs)"

fun show_rsql :: "rsqlNode \<Rightarrow> string" where
  "show_rsql (Predicate f oper vs col) = f @ ''='' @ oper @ ''='' @
     (if oper = ''in'' \<or> oper = ''out'' then ''('' @ show_values vs @ '')'' else escape_value (hd vs))"
| "show_rsql (AndNode l r) = ''('' @ show_rsql l @ '';'' @ show_rsql r @ '')''"
| "show_rsql (OrNode l r) = ''('' @ show_rsql l @ '','' @ show_rsql r @ '')''"

fun printable :: "rsqlNode \<Rightarrow> bool" where
  "printable (Predicate f oper vs col) \<longleftrightarrow>
     f \<noteq> [] \<and> list_all ident_char f \<and> list_all (\<lambda>v. v \<noteq> [] \<and> utf8_valid v) vs"
| "printable (AndNode l r) \<longleftrightarrow> printable l \<and> printable r"
| "printable (OrNode l r) \<longleftrightarrow> printable l \<and> printable r"

definition stops :: "string \<Rightarrow> bool" where
  "stops s \<longleftrightarrow> s = [] \<or> value_end (hd s)"

lemma char_facts:
  "\<not> is_blank CHR ''=''" "\<not> is_blank CHR ''(''" "\<not> is_blank CHR '')''" "\<not> is_blank backslash"
  "\<not> is_blank CHR '',''" "\<not> is_blank CHR '';''"
  "\<not> ident_char CHR ''=''" "\<not> ident_char CHR ''(''" "\<not> value_end backslash"
  "value_end CHR '';''" "value_end CHR '',''" "value_end CHR '')''" "backslash \<noteq> CHR '')''"
  by (simp_all add: is_blank_def ident_char_def value_end_def backslash_def char_nat_def byte_in_def)

lemma ident_not_blank: "ident_char c \<Longrightarrow> \<not> is_blank c"
  by (auto simp: ident_char_def is_blank_def byte_in_def char_nat_def)

lemma skip_nonblank: "\<not> is_blank c \<Longrightarrow> skipWhitespace (c # s) = c # s"
  by (simp add: skipWhitespace_def)

lemma scan_escaped: "stops r \<Longrightarrow> scan_value (escape_value v @ r) = Inr (v, r)"
proof (induction v)
  case Nil
  then show ?case
    by (cases r) (simp_all add: escape_value_def stops_def)
next
  case (Cons c v)
  then show ?case
    by (auto simp: escape_value_def escape_def char_facts)
qed

lemma escape_value_start:
  assumes "v \<noteq> []"
  shows "escape_value v \<noteq> []" "\<not> is_blank (hd (escape_value v @ r))" "hd (escape_value v @ r) \<noteq> CHR '')''"
proof -
  obtain d v' where v: "v = d # v'"
    using assms by (cases v) simp_all
  show "escape_value v \<noteq> []" "\<not> is_blank (hd (escape_value v @ r))" "hd (escape_value v @ r) \<noteq> CHR '')''"
    by (auto simp: v escape_value_def escape_def char_facts)
qed

lemma skip_hd: "s = [] \<or> \<not> is_blank (hd s) \<Longrightarrow> skipWhitespace s = s"
  by (cases s) (auto simp: skipWhitespace_def)

lemma parse_escaped:
  assumes "v \<noteq> []" "utf8_valid v" "stops r"
  shows "parseValue (escape_value v @ r) = Inr (v, r)"
proof -
  have "skipWhitespace (escape_value v @ r) = escape_value v @ r"
    using escape_value_start(2) [OF assms(1)] by (intro skip_hd) simp
  moreover obtain c s where cs: "escape_value v @ r = c # s"
    using escape_value_start(1) [OF assms(1)] by (cases "escape_value v") simp_all
  ultimately show ?thesis
    using assms scan_escaped [OF assms(3), of v] by (simp add: parseValue_def del: scan_value.simps)
qed

lemma skip_show_values:
  assumes "list_all (\<lambda>v. v \<noteq> [] \<and> utf8_valid v) vs"
  shows "skipWhitespace (show_values vs @ CHR '')'' # r) = show_values vs @ CHR '')'' # r"
proof (rule skip_hd)
  show "show_values vs @ CHR '')'' # r = [] \<or> \<not> is_blank (hd (show_values vs @ CHR '')'' # r))"
    using assms escape_value_start(2) by (cases vs rule: show_values.cases) (simp_all add: char_facts)
qed

lemma list_values_shown:
  "list_all (\<lambda>v. v \<noteq> [] \<and> utf8_valid v) vs \<Longrightarrow> list_values (show_values vs @ CHR '')'' # r) = Inr (vs, r)"
proof (induction vs rule: show_values.induct)
  case 1
  then show ?case
    by (simp add: list_values.simps)
next
  case (2 v)
  let ?s = "escape_value v @ CHR '')'' # r"
  have "parseValue ?s = Inr (v, CHR '')'' # r)"
    using 2 by (intro parse_escaped) (simp_all add: stops_def char_facts)
  then show ?case
    using 2 escape_value_start(3) [of v "CHR '')'' # r"]
    by (simp add: list_values.simps [of ?s] Let_def skip_nonblank char_facts)
next
  case (3 v w vs)
  let ?t = "show_values (w # vs) @ CHR '')'' # r"
  let ?s = "escape_value v @ CHR '','' # ?t"
  have pv: "parseValue ?s = Inr (v, CHR '','' # ?t)"
    using 3 by (intro parse_escaped) (simp_all add: stops_def char_facts)
  have "skipWhitespace ?t = ?t"
    using 3 by (intro skip_show_values) simp
  then have "list_values ?s = Inr (v # w # vs, r)"
    using 3 pv escape_value_start(3) [of v "CHR '','' # ?t"]
    by (simp add: list_values.simps [of ?s] Let_def skip_nonblank char_facts)
  then show ?case
    by simp
qed

lemma operator_chars: "w \<in> set operators \<Longrightarrow> w \<noteq> [] \<and> list_all (\<lambda>d. d \<noteq> CHR ''='') w"
  by (auto simp: operators_def)

lemma parseOperator_shown:
  assumes "w \<in> set operators"
  shows "parseOperator (CHR ''='' # w @ CHR ''='' # r) = Inr (w, r)"
proof -
  obtain d w' where w: "w = d # w'" "d \<noteq> CHR ''=''"
    using operator_chars [OF assms] by (cases w) simp_all
  have "takeWhile (\<lambda>d. d \<noteq> CHR ''='') (w @ CHR ''='' # r) = w"
      "dropWhile (\<lambda>d. d \<noteq> CHR ''='') (w @ CHR ''='' # r) = CHR ''='' # r"
    using operator_chars [OF assms] by (simp_all add: list_all_iff takeWhile_append2 dropWhile_append2)
  then show ?thesis
    using assms w by (simp add: parseOperator_def skip_nonblank char_facts Let_def)
qed

lemma parsePredicate_shown:
  assumes "node_ok u fs (Predicate f oper vs col)" "printable (Predicate f oper vs col)" "stops r"
  shows "parsePredicate u fs (show_rsql (Predicate f oper vs col) @ r) = Inr (Predicate f oper vs col, r)"
proof -
  obtain rule where rule: "map_of fs f = Some rule" "col = fr_Column rule" "fr_Indexed rule \<or> u"
      "oper \<in> set operators" "oper \<in> {''in'', ''out''} \<or> length vs = 1"
    using assms(1) by (auto split: option.splits)
  have indexed: "\<not> (\<not> fr_Indexed rule \<and> \<not> u)"
    using rule(3) by simp
  define body where "body = (if oper = ''in'' \<or> oper = ''out'' then ''('' @ show_values vs @ '')'' else escape_value (hd vs))"
  have ident: "parseIdentifier (f @ CHR ''='' # t) = Inr (f, CHR ''='' # t)" for t
    using assms(2) by (simp add: parseIdentifier_def list_all_iff takeWhile_append2 dropWhile_append2 char_facts)
  have shown: "show_rsql (Predicate f oper vs col) @ r = f @ CHR ''='' # oper @ CHR ''='' # body @ r"
    by (simp add: body_def)
  have common: "parsePredicate u fs (show_rsql (Predicate f oper vs col) @ r) =
      (if oper = ''in'' \<or> oper = ''out''
       then (case parseListValue (skipWhitespace (body @ r)) of
               Inl e \<Rightarrow> Inl e | Inr (vs, r) \<Rightarrow> Inr (Predicate f oper vs (fr_Column rule), r))
       else (case parseValue (skipWhitespace (body @ r)) of
               Inl e \<Rightarrow> Inl e | Inr (v, r) \<Rightarrow> Inr (Predicate f oper [v] (fr_Column rule), r)))"
    unfolding shown parsePredicate_def ident
    by (simp add: skip_nonblank char_facts parseOperator_shown rule(1,4) indexed)
  show ?thesis
  proof (cases "oper = ''in'' \<or> oper = ''out''")
    case True
    have "parseListValue (body @ r) = Inr (vs, r)"
      using True assms(2) list_values_shown [of vs r] skip_show_values [of vs r]
      by (simp add: body_def parseListValue_def skip_nonblank char_facts)
    moreover have "skipWhitespace (body @ r) = body @ r"
      using True by (simp add: body_def skip_nonblank char_facts)
    ultimately show ?thesis
      unfolding common if_P [OF True] by (simp add: rule(2))
  next
    case False
    then obtain v where v: "vs = [v]" "v \<noteq> []" "utf8_valid v"
      using rule(5) assms(2) by (cases vs) auto
    have body: "body = escape_value v"
      using False v by (simp add: body_def)
    have "skipWhitespace (body @ r) = body @ r"
      using escape_value_start(2) [OF v(2)] by (intro skip_hd) (simp add: body)
    then show ?thesis
      unfolding common if_not_P [OF False] using parse_escaped [OF v(2,3) assms(3)] v(1) body
      by (simp add: rule(2))
  qed
qed

lemma parsePrimary_shown:
  "node_ok u fs node \<Longrightarrow> printable node \<Longrightarrow> stops r \<Longrightarrow> 4 * length (show_rsql node) + 1 \<le> n
    \<Longrightarrow> parsePrimary n u fs (show_rsql node @ r) = Inr (node, r)"
proof (induction node arbitrary: n r)
  case (Predicate f oper vs col)
  obtain c f' where f: "f = c # f'" "ident_char c"
    using Predicate.prems(2) by (cases f) simp_all
  then have "\<not> is_blank c" "c \<noteq> CHR ''(''"
    using ident_not_blank char_facts by auto
  moreover obtain m where "n = Suc m"
    using Predicate.prems(4) by (cases n) simp_all
  ultimately show ?case
    using parsePredicate_shown [OF Predicate.prems(1-3)] f by (simp add: skip_nonblank)
next
  case (AndNode x y)
  obtain m where n: "n = Suc (Suc (Suc (Suc (Suc m))))"
    using AndNode.prems(4) by (intro that [of "n - 5"]) simp
  have "parsePrimary (Suc (Suc m)) u fs (show_rsql x @ CHR '';'' # show_rsql y @ CHR '')'' # r)
      = Inr (x, CHR '';'' # show_rsql y @ CHR '')'' # r)"
    using AndNode.prems n by (intro AndNode.IH(1)) (simp_all add: stops_def char_facts)
  moreover have "parsePrimary (Suc m) u fs (show_rsql y @ CHR '')'' # r) = Inr (y, CHR '')'' # r)"
    using AndNode.prems n by (intro AndNode.IH(2)) (simp_all add: stops_def char_facts)
  ultimately show ?case
    unfolding n by (simp add: skip_nonblank char_facts del: parsePrimary.simps) (simp add: skip_nonblank char_facts)
next
  case (OrNode x y)
  obtain m where n: "n = Suc (Suc (Suc (Suc (Suc m))))"
    using OrNode.prems(4) by (intro that [of "n - 5"]) simp
  have "parsePrimary (Suc (Suc m)) u fs (show_rsql x @ CHR '','' # show_rsql y @ CHR '')'' # r)
      = Inr (x, CHR '','' # show_rsql y @ CHR '')'' # r)"
    using OrNode.prems n by (intro OrNode.IH(1)) (simp_all add: stops_def char_facts)
  moreover have "parsePrimary (Suc m) u fs (show_rsql y @ CHR '')'' # r) = Inr (y, CHR '')'' # r)"
    using OrNode.prems n by (intro OrNode.IH(2)) (simp_all add: stops_def char_facts)
  ultimately show ?case
    unfolding n by (simp add: skip_nonblank char_facts del: parsePrimary.simps) (simp add: skip_nonblank char_facts)
qed

section \<open>What the filter compiles to\<close>

fun exprs :: "Sqlizer \<Rightarrow> (string \<times> string list) list" where
  "exprs (Expr sql args) = [(sql, args)]"
| "exprs (SqlAnd qs) = concat (map exprs qs)"
| "exprs (SqlOr qs) = concat (map exprs qs)"

text \<open>
  An expression that is safe to send: its text is a template over the column of an allowed
  field, and it has exactly one placeholder per argument.
\<close>

definition allowed_expr :: "bool \<Rightarrow> (string \<times> FieldRule) list \<Rightarrow> string \<times> string list \<Rightarrow> bool" where
  "allowed_expr u fs e \<longleftrightarrow>
     (\<exists>(f, rule) \<in> set fs. \<exists>oper \<in> set operators.
        (fr_Indexed rule \<or> u)
        \<and> predicate_sql (if fr_Column rule = [] then f else fr_Column rule) oper (length (snd e)) = Some (fst e)
        \<and> count_list (fst e) CHR ''?''
            = count_list (if fr_Column rule = [] then f else fr_Column rule) CHR ''?'' + length (snd e))"

lemma count_placeholders: "count_list (placeholders n) CHR ''?'' = n"
proof -
  have "count_list (concat (map (\<lambda>i. if i = 0 then ''?'' else '', ?'') [k..<k + n])) CHR ''?'' = n" for k
    by (induction n) simp_all
  from this [of 0] show ?thesis
    by (simp add: placeholders_def)
qed

lemma predicate_sql_total:
  assumes "oper \<in> set operators" "oper \<in> {''in'', ''out''} \<or> n = 1"
  obtains sql where "predicate_sql col oper n = Some sql"
    "count_list sql CHR ''?'' = count_list col CHR ''?'' + n"
  using assms that by (auto simp: operators_def predicate_sql_def count_placeholders)

lemma toSquirrel_allowed:
  "node_ok u fs node \<Longrightarrow> \<exists>q. toSquirrel node = Inr q \<and> (\<forall>e \<in> set (exprs q). allowed_expr u fs e)"
proof (induction node)
  case (Predicate f oper vs col)
  then obtain rule where rule: "map_of fs f = Some rule" "col = fr_Column rule" "fr_Indexed rule \<or> u"
      "oper \<in> set operators" "oper \<in> {''in'', ''out''} \<or> length vs = 1"
    by (auto split: option.splits)
  let ?col = "if col = [] then f else col"
  let ?args = "if oper = ''in'' \<or> oper = ''out'' then vs else [vs ! 0]"
  obtain sql where sql: "predicate_sql ?col oper (length vs) = Some sql"
      "count_list sql CHR ''?'' = count_list ?col CHR ''?'' + length vs"
    by (rule predicate_sql_total [OF rule(4,5)])
  have len: "length ?args = length vs"
    using rule(5) by auto
  have "allowed_expr u fs (sql, ?args)"
    unfolding allowed_expr_def using rule sql len map_of_SomeD [OF rule(1)]
    by (intro bexI [of _ "(f, rule)"]) (auto intro!: bexI [of _ oper])
  then show ?case
    using sql(1) by (simp add: predicateToSquirrel_def)
qed auto

text \<open>
  C15: A filter that parses also compiles, and what it compiles to contains user input only as
  arguments: every SQL fragment is a fixed template over the column of an allowed (and, unless
  overridden, indexed) field, with one placeholder per argument.
\<close>

theorem rsql_filter_is_parameterised:
  assumes "ParseRSQLWithOptions input \<lparr>po_AllowUnindexed = u, po_AllowedFields = Some fs\<rparr> = Inr f"
  shows "\<exists>q. ToSquirrel f = Inr q \<and> (\<forall>e \<in> set (exprs q). allowed_expr u fs e)"
proof -
  obtain r where "parseOr (parse_fuel (TrimSpace input)) u fs (TrimSpace input) = Inr (rf_root f, r)"
    using assms by (auto simp: ParseRSQLWithOptions_def Let_def split: if_splits sum.splits)
  then have "node_ok u fs (rf_root f)"
    by (simp add: parser_sound(1))
  then show ?thesis
    unfolding ToSquirrel_def by (rule toSquirrel_allowed)
qed

theorem rsql_filter_is_parameterised_witness:
  "ParseRSQLWithOptions ''kind==a;(amount=gt=5,kind=in=(x,y))''
      \<lparr>po_AllowUnindexed = False, po_AllowedFields = Some defaultAllowedFields\<rparr>
    = Inr \<lparr>rf_root = AndNode (Predicate ''kind'' ''eq'' [''a''] ''kind'')
        (OrNode (Predicate ''amount'' ''gt'' [''5''] ''total_amount'')
                (Predicate ''kind'' ''in'' [''x'', ''y''] ''kind'')),
        rf_raw = ''kind==a;(amount=gt=5,kind=in=(x,y))''\<rparr>
   \<and> (\<exists>q. ToSquirrel \<lparr>rf_root = AndNode (Predicate ''kind'' ''eq'' [''a''] ''kind'')
        (OrNode (Predicate ''amount'' ''gt'' [''5''] ''total_amount'')
                (Predicate ''kind'' ''in'' [''x'', ''y''] ''kind'')),
        rf_raw = ''kind==a;(amount=gt=5,kind=in=(x,y))''\<rparr> = Inr q
      \<and> (\<forall>e \<in> set (exprs q). allowed_expr False defaultAllowedFields e))"
proof -
  have "ParseRSQLWithOptions ''kind==a;(amount=gt=5,kind=in=(x,y))''
      \<lparr>po_AllowUnindexed = False, po_AllowedFields = Some defaultAllowedFields\<rparr>
    = Inr \<lparr>rf_root = AndNode (Predicate ''kind'' ''eq'' [''a''] ''kind'')
        (OrNode (Predicate ''amount'' ''gt'' [''5''] ''total_amount'')
                (Predicate ''kind'' ''in'' [''x'', ''y''] ''kind'')),
        rf_raw = ''kind==a;(amount=gt=5,kind=in=(x,y))''\<rparr>"
    by code_simp
  then show ?thesis
    using rsql_filter_is_parameterised by blast
qed

text \<open>C40: The parser always returns: the fuel of the entry point is never exhausted.\<close>

theorem rsql_parser_returns: "ParseRSQLWithOptions input opts \<noteq> Inl OutOfFuel"
proof -
  have "parseOr (parse_fuel s) u fs s \<noteq> Inl OutOfFuel" for s u fs
    by (rule enough_fuel(1)) (simp add: parse_fuel_def)
  then show ?thesis
    unfolding ParseRSQLWithOptions_def Let_def
    by (simp split: if_split) (intro impI fuel_case, auto split: prod.split)
qed

text \<open>
  C33: Every filter tree over allowed fields can be written: parsing the printed form of a tree
  whose fields are identifiers and whose values are non-empty UTF-8 gives the tree back.
\<close>

theorem rsql_print_parse:
  assumes "node_ok u fs node" "printable node"
  shows "ParseRSQLWithOptions (''('' @ show_rsql node @ '')'') \<lparr>po_AllowUnindexed = u, po_AllowedFields = Some fs\<rparr>
    = Inr \<lparr>rf_root = node, rf_raw = ''('' @ show_rsql node @ '')''\<rparr>"
proof -
  let ?s = "''('' @ show_rsql node @ '')''"
  have trim: "TrimSpace ?s = ?s"
    by (simp add: TrimSpace_def is_space_def char_nat_def)
  obtain m where m: "parse_fuel ?s = Suc (Suc (Suc (Suc (Suc m))))" "4 * length (show_rsql node) + 1 \<le> m"
    by (intro that [of "parse_fuel ?s - 5"]) (simp_all add: parse_fuel_def)
  have "parsePrimary (Suc m') u fs (show_rsql node @ '')'') = Inr (node, '')'')" if "m \<le> Suc m'" for m'
    using assms m(2) that by (intro parsePrimary_shown) (simp_all add: stops_def char_facts)
  from this [of m] this [of "Suc m"] this [of "m - 1"]
  have "parseOr (parse_fuel ?s) u fs ?s = Inr (node, [])"
    unfolding m(1) using m(2)
    by (cases m) (simp_all add: skip_nonblank char_facts)
  then show ?thesis
    unfolding ParseRSQLWithOptions_def Let_def trim by simp
qed

theorem rsql_print_parse_witness:
  "ParseRSQLWithOptions (''('' @ show_rsql (Predicate ''kind'' ''eq'' [''a;b c''] ''kind'') @ '')'')
      \<lparr>po_AllowUnindexed = False, po_AllowedFields = Some defaultAllowedFields\<rparr>
    = Inr \<lparr>rf_root = Predicate ''kind'' ''eq'' [''a;b c''] ''kind'',
        rf_raw = ''('' @ show_rsql (Predicate ''kind'' ''eq'' [''a;b c''] ''kind'') @ '')''\<rparr>"
proof (rule rsql_print_parse)
  show "node_ok False defaultAllowedFields (Predicate ''kind'' ''eq'' [''a;b c''] ''kind'')"
    by (simp add: defaultAllowedFields_def operators_def)
  show "printable (Predicate ''kind'' ''eq'' [''a;b c''] ''kind'')"
    by (simp add: ident_char_def byte_in_def char_nat_def utf8_valid.simps utf8_rune_length_def)
qed

text \<open>
  Input after a complete expression is ignored rather than rejected: whatever follows a
  closing parenthesis that was never opened has no effect on the filter.
\<close>

theorem rsql_trailing_input_ignored:
  assumes "TrimSpace (''kind==a)'' @ rest) = ''kind==a)'' @ rest"
  shows "map_sum (\<lambda>e. e) rf_root (ParseRSQL (''kind==a)'' @ rest)) = Inr (Predicate ''kind'' ''eq'' [''a''] ''kind'')"
proof -
  have pred: "parsePredicate False defaultAllowedFields (''kind==a)'' @ rest)
      = Inr (Predicate ''kind'' ''eq'' [''a''] ''kind'', CHR '')'' # rest)"
    by (simp add: parsePredicate_def parseIdentifier_def parseOperator_def parseValue_def ident_char_def
        byte_in_def char_nat_def skipWhitespace_def is_blank_def value_end_def backslash_def defaultAllowedFields_def
        utf8_valid.simps utf8_rune_length_def Let_def)
  define input where "input = ''kind==a)'' @ rest"
  obtain m where m: "parse_fuel input = Suc (Suc (Suc (Suc m)))"
    by (intro that [of "parse_fuel input - 4"]) (simp add: parse_fuel_def input_def)
  have "parseOr (parse_fuel input) False defaultAllowedFields input
      = Inr (Predicate ''kind'' ''eq'' [''a''] ''kind'', CHR '')'' # rest)"
    unfolding m unfolding input_def using pred by (simp add: skip_nonblank is_blank_def char_nat_def)
  moreover have "TrimSpace input = input" "input \<noteq> []"
    using assms by (simp_all add: input_def)
  ultimately have "map_sum (\<lambda>e. e) rf_root (ParseRSQL input) = Inr (Predicate ''kind'' ''eq'' [''a''] ''kind'')"
    by (simp add: ParseRSQL_def ParseRSQLWithOptions_def)
  then show ?thesis
    by (simp add: input_def)
qed

theorem rsql_trailing_input_ignored_witness:
  "map_sum (\<lambda>e. e) rf_root (ParseRSQL (''kind==a)'' @ '';nonsense==(''))
    = Inr (Predicate ''kind'' ''eq'' [''a''] ''kind'')"
  by (rule rsql_trailing_input_ignored) (simp add: TrimSpace_def is_space_def char_nat_def)

end
