(* ===== verification/CDC.thy ===== *)
theory CDC
  imports Prelude "HOL-Library.Word"
begin

text \<open>
  The logical replication decoder of \<^verbatim>\<open>internal/cdc/pgoutput.go\<close>.  A byte slice with an offset is
  the list of the bytes still to be read; a column value is \<open>None\<close> for SQL NULL and for an
  unchanged TOAST value, as in the code.  Integers read from the stream are naturals below
  their width's bound.
\<close>

unbundle bit_operations_syntax

type_synonym bytes = "8 word list"

section \<open>Data\<close>

record colMeta =
  col_name :: bytes
  col_typeOID :: nat
  col_isKey :: bool
  col_isNotNull :: bool

record relMeta =
  rel_id :: nat
  rel_namespace :: bytes
  rel_name :: bytes
  rel_columns :: "colMeta list"

type_synonym row_map = "(bytes \<times> bytes option) list"

datatype op = OpInsert | OpUpdate | OpDelete

record Change =
  ch_Schema :: bytes
  ch_Table :: bytes
  ch_Op :: op
  ch_Before :: "row_map option"
  ch_After :: "row_map option"

datatype cdc_error =
    CopyDataTooShort nat | RelationTooShort nat | UnterminatedNamespace | UnterminatedName
  | MissingReplicaIdentity | MissingColumnCount | InsertTooShort nat | ExpectedNewTuple "8 word"
  | UnknownRelation nat | UpdateTooShort nat | DeleteTooShort nat | TupleTooShort nat
  | UnexpectedTupleMarker "8 word" nat

type_synonym relations = "nat \<rightharpoonup> relMeta"

text \<open>\<^verbatim>\<open>binary.BigEndian\<close>\<close>

definition be_nat :: "bytes \<Rightarrow> nat" where
  "be_nat bs = foldl (\<lambda>n b. 256 * n + unat b) 0 bs"

section \<open>Tuples\<close>

text \<open>The loop of \<^verbatim>\<open>decodeTuple\<close> over the columns: a truncated value ends it without an error.\<close>

fun tuple_loop :: "nat \<Rightarrow> colMeta list \<Rightarrow> bytes \<Rightarrow> row_map \<Rightarrow> (cdc_error, row_map \<times> bytes) result" where
  "tuple_loop i [] data res = Inr (res, data)"
| "tuple_loop i (c # cs) [] res = Inr (res, [])"
| "tuple_loop i (c # cs) (m # data) res =
     (if m = 110 \<or> m = 117 then tuple_loop (i + 1) cs data (AList.update (col_name c) None res)
      else if m = 116 then
        (if length data < 4 then Inr (res, data)
         else let valLen = be_nat (take 4 data); data1 = drop 4 data
              in if length data1 < valLen then Inr (res, data1)
                 else tuple_loop (i + 1) cs (drop valLen data1)
                        (AList.update (col_name c) (Some (take valLen data1)) res))
      else Inl (UnexpectedTupleMarker m i))"

definition decodeTuple :: "bytes \<Rightarrow> colMeta list \<Rightarrow> (cdc_error, row_map \<times> bytes) result" where
  "decodeTuple data cols =
     (if length data < 2 then Inl (TupleTooShort (length data))
      else tuple_loop 0 (take (be_nat (take 2 data)) cols) (drop 2 data) [])"

section \<open>Relations\<close>

definition cstring :: "bytes \<Rightarrow> bytes" where
  "cstring data = takeWhile (\<lambda>b. b \<noteq> 0) data"

definition after_cstring :: "bytes \<Rightarrow> bytes" where
  "after_cstring data = dropWhile (\<lambda>b. b \<noteq> 0) data"

fun column_loop :: "nat \<Rightarrow> bytes \<Rightarrow> colMeta list \<Rightarrow> colMeta list \<times> bytes" where
  "column_loop 0 data cols = (cols, data)"
| "column_loop (Suc n) data cols =
     (if data = [] then (cols, data)
      else
        let rest = after_cstring data
        in if rest = [] then (cols, [])
           else if length (tl rest) < 8 then (cols, tl rest)
           else
             let rest2 = drop 8 (tl rest)
             in if rest2 = [] then (cols, [])
                else column_loop n (tl rest2)
                       (cols @ [\<lparr>col_name = cstring data, col_typeOID = be_nat (take 4 (tl rest)),
                                 col_isKey = (hd rest2 AND 1 \<noteq> 0), col_isNotNull = (hd rest2 AND 2 \<noteq> 0)\<rparr>]))"

definition decodeRelation :: "bytes \<Rightarrow> (cdc_error, relMeta \<times> bytes) result" where
  "decodeRelation data =
     (if length data < 10 then Inl (RelationTooShort (length data))
      else
        let relID = be_nat (take 4 (tl data)); ns = drop 5 data; r1 = after_cstring ns
        in if r1 = [] then Inl UnterminatedNamespace
           else
             let nm = tl r1; r2 = after_cstring nm
             in if r2 = [] then Inl UnterminatedName
                else if tl r2 = [] then Inl MissingReplicaIdentity
                else
                  let r3 = tl (tl r2)
                  in if length r3 < 2 then Inl MissingColumnCount
                     else
                       let (cols, rest) = column_loop (be_nat (take 2 r3)) (drop 2 r3) []
                       in Inr (\<lparr>rel_id = relID, rel_namespace = cstring ns, rel_name = cstring nm,
                                rel_columns = cols\<rparr>, rest))"

section \<open>Row changes\<close>

definition decodeInsert :: "relations \<Rightarrow> bytes \<Rightarrow> (cdc_error, Change \<times> bytes) result" where
  "decodeInsert rels data =
     (if length data < 6 then Inl (InsertTooShort (length data))
      else
        let relID = be_nat (take 4 (tl data))
        in if data ! 5 \<noteq> 78 then Inl (ExpectedNewTuple (data ! 5))
           else case rels relID of
             None \<Rightarrow> Inl (UnknownRelation relID)
           | Some rel \<Rightarrow>
               (case decodeTuple (drop 6 data) (rel_columns rel) of
                  Inl e \<Rightarrow> Inl e
                | Inr (after, rest) \<Rightarrow>
                    Inr (\<lparr>ch_Schema = rel_namespace rel, ch_Table = rel_name rel, ch_Op = OpInsert,
                          ch_Before = None, ch_After = Some after\<rparr>, rest)))"

text \<open>The old tuple of an update or a delete, present after a \<^verbatim>\<open>K\<close> or \<^verbatim>\<open>O\<close> marker.\<close>

definition old_tuple :: "bytes \<Rightarrow> colMeta list \<Rightarrow> (cdc_error, row_map option \<times> bytes) result" where
  "old_tuple data cols =
     (if data \<noteq> [] \<and> (hd data = 75 \<or> hd data = 79)
      then (case decodeTuple (tl data) cols of Inl e \<Rightarrow> Inl e | Inr (t, rest) \<Rightarrow> Inr (Some t, rest))
      else Inr (None, data))"

definition new_tuple :: "bytes \<Rightarrow> colMeta list \<Rightarrow> (cdc_error, row_map option \<times> bytes) result" where
  "new_tuple data cols =
     (if data \<noteq> [] \<and> hd data = 78
      then (case decodeTuple (tl data) cols of Inl e \<Rightarrow> Inl e | Inr (t, rest) \<Rightarrow> Inr (Some t, rest))
      else Inr (None, data))"

definition decodeUpdate :: "relations \<Rightarrow> bytes \<Rightarrow> (cdc_error, Change \<times> bytes) result" where
  "decodeUpdate rels data =
     (if length data < 6 then Inl (UpdateTooShort (length data))
      else
        let relID = be_nat (take 4 (tl data))
        in case rels relID of
             None \<Rightarrow> Inl (UnknownRelation relID)
           | Some rel \<Rightarrow>
               (case old_tuple (drop 5 data) (rel_columns rel) of
                  Inl e \<Rightarrow> Inl e
                | Inr (before, r1) \<Rightarrow>
                    (case new_tuple r1 (rel_columns rel) of
                       Inl e \<Rightarrow> Inl e
                     | Inr (after, r2) \<Rightarrow>
                         Inr (\<lparr>ch_Schema = rel_namespace rel, ch_Table = rel_name rel, ch_Op = OpUpdate,
                               ch_Before = before, ch_After = after\<rparr>, r2))))"

definition decodeDelete :: "relations \<Rightarrow> bytes \<Rightarrow> (cdc_error, Change \<times> bytes) result" where
  "decodeDelete rels data =
     (if length data < 6 then Inl (DeleteTooShort (length data))
      else
        let relID = be_nat (take 4 (tl data))
        in case rels relID of
             None \<Rightarrow> Inl (UnknownRelation relID)
           | Some rel \<Rightarrow>
               (case old_tuple (drop 5 data) (rel_columns rel) of
                  Inl e \<Rightarrow> Inl e
                | Inr (before, r1) \<Rightarrow>
                    Inr (\<lparr>ch_Schema = rel_namespace rel, ch_Table = rel_name rel, ch_Op = OpDelete,
                          ch_Before = before, ch_After = None\<rparr>, r1)))"

section \<open>The stream\<close>

text \<open>The number of bytes the code skips for an origin and for a type message, the message byte
  included.\<close>

definition origin_skip :: "bytes \<Rightarrow> nat" where
  "origin_skip remaining = 9 + length (cstring (drop 9 remaining)) + 2"

definition type_skip :: "bytes \<Rightarrow> nat" where
  "type_skip remaining =
     (let pos0 = 5;
          pos1 = (if pos0 < length remaining then pos0 + length (cstring (drop pos0 remaining)) + 1 else pos0);
          pos2 = (if pos1 < length remaining then pos1 + length (cstring (drop pos1 remaining)) + 1 else pos1)
      in pos2 + 1)"

datatype cdc_abort = RelationDecode cdc_error | InsertDecode cdc_error | UpdateDecode cdc_error | DeleteDecode cdc_error

record wal_state =
  ws_relations :: relations
  ws_changes :: "Change list"
  ws_maxLSN :: nat

text \<open>How an iteration of the loop ends: it goes on with the rest of the data, it returns early
  without the final adjustment of the LSN, it returns an error, or it stops at an unknown message.\<close>

datatype iteration = GoOn bytes | ReturnEarly | Abort cdc_abort | StopBatch

definition wal_message :: "wal_state \<Rightarrow> bytes \<Rightarrow> wal_state \<times> iteration" where
  "wal_message st remaining =
     (let msgType = hd remaining
      in if msgType = 66 then
           (if length remaining < 21 then (st, ReturnEarly) else (st, GoOn (drop 21 remaining)))
         else if msgType = 67 then
           (if length remaining < 26 then (st, ReturnEarly)
            else (st\<lparr>ws_maxLSN := max (ws_maxLSN st) (be_nat (take 8 (drop 2 remaining)))\<rparr>,
                  GoOn (drop 26 remaining)))
         else if msgType = 82 then
           (case decodeRelation remaining of
              Inl e \<Rightarrow> (st, Abort (RelationDecode e))
            | Inr (rel, rest) \<Rightarrow> (st\<lparr>ws_relations := (ws_relations st)(rel_id rel \<mapsto> rel)\<rparr>, GoOn rest))
         else if msgType = 73 then
           (case decodeInsert (ws_relations st) remaining of
              Inl e \<Rightarrow> (st, Abort (InsertDecode e))
            | Inr (ch, rest) \<Rightarrow> (st\<lparr>ws_changes := ws_changes st @ [ch]\<rparr>, GoOn rest))
         else if msgType = 85 then
           (case decodeUpdate (ws_relations st) remaining of
              Inl e \<Rightarrow> (st, Abort (UpdateDecode e))
            | Inr (ch, rest) \<Rightarrow> (st\<lparr>ws_changes := ws_changes st @ [ch]\<rparr>, GoOn rest))
         else if msgType = 68 then
           (case decodeDelete (ws_relations st) remaining of
              Inl e \<Rightarrow> (st, Abort (DeleteDecode e))
            | Inr (ch, rest) \<Rightarrow> (st\<lparr>ws_changes := ws_changes st @ [ch]\<rparr>, GoOn rest))
         else if msgType = 79 then (st, GoOn (drop (origin_skip remaining) remaining))
         else if msgType = 89 then (st, GoOn (drop (type_skip remaining) remaining))
         else (st, StopBatch))"

lemma tuple_loop_shorter: "tuple_loop i cs data res = Inr (t, rest) \<Longrightarrow> length rest \<le> length data"
proof (induction i cs data res arbitrary: t rest rule: tuple_loop.induct)
  case (3 i c cs m data res)
  consider "m = 110 \<or> m = 117" | "m = 116" "m \<noteq> 110" "m \<noteq> 117" | "m \<noteq> 110" "m \<noteq> 117" "m \<noteq> 116"
    by blast
  then show ?case
  proof cases
    case 1
    then show ?thesis
      using 3 by (auto intro: le_SucI)
  next
    case 2
    show ?thesis
    proof (cases "length data < 4 \<or> length (drop 4 data) < be_nat (take 4 data)")
      case True
      then show ?thesis
        using "3.prems" 2 by (auto simp: Let_def split: if_splits)
    next
      case False
      then have "length rest \<le> length (drop (be_nat (take 4 data)) (drop 4 data))"
        using "3.IH"(2) [OF _ 2(1) _ refl refl] "3.prems" 2 by (auto simp: Let_def)
      then show ?thesis
        by simp
    qed
  qed (use "3.prems" in simp)
qed simp_all

lemma decodeTuple_shorter: "decodeTuple data cols = Inr (t, rest) \<Longrightarrow> length rest < length data"
  using tuple_loop_shorter [of 0 "take (be_nat (take 2 data)) cols" "drop 2 data" "[]" t rest]
  by (auto simp: decodeTuple_def split: if_splits)

lemma after_cstring_shorter: "length (after_cstring data) \<le> length data"
  by (simp add: after_cstring_def length_dropWhile_le)

lemma column_loop_shorter: "length (snd (column_loop n data cols)) \<le> length data"
proof (induction n data cols rule: column_loop.induct)
  case (2 n data cols)
  let ?rest = "after_cstring data"
  let ?rest2 = "drop 8 (tl ?rest)"
  have len: "length ?rest \<le> length data"
    by (rule after_cstring_shorter)
  show ?case
  proof (cases "data = [] \<or> ?rest = [] \<or> length (tl ?rest) < 8 \<or> ?rest2 = []")
    case True
    then show ?thesis
      using len by (auto simp: Let_def)
  next
    case False
    then have "length (snd (column_loop (Suc n) data cols)) \<le> length (tl ?rest2)"
      using "2.IH" [OF _ refl _ _ refl] by (simp add: Let_def)
    then show ?thesis
      using len by simp
  qed
qed simp

lemma decodeRelation_shorter:
  assumes "decodeRelation data = Inr (rel, rest)"
  shows "length rest < length data"
proof -
  let ?r1 = "after_cstring (drop 5 data)"
  let ?r2 = "after_cstring (tl ?r1)"
  let ?r3 = "tl (tl ?r2)"
  have "rest = snd (column_loop (be_nat (take 2 ?r3)) (drop 2 ?r3) [])" "10 \<le> length data"
    using assms by (auto simp: decodeRelation_def Let_def split: if_splits prod.splits)
  then have "length rest \<le> length (drop 2 ?r3)" "10 \<le> length data"
    by (simp_all only: column_loop_shorter)
  moreover have "length ?r2 \<le> length data - 5"
    using after_cstring_shorter [of "tl ?r1"] after_cstring_shorter [of "drop 5 data"] by simp
  ultimately show ?thesis
    by simp
qed

lemma old_new_shorter:
  "old_tuple data cols = Inr (b, rest) \<Longrightarrow> length rest \<le> length data"
  "new_tuple data cols = Inr (b, rest) \<Longrightarrow> length rest \<le> length data"
  using decodeTuple_shorter [of "tl data" cols]
  by (fastforce simp: old_tuple_def new_tuple_def split: if_splits sum.splits)+

lemma decodeInsert_shorter: "decodeInsert rels data = Inr (ch, rest) \<Longrightarrow> length rest < length data"
  using decodeTuple_shorter [of "drop 6 data"]
  by (fastforce simp: decodeInsert_def Let_def split: if_splits sum.splits option.splits)

lemma decodeUpdate_shorter:
  assumes "decodeUpdate rels data = Inr (ch, rest)"
  shows "length rest < length data"
proof -
  obtain rel :: relMeta and b r1 a where r: "6 \<le> length data" "old_tuple (drop 5 data) (rel_columns rel) = Inr (b, r1)"
      "new_tuple r1 (rel_columns rel) = Inr (a, rest)"
    using assms by (auto simp: decodeUpdate_def Let_def split: if_splits sum.splits option.splits)
  then show ?thesis
    using old_new_shorter(1) [OF r(2)] old_new_shorter(2) [OF r(3)] by simp
qed

lemma decodeDelete_shorter:
  assumes "decodeDelete rels data = Inr (ch, rest)"
  shows "length rest < length data"
proof -
  obtain rel :: relMeta and b where r: "6 \<le> length data" "old_tuple (drop 5 data) (rel_columns rel) = Inr (b, rest)"
    using assms by (auto simp: decodeDelete_def Let_def split: if_splits sum.splits option.splits)
  then show ?thesis
    using old_new_shorter(1) [OF r(2)] by simp
qed

lemma wal_message_shorter:
  assumes "data \<noteq> []" "wal_message st data = (st', GoOn rest)"
  shows "length rest < length data"
proof -
  have skip: "0 < origin_skip data" "0 < type_skip data"
    by (simp_all add: origin_skip_def type_skip_def Let_def)
  show ?thesis
    using assms skip decodeRelation_shorter decodeInsert_shorter decodeUpdate_shorter decodeDelete_shorter
    by (auto simp: wal_message_def Let_def split: if_splits sum.splits)
qed

definition finish_batch :: "nat \<Rightarrow> wal_state \<Rightarrow> wal_state" where
  "finish_batch baseLSN st = (if ws_maxLSN st = 0 then st\<lparr>ws_maxLSN := baseLSN\<rparr> else st)"

function wal_loop :: "nat \<Rightarrow> wal_state \<Rightarrow> bytes \<Rightarrow> wal_state \<times> cdc_abort option" where
  "wal_loop baseLSN st data =
     (if data = [] then (finish_batch baseLSN st, None)
      else case wal_message st data of
             (st', GoOn rest) \<Rightarrow> wal_loop baseLSN st' rest
           | (st', ReturnEarly) \<Rightarrow> (st', None)
           | (st', Abort e) \<Rightarrow> (st', Some e)
           | (st', StopBatch) \<Rightarrow> (finish_batch baseLSN st', None))"
  by auto
termination
  by (relation "measure (\<lambda>(b, st, data). length data)") (auto dest: wal_message_shorter [OF _ sym])

declare wal_loop.simps [simp del]

definition decodeWAL :: "relations \<Rightarrow> bytes \<Rightarrow> nat \<Rightarrow> wal_state \<times> cdc_abort option" where
  "decodeWAL rels walData baseLSN =
     wal_loop baseLSN \<lparr>ws_relations = rels, ws_changes = [], ws_maxLSN = 0\<rparr> walData"

definition decode :: "relations \<Rightarrow> bytes \<Rightarrow> (cdc_error, wal_state \<times> cdc_abort option) result" where
  "decode rels data =
     (if length data < 25 then Inl (CopyDataTooShort (length data))
      else if hd data \<noteq> 119 then Inr (decodeWAL rels data 0)
      else Inr (decodeWAL rels (drop 25 data) (be_nat (take 8 (tl data)))))"

section \<open>The messages of the protocol\<close>

text \<open>
  The encoding of the messages the decoder handles, and what each of them means for its state.
  It follows the documentation of the \<^verbatim>\<open>pgoutput\<close> message formats, except for the columns of
  a relation: those have their flags last, as \<^verbatim>\<open>pgoutput_test.go\<close> builds them, while the
  documented format has them first (\<open>enc_col_documented\<close> below).
\<close>

fun be_bytes :: "nat \<Rightarrow> nat \<Rightarrow> bytes" where
  "be_bytes 0 n = []"
| "be_bytes (Suc k) n = of_nat (n div 256 ^ k mod 256) # be_bytes k n"

definition enc_value :: "bytes option \<Rightarrow> bytes" where
  "enc_value v = (case v of None \<Rightarrow> [110] | Some b \<Rightarrow> 116 # be_bytes 4 (length b) @ b)"

definition enc_tuple :: "bytes option list \<Rightarrow> bytes" where
  "enc_tuple vals = be_bytes 2 (length vals) @ concat (map enc_value vals)"

definition enc_col :: "colMeta \<Rightarrow> bytes" where
  "enc_col c = col_name c @ 0 # be_bytes 4 (col_typeOID c) @ be_bytes 4 0
     @ [(if col_isKey c then 1 else 0) + (if col_isNotNull c then 2 else 0)]"

datatype wal_msg =
    MBegin bytes
  | MCommit "8 word" nat bytes
  | MRelation relMeta "8 word"
  | MInsert nat "bytes option list"
  | MUpdate nat "(bool \<times> bytes option list) option" "bytes option list"
  | MDelete nat bool "bytes option list"

definition enc_old :: "bool \<times> bytes option list \<Rightarrow> bytes" where
  "enc_old old = (if fst old then 75 else 79) # enc_tuple (snd old)"

fun enc_msg :: "wal_msg \<Rightarrow> bytes" where
  "enc_msg (MBegin payload) = 66 # payload"
| "enc_msg (MCommit flags lsn tail) = 67 # flags # be_bytes 8 lsn @ tail"
| "enc_msg (MRelation r ident) = 82 # be_bytes 4 (rel_id r) @ rel_namespace r @ 0 # rel_name r @ 0 # ident
     # be_bytes 2 (length (rel_columns r)) @ concat (map enc_col (rel_columns r))"
| "enc_msg (MInsert i vals) = 73 # be_bytes 4 i @ 78 # enc_tuple vals"
| "enc_msg (MUpdate i old vals) = 85 # be_bytes 4 i @ (case old of None \<Rightarrow> [] | Some o' \<Rightarrow> enc_old o') @ 78 # enc_tuple vals"
| "enc_msg (MDelete i key vals) = 68 # be_bytes 4 i @ enc_old (key, vals)"

definition row_of :: "colMeta list \<Rightarrow> bytes option list \<Rightarrow> row_map" where
  "row_of cols vals = foldl (\<lambda>m (c, v). AList.update (col_name c) v m) [] (zip cols vals)"

definition change_of :: "relMeta \<Rightarrow> op \<Rightarrow> bytes option list option \<Rightarrow> bytes option list option \<Rightarrow> Change" where
  "change_of rel oper before after = \<lparr>ch_Schema = rel_namespace rel, ch_Table = rel_name rel, ch_Op = oper,
     ch_Before = map_option (row_of (rel_columns rel)) before,
     ch_After = map_option (row_of (rel_columns rel)) after\<rparr>"

definition add_change :: "nat \<Rightarrow> (relMeta \<Rightarrow> Change) \<Rightarrow> wal_state \<Rightarrow> wal_state" where
  "add_change i f st = (case ws_relations st i of
      None \<Rightarrow> st | Some rel \<Rightarrow> st\<lparr>ws_changes := ws_changes st @ [f rel]\<rparr>)"

fun msg_effect :: "wal_msg \<Rightarrow> wal_state \<Rightarrow> wal_state" where
  "msg_effect (MBegin _) st = st"
| "msg_effect (MCommit _ lsn _) st = st\<lparr>ws_maxLSN := max (ws_maxLSN st) lsn\<rparr>"
| "msg_effect (MRelation r _) st = st\<lparr>ws_relations := (ws_relations st)(rel_id r \<mapsto> r)\<rparr>"
| "msg_effect (MInsert i vals) st = add_change i (\<lambda>rel. change_of rel OpInsert None (Some vals)) st"
| "msg_effect (MUpdate i old vals) st =
     add_change i (\<lambda>rel. change_of rel OpUpdate (map_option snd old) (Some vals)) st"
| "msg_effect (MDelete i _ vals) st = add_change i (\<lambda>rel. change_of rel OpDelete (Some vals) None) st"

text \<open>Messages that fit the wire format and refer to relations already announced.\<close>

definition nul_free :: "bytes \<Rightarrow> bool" where
  "nul_free bs = list_all (\<lambda>b. b \<noteq> 0) bs"

definition vals_ok :: "relMeta \<Rightarrow> bytes option list \<Rightarrow> bool" where
  "vals_ok rel vals \<longleftrightarrow> length vals = length (rel_columns rel) \<and> length vals < 256 ^ 2
     \<and> list_all (\<lambda>v. case v of None \<Rightarrow> True | Some b \<Rightarrow> length b < 256 ^ 4) vals"

definition known_ok :: "relations \<Rightarrow> nat \<Rightarrow> (relMeta \<Rightarrow> bool) \<Rightarrow> bool" where
  "known_ok rels i P \<longleftrightarrow> i < 256 ^ 4 \<and> (case rels i of None \<Rightarrow> False | Some rel \<Rightarrow> P rel)"

fun msg_ok :: "relations \<Rightarrow> wal_msg \<Rightarrow> bool" where
  "msg_ok rels (MBegin payload) \<longleftrightarrow> length payload = 20"
| "msg_ok rels (MCommit _ lsn tail) \<longleftrightarrow> lsn < 256 ^ 8 \<and> length tail = 16"
| "msg_ok rels (MRelation r _) \<longleftrightarrow> rel_id r < 256 ^ 4 \<and> nul_free (rel_namespace r) \<and> nul_free (rel_name r)
     \<and> length (rel_columns r) < 256 ^ 2
     \<and> list_all (\<lambda>c. nul_free (col_name c) \<and> col_typeOID c < 256 ^ 4) (rel_columns r)"
| "msg_ok rels (MInsert i vals) \<longleftrightarrow> known_ok rels i (\<lambda>rel. vals_ok rel vals)"
| "msg_ok rels (MUpdate i old vals) \<longleftrightarrow>
     known_ok rels i (\<lambda>rel. vals_ok rel vals \<and> (case old of None \<Rightarrow> True | Some o' \<Rightarrow> vals_ok rel (snd o')))"
| "msg_ok rels (MDelete i _ vals) \<longleftrightarrow> known_ok rels i (\<lambda>rel. vals_ok rel vals)"

fun msgs_ok :: "relations \<Rightarrow> wal_msg list \<Rightarrow> bool" where
  "msgs_ok rels [] \<longleftrightarrow> True"
| "msgs_ok rels (m # ms) \<longleftrightarrow> msg_ok rels m
     \<and> msgs_ok (case m of MRelation r _ \<Rightarrow> rels(rel_id r \<mapsto> r) | _ \<Rightarrow> rels) ms"

section \<open>Decoding what was encoded\<close>

lemma length_be_bytes [simp]: "length (be_bytes k n) = k"
  by (induction k) simp_all

lemma be_nat_foldl: "foldl (\<lambda>n b. 256 * n + unat b) a (bs :: bytes) = a * 256 ^ length bs + be_nat bs"
proof (induction bs arbitrary: a)
  case (Cons b bs)
  have "be_nat (b # bs) = foldl (\<lambda>n b. 256 * n + unat b) (unat b) bs"
    by (simp add: be_nat_def)
  also have "\<dots> = unat b * 256 ^ length bs + be_nat bs"
    by (rule Cons.IH)
  finally have head: "be_nat (b # bs) = unat b * 256 ^ length bs + be_nat bs" .
  have "foldl (\<lambda>n b. 256 * n + unat b) a (b # bs) = (256 * a + unat b) * 256 ^ length bs + be_nat bs"
    using Cons.IH [of "256 * a + unat b"] by simp
  then show ?case
    unfolding head by (simp add: algebra_simps)
qed (simp add: be_nat_def)

lemma be_nat_Cons: "be_nat (b # bs) = unat b * 256 ^ length bs + be_nat bs"
  using be_nat_foldl [of "unat b" bs] by (simp add: be_nat_def)

lemma be_nat_bytes: "be_nat (be_bytes k n) = n mod 256 ^ k"
proof (induction k)
  case (Suc k)
  have "unat (of_nat (n div 256 ^ k mod 256) :: 8 word) = n div 256 ^ k mod 256"
    by (simp add: unat_of_nat)
  then show ?case
    using Suc mod_mult2_eq [of n "256 ^ k" 256] by (simp add: be_nat_Cons algebra_simps)
qed (simp add: be_nat_def)

lemma be_nat_bytes_id [simp]: "n < 256 ^ k \<Longrightarrow> be_nat (be_bytes k n) = n"
  by (simp add: be_nat_bytes)

lemma take_be_bytes [simp]:
  "take k (be_bytes k n @ rest) = be_bytes k n" "drop k (be_bytes k n @ rest) = rest"
  by simp_all

lemma tuple_loop_encoded:
  assumes "length vals = length cs" "list_all (\<lambda>v. case v of None \<Rightarrow> True | Some b \<Rightarrow> length b < 256 ^ 4) vals"
  shows "tuple_loop i cs (concat (map enc_value vals) @ rest) res
    = Inr (foldl (\<lambda>m (c, v). AList.update (col_name c) v m) res (zip cs vals), rest)"
  using assms
proof (induction vals cs arbitrary: i res rule: list_induct2)
  case (Cons v vals c cs)
  show ?case
  proof (cases v)
    case None
    then show ?thesis
      using Cons by (simp add: enc_value_def)
  next
    case (Some b)
    then have "length b < 256 ^ 4"
      using Cons.prems by simp
    then show ?thesis
      using Cons Some by (simp add: enc_value_def Let_def del: be_bytes.simps power_numeral)
  qed
qed (cases rest, simp_all)

lemma decodeTuple_encoded:
  assumes "vals_ok rel vals"
  shows "decodeTuple (enc_tuple vals @ rest) (rel_columns rel) = Inr (row_of (rel_columns rel) vals, rest)"
proof -
  have count: "be_nat (be_bytes 2 (length vals)) = length (rel_columns rel)"
    using assms by (simp add: vals_ok_def)
  have "decodeTuple (enc_tuple vals @ rest) (rel_columns rel)
      = tuple_loop 0 (rel_columns rel) (concat (map enc_value vals) @ rest) []"
    by (simp add: decodeTuple_def enc_tuple_def count del: be_bytes.simps)
  then show ?thesis
    using assms tuple_loop_encoded [of vals "rel_columns rel"] by (simp add: vals_ok_def row_of_def)
qed

lemma cstring_encoded:
  assumes "nul_free w"
  shows "cstring (w @ 0 # rest) = w" "after_cstring (w @ 0 # rest) = 0 # rest"
  using assms by (simp_all add: cstring_def after_cstring_def nul_free_def list_all_iff takeWhile_append2 dropWhile_append2)

lemma column_loop_encoded:
  assumes "list_all (\<lambda>c. nul_free (col_name c) \<and> col_typeOID c < 256 ^ 4) cs"
  shows "column_loop (length cs) (concat (map enc_col cs) @ rest) acc = (acc @ cs, rest)"
  using assms
proof (induction cs arbitrary: acc)
  case (Cons c cs)
  define flags :: "8 word" where "flags = (if col_isKey c then 1 else 0) + (if col_isNotNull c then 2 else 0)"
  define more where "more = concat (map enc_col cs) @ rest"
  define tail where "tail = be_bytes 4 (col_typeOID c) @ be_bytes 4 0 @ flags # more"
  have flag_bits: "(flags AND 1 \<noteq> 0) = col_isKey c" "(flags AND 2 \<noteq> 0) = col_isNotNull c"
    by (simp_all add: flags_def)
  have data: "concat (map enc_col (c # cs)) @ rest = col_name c @ 0 # tail"
    by (simp add: enc_col_def tail_def more_def flags_def del: be_bytes.simps)
  have name: "cstring (col_name c @ 0 # tail) = col_name c" "after_cstring (col_name c @ 0 # tail) = 0 # tail"
    using Cons.prems by (simp_all add: cstring_encoded)
  have tail: "take 4 tail = be_bytes 4 (col_typeOID c)" "drop 8 tail = flags # more" "\<not> length tail < 8"
    by (simp_all add: tail_def del: be_bytes.simps)
  have oid: "be_nat (be_bytes 4 (col_typeOID c)) = col_typeOID c"
    using Cons.prems by (simp del: be_bytes.simps power_numeral)
  have same: "\<lparr>col_name = col_name c, col_typeOID = col_typeOID c, col_isKey = col_isKey c,
      col_isNotNull = col_isNotNull c\<rparr> = c"
    by (cases c) simp
  have "column_loop (length (c # cs)) (col_name c @ 0 # tail) acc = column_loop (length cs) more
      (acc @ [\<lparr>col_name = col_name c, col_typeOID = col_typeOID c, col_isKey = col_isKey c,
        col_isNotNull = col_isNotNull c\<rparr>])"
    by (simp add: Let_def name tail oid flag_bits)
  also have "\<dots> = column_loop (length cs) more (acc @ [c])"
    by (simp only: same)
  also have "column_loop (length cs) more (acc @ [c]) = ((acc @ [c]) @ cs, rest)"
    unfolding more_def by (rule Cons.IH) (use Cons.prems in simp)
  finally show ?case
    unfolding data by simp
qed simp

lemma decodeRelation_encoded:
  assumes "msg_ok rels (MRelation r ident)"
  shows "decodeRelation (enc_msg (MRelation r ident) @ rest) = Inr (r, rest)"
proof -
  define cols where "cols = be_bytes 2 (length (rel_columns r)) @ concat (map enc_col (rel_columns r)) @ rest"
  define names where "names = rel_namespace r @ 0 # rel_name r @ 0 # ident # cols"
  have data: "enc_msg (MRelation r ident) @ rest = 82 # be_bytes 4 (rel_id r) @ names"
    by (simp add: names_def cols_def del: be_bytes.simps)
  have split: "take 4 (tl (82 # be_bytes 4 (rel_id r) @ names)) = be_bytes 4 (rel_id r)"
      "drop 5 (82 # be_bytes 4 (rel_id r) @ names) = names" "\<not> length (82 # be_bytes 4 (rel_id r) @ names) < 10"
    by (simp_all add: names_def cols_def del: be_bytes.simps)
  have ns: "cstring names = rel_namespace r" "after_cstring names = 0 # rel_name r @ 0 # ident # cols"
    using assms by (simp_all add: names_def cstring_encoded)
  have nm: "cstring (rel_name r @ 0 # ident # cols) = rel_name r"
      "after_cstring (rel_name r @ 0 # ident # cols) = 0 # ident # cols"
    using assms by (simp_all add: cstring_encoded)
  have cols: "take 2 cols = be_bytes 2 (length (rel_columns r))"
      "drop 2 cols = concat (map enc_col (rel_columns r)) @ rest" "\<not> length cols < 2"
    by (simp_all add: cols_def del: be_bytes.simps)
  have ids: "be_nat (be_bytes 4 (rel_id r)) = rel_id r"
      "be_nat (be_bytes 2 (length (rel_columns r))) = length (rel_columns r)"
    using assms by (simp_all del: be_bytes.simps power_numeral)
  have loop: "column_loop (length (rel_columns r)) (concat (map enc_col (rel_columns r)) @ rest) [] = (rel_columns r, rest)"
    using assms column_loop_encoded [of "rel_columns r" rest "[]"] by simp
  show ?thesis
    unfolding data decodeRelation_def Let_def split if_not_P [OF split(3)]
    by (simp add: ns nm cols ids loop del: be_bytes.simps)
qed

lemma enc_tuple_nonempty: "2 \<le> length (enc_tuple vals)"
  by (simp add: enc_tuple_def del: be_bytes.simps)

lemma row_message_split:
  fixes m :: "8 word"
  assumes "i < 256 ^ 4"
  shows "be_nat (take 4 (tl (m # be_bytes 4 i @ rest))) = i" "drop 5 (m # be_bytes 4 i @ rest) = rest"
    "drop 6 (m # be_bytes 4 i @ x # rest) = rest" "(m # be_bytes 4 i @ x # rest) ! 5 = x"
  using assms by (simp_all add: nth_append del: be_bytes.simps power_numeral)

lemma wal_message_encoded:
  assumes "msg_ok (ws_relations st) m"
  shows "wal_message st (enc_msg m @ rest) = (msg_effect m st, GoOn rest)"
proof (cases m)
  case (MBegin payload)
  then show ?thesis
    using assms by (simp add: wal_message_def)
next
  case (MCommit flags lsn tail)
  then have "lsn < 256 ^ 8" "length tail = 16"
    using assms by simp_all
  then show ?thesis
    using MCommit by (simp add: wal_message_def del: be_bytes.simps power_numeral)
next
  case (MRelation r ident)
  have "hd (enc_msg m @ rest) = 82"
    using MRelation by simp
  then show ?thesis
    using decodeRelation_encoded [of "ws_relations st" r ident rest] assms MRelation
    by (simp add: wal_message_def Let_def del: enc_msg.simps)
next
  case (MInsert i vals)
  then obtain rel where rel: "ws_relations st i = Some rel" "vals_ok rel vals" "i < 256 ^ 4"
    using assms by (auto simp: known_ok_def split: option.splits)
  have "decodeInsert (ws_relations st) (73 # be_bytes 4 i @ 78 # enc_tuple vals @ rest)
      = Inr (change_of rel OpInsert None (Some vals), rest)"
    unfolding decodeInsert_def Let_def row_message_split [OF rel(3)]
    using rel decodeTuple_encoded [OF rel(2)] enc_tuple_nonempty [of vals]
    by (simp add: change_of_def del: be_bytes.simps)
  then show ?thesis
    using MInsert rel by (simp add: wal_message_def add_change_def del: be_bytes.simps)
next
  case (MUpdate i old vals)
  then obtain rel where rel: "ws_relations st i = Some rel" "vals_ok rel vals" "i < 256 ^ 4"
      "case old of None \<Rightarrow> True | Some o' \<Rightarrow> vals_ok rel (snd o')"
    using assms by (auto simp: known_ok_def split: option.splits)
  let ?old = "case old of None \<Rightarrow> [] | Some o' \<Rightarrow> enc_old o'"
  have o': "old_tuple (?old @ 78 # enc_tuple vals @ rest) (rel_columns rel)
      = Inr (map_option (row_of (rel_columns rel)) (map_option snd old), 78 # enc_tuple vals @ rest)"
    using rel(4) decodeTuple_encoded [of rel] by (cases old) (simp_all add: old_tuple_def enc_old_def)
  have "decodeUpdate (ws_relations st) (85 # be_bytes 4 i @ ?old @ 78 # enc_tuple vals @ rest)
      = Inr (change_of rel OpUpdate (map_option snd old) (Some vals), rest)"
    unfolding decodeUpdate_def Let_def row_message_split [OF rel(3)]
    using rel o' decodeTuple_encoded [OF rel(2)] enc_tuple_nonempty [of vals]
    by (simp add: change_of_def new_tuple_def del: be_bytes.simps)
  then show ?thesis
    using MUpdate rel by (simp add: wal_message_def add_change_def del: be_bytes.simps)
next
  case (MDelete i key vals)
  then obtain rel where rel: "ws_relations st i = Some rel" "vals_ok rel vals" "i < 256 ^ 4"
    using assms by (auto simp: known_ok_def split: option.splits)
  have "decodeDelete (ws_relations st) (68 # be_bytes 4 i @ enc_old (key, vals) @ rest)
      = Inr (change_of rel OpDelete (Some vals) None, rest)"
    unfolding decodeDelete_def Let_def row_message_split [OF rel(3)]
    using rel decodeTuple_encoded [OF rel(2)] enc_tuple_nonempty [of vals]
    by (simp add: change_of_def old_tuple_def enc_old_def del: be_bytes.simps)
  then show ?thesis
    using MDelete rel by (simp add: wal_message_def add_change_def del: be_bytes.simps)
qed

lemma add_change_relations [simp]: "ws_relations (add_change i f st) = ws_relations st"
  by (simp add: add_change_def split: option.split)

lemma enc_msg_nonempty [simp]: "enc_msg m \<noteq> []"
  by (cases m) simp_all

lemma wal_loop_encoded:
  "msgs_ok (ws_relations st) ms \<Longrightarrow>
     wal_loop base st (concat (map enc_msg ms)) = (finish_batch base (fold msg_effect ms st), None)"
proof (induction ms arbitrary: st)
  case (Cons m ms)
  have "msgs_ok (ws_relations (msg_effect m st)) ms"
    using Cons.prems by (cases m) simp_all
  then show ?case
    using Cons wal_message_encoded [of st m "concat (map enc_msg ms)"]
    by (simp add: wal_loop.simps [of base st "enc_msg m @ concat (map enc_msg ms)"])
qed (simp add: wal_loop.simps)

lemma decode_encoded:
  assumes "msgs_ok rels ms" "startLSN < 256 ^ 8" "length clocks = 16"
  shows "decode rels (119 # be_bytes 8 startLSN @ clocks @ concat (map enc_msg ms))
    = Inr (finish_batch startLSN
        (fold msg_effect ms \<lparr>ws_relations = rels, ws_changes = [], ws_maxLSN = 0\<rparr>), None)"
proof -
  let ?data = "119 # be_bytes 8 startLSN @ clocks @ concat (map enc_msg ms)"
  have lsn: "be_nat (be_bytes 8 startLSN) = startLSN"
    using assms(2) by (rule be_nat_bytes_id)
  have frame: "\<not> length ?data < 25" "hd ?data = 119" "drop 25 ?data = concat (map enc_msg ms)"
      "take 8 (tl ?data) = be_bytes 8 startLSN"
    using assms(3) by (simp_all del: be_bytes.simps)
  have "decode rels ?data = Inr (decodeWAL rels (concat (map enc_msg ms)) startLSN)"
    unfolding decode_def frame lsn if_not_P [OF frame(1)] by simp
  then show ?thesis
    using assms(1) by (simp add: decodeWAL_def wal_loop_encoded del: be_bytes.simps)
qed


definition sample_rel :: relMeta where
  "sample_rel = \<lparr>rel_id = 7, rel_namespace = [112], rel_name = [116],
     rel_columns = [\<lparr>col_name = [105], col_typeOID = 25, col_isKey = True, col_isNotNull = True\<rparr>]\<rparr>"

definition sample_msgs :: "wal_msg list" where
  "sample_msgs = [MRelation sample_rel 100, MInsert 7 [Some [65]], MCommit 0 12 (replicate 16 0)]"


text \<open>
  An origin message makes the decoder lose the message after it: the code skips one byte more
  than the message has, so the type byte of the next message is dropped and what follows it is
  read as messages.
\<close>

theorem origin_message_drops_next_type:
  assumes "length lsn = 8" "nul_free name"
  shows "wal_loop base st (79 # lsn @ name @ 0 # typeByte # rest) = wal_loop base st rest"
proof -
  let ?data = "79 # lsn @ name @ 0 # typeByte # rest"
  have "drop 9 ?data = name @ 0 # typeByte # rest"
    using assms(1) by simp
  then have "origin_skip ?data = 11 + length name"
    using assms(2) by (simp only: origin_skip_def cstring_encoded)
  moreover have "11 + length name = length (79 # lsn @ name @ [0, typeByte])"
    using assms(1) by simp
  then have "drop (11 + length name) ((79 # lsn @ name @ [0, typeByte]) @ rest) = rest"
    by (simp only: append_eq_conv_conj [THEN iffD1, OF refl, THEN conjunct2, symmetric])
  ultimately have "wal_message st ?data = (st, GoOn rest)"
    by (simp add: wal_message_def Let_def)
  then show ?thesis
    by (subst wal_loop.simps) simp
qed

lemma unknown_message_stops: "wal_loop base st (0 # rest) = (finish_batch base st, None)"
  by (subst wal_loop.simps) (simp add: wal_message_def)

theorem origin_message_drops_next_type_witness:
  "decodeWAL [7 \<mapsto> sample_rel] (79 # replicate 8 0 @ [99] @ 0 # enc_msg (MInsert 7 [Some [65]])) 5
    = (\<lparr>ws_relations = [7 \<mapsto> sample_rel], ws_changes = [], ws_maxLSN = 5\<rparr>, None)"
proof -
  have "be_bytes (Suc (Suc (Suc (Suc 0)))) 7 = [0, 0, 0, 7]"
    by simp
  then have "be_bytes 4 7 = [0, 0, 0, 7]"
    by (simp only: numeral_eq_Suc pred_numeral_simps eval_nat_numeral(2) BitM.simps)
  then have enc: "enc_msg (MInsert 7 [Some [65]]) = 73 # 0 # [0, 0, 7, 78] @ enc_tuple [Some [65]]"
    by (simp del: be_bytes.simps)
  have ok: "length (replicate 8 (0 :: 8 word)) = 8" "nul_free [99]"
    by (simp_all add: nul_free_def)
  show ?thesis
    unfolding decodeWAL_def enc origin_message_drops_next_type [OF ok] unknown_message_stops
    by (simp add: finish_batch_def)
qed

definition enc_col_documented :: "colMeta \<Rightarrow> bytes" where
  "enc_col_documented c = (if col_isKey c then 1 else 0) # col_name c @ 0 # be_bytes 4 (col_typeOID c) @ be_bytes 4 0"

lemma column_loop_keeps: "\<exists>more. fst (column_loop n data cols) = cols @ more"
proof (induction n data cols rule: column_loop.induct)
  case (2 n data cols)
  then show ?case
    by (fastforce simp: Let_def)
qed simp

lemma column_loop_empty_name:
  assumes "9 \<le> length body"
  shows "\<exists>c1 cs r. column_loop (Suc n) (0 # body) [] = (c1 # cs, r) \<and> col_name c1 = []"
proof -
  have name: "cstring (0 # body) = []" "after_cstring (0 # body) = 0 # body"
    by (simp_all add: cstring_def after_cstring_def)
  have body: "drop 8 body \<noteq> []" "\<not> length body < 8"
    using assms by simp_all
  define c1 where "c1 = \<lparr>col_name = [], col_typeOID = be_nat (take 4 body),
    col_isKey = (hd (drop 8 body) AND 1 \<noteq> 0), col_isNotNull = (hd (drop 8 body) AND 2 \<noteq> 0)\<rparr>"
  have step: "column_loop (Suc n) (0 # body) [] = column_loop n (tl (drop 8 body)) [c1]"
    using body by (simp add: name c1_def Let_def)
  obtain more where "fst (column_loop n (tl (drop 8 body)) [c1]) = [c1] @ more"
    using column_loop_keeps by blast
  then show ?thesis
    unfolding step by (cases "column_loop n (tl (drop 8 body)) [c1]") (simp add: c1_def)
qed

text \<open>
  A relation message in the documented format, with the flags of a column before its name, is
  accepted but misread: when the first column is not part of the key, its flags byte is taken for
  the end of an empty column name.
\<close>

theorem documented_relation_misread:
  assumes "nul_free ns" "nul_free nm" "\<not> col_isKey c" "length (c # cs) < 256 ^ 2"
  shows "\<exists>r rest. decodeRelation (82 # be_bytes 4 i @ ns @ 0 # nm @ 0 # ident # be_bytes 2 (length (c # cs))
            @ concat (map enc_col_documented (c # cs))) = Inr (r, rest)
      \<and> rel_columns r \<noteq> [] \<and> col_name (hd (rel_columns r)) = []"
proof -
  define cols where "cols = be_bytes 2 (length (c # cs)) @ concat (map enc_col_documented (c # cs))"
  define names where "names = ns @ 0 # nm @ 0 # ident # cols"
  let ?body = "col_name c @ 0 # be_bytes 4 (col_typeOID c) @ be_bytes 4 0 @ concat (map enc_col_documented cs)"
  let ?data = "82 # be_bytes 4 i @ names"
  have body: "concat (map enc_col_documented (c # cs)) = 0 # ?body" "9 \<le> length ?body"
    using assms(3) by (simp_all add: enc_col_documented_def del: be_bytes.simps)
  have two: "take 2 cols = be_bytes 2 (length (c # cs))" "drop 2 cols = 0 # ?body" "\<not> length cols < 2"
    unfolding cols_def body(1) by (simp_all del: be_bytes.simps)
  have n: "be_nat (be_bytes 2 (length (c # cs))) = Suc (length cs)"
    using assms(4) be_nat_bytes_id [of "length (c # cs)" 2] by simp
  have split: "drop 5 ?data = names" "\<not> length ?data < 10"
    using two(3) by (simp_all add: names_def del: be_bytes.simps)
  have rest: "cstring names = ns" "after_cstring names = 0 # nm @ 0 # ident # cols"
      "cstring (nm @ 0 # ident # cols) = nm" "after_cstring (nm @ 0 # ident # cols) = 0 # ident # cols"
    using assms(1,2) by (simp_all add: names_def cstring_encoded)
  obtain c1 :: colMeta and cs' r where loop: "column_loop (Suc (length cs)) (0 # ?body) [] = (c1 # cs', r)" "col_name c1 = []"
    using column_loop_empty_name [OF body(2)] by blast
  then have "decodeRelation ?data = Inr (\<lparr>rel_id = be_nat (take 4 (tl ?data)), rel_namespace = ns, rel_name = nm,
      rel_columns = c1 # cs'\<rparr>, r)"
    unfolding decodeRelation_def Let_def split if_not_P [OF split(2)]
    using rest two n by (simp del: be_bytes.simps column_loop.simps)
  then show ?thesis
    using loop(2) unfolding names_def cols_def by (simp del: be_bytes.simps)
qed

definition value_column :: colMeta where
  "value_column = \<lparr>col_name = [105], col_typeOID = 25, col_isKey = False, col_isNotNull = False\<rparr>"

theorem documented_relation_misread_witness:
  "\<exists>r rest. decodeRelation (82 # be_bytes 4 7 @ [112] @ 0 # [116] @ 0 # 100 # be_bytes 2 (length [value_column])
            @ concat (map enc_col_documented [value_column])) = Inr (r, rest)
      \<and> rel_columns r \<noteq> [] \<and> col_name (hd (rel_columns r)) = []"
  by (rule documented_relation_misread) (simp_all add: nul_free_def value_column_def)

end
