(* ===== verification/CDC_Consumer.thy ===== *)
theory CDC_Consumer
  imports CDC
begin

text \<open>
  The replication consumer and its sinks (\<^verbatim>\<open>internal/cdc/consumer.go\<close>, \<^verbatim>\<open>sink.go\<close>,
  \<^verbatim>\<open>kafka_sink.go\<close>, \<^verbatim>\<open>stdout_sink.go\<close>).  The PostgreSQL connection is the environment of the
  model: a connection attempt is a record of what each call on it returned, and its stream a list of
  what \<^verbatim>\<open>ReceiveMessage\<close> returned together with the clock read after it.  A run over a finite
  list of events is a prefix of a run of the code.
\<close>

section \<open>Sinks\<close>

text \<open>A change stamped with its LSN, as \<^verbatim>\<open>runReplication\<close> hands it to the sinks.\<close>

type_synonym stamped = "Change \<times> nat"

datatype sink_error = SinkClosed | KafkaWrite

record MemorySink =
  mem_changes :: "stamped list"
  mem_closed :: bool

definition MemorySink_WriteChange :: "MemorySink \<Rightarrow> stamped \<Rightarrow> MemorySink \<times> sink_error option" where
  "MemorySink_WriteChange s change =
     (if mem_closed s then (s, Some SinkClosed)
      else (s\<lparr>mem_changes := mem_changes s @ [change]\<rparr>, None))"

definition MemorySink_Close :: "MemorySink \<Rightarrow> MemorySink" where
  "MemorySink_Close s = s\<lparr>mem_closed := True\<rparr>"

text \<open>
  A Kafka message carries the change its JSON value encodes.  The \<^verbatim>\<open>MessageWriter\<close> is the
  caller's: the outcomes of its next calls are a list, all of them successes once it is used up.
\<close>

record Message =
  msg_Topic :: bytes
  msg_Key :: "bytes \<times> bytes \<times> nat"
  msg_Value :: stamped

record KafkaSink =
  kafka_topicPref :: bytes
  kafka_outcomes :: "bool list"
  kafka_written :: "Message list"
  kafka_closed :: bool
  kafka_writer_closed :: bool

text \<open>The separator is the dot, byte 46; the default prefix is \<^verbatim>\<open>stellabill\<close>.\<close>

definition NewKafkaSink :: "bool list option \<Rightarrow> bytes \<Rightarrow> KafkaSink option" where
  "NewKafkaSink writer prefix = (case writer of
      None \<Rightarrow> None
    | Some outcomes \<Rightarrow> Some \<lparr>kafka_topicPref = (if prefix = [] then [115, 116, 101, 108, 108, 97, 98, 105, 108, 108] else prefix),
        kafka_outcomes = outcomes, kafka_written = [], kafka_closed = False, kafka_writer_closed = False\<rparr>)"

definition topicFor :: "KafkaSink \<Rightarrow> bytes \<Rightarrow> bytes \<Rightarrow> bytes" where
  "topicFor s schema tbl = kafka_topicPref s @ [46] @ schema @ [46] @ tbl"

definition KafkaSink_WriteChange :: "KafkaSink \<Rightarrow> stamped \<Rightarrow> KafkaSink \<times> sink_error option" where
  "KafkaSink_WriteChange s change =
     (if kafka_closed s then (s, Some SinkClosed)
      else
        let (ch, lsn) = change;
            msg = \<lparr>msg_Topic = topicFor s (ch_Schema ch) (ch_Table ch),
                   msg_Key = (ch_Schema ch, ch_Table ch, lsn), msg_Value = change\<rparr>
        in case kafka_outcomes s of
             False # os \<Rightarrow> (s\<lparr>kafka_outcomes := os\<rparr>, Some KafkaWrite)
           | os \<Rightarrow> (s\<lparr>kafka_outcomes := tl os, kafka_written := kafka_written s @ [msg]\<rparr>, None))"

definition KafkaSink_Close :: "KafkaSink \<Rightarrow> KafkaSink" where
  "KafkaSink_Close s = (if kafka_closed s then s else s\<lparr>kafka_closed := True, kafka_writer_closed := True\<rparr>)"

text \<open>The stdout sink is the list of the lines it printed.\<close>

datatype sink = Memory MemorySink | Kafka KafkaSink | Stdout "stamped list"

fun WriteChange :: "sink \<Rightarrow> stamped \<Rightarrow> sink \<times> sink_error option" where
  "WriteChange (Memory s) change = (let (s', e) = MemorySink_WriteChange s change in (Memory s', e))"
| "WriteChange (Kafka s) change = (let (s', e) = KafkaSink_WriteChange s change in (Kafka s', e))"
| "WriteChange (Stdout out) change = (Stdout (out @ [change]), None)"

fun CloseSink :: "sink \<Rightarrow> sink" where
  "CloseSink (Memory s) = Memory (MemorySink_Close s)"
| "CloseSink (Kafka s) = Kafka (KafkaSink_Close s)"
| "CloseSink (Stdout out) = Stdout out"

text \<open>What a sink has accepted so far.\<close>

fun accepted :: "sink \<Rightarrow> stamped list" where
  "accepted (Memory s) = mem_changes s"
| "accepted (Kafka s) = map msg_Value (kafka_written s)"
| "accepted (Stdout out) = out"

section \<open>The consumer\<close>

record ConsumerConfig =
  cfg_ConnString :: string
  cfg_SlotName :: string
  cfg_PublicationName :: string
  cfg_StandbyTimeout :: duration
  cfg_MaxReconnectAttempts :: int
  cfg_ReconnectBackoff :: duration

definition NewConsumerConfig :: "ConsumerConfig \<Rightarrow> ConsumerConfig option" where
  "NewConsumerConfig cfg =
     (if cfg_ConnString cfg = '''' then None
      else Some \<lparr>cfg_ConnString = cfg_ConnString cfg,
        cfg_SlotName = (if cfg_SlotName cfg = '''' then ''stellabill_cdc_slot'' else cfg_SlotName cfg),
        cfg_PublicationName = (if cfg_PublicationName cfg = '''' then ''stellabill_cdc'' else cfg_PublicationName cfg),
        cfg_StandbyTimeout = (if cfg_StandbyTimeout cfg \<le> 0 then 10 * Second else cfg_StandbyTimeout cfg),
        cfg_MaxReconnectAttempts = cfg_MaxReconnectAttempts cfg,
        cfg_ReconnectBackoff = (if cfg_ReconnectBackoff cfg \<le> 0 then 1 * Second else cfg_ReconnectBackoff cfg)\<rparr>)"

text \<open>The sinks, the confirmed position, and the positions sent to the server, latest last.\<close>

record consumer =
  con_sinks :: "sink list"
  con_lastLSN :: nat
  con_standby :: "nat list"
  con_running :: bool

definition updateLSN :: "nat \<Rightarrow> consumer \<Rightarrow> consumer" where
  "updateLSN lsn c = (if con_lastLSN c < lsn then c\<lparr>con_lastLSN := lsn\<rparr> else c)"

definition sendStandbyStatusUpdate :: "consumer \<Rightarrow> consumer" where
  "sendStandbyStatusUpdate c =
     (if con_lastLSN c = 0 then c else c\<lparr>con_standby := con_standby c @ [con_lastLSN c]\<rparr>)"

text \<open>The inner loop over the sinks: every sink is offered the change.\<close>

fun write_sinks :: "sink list \<Rightarrow> stamped \<Rightarrow> sink list \<times> bool" where
  "write_sinks [] change = ([], True)"
| "write_sinks (s # ss) change =
     (let (s', err) = WriteChange s change; (ss', allSinksOK) = write_sinks ss change
      in (s' # ss', err = None \<and> allSinksOK))"

fun forward_changes :: "nat \<Rightarrow> Change list \<Rightarrow> consumer \<Rightarrow> consumer" where
  "forward_changes newLSN [] c = c"
| "forward_changes newLSN (ch # chs) c =
     (let (sinks, allSinksOK) = write_sinks (con_sinks c) (ch, newLSN);
          c1 = c\<lparr>con_sinks := sinks\<rparr>
      in forward_changes newLSN chs (if allSinksOK then updateLSN newLSN c1 else c1))"

text \<open>What \<^verbatim>\<open>ReceiveMessage\<close> returns, and how a stream ends.\<close>

datatype backend_msg = CopyData bytes | CopyDone | ErrorResponse | OtherMessage | Timeout | ReceiveFailed | CtxDone

datatype stream_end = StreamOpen | StreamDone | StreamFailed | StreamCancelled

text \<open>
  The decoder's result as the consumer uses it: the relations it now knows, and the changes with
  their LSN unless it reported an error.
\<close>

definition decode_frame :: "relations \<Rightarrow> bytes \<Rightarrow> relations \<times> (Change list \<times> nat) option" where
  "decode_frame rels data = (case decode rels data of
      Inl _ \<Rightarrow> (rels, None)
    | Inr (ws, Some _) \<Rightarrow> (ws_relations ws, None)
    | Inr (ws, None) \<Rightarrow> (ws_relations ws, Some (ws_changes ws, ws_maxLSN ws)))"

definition periodic :: "duration \<Rightarrow> time \<Rightarrow> time \<Rightarrow> consumer \<Rightarrow> consumer \<times> time" where
  "periodic standbyTimeout now deadline c =
     (if deadline < now then (sendStandbyStatusUpdate c, now + standbyTimeout) else (c, deadline))"

fun stream_loop :: "duration \<Rightarrow> (backend_msg \<times> time) list \<Rightarrow> relations \<Rightarrow> time \<Rightarrow> consumer \<Rightarrow> consumer \<times> stream_end" where
  "stream_loop st [] rels deadline c = (c, StreamOpen)"
| "stream_loop st ((m, now) # evs) rels deadline c =
     (case m of
        CtxDone \<Rightarrow> (c, StreamCancelled)
      | Timeout \<Rightarrow> stream_loop st evs rels (now + st) (sendStandbyStatusUpdate c)
      | ReceiveFailed \<Rightarrow> (c, StreamFailed)
      | CopyDone \<Rightarrow> (c, StreamDone)
      | ErrorResponse \<Rightarrow> (c, StreamFailed)
      | OtherMessage \<Rightarrow>
          (let (c', deadline') = periodic st now deadline c in stream_loop st evs rels deadline' c')
      | CopyData data \<Rightarrow>
          (case decode_frame rels data of
             (rels', None) \<Rightarrow> stream_loop st evs rels' deadline c
           | (rels', Some (changes, newLSN)) \<Rightarrow>
               (let (c', deadline') = periodic st now deadline (forward_changes newLSN changes c)
                in stream_loop st evs rels' deadline' c')))"

text \<open>One connection: what each step of setting it up returned, the clock, and its stream.\<close>

record connection =
  cn_connect :: bool
  cn_identify :: bool
  cn_create_slot :: bool
  cn_flush :: bool
  cn_copy_both :: bool
  cn_clock :: time
  cn_stream :: "(backend_msg \<times> time) list"

definition runReplication :: "ConsumerConfig \<Rightarrow> connection \<Rightarrow> consumer \<Rightarrow> consumer \<times> stream_end" where
  "runReplication cfg cn c =
     (if \<not> cn_connect cn then (c, StreamFailed)
      else if \<not> cn_identify cn then (c, StreamFailed)
      else if \<not> cn_flush cn then (c, StreamFailed)
      else if \<not> cn_copy_both cn then (c, StreamFailed)
      else stream_loop (cfg_StandbyTimeout cfg) (cn_stream cn) Map.empty
             (cn_clock cn + cfg_StandbyTimeout cfg) c)"

datatype loop_end = LoopOpen | LoopDone | LoopCancelled | LoopExceeded

definition reconnect_delay :: "ConsumerConfig \<Rightarrow> nat \<Rightarrow> duration" where
  "reconnect_delay cfg attempts =
     (let backoff = int attempts * cfg_ReconnectBackoff cfg
      in if 30 * Second < backoff then 30 * Second else backoff)"

text \<open>
  The connections of successive attempts, each with whether the context was cancelled before the
  attempt; the delays waited are collected.
\<close>

fun replicationLoop :: "ConsumerConfig \<Rightarrow> nat \<Rightarrow> (bool \<times> connection) list \<Rightarrow> consumer \<Rightarrow> consumer \<times> duration list \<times> loop_end" where
  "replicationLoop cfg attempts [] c = (c, [], LoopOpen)"
| "replicationLoop cfg attempts ((cancelled, cn) # cns) c =
     (if cancelled then (c, [], LoopCancelled)
      else case runReplication cfg cn c of
             (c', StreamOpen) \<Rightarrow> (c', [], LoopOpen)
           | (c', StreamDone) \<Rightarrow> (c', [], LoopDone)
           | (c', StreamCancelled) \<Rightarrow> (c', [], LoopCancelled)
           | (c', StreamFailed) \<Rightarrow>
               (let attempts' = attempts + 1
                in if 0 < cfg_MaxReconnectAttempts cfg \<and> cfg_MaxReconnectAttempts cfg \<le> int attempts'
                   then (c', [], LoopExceeded)
                   else let (c2, ds, e) = replicationLoop cfg attempts' cns c'
                        in (c2, reconnect_delay cfg attempts' # ds, e)))"

datatype start_result = AlreadyRunning | Ran loop_end

definition Consumer_Start :: "ConsumerConfig \<Rightarrow> (bool \<times> connection) list \<Rightarrow> consumer \<Rightarrow> consumer \<times> start_result" where
  "Consumer_Start cfg cns c =
     (if con_running c then (c, AlreadyRunning)
      else case replicationLoop cfg 0 cns (c\<lparr>con_running := True\<rparr>) of
             (c', _, LoopOpen) \<Rightarrow> (c', Ran LoopOpen)
           | (c', _, e) \<Rightarrow> (c'\<lparr>con_running := False, con_sinks := map CloseSink (con_sinks c')\<rparr>, Ran e))"

section \<open>What the sinks hold and what is confirmed\<close>

text \<open>
  The contract between the consumer and a sink: a successful write appends the change to what the
  sink has accepted, a failed one leaves that as it was.
\<close>

locale sink_contract =
  fixes put :: "'s \<Rightarrow> stamped \<Rightarrow> 's \<times> sink_error option"
    and taken :: "'s \<Rightarrow> stamped list"
  assumes put_ok: "put s ch = (s', None) \<Longrightarrow> taken s' = taken s @ [ch]"
    and put_fail: "put s ch = (s', Some e) \<Longrightarrow> taken s' = taken s"
begin

lemma taken_put: "taken (fst (put s ch)) = taken s @ (if snd (put s ch) = None then [ch] else [])"
  using put_ok [of s ch "fst (put s ch)"] put_fail [of s ch "fst (put s ch)"]
  by (cases "put s ch"; cases "snd (put s ch)") auto

lemma taken_keeps: "set (taken s) \<subseteq> set (taken (fst (put s ch)))"
  unfolding taken_put by simp

end

interpretation mem: sink_contract MemorySink_WriteChange mem_changes
  by unfold_locales (auto simp: MemorySink_WriteChange_def split: if_splits)

interpretation kafka: sink_contract KafkaSink_WriteChange "\<lambda>s. map msg_Value (kafka_written s)"
  by unfold_locales
     (auto simp: KafkaSink_WriteChange_def Let_def split: if_splits prod.splits list.splits bool.splits)

interpretation any_sink: sink_contract WriteChange accepted
proof
  fix s ch s'
  assume "WriteChange s ch = (s', None)"
  then show "accepted s' = accepted s @ [ch]"
    by (cases s) (auto split: prod.splits dest: mem.put_ok kafka.put_ok)
next
  fix s ch s' e
  assume "WriteChange s ch = (s', Some e)"
  then show "accepted s' = accepted s"
    by (cases s) (auto split: prod.splits dest: mem.put_fail kafka.put_fail)
qed

lemma write_sinks_all:
  assumes "write_sinks ss ch = (ss', True)" "s \<in> set ss'"
  shows "ch \<in> set (accepted s)"
  using assms
proof (induction ss arbitrary: ss')
  case (Cons a ss)
  obtain a' e where a: "WriteChange a ch = (a', e)"
    by (rule prod.exhaust)
  obtain r ok where r: "write_sinks ss ch = (r, ok)"
    by (rule prod.exhaust)
  have "e = None" "ok" "ss' = a' # r"
    using Cons.prems(1) by (auto simp: a r)
  then show ?case
    using Cons any_sink.put_ok [of a ch a'] a r by auto
qed simp

lemma write_sinks_keep:
  assumes "\<forall>s \<in> set ss. x \<in> set (accepted s)"
  shows "\<forall>s \<in> set (fst (write_sinks ss ch)). x \<in> set (accepted s)"
  using assms
proof (induction ss)
  case (Cons a ss)
  have "x \<in> set (accepted (fst (WriteChange a ch)))"
    using Cons.prems any_sink.taken_keeps [of a ch] by auto
  then show ?case
    using Cons by (auto split: prod.split)
qed simp

text \<open>A position is backed when one change stamped with it is in every sink.\<close>

definition backed :: "sink list \<Rightarrow> nat \<Rightarrow> bool" where
  "backed ss lsn \<longleftrightarrow> (\<exists>ch. \<forall>s \<in> set ss. (ch, lsn) \<in> set (accepted s))"

definition consumer_inv :: "consumer \<Rightarrow> bool" where
  "consumer_inv c \<longleftrightarrow> sorted (con_standby c)
     \<and> (\<forall>lsn \<in> set (con_standby c). lsn \<le> con_lastLSN c \<and> backed (con_sinks c) lsn)
     \<and> (con_lastLSN c = 0 \<or> backed (con_sinks c) (con_lastLSN c))"

lemma backed_write: "backed ss lsn \<Longrightarrow> backed (fst (write_sinks ss ch)) lsn"
  unfolding backed_def using write_sinks_keep by meson

lemma backed_close: "backed ss lsn \<Longrightarrow> backed (map CloseSink ss) lsn"
proof -
  have "accepted (CloseSink s) = accepted s" for s
    by (cases s) (simp_all add: MemorySink_Close_def KafkaSink_Close_def)
  then show "backed ss lsn \<Longrightarrow> backed (map CloseSink ss) lsn"
    unfolding backed_def by auto
qed

lemma consumer_inv_write:
  assumes "consumer_inv c"
  shows "consumer_inv (c\<lparr>con_sinks := fst (write_sinks (con_sinks c) ch)\<rparr>)"
  using assms by (auto simp: consumer_inv_def backed_write)

lemma consumer_inv_update:
  assumes "consumer_inv c" "backed (con_sinks c) lsn"
  shows "consumer_inv (updateLSN lsn c)"
  using assms by (auto simp: consumer_inv_def updateLSN_def intro: order_trans less_imp_le)

lemma consumer_inv_standby: "consumer_inv c \<Longrightarrow> consumer_inv (sendStandbyStatusUpdate c)"
  by (auto simp: consumer_inv_def sendStandbyStatusUpdate_def sorted_append)

lemma consumer_inv_forward: "consumer_inv c \<Longrightarrow> consumer_inv (forward_changes lsn chs c)"
proof (induction chs arbitrary: c)
  case (Cons ch chs)
  obtain ss ok where w: "write_sinks (con_sinks c) (ch, lsn) = (ss, ok)"
    by (rule prod.exhaust)
  have inv: "consumer_inv (c\<lparr>con_sinks := ss\<rparr>)"
    using consumer_inv_write [OF Cons.prems, of "(ch, lsn)"] w by simp
  moreover have "backed ss lsn" if ok
    using write_sinks_all [of "con_sinks c" "(ch, lsn)" ss] w that unfolding backed_def by auto
  ultimately have "consumer_inv (if ok then updateLSN lsn (c\<lparr>con_sinks := ss\<rparr>) else c\<lparr>con_sinks := ss\<rparr>)"
    by (simp add: consumer_inv_update)
  then show ?case
    using Cons.IH w by (simp add: Let_def)
qed simp

lemma consumer_inv_periodic: "consumer_inv c \<Longrightarrow> consumer_inv (fst (periodic st now dl c))"
  by (simp add: periodic_def consumer_inv_standby)

lemma consumer_inv_stream: "consumer_inv c \<Longrightarrow> consumer_inv (fst (stream_loop st evs rels dl c))"
proof (induction evs arbitrary: rels dl c)
  case (Cons ev evs)
  obtain m now where ev: "ev = (m, now)"
    by (rule prod.exhaust)
  show ?case
  proof (cases m)
    case (CopyData data)
    obtain rels' r where d: "decode_frame rels data = (rels', r)"
      by (rule prod.exhaust)
    show ?thesis
    proof (cases r)
      case None
      then show ?thesis
        using Cons ev CopyData d by simp
    next
      case (Some cl)
      obtain chs lsn where cl: "cl = (chs, lsn)"
        by (rule prod.exhaust)
      have "consumer_inv (fst (periodic st now dl (forward_changes lsn chs c)))"
        using Cons.prems by (simp add: consumer_inv_periodic consumer_inv_forward)
      then show ?thesis
        using Cons.IH Some ev CopyData d cl by (simp add: case_prod_beta)
    qed
  next
    case OtherMessage
    have "consumer_inv (fst (periodic st now dl c))"
      using Cons.prems by (rule consumer_inv_periodic)
    then show ?thesis
      using Cons.IH ev OtherMessage by (simp add: case_prod_beta)
  next
    case Timeout
    then show ?thesis
      using Cons ev by (simp add: consumer_inv_standby)
  qed (use Cons.prems ev in simp_all)
qed simp

lemma consumer_inv_run: "consumer_inv c \<Longrightarrow> consumer_inv (fst (runReplication cfg cn c))"
  by (simp add: runReplication_def consumer_inv_stream)

lemma consumer_inv_loop: "consumer_inv c \<Longrightarrow> consumer_inv (fst (replicationLoop cfg n cns c))"
proof (induction cns arbitrary: n c)
  case (Cons a cns)
  obtain cancelled cn where a: "a = (cancelled, cn)"
    by (rule prod.exhaust)
  obtain c' e where r: "runReplication cfg cn c = (c', e)"
    by (rule prod.exhaust)
  have "consumer_inv c'"
    using consumer_inv_run [OF Cons.prems, of cfg cn] r by simp
  then show ?case
    using Cons a r by (cases e) (simp_all add: Let_def case_prod_beta)
qed simp

text \<open>
  C21: Whatever the server, the connections and the sinks do, the positions the consumer confirms to
  the server never go back, and each of them is the position of a change that every sink has accepted.
\<close>

theorem confirmed_lsn_is_delivered:
  assumes "consumer_inv c" "Consumer_Start cfg cns c = (c', r)"
  shows "sorted (con_standby c')
    \<and> (\<forall>lsn \<in> set (con_standby c'). \<exists>ch. \<forall>s \<in> set (con_sinks c'). (ch, lsn) \<in> set (accepted s))"
proof -
  have "consumer_inv (c\<lparr>con_running := True\<rparr>)"
    using assms(1) by (simp add: consumer_inv_def)
  then have inv: "consumer_inv (fst (replicationLoop cfg 0 cns (c\<lparr>con_running := True\<rparr>)))"
    by (rule consumer_inv_loop)
  obtain c1 ds e where l: "replicationLoop cfg 0 cns (c\<lparr>con_running := True\<rparr>) = (c1, ds, e)"
    by (rule prod_cases3)
  have closed: "consumer_inv (c1\<lparr>con_running := False, con_sinks := map CloseSink (con_sinks c1)\<rparr>)"
    using inv l by (auto simp: consumer_inv_def backed_close)
  have "consumer_inv c'"
    using assms inv l closed by (cases e) (auto simp: Consumer_Start_def split: if_splits)
  then show ?thesis
    unfolding consumer_inv_def backed_def by blast
qed

definition sample_consumer :: consumer where
  "sample_consumer = \<lparr>con_sinks = [Stdout []], con_lastLSN = 0, con_standby = [], con_running = False\<rparr>"

definition sample_frame :: bytes where
  "sample_frame = 119 # be_bytes 8 9 @ replicate 16 0 @ concat (map enc_msg sample_msgs)"

definition sample_change :: Change where
  "sample_change = \<lparr>ch_Schema = [112], ch_Table = [116], ch_Op = OpInsert, ch_Before = None,
     ch_After = Some [([105], Some [65])]\<rparr>"

lemma sample_frame_decoded: "decode_frame Map.empty sample_frame = ([7 \<mapsto> sample_rel], Some ([sample_change], 12))"
proof -
  have "msgs_ok Map.empty sample_msgs"
    by (simp add: sample_msgs_def sample_rel_def nul_free_def known_ok_def vals_ok_def)
  then have "decode Map.empty sample_frame = Inr (finish_batch 9
      (fold msg_effect sample_msgs \<lparr>ws_relations = Map.empty, ws_changes = [], ws_maxLSN = 0\<rparr>), None)"
    unfolding sample_frame_def by (rule decode_encoded) simp_all
  then show ?thesis
    by (simp add: decode_frame_def finish_batch_def sample_msgs_def add_change_def change_of_def row_of_def
        sample_rel_def sample_change_def)
qed

definition sample_connection :: connection where
  "sample_connection = \<lparr>cn_connect = True, cn_identify = True, cn_create_slot = False, cn_flush = True,
     cn_copy_both = True, cn_clock = 0, cn_stream = [(CopyData sample_frame, 1), (Timeout, 2), (CopyDone, 3)]\<rparr>"

definition sample_config :: ConsumerConfig where
  "sample_config = \<lparr>cfg_ConnString = ''db'', cfg_SlotName = ''s'', cfg_PublicationName = ''p'',
     cfg_StandbyTimeout = 10, cfg_MaxReconnectAttempts = 3, cfg_ReconnectBackoff = 1\<rparr>"

lemma sample_run:
  "Consumer_Start sample_config [(False, sample_connection)] sample_consumer
    = (\<lparr>con_sinks = [Stdout [(sample_change, 12)]], con_lastLSN = 12, con_standby = [12], con_running = False\<rparr>,
       Ran LoopDone)"
  by (simp add: Consumer_Start_def sample_config_def sample_connection_def sample_consumer_def runReplication_def
      sample_frame_decoded periodic_def updateLSN_def sendStandbyStatusUpdate_def)

theorem confirmed_lsn_is_delivered_witness:
  "con_standby (fst (Consumer_Start sample_config [(False, sample_connection)] sample_consumer)) = [12]
   \<and> (\<exists>ch. (ch, 12) \<in> set (accepted (Stdout [(sample_change, 12)])))"
proof -
  have "consumer_inv sample_consumer"
    by (simp add: consumer_inv_def sample_consumer_def)
  from confirmed_lsn_is_delivered [OF this sample_run] show ?thesis
    unfolding sample_run by simp
qed

section \<open>Healthy sinks\<close>

fun healthy :: "sink \<Rightarrow> bool" where
  "healthy (Memory s) = (\<not> mem_closed s)"
| "healthy (Kafka s) = (\<not> kafka_closed s \<and> list_all (\<lambda>ok. ok) (kafka_outcomes s))"
| "healthy (Stdout _) = True"

lemma healthy_write:
  assumes "healthy s"
  shows "snd (WriteChange s ch) = None" "healthy (fst (WriteChange s ch))"
  using assms
  by (cases s; auto simp: MemorySink_WriteChange_def KafkaSink_WriteChange_def Let_def
      split: prod.splits list.splits bool.splits)+

lemma write_healthy_sinks:
  assumes "list_all healthy ss"
  shows "snd (write_sinks ss ch)" "list_all healthy (fst (write_sinks ss ch))"
    "map accepted (fst (write_sinks ss ch)) = map (\<lambda>s. accepted s @ [ch]) ss"
  using assms
  by (induction ss) (simp_all add: case_prod_beta healthy_write any_sink.taken_put)

lemma forward_healthy:
  assumes "list_all healthy (con_sinks c)"
  shows "list_all healthy (con_sinks (forward_changes lsn chs c))
    \<and> map accepted (con_sinks (forward_changes lsn chs c))
      = map (\<lambda>s. accepted s @ map (\<lambda>ch. (ch, lsn)) chs) (con_sinks c)"
  using assms
proof (induction chs arbitrary: c)
  case (Cons ch chs)
  let ?w = "write_sinks (con_sinks c) (ch, lsn)"
  let ?c = "updateLSN lsn (c\<lparr>con_sinks := fst ?w\<rparr>)"
  have step: "forward_changes lsn (ch # chs) c = forward_changes lsn chs ?c"
    using write_healthy_sinks(1) [OF Cons.prems] by (simp add: case_prod_beta Let_def)
  have sinks: "con_sinks ?c = fst ?w"
    by (simp add: updateLSN_def)
  then have h: "list_all healthy (con_sinks ?c)"
    using write_healthy_sinks(2) [OF Cons.prems] by simp
  have "map (\<lambda>s. accepted s @ xs) (fst ?w) = map (\<lambda>a. a @ xs) (map accepted (fst ?w))" for xs
    by simp
  then have "map (\<lambda>s. accepted s @ map (\<lambda>ch. (ch, lsn)) chs) (con_sinks ?c)
      = map (\<lambda>s. accepted s @ map (\<lambda>ch. (ch, lsn)) (ch # chs)) (con_sinks c)"
    unfolding sinks using write_healthy_sinks(3) [OF Cons.prems] by simp
  then show ?case
    unfolding step using Cons.IH [OF h] by simp
qed simp

lemma same_sinks:
  "con_sinks (sendStandbyStatusUpdate c) = con_sinks c" "con_sinks (fst (periodic st now dl c)) = con_sinks c"
  by (simp_all add: sendStandbyStatusUpdate_def periodic_def)

text \<open>The changes of the frames of a stream, up to where the consumer leaves it.\<close>

fun stream_changes :: "relations \<Rightarrow> (backend_msg \<times> time) list \<Rightarrow> stamped list" where
  "stream_changes rels [] = []"
| "stream_changes rels ((m, now) # evs) = (case m of
      CopyData data \<Rightarrow> (case snd (decode_frame rels data) of None \<Rightarrow> []
          | Some (chs, lsn) \<Rightarrow> map (\<lambda>ch. (ch, lsn)) chs) @ stream_changes (fst (decode_frame rels data)) evs
    | OtherMessage \<Rightarrow> stream_changes rels evs
    | Timeout \<Rightarrow> stream_changes rels evs
    | _ \<Rightarrow> [])"

text \<open>
  While no sink fails, every sink receives exactly the changes of the decoded frames of the
  stream, in commit order, each stamped with the position of its frame, whatever the order of
  frames, timeouts and other messages.
\<close>

theorem sinks_receive_stream:
  assumes "list_all healthy (con_sinks c)"
  shows "map accepted (con_sinks (fst (stream_loop st evs rels dl c)))
    = map (\<lambda>s. accepted s @ stream_changes rels evs) (con_sinks c)"
  using assms
proof (induction evs arbitrary: rels dl c)
  case (Cons ev evs)
  obtain m now where ev: "ev = (m, now)"
    by (rule prod.exhaust)
  show ?case
  proof (cases m)
    case (CopyData data)
    obtain rels' r where d: "decode_frame rels data = (rels', r)"
      by (rule prod.exhaust)
    show ?thesis
    proof (cases r)
      case None
      then show ?thesis
        using Cons ev CopyData d by simp
    next
      case (Some cl)
      obtain chs lsn where cl: "cl = (chs, lsn)"
        by (rule prod.exhaust)
      let ?c = "forward_changes lsn chs c"
      let ?p = "periodic st now dl ?c"
      have h: "list_all healthy (con_sinks (fst ?p))"
        using forward_healthy [OF Cons.prems] by (simp add: same_sinks)
      have "map (\<lambda>s. accepted s @ xs) (con_sinks ?c) = map (\<lambda>a. a @ xs) (map accepted (con_sinks ?c))" for xs
        by simp
      then have "map (\<lambda>s. accepted s @ stream_changes rels' evs) (con_sinks (fst ?p))
          = map (\<lambda>s. accepted s @ stream_changes rels (ev # evs)) (con_sinks c)"
        using forward_healthy [OF Cons.prems, of lsn chs] ev CopyData d cl Some by (simp add: same_sinks)
      then show ?thesis
        using Cons.IH [OF h, of rels' "snd ?p"] Some ev CopyData d cl by (simp add: case_prod_beta)
    qed
  next
    case OtherMessage
    then show ?thesis
      using Cons ev by (simp add: case_prod_beta same_sinks)
  next
    case Timeout
    then show ?thesis
      using Cons ev by (simp add: same_sinks)
  qed (use ev in simp_all)
qed simp

theorem sinks_receive_stream_witness:
  "map accepted (con_sinks (fst (stream_loop 10 [(CopyData sample_frame, 1), (CopyDone, 3)] Map.empty 10 sample_consumer)))
    = [[(sample_change, 12)]]"
  by (subst sinks_receive_stream) (simp_all add: sample_consumer_def sample_frame_decoded)

section \<open>A failed write inside a frame\<close>

text \<open>
  When a sink fails on one change of a frame and accepts the next change of the same frame, the
  position of the frame is confirmed although the first change is in no sink that failed.
\<close>

theorem failed_change_is_confirmed:
  assumes "con_sinks c = [s]" "con_lastLSN c < lsn"
    and "WriteChange s (ch1, lsn) = (s1, Some e)" "WriteChange s1 (ch2, lsn) = (s2, None)"
  shows "con_lastLSN (forward_changes lsn [ch1, ch2] c) = lsn
    \<and> map accepted (con_sinks (forward_changes lsn [ch1, ch2] c)) = [accepted s @ [(ch2, lsn)]]"
  using assms any_sink.put_fail [OF assms(3)] any_sink.put_ok [OF assms(4)]
  by (simp add: Let_def updateLSN_def)

definition flaky_kafka :: sink where
  "flaky_kafka = Kafka \<lparr>kafka_topicPref = [115], kafka_outcomes = [False], kafka_written = [],
     kafka_closed = False, kafka_writer_closed = False\<rparr>"

theorem failed_change_is_confirmed_witness:
  "con_lastLSN (forward_changes 12 [sample_change, sample_change\<lparr>ch_Op := OpDelete\<rparr>]
      (sample_consumer\<lparr>con_sinks := [flaky_kafka]\<rparr>)) = 12
   \<and> map accepted (con_sinks (forward_changes 12 [sample_change, sample_change\<lparr>ch_Op := OpDelete\<rparr>]
      (sample_consumer\<lparr>con_sinks := [flaky_kafka]\<rparr>))) = [[(sample_change\<lparr>ch_Op := OpDelete\<rparr>, 12)]]"
proof -
  let ?s1 = "fst (WriteChange flaky_kafka (sample_change, 12))"
  have w1: "WriteChange flaky_kafka (sample_change, 12) = (?s1, Some KafkaWrite)"
    by (simp add: flaky_kafka_def KafkaSink_WriteChange_def)
  have w2: "WriteChange ?s1 (sample_change\<lparr>ch_Op := OpDelete\<rparr>, 12)
      = (fst (WriteChange ?s1 (sample_change\<lparr>ch_Op := OpDelete\<rparr>, 12)), None)"
    by (simp add: flaky_kafka_def KafkaSink_WriteChange_def)
  have "accepted flaky_kafka = []"
    by (simp add: flaky_kafka_def)
  then show ?thesis
    using failed_change_is_confirmed [OF _ _ w1 w2, of "sample_consumer\<lparr>con_sinks := [flaky_kafka]\<rparr>"]
    by (simp add: sample_consumer_def)
qed

end
