(* ===== verification/DB_Breaker.thy ===== *)
theory DB_Breaker
  imports Prelude
begin

text \<open>
  The circuit breaker around the connection pool (\<^verbatim>\<open>internal/db/breaker.go\<close>).  The breaker itself
  (\<^verbatim>\<open>gobreaker\<close>) and the driver (\<^verbatim>\<open>pgx\<close>) are not part of the repository: the breaker is a pair of
  functions, what it decides before a request and what it records after one, and the driver's
  calls are functions on the state of the database.
\<close>

section \<open>The breaker\<close>

datatype gb_error = ErrOpenState | ErrTooManyRequests

text \<open>\<^verbatim>\<open>BreakerBefore\<close> admits or rejects a request, \<^verbatim>\<open>BreakerAfter\<close> records its success.\<close>

record 'b gobreaker =
  BreakerBefore :: "'b \<Rightarrow> 'b \<times> gb_error option"
  BreakerAfter :: "'b \<Rightarrow> bool \<Rightarrow> 'b"

record breaker_settings =
  set_MaxRequests :: nat
  set_Interval :: duration
  set_Timeout :: duration
  set_ReadyToTrip :: "nat \<Rightarrow> bool"

definition DefaultDBBreakerMaxFailures :: nat where "DefaultDBBreakerMaxFailures = 5"

definition DefaultDBBreakerTimeoutSeconds :: nat where "DefaultDBBreakerTimeoutSeconds = 30"

definition DefaultDBBreakerHalfOpenMaxRequests :: nat where "DefaultDBBreakerHalfOpenMaxRequests = 1"

definition NewBreakerPool :: "nat \<Rightarrow> nat \<Rightarrow> nat \<Rightarrow> breaker_settings" where
  "NewBreakerPool maxFailures0 timeoutSeconds0 halfOpen0 =
     (let maxFailures = (if maxFailures0 = 0 then DefaultDBBreakerMaxFailures else maxFailures0);
          timeoutSeconds = (if timeoutSeconds0 = 0 then DefaultDBBreakerTimeoutSeconds else timeoutSeconds0);
          halfOpen = (if halfOpen0 = 0 then DefaultDBBreakerHalfOpenMaxRequests else halfOpen0)
      in \<lparr>set_MaxRequests = halfOpen, set_Interval = 0, set_Timeout = int timeoutSeconds * Second,
          set_ReadyToTrip = (\<lambda>consecutiveFailures. maxFailures \<le> consecutiveFailures)\<rparr>)"

datatype 'e db_error = Driver 'e | Rejected gb_error | CircuitOpen | NotInitialized

text \<open>A call on the database, and the state of the breaker and of the database together.\<close>

type_synonym ('w, 'e, 'a) call = "'w \<Rightarrow> 'w \<times> ('e, 'a) result"

type_synonym ('b, 'w, 'e, 'a) guarded = "'b \<times> 'w \<Rightarrow> ('b \<times> 'w) \<times> ('e db_error, 'a) result"

text \<open>\<^verbatim>\<open>CircuitBreaker.Execute\<close>: a rejected request returns its error at once and is not run.\<close>

definition Breaker_Execute :: "'b gobreaker \<Rightarrow> ('w, 'e, 'a) call \<Rightarrow> ('b, 'w, 'e, 'a) guarded" where
  "Breaker_Execute gb fn s =
     (case BreakerBefore gb (fst s) of
        (b, Some e) \<Rightarrow> ((b, snd s), Inl (Rejected e))
      | (b, None) \<Rightarrow>
          (case fn (snd s) of
             (w, Inl e) \<Rightarrow> ((BreakerAfter gb b False, w), Inl (Driver e))
           | (w, Inr a) \<Rightarrow> ((BreakerAfter gb b True, w), Inr a)))"

section \<open>The pool\<close>

record ('w, 'e, 'rows, 'tag, 'tx, 'conn) pool_api =
  pool_Ping :: "('w, 'e, unit) call"
  pool_Query :: "string \<Rightarrow> ('w, 'e, 'rows) call"
  pool_Exec :: "string \<Rightarrow> ('w, 'e, 'tag) call"
  pool_Begin :: "('w, 'e, 'tx) call"
  pool_Acquire :: "('w, 'e, 'conn) call"

definition open_error :: "'e db_error \<Rightarrow> 'e db_error" where
  "open_error e = (if e = Rejected ErrOpenState then CircuitOpen else e)"

definition execute :: "'b gobreaker option \<Rightarrow> ('w, 'e, unit) call \<Rightarrow> ('b, 'w, 'e, unit) guarded" where
  "execute breaker fn s = (case breaker of
      None \<Rightarrow> (s, Inl NotInitialized)
    | Some gb \<Rightarrow> (case Breaker_Execute gb fn s of
        (s', Inl e) \<Rightarrow> (s', Inl (open_error e))
      | (s', Inr u) \<Rightarrow> (s', Inr u)))"

definition PingContext :: "'b gobreaker option \<Rightarrow> ('w, 'e, 'rows, 'tag, 'tx, 'conn) pool_api \<Rightarrow> ('b, 'w, 'e, unit) guarded" where
  "PingContext breaker pool = execute breaker (pool_Ping pool)"

definition Ping :: "'b gobreaker \<Rightarrow> ('w, 'e, 'rows, 'tag, 'tx, 'conn) pool_api \<Rightarrow> ('b, 'w, 'e, unit) guarded" where
  "Ping gb pool s = (case Breaker_Execute gb (pool_Ping pool) s of
      (s', Inl e) \<Rightarrow> (s', Inl (open_error e))
    | (s', Inr u) \<Rightarrow> (s', Inr u))"

definition Query :: "'b gobreaker \<Rightarrow> ('w, 'e, 'rows, 'tag, 'tx, 'conn) pool_api \<Rightarrow> string \<Rightarrow> ('b, 'w, 'e, 'rows) guarded" where
  "Query gb pool sql = Breaker_Execute gb (pool_Query pool sql)"

definition Exec :: "'b gobreaker \<Rightarrow> ('w, 'e, 'rows, 'tag, 'tx, 'conn) pool_api \<Rightarrow> string \<Rightarrow> ('b, 'w, 'e, 'tag) guarded" where
  "Exec gb pool sql = Breaker_Execute gb (pool_Exec pool sql)"

definition Begin :: "'b gobreaker \<Rightarrow> ('w, 'e, 'rows, 'tag, 'tx, 'conn) pool_api \<Rightarrow> ('b, 'w, 'e, 'tx) guarded" where
  "Begin gb pool = Breaker_Execute gb (pool_Begin pool)"

definition Acquire :: "'b gobreaker \<Rightarrow> ('w, 'e, 'rows, 'tag, 'tx, 'conn) pool_api \<Rightarrow> ('b, 'w, 'e, 'conn) guarded" where
  "Acquire gb pool = Breaker_Execute gb (pool_Acquire pool)"

section \<open>Transactions and rows\<close>

text \<open>
  Most methods of \<^verbatim>\<open>breakerTx\<close> and \<^verbatim>\<open>breakerRow.Scan\<close> discard what \<^verbatim>\<open>Execute\<close> returns and report a
  variable the request assigns; \<open>captured\<close> is that variable, \<open>None\<close> when the request did not run.
  \<open>report\<close> says what error the request hands to the breaker.
\<close>

definition captured ::
    "'b gobreaker \<Rightarrow> ('e \<Rightarrow> bool) \<Rightarrow> ('w, 'e, 'a) call \<Rightarrow> 'b \<times> 'w \<Rightarrow> ('b \<times> 'w) \<times> ('e, 'a) result option" where
  "captured gb forgiven fn s =
     (case BreakerBefore gb (fst s) of
        (b, Some e) \<Rightarrow> ((b, snd s), None)
      | (b, None) \<Rightarrow>
          (case fn (snd s) of
             (w, Inl e) \<Rightarrow> ((BreakerAfter gb b (forgiven e), w), Some (Inl e))
           | (w, Inr a) \<Rightarrow> ((BreakerAfter gb b True, w), Some (Inr a))))"

definition never_forgiven :: "'e \<Rightarrow> bool" where
  "never_forgiven e = False"

record ('w, 'e, 'rows, 'tag, 'tx, 'stmt) tx_api =
  tx_Begin :: "('w, 'e, 'tx) call"
  tx_Commit :: "('w, 'e, unit) call"
  tx_Rollback :: "('w, 'e, unit) call"
  tx_Query :: "string \<Rightarrow> ('w, 'e, 'rows) call"
  tx_Exec :: "string \<Rightarrow> ('w, 'e, 'tag) call"
  tx_Prepare :: "string \<Rightarrow> string \<Rightarrow> ('w, 'e, 'stmt) call"
  tx_CopyFrom :: "string \<Rightarrow> ('w, 'e, int) call"

text \<open>A row's values are \<open>None\<close> when \<^verbatim>\<open>Scan\<close> leaves its destinations as they were.\<close>

definition Scan :: "'b gobreaker \<Rightarrow> ('w, 'e, 'vals) call \<Rightarrow> 'b \<times> 'w \<Rightarrow> ('b \<times> 'w) \<times> ('e, 'vals option) result" where
  "Scan gb scan_row s = (case captured gb never_forgiven scan_row s of
      (s', None) \<Rightarrow> (s', Inr None)
    | (s', Some (Inl e)) \<Rightarrow> (s', Inl e)
    | (s', Some (Inr v)) \<Rightarrow> (s', Inr (Some v)))"

text \<open>The nested transaction is \<open>None\<close> when the wrapper holds a nil transaction.\<close>

definition breakerTx_Begin ::
    "'b gobreaker \<Rightarrow> ('w, 'e, 'rows, 'tag, 'tx, 'stmt) tx_api \<Rightarrow> 'b \<times> 'w \<Rightarrow> ('b \<times> 'w) \<times> ('e, 'tx option) result" where
  "breakerTx_Begin gb tx s = (case captured gb never_forgiven (tx_Begin tx) s of
      (s', None) \<Rightarrow> (s', Inr None)
    | (s', Some (Inl e)) \<Rightarrow> (s', Inl e)
    | (s', Some (Inr t)) \<Rightarrow> (s', Inr (Some t)))"

definition Commit ::
    "'b gobreaker \<Rightarrow> ('w, 'e, 'rows, 'tag, 'tx, 'stmt) tx_api \<Rightarrow> 'b \<times> 'w \<Rightarrow> ('b \<times> 'w) \<times> ('e, unit) result" where
  "Commit gb tx s = (case captured gb never_forgiven (tx_Commit tx) s of
      (s', None) \<Rightarrow> (s', Inr ())
    | (s', Some r) \<Rightarrow> (s', r))"

definition Rollback ::
    "'b gobreaker \<Rightarrow> ('e \<Rightarrow> bool) \<Rightarrow> ('w, 'e, 'rows, 'tag, 'tx, 'stmt) tx_api \<Rightarrow> 'b \<times> 'w \<Rightarrow> ('b \<times> 'w) \<times> ('e, unit) result" where
  "Rollback gb isTxClosed tx s = (case captured gb isTxClosed (tx_Rollback tx) s of
      (s', None) \<Rightarrow> (s', Inr ())
    | (s', Some r) \<Rightarrow> (s', r))"

definition breakerTx_Query ::
    "'b gobreaker \<Rightarrow> ('w, 'e, 'rows, 'tag, 'tx, 'stmt) tx_api \<Rightarrow> string \<Rightarrow> ('b, 'w, 'e, 'rows) guarded" where
  "breakerTx_Query gb tx sql = Breaker_Execute gb (tx_Query tx sql)"

definition breakerTx_Exec ::
    "'b gobreaker \<Rightarrow> ('w, 'e, 'rows, 'tag, 'tx, 'stmt) tx_api \<Rightarrow> string \<Rightarrow> ('b, 'w, 'e, 'tag) guarded" where
  "breakerTx_Exec gb tx sql = Breaker_Execute gb (tx_Exec tx sql)"

definition Prepare ::
    "'b gobreaker \<Rightarrow> ('w, 'e, 'rows, 'tag, 'tx, 'stmt) tx_api \<Rightarrow> string \<Rightarrow> string \<Rightarrow> 'b \<times> 'w \<Rightarrow> ('b \<times> 'w) \<times> ('e, 'stmt option) result" where
  "Prepare gb tx name sql s = (case captured gb never_forgiven (tx_Prepare tx name sql) s of
      (s', None) \<Rightarrow> (s', Inr None)
    | (s', Some (Inl e)) \<Rightarrow> (s', Inl e)
    | (s', Some (Inr st)) \<Rightarrow> (s', Inr (Some st)))"

definition CopyFrom ::
    "'b gobreaker \<Rightarrow> ('w, 'e, 'rows, 'tag, 'tx, 'stmt) tx_api \<Rightarrow> string \<Rightarrow> 'b \<times> 'w \<Rightarrow> ('b \<times> 'w) \<times> ('e, int) result" where
  "CopyFrom gb tx tbl s = (case captured gb never_forgiven (tx_CopyFrom tx tbl) s of
      (s', None) \<Rightarrow> (s', Inr 0)
    | (s', Some r) \<Rightarrow> (s', r))"

section \<open>Properties\<close>

text \<open>What a breaker guards: a rejected call does not reach the database and returns an error.\<close>

locale guarded_call =
  fixes gb :: "'b gobreaker"
    and op :: "('w, 'e, 'a) call \<Rightarrow> ('b, 'w, 'e, 'a) guarded"
  assumes rejected: "BreakerBefore gb b = (b', Some e) \<Longrightarrow> \<exists>err. op fn (b, w) = ((b', w), Inl err)"
    and admitted_ok: "\<lbrakk>BreakerBefore gb b = (b', None); fn w = (w', Inr a)\<rbrakk>
      \<Longrightarrow> op fn (b, w) = ((BreakerAfter gb b' True, w'), Inr a)"
    and admitted_err: "\<lbrakk>BreakerBefore gb b = (b', None); fn w = (w', Inl d)\<rbrakk>
      \<Longrightarrow> op fn (b, w) = ((BreakerAfter gb b' False, w'), Inl (Driver d))"

text \<open>
  An operation is honest about a call on the database when a success it reports is the result of
  the call, and an error is either the call's or comes with the database as it was.
\<close>

definition honest :: "'b gobreaker \<Rightarrow> ('w, 'e, 'a) call \<Rightarrow> ('b, 'w, 'e, 'a) guarded \<Rightarrow> bool" where
  "honest gb fn g \<longleftrightarrow> (\<forall>b w. case g (b, w) of
      ((b1, w1), Inr a) \<Rightarrow> fn w = (w1, Inr a)
    | ((b1, w1), Inl err) \<Rightarrow> (\<exists>d. err = Driver d \<and> fn w = (w1, Inl d)) \<or> w1 = w \<and> snd (BreakerBefore gb b) \<noteq> None)"

context guarded_call
begin

lemma is_honest: "honest gb fn (op fn)"
  unfolding honest_def
proof (intro allI)
  fix b w
  obtain b' adm where bb: "BreakerBefore gb b = (b', adm)"
    by (rule prod.exhaust)
  obtain w' res where fn: "fn w = (w', res)"
    by (rule prod.exhaust)
  show "case op fn (b, w) of
      ((b1, w1), Inr a) \<Rightarrow> fn w = (w1, Inr a)
    | ((b1, w1), Inl err) \<Rightarrow> (\<exists>d. err = Driver d \<and> fn w = (w1, Inl d)) \<or> w1 = w \<and> snd (BreakerBefore gb b) \<noteq> None"
  proof (cases adm)
    case None
    then show ?thesis
      using admitted_ok [of b b' fn w w'] admitted_err [of b b' fn w w'] bb fn by (cases res) simp_all
  next
    case (Some e)
    then obtain err where "op fn (b, w) = ((b', w), Inl err)"
      using rejected bb by blast
    then show ?thesis
      using Some bb by simp
  qed
qed

end

interpretation exec: guarded_call gb "Breaker_Execute gb" for gb
  by unfold_locales (auto simp: Breaker_Execute_def)

interpretation pinged: guarded_call gb "execute (Some gb)" for gb
  by unfold_locales (auto simp: execute_def Breaker_Execute_def open_error_def)


text \<open>
  While the breaker rejects requests, committing a transaction reports success although the
  commit never reaches the database, a scan reports success without values, and a copy reports
  zero rows.
\<close>

theorem rejected_commit_reports_success:
  assumes "BreakerBefore gb b = (b', Some e)"
  shows "Commit gb tx (b, w) = ((b', w), Inr ())
    \<and> Scan gb scan_row (b, w) = ((b', w), Inr None)
    \<and> CopyFrom gb tx tbl (b, w) = ((b', w), Inr 0)"
  using assms by (simp add: Commit_def Scan_def CopyFrom_def captured_def)

text \<open>A breaker that opens after one failure, over a database of committed rows.\<close>

definition one_shot :: "bool gobreaker" where
  "one_shot = \<lparr>BreakerBefore = (\<lambda>opened. (opened, if opened then Some ErrOpenState else None)),
     BreakerAfter = (\<lambda>opened ok. opened \<or> \<not> ok)\<rparr>"

definition row_tx :: "(nat list, string, unit, unit, unit, unit) tx_api" where
  "row_tx = \<lparr>tx_Begin = (\<lambda>w. (w, Inr ())), tx_Commit = (\<lambda>w. (w @ [1], Inr ())), tx_Rollback = (\<lambda>w. (w, Inr ())),
     tx_Query = (\<lambda>q w. (w, Inr ())), tx_Exec = (\<lambda>q w. (w, Inl ''down'')), tx_Prepare = (\<lambda>n q w. (w, Inr ())),
     tx_CopyFrom = (\<lambda>t w. (w, Inr 1))\<rparr>"

theorem rejected_commit_reports_success_witness:
  "fst (breakerTx_Exec one_shot row_tx ''q'' (False, [])) = (True, [])
   \<and> Commit one_shot row_tx (True, []) = ((True, []), Inr ())"
proof -
  have "BreakerBefore one_shot True = (True, Some ErrOpenState)"
    by (simp add: one_shot_def)
  then have "Commit one_shot row_tx (True, []) = ((True, []), Inr ())"
    using rejected_commit_reports_success [of one_shot True True ErrOpenState row_tx] by blast
  then show ?thesis
    by (simp add: breakerTx_Exec_def Breaker_Execute_def) (simp add: one_shot_def row_tx_def)
qed

end
