(* ===== verification/Rate_Limit.thy ===== *)
theory Rate_Limit
  imports Prelude
begin

text \<open>
  The token bucket rate limiter (\<^verbatim>\<open>internal/middleware/ratelimit.go\<close>).  Durations are nanoseconds;
  the \<^verbatim>\<open>float64\<close> product of the elapsed seconds and the rate is the exact product, rounded down as the
  conversion to \<^verbatim>\<open>int64\<close> does.  A request carries the readings of the clock it causes, in their order.
\<close>

section \<open>The token bucket\<close>

record TokenBucket =
  tb_capacity :: int
  tb_tokens :: int
  tb_refillRate :: int
  tb_lastRefill :: time
  tb_burstCapacity :: int

definition NewTokenBucket :: "int \<Rightarrow> int \<Rightarrow> int \<Rightarrow> time \<Rightarrow> TokenBucket" where
  "NewTokenBucket capacity refillRate burstCapacity now =
     \<lparr>tb_capacity = capacity, tb_tokens = burstCapacity, tb_refillRate = refillRate,
      tb_lastRefill = now, tb_burstCapacity = burstCapacity\<rparr>"

text \<open>\<^verbatim>\<open>int64(x)\<close> rounds towards zero.\<close>

definition trunc_div :: "int \<Rightarrow> int \<Rightarrow> int" where
  "trunc_div a b = (if (a < 0) = (b < 0) then \<bar>a\<bar> div \<bar>b\<bar> else - (\<bar>a\<bar> div \<bar>b\<bar>))"

definition refill :: "time \<Rightarrow> TokenBucket \<Rightarrow> TokenBucket" where
  "refill now tb =
     (let elapsed = now - tb_lastRefill tb;
          tokensToAdd = trunc_div (elapsed * tb_refillRate tb) Second
      in if tokensToAdd > 0 then
           tb\<lparr>tb_tokens := (if tb_tokens tb + tokensToAdd > tb_burstCapacity tb then tb_burstCapacity tb
                            else tb_tokens tb + tokensToAdd),
              tb_lastRefill := now\<rparr>
         else tb)"

text \<open>The second critical section of \<^verbatim>\<open>allowRequest\<close>.\<close>

definition take_token :: "TokenBucket \<Rightarrow> TokenBucket \<times> bool" where
  "take_token tb = (if tb_tokens tb \<ge> 1 then (tb\<lparr>tb_tokens := tb_tokens tb - 1\<rparr>, True) else (tb, False))"

definition allowRequest :: "time \<Rightarrow> TokenBucket \<Rightarrow> TokenBucket \<times> bool" where
  "allowRequest now tb = take_token (refill now tb)"

section \<open>The limiter\<close>

datatype RateLimitMode = ModeIP | ModeUser | ModeHybrid | ModeOther

record RouteSpecificConfig =
  rc_RequestsPerSec :: int
  rc_BurstSize :: int

record RateLimiterConfig =
  rl_Mode :: "RateLimitMode option"
  rl_RequestsPerSec :: int
  rl_BurstSize :: int
  rl_WhitelistPaths :: "string list"
  rl_Enabled :: bool
  rl_RouteConfigs :: "string \<rightharpoonup> RouteSpecificConfig"

type_synonym buckets = "string \<rightharpoonup> TokenBucket"

record rl_request =
  rq_path :: string
  rq_callerID :: "string option"
  rq_xff :: string
  rq_xri :: string
  rq_clientIP :: string
  rq_created :: time
  rq_refill :: time
  rq_before :: time
  rq_plus :: time
  rq_emit :: time

definition getClientIP :: "rl_request \<Rightarrow> string" where
  "getClientIP r =
     (if rq_xff r \<noteq> '''' then takeWhile (\<lambda>ch. ch \<noteq> CHR '','') (rq_xff r)
      else if rq_xri r \<noteq> '''' then rq_xri r else rq_clientIP r)"

definition getKey :: "RateLimiterConfig \<Rightarrow> rl_request \<Rightarrow> string" where
  "getKey cfg r = (case rl_Mode cfg of
      Some ModeUser \<Rightarrow> (case rq_callerID r of Some u \<Rightarrow> u | None \<Rightarrow> getClientIP r)
    | Some ModeHybrid \<Rightarrow> (case rq_callerID r of Some u \<Rightarrow> u | None \<Rightarrow> ''anonymous'') @ '':'' @ getClientIP r
    | _ \<Rightarrow> getClientIP r)"

definition route_limits :: "RateLimiterConfig \<Rightarrow> string \<Rightarrow> int \<times> int" where
  "route_limits cfg path = (case rl_RouteConfigs cfg path of
      Some rc \<Rightarrow> (rc_RequestsPerSec rc, rc_BurstSize rc)
    | None \<Rightarrow> (rl_RequestsPerSec cfg, rl_BurstSize cfg))"

definition bucketKey :: "string \<Rightarrow> string \<Rightarrow> string" where
  "bucketKey key path = key @ '':'' @ path"

definition getBucket :: "RateLimiterConfig \<Rightarrow> buckets \<Rightarrow> string \<Rightarrow> string \<Rightarrow> time \<Rightarrow> buckets \<times> TokenBucket" where
  "getBucket cfg bs key path now = (case bs (bucketKey key path) of
      Some bucket \<Rightarrow> (bs, bucket)
    | None \<Rightarrow> (let (rps, burst) = route_limits cfg path; bucket = NewTokenBucket rps rps burst now
               in (bs(bucketKey key path \<mapsto> bucket), bucket)))"

definition isWhitelisted :: "RateLimiterConfig \<Rightarrow> string \<Rightarrow> bool" where
  "isWhitelisted cfg path = list_ex (\<lambda>w. path = w) (rl_WhitelistPaths cfg)"

definition default_config :: "RateLimiterConfig \<Rightarrow> RateLimiterConfig" where
  "default_config cfg =
     (let rps = (if rl_RequestsPerSec cfg \<le> 0 then 10 else rl_RequestsPerSec cfg)
      in cfg\<lparr>rl_RequestsPerSec := rps,
             rl_BurstSize := (if rl_BurstSize cfg \<le> 0 then rps * 2 else rl_BurstSize cfg),
             rl_Mode := (case rl_Mode cfg of None \<Rightarrow> Some ModeIP | Some m \<Rightarrow> Some m)\<rparr>)"

record rl_headers =
  hd_Limit :: int
  hd_Remaining :: int
  hd_Reset :: int
  hd_RetryAfter :: "int option"

text \<open>\<^verbatim>\<open>math.Ceil\<close> of a duration in seconds.\<close>

definition ceil_seconds :: "duration \<Rightarrow> int" where
  "ceil_seconds d = - ((- d) div Second)"

definition emitRateLimitHeaders :: "int \<Rightarrow> int \<Rightarrow> time \<Rightarrow> time \<Rightarrow> rl_headers" where
  "emitRateLimitHeaders limit0 remaining0 reset now =
     (let limit = max 0 limit0; remaining = max 0 remaining0
      in \<lparr>hd_Limit = limit, hd_Remaining = remaining, hd_Reset = reset div Second,
          hd_RetryAfter = (if remaining = 0 then Some (max 1 (ceil_seconds (reset - now))) else None)\<rparr>)"

text \<open>
  The time the bucket is full again; \<open>quot\<close> is the \<^verbatim>\<open>float64\<close> quotient converted to a
  \<^verbatim>\<open>time.Duration\<close>, whose value for a rate of zero depends on the platform.
\<close>

definition resetTime :: "(int \<Rightarrow> int \<Rightarrow> int) \<Rightarrow> int \<Rightarrow> TokenBucket \<Rightarrow> rl_request \<Rightarrow> time" where
  "resetTime quot missing tb r =
     (let t = tb_lastRefill tb + quot missing (tb_refillRate tb) * Second
      in if t < rq_before r then rq_plus r + Second else t)"

datatype rl_outcome = Bypassed | Limited rl_headers | Passed rl_headers

definition RateLimit_handle :: "(int \<Rightarrow> int \<Rightarrow> int) \<Rightarrow> RateLimiterConfig \<Rightarrow> buckets \<Rightarrow> rl_request \<Rightarrow> buckets \<times> rl_outcome" where
  "RateLimit_handle quot cfg bs r =
     (if \<not> rl_Enabled cfg \<or> isWhitelisted cfg (rq_path r) then (bs, Bypassed)
      else
        let key = getKey cfg r; path = rq_path r;
            (bs1, bucket) = getBucket cfg bs key path (rq_created r);
            (bucket', ok) = allowRequest (rq_refill r) bucket;
            bs2 = bs1(bucketKey key path \<mapsto> bucket')
        in if \<not> ok then
             (bs2, Limited (emitRateLimitHeaders (tb_burstCapacity bucket') 0
                (resetTime quot (tb_capacity bucket' - tb_tokens bucket') bucket' r) (rq_emit r)))
           else
             (bs2, Passed (emitRateLimitHeaders (tb_burstCapacity bucket') (tb_tokens bucket')
                (resetTime quot (tb_burstCapacity bucket' - tb_tokens bucket') bucket' r) (rq_emit r))))"

fun RateLimit_run :: "(int \<Rightarrow> int \<Rightarrow> int) \<Rightarrow> RateLimiterConfig \<Rightarrow> buckets \<Rightarrow> rl_request list \<Rightarrow> rl_outcome list" where
  "RateLimit_run quot cfg bs [] = []"
| "RateLimit_run quot cfg bs (r # rs) =
     (let (bs', out) = RateLimit_handle quot cfg bs r in out # RateLimit_run quot cfg bs' rs)"

section \<open>The budget of a bucket\<close>

text \<open>
  Requests to one bucket run concurrently: \<^verbatim>\<open>refill\<close> and the taking of a token are separate critical
  sections, so a run of a bucket is any sequence of them.  A trace keeps the number of tokens taken.
\<close>

inductive bucket_step :: "time \<Rightarrow> TokenBucket \<times> nat \<Rightarrow> TokenBucket \<times> nat \<Rightarrow> bool" for until where
  Refill: "now \<le> until \<Longrightarrow> bucket_step until (tb, n) (refill now tb, n)"
| Taken: "take_token tb = (tb', True) \<Longrightarrow> bucket_step until (tb, n) (tb', Suc n)"
| Denied: "take_token tb = (tb', False) \<Longrightarrow> bucket_step until (tb, n) (tb', n)"

inductive_cases bucket_stepE: "bucket_step until (tb, n) (tb', n')"

text \<open>What has been taken and what is left never exceed the burst and the refill since the start.\<close>

definition within_budget :: "int \<Rightarrow> int \<Rightarrow> time \<Rightarrow> time \<Rightarrow> TokenBucket \<Rightarrow> nat \<Rightarrow> bool" where
  "within_budget rate burst start until tb n \<longleftrightarrow>
     tb_refillRate tb = rate \<and> tb_burstCapacity tb = burst \<and> 0 \<le> tb_tokens tb \<and> tb_tokens tb \<le> burst
     \<and> start \<le> tb_lastRefill tb \<and> tb_lastRefill tb \<le> until
     \<and> Second * (tb_tokens tb + int n) \<le> Second * burst + rate * (tb_lastRefill tb - start)"

lemma trunc_div_pos:
  assumes "0 < trunc_div a b" "0 < b"
  shows "0 < a" "trunc_div a b * b \<le> a"
proof -
  have "a \<noteq> 0"
    using assms by (auto simp: trunc_div_def)
  then show a: "0 < a"
    using assms by (auto simp: trunc_div_def pos_imp_zdiv_neg_iff split: if_splits)
  then have "trunc_div a b = a div b"
    using assms(2) by (simp add: trunc_div_def)
  then show "trunc_div a b * b \<le> a"
    using assms(2) by (metis div_mult_mod_eq le_add_same_cancel1 pos_mod_sign)
qed

lemma budget_refill:
  assumes inv: "within_budget rate burst start until tb n" and "now \<le> until" "0 \<le> rate"
  shows "within_budget rate burst start until (refill now tb) n"
proof (cases "trunc_div ((now - tb_lastRefill tb) * rate) Second > 0")
  case True
  let ?add = "trunc_div ((now - tb_lastRefill tb) * rate) Second"
  have pos: "0 < (now - tb_lastRefill tb) * rate" "?add * Second \<le> (now - tb_lastRefill tb) * rate"
    using trunc_div_pos [OF True] by simp_all
  then have later: "tb_lastRefill tb < now"
    using assms(3) by (simp add: zero_less_mult_iff)
  have rates: "tb_refillRate tb = rate" "tb_burstCapacity tb = burst"
    using inv by (simp_all add: within_budget_def)
  define new where "new = (if tb_tokens tb + ?add > burst then burst else tb_tokens tb + ?add)"
  have r: "refill now tb = tb\<lparr>tb_tokens := new, tb_lastRefill := now\<rparr>"
    using True rates by (simp add: refill_def Let_def new_def)
  have le: "new \<le> tb_tokens tb + ?add" "new \<le> burst" "0 \<le> new"
    using inv True by (auto simp: new_def within_budget_def)
  have "Second * (new + int n) \<le> Second * (tb_tokens tb + int n) + ?add * Second"
    using mult_left_mono [OF le(1) less_imp_le [OF duration_units(1)]] by (simp add: algebra_simps)
  also have "\<dots> \<le> Second * burst + rate * (tb_lastRefill tb - start) + (now - tb_lastRefill tb) * rate"
    using inv pos(2) by (simp add: within_budget_def)
  also have "\<dots> = Second * burst + rate * (now - start)"
    by (simp add: algebra_simps)
  finally show ?thesis
    using inv le later assms(2) rates by (simp add: r within_budget_def)
next
  case False
  then show ?thesis
    using inv by (simp add: refill_def within_budget_def)
qed

lemma budget_take:
  assumes "within_budget rate burst start until tb n" "take_token tb = (tb', ok)"
  shows "within_budget rate burst start until tb' (n + of_bool ok)"
  using assms by (auto simp: take_token_def within_budget_def algebra_simps split: if_splits)

lemma budget_step:
  assumes "bucket_step until (tb, n) (tb', n')" "within_budget rate burst start until tb n" "0 \<le> rate"
  shows "within_budget rate burst start until tb' n'"
  using assms budget_take [OF assms(2), of tb' True] budget_take [OF assms(2), of tb' False]
  by (auto elim!: bucket_stepE simp: budget_refill)

lemma budget_bound:
  assumes "within_budget rate burst start until tb n" "0 \<le> rate"
  shows "Second * int n \<le> Second * burst + rate * (until - start)"
proof -
  have "0 \<le> Second * tb_tokens tb"
    using assms(1) duration_units(1) by (simp add: within_budget_def less_imp_le)
  moreover have "rate * (tb_lastRefill tb - start) \<le> rate * (until - start)"
    using assms by (simp add: within_budget_def mult_left_mono)
  ultimately show ?thesis
    using assms(1) by (simp add: within_budget_def algebra_simps)
qed

lemma new_bucket_budget:
  assumes "start \<le> now" "now \<le> until" "0 \<le> rate" "0 \<le> burst"
  shows "within_budget rate burst start until (NewTokenBucket cap rate burst now) 0"
  using assms by (simp add: within_budget_def NewTokenBucket_def)

section \<open>The budget of the limiter\<close>

text \<open>Every bucket of the limiter is within its budget; \<open>taken\<close> counts what each key was let through.\<close>

definition limiter_inv :: "int \<Rightarrow> int \<Rightarrow> time \<Rightarrow> time \<Rightarrow> string \<Rightarrow> buckets \<Rightarrow> nat \<Rightarrow> bool" where
  "limiter_inv rate burst start until k bs n \<longleftrightarrow> (case bs k of
      None \<Rightarrow> n = 0 | Some tb \<Rightarrow> within_budget rate burst start until tb n)"

definition request_bucket :: "RateLimiterConfig \<Rightarrow> rl_request \<Rightarrow> string" where
  "request_bucket cfg r = bucketKey (getKey cfg r) (rq_path r)"

fun passed :: "rl_outcome \<Rightarrow> bool" where
  "passed (Passed _) = True"
| "passed _ = False"

definition admitted_for :: "RateLimiterConfig \<Rightarrow> string \<Rightarrow> rl_request list \<Rightarrow> rl_outcome list \<Rightarrow> nat" where
  "admitted_for cfg k rs outs = length (filter (\<lambda>(r, out). request_bucket cfg r = k \<and> passed out) (zip rs outs))"

lemma handle_other_bucket:
  "request_bucket cfg r \<noteq> k \<Longrightarrow> fst (RateLimit_handle quot cfg bs r) k = bs k"
  by (auto simp: RateLimit_handle_def request_bucket_def getBucket_def Let_def case_prod_beta split: option.splits)

lemma handle_own_bucket:
  assumes "limiter_inv rate burst start until k bs n" "request_bucket cfg r = k"
    and "route_limits cfg (rq_path r) = (rate, burst)" "0 \<le> rate" "0 \<le> burst"
    and "start \<le> rq_created r" "rq_created r \<le> until" "rq_refill r \<le> until"
  shows "limiter_inv rate burst start until k (fst (RateLimit_handle quot cfg bs r))
    (n + of_bool (passed (snd (RateLimit_handle quot cfg bs r))))"
proof (cases "\<not> rl_Enabled cfg \<or> isWhitelisted cfg (rq_path r)")
  case True
  then show ?thesis
    using assms(1) by (simp add: RateLimit_handle_def)
next
  case False
  obtain bs1 tb where g: "getBucket cfg bs (getKey cfg r) (rq_path r) (rq_created r) = (bs1, tb)"
    by (rule prod.exhaust)
  obtain tb' ok where a: "allowRequest (rq_refill r) tb = (tb', ok)"
    by (rule prod.exhaust)
  have "within_budget rate burst start until tb n"
  proof (cases "bs k")
    case None
    then have "tb = NewTokenBucket rate rate burst (rq_created r)" "n = 0"
      using g assms(1-3) by (auto simp: getBucket_def request_bucket_def limiter_inv_def Let_def)
    then show ?thesis
      using assms(4-7) by (simp add: new_bucket_budget)
  next
    case (Some b)
    then show ?thesis
      using g assms(1,2) by (simp add: getBucket_def request_bucket_def limiter_inv_def)
  qed
  then have "within_budget rate burst start until (refill (rq_refill r) tb) n"
    using assms(4,8) by (simp add: budget_refill)
  then have "within_budget rate burst start until tb' (n + of_bool ok)"
    using a by (simp add: allowRequest_def budget_take)
  then show ?thesis
    using False g a assms(2)
    by (auto simp: RateLimit_handle_def Let_def limiter_inv_def request_bucket_def)
qed

lemma run_within_budget:
  assumes "limiter_inv rate burst start until k bs n" "0 \<le> rate" "0 \<le> burst"
    and "list_all (\<lambda>r. start \<le> rq_created r \<and> rq_created r \<le> until \<and> rq_refill r \<le> until
      \<and> (request_bucket cfg r = k \<longrightarrow> route_limits cfg (rq_path r) = (rate, burst))) rs"
  shows "\<exists>bs'. limiter_inv rate burst start until k bs' (n + admitted_for cfg k rs (RateLimit_run quot cfg bs rs))"
  using assms(1,4)
proof (induction rs arbitrary: bs n)
  case Nil
  then show ?case
    by (auto simp: admitted_for_def)
next
  case (Cons r rs)
  obtain bs1 out where h: "RateLimit_handle quot cfg bs r = (bs1, out)"
    by (rule prod.exhaust)
  have "limiter_inv rate burst start until k bs1 (n + of_bool (request_bucket cfg r = k \<and> passed out))"
  proof (cases "request_bucket cfg r = k")
    case True
    then show ?thesis
      using handle_own_bucket [OF Cons.prems(1) True _ assms(2,3), of quot] Cons.prems(2) h by simp
  next
    case False
    then show ?thesis
      using handle_other_bucket [OF False, of quot bs] Cons.prems(1) h by (simp add: limiter_inv_def)
  qed
  then show ?case
    using Cons.IH [of bs1] Cons.prems(2) h by (fastforce simp: admitted_for_def add.assoc)
qed

text \<open>
  C25: Of the requests that share a bucket of the limiter (same client key, same path), the middleware
  lets through at most the burst size plus the configured rate times the length of the period, in any
  sequence of requests of any clients.
\<close>

theorem rate_limit_bound:
  assumes "route_limits cfg p = (rate, burst)" "0 \<le> rate" "0 \<le> burst" "start \<le> until"
    and "list_all (\<lambda>r. start \<le> rq_created r \<and> rq_created r \<le> until \<and> rq_refill r \<le> until
      \<and> (request_bucket cfg r = k \<longrightarrow> rq_path r = p)) rs"
  shows "Second * int (admitted_for cfg k rs (RateLimit_run quot cfg Map.empty rs)) \<le> Second * burst + rate * (until - start)"
proof -
  let ?n = "admitted_for cfg k rs (RateLimit_run quot cfg Map.empty rs)"
  have "list_all (\<lambda>r. start \<le> rq_created r \<and> rq_created r \<le> until \<and> rq_refill r \<le> until
      \<and> (request_bucket cfg r = k \<longrightarrow> route_limits cfg (rq_path r) = (rate, burst))) rs"
    using assms(1,5) by (auto simp: list_all_iff)
  then obtain bs' where inv: "limiter_inv rate burst start until k bs' ?n"
    using run_within_budget [of rate burst start until k Map.empty 0 cfg rs quot] assms(2,3)
    by (auto simp: limiter_inv_def)
  show ?thesis
  proof (cases "bs' k")
    case None
    then show ?thesis
      using inv assms(2-4) duration_units(1) by (simp add: limiter_inv_def less_imp_le)
  next
    case (Some tb)
    then show ?thesis
      using inv assms(2) by (simp add: limiter_inv_def budget_bound)
  qed
qed

definition sample_rl_config :: RateLimiterConfig where
  "sample_rl_config = \<lparr>rl_Mode = Some ModeIP, rl_RequestsPerSec = 1, rl_BurstSize = 1, rl_WhitelistPaths = [],
     rl_Enabled = True, rl_RouteConfigs = Map.empty\<rparr>"

definition rl_request_at :: "string \<Rightarrow> time \<Rightarrow> rl_request" where
  "rl_request_at ip t = \<lparr>rq_path = ''/p'', rq_callerID = None, rq_xff = [], rq_xri = [], rq_clientIP = ip,
     rq_created = t, rq_refill = t, rq_before = t, rq_plus = t, rq_emit = t\<rparr>"

theorem rate_limit_bound_witness:
  "map passed (RateLimit_run trunc_div sample_rl_config Map.empty
      [rl_request_at ''a'' 0, rl_request_at ''a'' 1, rl_request_at ''b'' 2]) = [True, False, True]
   \<and> Second * int (admitted_for sample_rl_config ''a:/p'' [rl_request_at ''a'' 0, rl_request_at ''a'' 1, rl_request_at ''b'' 2]
      (RateLimit_run trunc_div sample_rl_config Map.empty
        [rl_request_at ''a'' 0, rl_request_at ''a'' 1, rl_request_at ''b'' 2])) \<le> Second * 1 + 1 * (2 - 0)"
proof (rule conjI)
  show "map passed (RateLimit_run trunc_div sample_rl_config Map.empty
      [rl_request_at ''a'' 0, rl_request_at ''a'' 1, rl_request_at ''b'' 2]) = [True, False, True]"
    by code_simp
  show "Second * int (admitted_for sample_rl_config ''a:/p'' [rl_request_at ''a'' 0, rl_request_at ''a'' 1, rl_request_at ''b'' 2]
      (RateLimit_run trunc_div sample_rl_config Map.empty
        [rl_request_at ''a'' 0, rl_request_at ''a'' 1, rl_request_at ''b'' 2])) \<le> Second * 1 + 1 * (2 - 0)"
    by (rule rate_limit_bound [of _ "''/p''"]) (simp_all add: route_limits_def sample_rl_config_def rl_request_at_def)
qed

section \<open>Concurrent requests\<close>

text \<open>
  Whatever the interleaving of the refills and takes of concurrent requests, a bucket lets
  through at most its burst plus the refill rate times the elapsed time.
\<close>

theorem bucket_admits_at_most:
  assumes "rtranclp (bucket_step until) (NewTokenBucket cap rate burst start, 0) (tb, n)"
    and "start \<le> until" "0 \<le> rate" "0 \<le> burst"
  shows "Second * int n \<le> Second * burst + rate * (until - start)"
proof -
  have "within_budget rate burst start until (fst s) (snd s)"
    if "rtranclp (bucket_step until) (NewTokenBucket cap rate burst start, 0) s" for s
    using that
  proof (induction rule: rtranclp_induct)
    case base
    then show ?case
      using assms(2-4) by (simp add: new_bucket_budget)
  next
    case (step s s')
    then show ?case
      using budget_step [of until "fst s" "snd s" "fst s'" "snd s'"] assms(3) by simp
  qed
  from this [OF assms(1)] show ?thesis
    using assms(3) by (simp add: budget_bound)
qed

theorem bucket_admits_at_most_witness:
  "\<exists>tb. rtranclp (bucket_step (2 * Second)) (NewTokenBucket 1 1 1 0, 0) (tb, 2)
     \<and> Second * int 2 \<le> Second * 1 + 1 * (2 * Second - 0)"
proof -
  let ?b0 = "NewTokenBucket 1 1 1 0"
  let ?b1 = "fst (take_token ?b0)"
  let ?b2 = "refill (2 * Second) ?b1"
  have s1: "bucket_step (2 * Second) (?b0, 0) (?b1, Suc 0)"
    by (rule bucket_step.Taken) (simp add: take_token_def NewTokenBucket_def)
  have s2: "bucket_step (2 * Second) (?b1, Suc 0) (?b2, Suc 0)"
    by (rule bucket_step.Refill) simp
  have s3: "bucket_step (2 * Second) (?b2, Suc 0) (fst (take_token ?b2), Suc (Suc 0))"
    by (rule bucket_step.Taken) (simp add: take_token_def NewTokenBucket_def refill_def Let_def trunc_div_def Second_def)
  have "rtranclp (bucket_step (2 * Second)) (?b0, 0) (fst (take_token ?b2), Suc (Suc 0))"
    by (rule rtranclp.rtrancl_into_rtrancl, rule rtranclp.rtrancl_into_rtrancl, rule rtranclp.rtrancl_into_rtrancl)
       (rule rtranclp.rtrancl_refl s1 s2 s3)+
  then have run: "rtranclp (bucket_step (2 * Second)) (?b0, 0) (fst (take_token ?b2), 2)"
    by (simp add: numeral_2_eq_2)
  have "Second * int 2 \<le> Second * 1 + 1 * (2 * Second - 0)"
    by (rule bucket_admits_at_most [OF run]) (simp_all add: Second_def)
  with run show ?thesis
    by blast
qed

end
