(* ===== verification/Fees.thy ===== *)
theory Fees
  imports Prelude Complex_Main
begin

text \<open>
  Money arithmetic of \<^verbatim>\<open>internal/service/fees_service.go\<close>: rounding to a currency's minor unit, the
  proration of a fee and the split of an amount into tax and net, and the fee history with its
  freshness.  The decimal library (\<^verbatim>\<open>shopspring/decimal\<close>) is not part of the repository: its
  operations are a record of functions, and what the code relies on is stated by \<open>decimal_laws\<close>,
  where \<open>dec\<close> gives the number a decimal stands for.
\<close>

section \<open>The decimal library\<close>

record 'd decimal_api =
  dec_Zero :: 'd
  NewFromInt :: "int \<Rightarrow> 'd"
  RoundBank :: "'d \<Rightarrow> int \<Rightarrow> 'd"
  Shift :: "'d \<Rightarrow> int \<Rightarrow> 'd"
  Div :: "'d \<Rightarrow> 'd \<Rightarrow> 'd"
  Floor :: "'d \<Rightarrow> 'd"
  Mul :: "'d \<Rightarrow> 'd \<Rightarrow> 'd"
  Sub :: "'d \<Rightarrow> 'd \<Rightarrow> 'd"
  Add :: "'d \<Rightarrow> 'd \<Rightarrow> 'd"
  IntPart :: "'d \<Rightarrow> int"
  LessThan :: "'d \<Rightarrow> 'd \<Rightarrow> bool"

text \<open>
  The documented behaviour: exact arithmetic, except that a quotient has sixteen digits after the
  point (\<^verbatim>\<open>DivisionPrecision\<close>), and banker's rounding.
\<close>

definition nearest :: "rat \<Rightarrow> rat \<Rightarrow> rat \<Rightarrow> bool" where
  "nearest unit x y \<longleftrightarrow> (\<exists>k :: int. y = of_int k * unit) \<and> \<bar>x - y\<bar> \<le> unit / 2"

definition decimal_laws :: "'d decimal_api \<Rightarrow> ('d \<Rightarrow> rat) \<Rightarrow> bool" where
  "decimal_laws D dec \<longleftrightarrow>
     dec (dec_Zero D) = 0
     \<and> (\<forall>i. dec (NewFromInt D i) = of_int i)
     \<and> (\<forall>d n. nearest (10 powi (- n)) (dec d) (dec (RoundBank D d n)))
     \<and> (\<forall>d n. dec (Shift D d n) = dec d * 10 powi n)
     \<and> (\<forall>a b. dec b \<noteq> 0 \<longrightarrow> nearest (10 powi (- 16)) (dec a / dec b) (dec (Div D a b)))
     \<and> (\<forall>d. dec (Floor D d) = of_int \<lfloor>dec d\<rfloor>)
     \<and> (\<forall>a b. dec (Mul D a b) = dec a * dec b \<and> dec (Sub D a b) = dec a - dec b \<and> dec (Add D a b) = dec a + dec b)
     \<and> (\<forall>d. dec d \<in> \<int> \<longrightarrow> of_int (IntPart D d) = dec d)
     \<and> (\<forall>a b. LessThan D a b \<longleftrightarrow> dec a < dec b)"

lemma decimal_lawsD:
  assumes "decimal_laws D dec"
  shows "dec (dec_Zero D) = 0" "dec (NewFromInt D i) = of_int i"
    "nearest (10 powi (- n)) (dec d) (dec (RoundBank D d n))" "dec (Shift D d n) = dec d * 10 powi n"
    "dec b \<noteq> 0 \<Longrightarrow> nearest (10 powi (- 16)) (dec a / dec b) (dec (Div D a b))"
    "dec (Floor D d) = of_int \<lfloor>dec d\<rfloor>"
    "dec (Mul D a b) = dec a * dec b" "dec (Sub D a b) = dec a - dec b" "dec (Add D a b) = dec a + dec b"
    "dec d = of_int i \<Longrightarrow> IntPart D d = i" "LessThan D a b \<longleftrightarrow> dec a < dec b"
proof -
  show "dec d = of_int i \<Longrightarrow> IntPart D d = i"
    using assms Ints_of_int [of i] unfolding decimal_laws_def by (metis of_int_eq_iff)
qed (use assms in \<open>unfold decimal_laws_def, blast\<close>)+

section \<open>Money\<close>

definition CurrencyScale :: "(string \<times> int) list" where
  "CurrencyScale =
     [(''JPY'', 0), (''KRW'', 0), (''VND'', 0), (''CLP'', 0), (''GNF'', 0), (''MGA'', 0), (''PYG'', 0), (''RWF'', 0),
      (''UGX'', 0), (''XAF'', 0), (''XOF'', 0), (''XPF'', 0),
      (''BHD'', 3), (''IQD'', 3), (''JOD'', 3), (''KWD'', 3), (''LYD'', 3), (''OMR'', 3), (''TND'', 3)]"

definition scaleForCurrency :: "string \<Rightarrow> int" where
  "scaleForCurrency currency = (case map_of CurrencyScale currency of Some s \<Rightarrow> s | None \<Rightarrow> 2)"

datatype fee_error = ErrInvalidAmount | ErrInvalidTaxRate | ErrInvalidParts

definition RoundMoney :: "'d decimal_api \<Rightarrow> 'd \<Rightarrow> string \<Rightarrow> 'd" where
  "RoundMoney D amount currency = RoundBank D amount (scaleForCurrency currency)"

definition ProrateFee :: "'d decimal_api \<Rightarrow> 'd \<Rightarrow> string \<Rightarrow> int \<Rightarrow> (fee_error, 'd list) result" where
  "ProrateFee D amount currency parts =
     (if LessThan D amount (dec_Zero D) then Inl ErrInvalidAmount
      else if parts \<le> 0 then Inl ErrInvalidParts
      else
        let rounded = RoundMoney D amount currency;
            scale = scaleForCurrency currency;
            minor = Shift D rounded scale;
            partsD = NewFromInt D parts;
            base = Floor D (Div D minor partsD);
            remainder = Sub D minor (Mul D base partsD);
            remainderInt = IntPart D remainder
        in Inr (map (\<lambda>i. Shift D (if i < remainderInt then Add D base (NewFromInt D 1) else base) (- scale))
                 [0..parts - 1]))"

definition TaxSplit :: "'d decimal_api \<Rightarrow> 'd \<Rightarrow> string \<Rightarrow> 'd \<Rightarrow> (fee_error, 'd \<times> 'd) result" where
  "TaxSplit D amount currency rate =
     (if LessThan D amount (dec_Zero D) then Inl ErrInvalidAmount
      else if LessThan D rate (dec_Zero D) \<or> LessThan D (NewFromInt D 1) rate then Inl ErrInvalidTaxRate
      else
        let tax = RoundMoney D (Mul D amount rate) currency
        in Inr (tax, Sub D amount tax))"

section \<open>Fee history\<close>

record FeeRecord =
  fee_ID :: string
  fee_Type :: string
  fee_CreatedAt :: time

text \<open>\<open>Never\<close>, or when the aggregate was last refreshed and whether that is too long ago.\<close>

record FeeHistory =
  fh_Records :: "FeeRecord list"
  fh_LastRefreshedAt :: "time option"
  fh_Stale :: bool

definition select_fees :: "string \<Rightarrow> time \<Rightarrow> time \<Rightarrow> FeeRecord list \<Rightarrow> FeeRecord list" where
  "select_fees feeType from to rs =
     filter (\<lambda>r. \<not> fee_CreatedAt r < from \<and> \<not> to < fee_CreatedAt r \<and> (feeType = '''' \<or> fee_Type r = feeType)) rs"

definition WithFreshness ::
    "(time \<Rightarrow> ('e, bool \<times> time \<times> bool) result) option \<Rightarrow> time \<Rightarrow> FeeHistory \<Rightarrow> FeeHistory \<times> 'e option" where
  "WithFreshness provider now h = (case provider of
      None \<Rightarrow> (h, None)
    | Some isStale \<Rightarrow> (case isStale now of
        Inl e \<Rightarrow> (h, Some e)
      | Inr (stale, lastRefreshed, never) \<Rightarrow>
          (h\<lparr>fh_Stale := stale, fh_LastRefreshedAt := (if never then None else Some lastRefreshed)\<rparr>, None)))"

section \<open>Proration\<close>

lemma nearest_multiple:
  assumes "nearest u (of_int j * u) y" "0 < u"
  shows "y = of_int j * u"
proof -
  obtain k :: int where k: "y = of_int k * u" and d: "\<bar>of_int j * u - y\<bar> \<le> u / 2"
    using assms(1) unfolding nearest_def by blast
  have "of_int j * u - of_int k * u = of_int (j - k) * u"
    by (simp add: algebra_simps)
  then have "\<bar>of_int (j - k) :: rat\<bar> * u \<le> 1 / 2 * u"
    using d assms(2) unfolding k by (simp add: abs_mult)
  then have "\<bar>of_int (j - k) :: rat\<bar> \<le> 1 / 2"
    using assms(2) by (simp only: mult_le_cancel_right_pos)
  then have "j = k"
    by linarith
  then show ?thesis
    by (simp add: k)
qed

lemma nearest_nonneg:
  assumes "nearest u x y" "0 \<le> x" "0 < u"
  shows "0 \<le> y"
proof -
  obtain k :: int where k: "y = of_int k * u" and d: "\<bar>x - y\<bar> \<le> u / 2"
    using assms(1) unfolding nearest_def by blast
  have "- (1 / 2) * u \<le> of_int k * u"
    using d assms(2) unfolding k by linarith
  then have "- (1 / 2) \<le> (of_int k :: rat)"
    using assms(3) by (simp only: mult_le_cancel_right_pos)
  then have "0 \<le> k"
    by linarith
  then show ?thesis
    using assms(3) by (simp add: k)
qed

lemma floor_of_quotient:
  fixes m p :: int
  assumes near: "nearest (10 powi (- 16)) (of_int m / of_int p) q" and p: "0 < p" "p < 10 ^ 16"
  shows "\<lfloor>q\<rfloor> = m div p"
proof -
  define u :: rat where "u = 10 powi (- 16)"
  have "u = inverse (10 ^ 16)"
    unfolding u_def power_int_minus by (simp only: power_int_numeral)
  then have u: "0 < u" "u = 1 / 10 ^ 16"
    by (simp_all add: inverse_eq_divide)
  have near': "nearest u (of_int m / of_int p) q"
    using near by (simp only: u_def)
  have "of_int p < (of_int (10 ^ 16) :: rat)"
    using p(2) by (simp only: of_int_less_iff)
  then have up: "u * of_int p < 1"
    unfolding u(2) by simp
  have split: "(of_int m :: rat) = of_int (m div p) * of_int p + of_int (m mod p)"
    by (metis div_mult_mod_eq of_int_add of_int_mult)
  have r: "0 \<le> m mod p" "m mod p < p"
    using p(1) by simp_all
  have quot: "of_int m / of_int p = of_int (m div p) + of_int (m mod p) / (of_int p :: rat)"
    using p(1) unfolding split by (simp add: add_divide_distrib)
  show ?thesis
  proof (cases "m mod p = 0")
    case True
    then have "of_int m / of_int p = (of_int (m div p) :: rat)"
      unfolding quot by simp
    also have "\<dots> = of_int (m div p * 10 ^ 16) * u"
      unfolding u(2) by simp
    finally have "nearest u (of_int (m div p * 10 ^ 16) * u) q"
      using near' by (simp only:)
    then have "q = of_int (m div p * 10 ^ 16) * u"
      by (rule nearest_multiple) (rule u(1))
    then have "q = of_int (m div p)"
      unfolding u(2) by simp
    then show ?thesis
      by simp
  next
    case False
    have bounds: "1 \<le> m mod p" "m mod p \<le> p - 1"
      using False r by simp_all
    have lo: "1 / of_int p \<le> of_int (m mod p) / (of_int p :: rat)"
      using bounds(1) p(1) by (simp add: divide_right_mono)
    have hi: "of_int (m mod p) / (of_int p :: rat) \<le> 1 - 1 / of_int p"
    proof -
      have "of_int (m mod p) \<le> (of_int p - 1 :: rat)"
        using bounds(2) by (metis of_int_diff of_int_1 of_int_le_iff)
      then have "of_int (m mod p) / (of_int p :: rat) \<le> (of_int p - 1) / of_int p"
        using p(1) by (simp add: divide_right_mono)
      then show ?thesis
        using p(1) by (simp add: diff_divide_distrib)
    qed
    have "u < 1 / of_int p"
      using up p(1) by (simp add: less_divide_eq)
    moreover have "\<bar>of_int m / of_int p - q\<bar> \<le> u / 2"
      using near' unfolding nearest_def by blast
    ultimately have "of_int (m div p) \<le> q" "q < of_int (m div p) + 1"
      using lo hi u(1) unfolding quot by linarith+
    then show ?thesis
      by (simp add: floor_unique)
  qed
qed

text \<open>The parts in minor units: the first ones carry the remainder.\<close>

lemma sum_parts:
  fixes base r p :: int
  assumes "0 \<le> r" "r \<le> p"
  shows "(\<Sum>i \<leftarrow> [0..p - 1]. if i < r then base + 1 else base) = base * p + r"
proof -
  have "(\<Sum>i \<leftarrow> [0..p - 1]. if i < r then base + 1 else base) = (\<Sum>i \<in> {0..p - 1}. base + (if i < r then 1 else 0))"
    unfolding interv_sum_list_conv_sum_set_int by (rule sum.cong) simp_all
  also have "\<dots> = base * p + (\<Sum>i \<in> {0..p - 1}. if i < r then 1 else 0)"
    using assms by (simp add: sum.distrib)
  also have "(\<Sum>i \<in> {0..p - 1}. if i < r then 1 else (0 :: int)) = int (card {i \<in> {0..p - 1}. i < r})"
    by (simp add: sum.If_cases Int_def)
  also have "{i \<in> {0..p - 1}. i < r} = {0..<r}"
    using assms by auto
  finally show ?thesis
    using assms by simp
qed

lemma of_int_sum_list: "of_int (sum_list xs) = (\<Sum>x \<leftarrow> xs. (of_int x :: rat))"
  by (induction xs) simp_all

lemma unit_powers: "(10 :: rat) powi (- s) * 10 powi s = 1" "0 < (10 :: rat) powi s"
  by (simp_all add: power_int_minus)

lemma rounded_minor:
  assumes laws: "decimal_laws D dec" and "0 \<le> dec amount"
  obtains m :: int where "dec (RoundMoney D amount currency) = of_int m * 10 powi (- scaleForCurrency currency)" "0 \<le> m"
proof -
  have near: "nearest (10 powi (- scaleForCurrency currency)) (dec amount) (dec (RoundMoney D amount currency))"
    using decimal_lawsD(3) [OF laws] by (simp add: RoundMoney_def)
  then obtain m :: int where m: "dec (RoundMoney D amount currency) = of_int m * 10 powi (- scaleForCurrency currency)"
    unfolding nearest_def by blast
  moreover have "0 \<le> dec (RoundMoney D amount currency)"
    using nearest_nonneg [OF near assms(2) unit_powers(2)] .
  ultimately have "0 \<le> m"
    using unit_powers(2) [of "- scaleForCurrency currency"] by (simp add: zero_le_mult_iff)
  with m show ?thesis
    by (rule that)
qed

text \<open>
  C23: Proration gives exactly the requested number of parts, none negative, no two more than one
  minor unit of the currency apart, and their sum is the rounded amount, whatever the amount, the
  currency and the number of parts.
\<close>

theorem prorate_conserves_amount:
  assumes laws: "decimal_laws D dec" and "0 \<le> dec amount" "0 < parts" "parts < 10 ^ 16"
  shows "\<exists>rs. ProrateFee D amount currency parts = Inr rs \<and> length rs = nat parts
    \<and> sum_list (map dec rs) = dec (RoundMoney D amount currency)
    \<and> (\<forall>r \<in> set rs. 0 \<le> dec r)
    \<and> (\<forall>r \<in> set rs. \<forall>r' \<in> set rs. \<bar>dec r - dec r'\<bar> \<le> 10 powi (- scaleForCurrency currency))"
proof -
  define s where "s = scaleForCurrency currency"
  define u :: rat where "u = 10 powi (- s)"
  note D = decimal_lawsD [OF laws]
  obtain m where m: "dec (RoundMoney D amount currency) = of_int m * u" "0 \<le> m"
    using rounded_minor [OF laws assms(2), of currency] unfolding u_def s_def by blast
  define minor where "minor = Shift D (RoundMoney D amount currency) s"
  define base where "base = Floor D (Div D minor (NewFromInt D parts))"
  define rem where "rem = IntPart D (Sub D minor (Mul D base (NewFromInt D parts)))"
  define part where "part = (\<lambda>i. Shift D (if i < rem then Add D base (NewFromInt D 1) else base) (- s))"
  have "u * 10 powi s = 1" and u: "0 < u"
    unfolding u_def by (rule unit_powers)+
  then have minor: "dec minor = of_int m"
    by (simp add: minor_def D(4) m(1) mult.assoc)
  have "nearest (10 powi (- 16)) (of_int m / of_int parts) (dec (Div D minor (NewFromInt D parts)))"
    using D(5) [of "NewFromInt D parts" minor] assms(3) by (simp only: D(2) minor)
  then have "\<lfloor>dec (Div D minor (NewFromInt D parts))\<rfloor> = m div parts"
    using assms(3,4) by (rule floor_of_quotient)
  then have base: "dec base = of_int (m div parts)"
    by (simp add: base_def D(6))
  have "dec (Sub D minor (Mul D base (NewFromInt D parts))) = of_int m - of_int (m div parts) * of_int parts"
    by (simp only: D minor base)
  also have "\<dots> = of_int (m mod parts)"
    by (simp flip: minus_div_mult_eq_mod)
  finally have rem: "rem = m mod parts"
    unfolding rem_def by (rule D(10))
  have part: "dec (part i) = of_int (if i < m mod parts then m div parts + 1 else m div parts) * u" for i
    by (simp add: part_def D(2,4,9) rem base u_def)
  have "\<not> LessThan D amount (dec_Zero D)"
    using assms(2) by (simp add: D(1,11))
  then have run: "ProrateFee D amount currency parts = Inr (map part [0..parts - 1])"
    using assms(3) by (simp add: ProrateFee_def Let_def part_def rem_def base_def minor_def s_def)
  have "sum_list (map dec (map part [0..parts - 1]))
      = (\<Sum>i \<leftarrow> [0..parts - 1]. of_int (if i < m mod parts then m div parts + 1 else m div parts) * u)"
    by (simp add: part comp_def)
  also have "\<dots> = of_int (\<Sum>i \<leftarrow> [0..parts - 1]. if i < m mod parts then m div parts + 1 else m div parts) * u"
    by (simp add: sum_list_mult_const of_int_sum_list comp_def)
  also have "\<dots> = of_int m * u"
    using sum_parts [of "m mod parts" parts "m div parts"] assms(3) by (simp add: less_imp_le)
  finally have total_sum: "sum_list (map dec (map part [0..parts - 1])) = dec (RoundMoney D amount currency)"
    by (simp add: m)
  have "0 \<le> m div parts"
    using m(2) assms(3) by (simp add: pos_imp_zdiv_nonneg_iff)
  then have "0 \<le> dec (part i)" "\<bar>dec (part i) - dec (part j)\<bar> \<le> u" for i j
    using u by (simp_all add: part algebra_simps)
  then show ?thesis
    using run total_sum assms(3) unfolding u_def s_def by (intro exI [of _ "map part [0..parts - 1]"]) auto
qed

text \<open>Decimals as rational numbers, with a quotient rounded half up to sixteen digits.\<close>

definition round_to :: "rat \<Rightarrow> rat \<Rightarrow> rat" where
  "round_to u x = of_int \<lfloor>x / u + 1 / 2\<rfloor> * u"

definition bank_to :: "rat \<Rightarrow> rat \<Rightarrow> rat" where
  "bank_to u x = (let f = \<lfloor>x / u\<rfloor>; d = x / u - of_int f
     in of_int (if d < 1 / 2 \<or> d = 1 / 2 \<and> even f then f else f + 1) * u)"

definition rat_api :: "rat decimal_api" where
  "rat_api = \<lparr>dec_Zero = 0, NewFromInt = of_int, RoundBank = (\<lambda>d n. bank_to (10 powi (- n)) d),
     Shift = (\<lambda>d n. d * 10 powi n), Div = (\<lambda>a b. round_to (10 powi (- 16)) (a / b)), Floor = (\<lambda>d. of_int \<lfloor>d\<rfloor>),
     Mul = (\<lambda>a b. a * b), Sub = (\<lambda>a b. a - b), Add = (\<lambda>a b. a + b), IntPart = floor, LessThan = (\<lambda>a b. a < b)\<rparr>"

lemma nearest_scaled:
  assumes "\<bar>x / u - of_int k\<bar> \<le> 1 / 2" "0 < u"
  shows "nearest u x (of_int k * u)"
proof -
  have "x - of_int k * u = (x / u - of_int k) * u"
    using assms(2) by (simp add: algebra_simps)
  then have "\<bar>x - of_int k * u\<bar> = \<bar>x / u - of_int k\<bar> * u"
    using assms(2) by (simp add: abs_mult)
  also have "\<dots> \<le> 1 / 2 * u"
    using assms by (simp add: mult_right_mono)
  finally show ?thesis
    unfolding nearest_def by auto
qed

lemma round_to_nearest: "0 < u \<Longrightarrow> nearest u x (round_to u x)"
  unfolding round_to_def by (rule nearest_scaled) linarith+

lemma bank_to_nearest: "0 < u \<Longrightarrow> nearest u x (bank_to u x)"
proof -
  let ?f = "\<lfloor>x / u\<rfloor>"
  have f: "of_int ?f \<le> x / u" "x / u < of_int ?f + 1"
    by linarith+
  have "\<bar>x / u - of_int (if x / u - of_int ?f < 1 / 2 \<or> x / u - of_int ?f = 1 / 2 \<and> even ?f then ?f else ?f + 1)\<bar> \<le> 1 / 2"
  proof (cases "x / u - of_int ?f < 1 / 2 \<or> x / u - of_int ?f = 1 / 2 \<and> even ?f")
    case True
    then show ?thesis
      using f by (simp only: if_True) linarith
  next
    case False
    then have "1 / 2 \<le> x / u - of_int ?f"
      by linarith
    then show ?thesis
      using False f by (simp only: if_False of_int_add of_int_1)
  qed
  then show "0 < u \<Longrightarrow> nearest u x (bank_to u x)"
    unfolding bank_to_def Let_def by (rule nearest_scaled)
qed

lemma rat_api_laws: "decimal_laws rat_api id"
proof -
  have "\<And>n :: int. 0 < (10 :: rat) powi n"
    by simp
  then show ?thesis
    unfolding decimal_laws_def rat_api_def
    by (simp add: bank_to_nearest round_to_nearest Ints_def image_iff)
qed

theorem prorate_conserves_amount_witness:
  "\<exists>rs. ProrateFee rat_api 10 ''USD'' 3 = Inr rs \<and> length rs = 3 \<and> sum_list rs = RoundMoney rat_api 10 ''USD''"
  using prorate_conserves_amount [OF rat_api_laws, of 10 3 "''USD''"] by auto

text \<open>
  Splitting an amount by a tax rate between 0 and 1 loses nothing: tax and net add up to the
  amount, the tax is not negative, and neither is the net when the amount is a whole number of
  minor units; for other amounts the net is above minus half a minor unit.
\<close>

theorem tax_split_exact:
  assumes laws: "decimal_laws D dec" and "0 \<le> dec amount" "0 \<le> dec rate" "dec rate \<le> 1"
  shows "\<exists>tax net. TaxSplit D amount currency rate = Inr (tax, net) \<and> dec tax + dec net = dec amount \<and> 0 \<le> dec tax
    \<and> - (10 powi (- scaleForCurrency currency) / 2) \<le> dec net
    \<and> ((\<exists>j :: int. dec amount = of_int j * 10 powi (- scaleForCurrency currency)) \<longrightarrow> 0 \<le> dec net)"
proof -
  define u :: rat where "u = 10 powi (- scaleForCurrency currency)"
  note D = decimal_lawsD [OF laws]
  define tax where "tax = RoundMoney D (Mul D amount rate) currency"
  have u: "0 < u"
    unfolding u_def by (rule unit_powers(2))
  have near: "nearest u (dec amount * dec rate) (dec tax)"
    using D(3) [of "scaleForCurrency currency" "Mul D amount rate"] by (simp only: tax_def RoundMoney_def u_def D(7))
  have product: "0 \<le> dec amount * dec rate" "dec amount * dec rate \<le> dec amount"
    using assms(2-4) by (simp_all add: mult_left_le)
  obtain k :: int where k: "dec tax = of_int k * u" and d: "\<bar>dec amount * dec rate - dec tax\<bar> \<le> u / 2"
    using near unfolding nearest_def by blast
  have whole: "0 \<le> dec amount - dec tax" if "dec amount = of_int j * u" for j :: int
  proof -
    have "of_int k * u \<le> of_int j * u + 1 / 2 * u"
      using d product that unfolding k by linarith
    also have "\<dots> = (of_int j + 1 / 2) * u"
      by (simp add: algebra_simps)
    finally have "of_int k \<le> of_int j + (1 / 2 :: rat)"
      using u by (simp only: mult_le_cancel_right_pos)
    then have "k \<le> j"
      by linarith
    then show ?thesis
      using u by (simp add: k that)
  qed
  have "TaxSplit D amount currency rate = Inr (tax, Sub D amount tax)"
    using assms(2-4) by (simp add: TaxSplit_def tax_def Let_def D(1,2,11) not_less)
  moreover have "0 \<le> dec tax" "- (u / 2) \<le> dec amount - dec tax"
    using nearest_nonneg [OF near product(1) u] d product(2) by linarith+
  ultimately show ?thesis
    using whole unfolding u_def by (auto simp: D(8))
qed

theorem tax_split_exact_witness:
  "\<exists>tax net. TaxSplit rat_api 10 ''USD'' (1 / 8) = Inr (tax, net) \<and> tax + net = 10 \<and> 0 \<le> tax \<and> 0 \<le> net"
proof -
  have "(10 :: rat) = of_int 1000 * 10 powi (- scaleForCurrency ''USD'')"
    by (simp add: scaleForCurrency_def CurrencyScale_def)
  then have "\<exists>j :: int. (10 :: rat) = of_int j * 10 powi (- scaleForCurrency ''USD'')"
    by blast
  then show ?thesis
    using tax_split_exact [OF rat_api_laws, of 10 "1 / 8" "''USD''"] by (simp only: id_apply) force
qed

end
