(* ===== verification/Idempotency.thy ===== *)
theory Idempotency
  imports Prelude
begin

text \<open>
  Idempotency keys: the two stores of \<^verbatim>\<open>internal/middleware/idempotency_store.go\<close> and the middleware
  of \<^verbatim>\<open>idempotency.go\<close> that uses them.  The PostgreSQL table is an association list of its rows
  together with the outcomes of the next driver calls; a failed commit leaves the table as it was.
  Requests run concurrently: the middleware is two atomic steps around the downstream handler.
\<close>

section \<open>Stored keys\<close>

record idem_entry =
  ie_method :: string
  ie_path :: string
  ie_payloadHash :: string
  ie_statusCode :: int
  ie_responseBody :: string
  ie_createdAt :: time
  ie_expiresAt :: time

record idem_request =
  ir_scope :: string
  ir_key :: string
  ir_method :: string
  ir_path :: string
  ir_hash :: string

record IdempotencyRecord =
  rec_UsedAt :: time
  rec_ExpiresAt :: time
  rec_StatusCode :: int
  rec_PayloadHash :: string

datatype idem_error = ErrRequestMismatch | StoreFailed

text \<open>What \<^verbatim>\<open>GetOrInsert\<close> reports: the key was reserved, is in flight, or has a stored response.\<close>

datatype reservation = Reserved | InFlight | Replay int string

definition fresh_entry :: "time \<Rightarrow> duration \<Rightarrow> idem_request \<Rightarrow> idem_entry" where
  "fresh_entry now ttl r = \<lparr>ie_method = ir_method r, ie_path = ir_path r, ie_payloadHash = ir_hash r,
     ie_statusCode = 0, ie_responseBody = '''', ie_createdAt = now, ie_expiresAt = now + ttl\<rparr>"

definition same_request :: "idem_entry \<Rightarrow> idem_request \<Rightarrow> bool" where
  "same_request e r \<longleftrightarrow> ie_method e = ir_method r \<and> ie_path e = ir_path r \<and> ie_payloadHash e = ir_hash r"

definition with_response :: "int \<Rightarrow> string \<Rightarrow> idem_entry \<Rightarrow> idem_entry" where
  "with_response status body e = e\<lparr>ie_statusCode := status, ie_responseBody := body\<rparr>"

definition snapshot :: "idem_entry \<Rightarrow> IdempotencyRecord" where
  "snapshot e = \<lparr>rec_UsedAt = ie_createdAt e, rec_ExpiresAt = ie_expiresAt e, rec_StatusCode = ie_statusCode e,
     rec_PayloadHash = ie_payloadHash e\<rparr>"

section \<open>The in-memory store\<close>

type_synonym mem_store = "(string \<times> idem_entry) list"

definition mapKey :: "string \<Rightarrow> string \<Rightarrow> string" where
  "mapKey scope key = scope @ ''/'' @ key"

definition mem_GetOrInsert :: "mem_store \<Rightarrow> time \<Rightarrow> duration \<Rightarrow> idem_request \<Rightarrow> mem_store \<times> (idem_error, reservation) result" where
  "mem_GetOrInsert s now ttl r =
     (let k = mapKey (ir_scope r) (ir_key r);
          s1 = (case map_of s k of
                  Some e \<Rightarrow> if now > ie_expiresAt e then AList.delete k s else s
                | None \<Rightarrow> s)
      in case map_of s1 k of
           None \<Rightarrow> (AList.update k (fresh_entry now ttl r) s1, Inr Reserved)
         | Some e \<Rightarrow>
             if ie_statusCode e = 0 then (s1, Inr InFlight)
             else if \<not> same_request e r then (s1, Inl ErrRequestMismatch)
             else (s1, Inr (Replay (ie_statusCode e) (ie_responseBody e))))"

definition mem_UpdateResponse :: "mem_store \<Rightarrow> string \<Rightarrow> string \<Rightarrow> int \<Rightarrow> string \<Rightarrow> mem_store" where
  "mem_UpdateResponse s scope key status body = (case map_of s (mapKey scope key) of
      Some e \<Rightarrow> AList.update (mapKey scope key) (with_response status body e) s
    | None \<Rightarrow> s)"

definition mem_Lookup :: "mem_store \<Rightarrow> string \<Rightarrow> string \<Rightarrow> IdempotencyRecord option" where
  "mem_Lookup s scope key = map_option snapshot (map_of s (mapKey scope key))"

definition mem_Delete :: "mem_store \<Rightarrow> string \<Rightarrow> string \<Rightarrow> mem_store" where
  "mem_Delete s scope key = AList.delete (mapKey scope key) s"

text \<open>The loop over the map, in the order the association list has.\<close>

fun delete_expired_loop :: "time \<Rightarrow> int \<Rightarrow> int \<Rightarrow> string list \<Rightarrow> mem_store \<Rightarrow> mem_store \<times> int" where
  "delete_expired_loop now batchSize deleted [] s = (s, deleted)"
| "delete_expired_loop now batchSize deleted (k # ks) s =
     (if deleted \<ge> batchSize then (s, deleted)
      else case map_of s k of
             Some e \<Rightarrow>
               if now > ie_expiresAt e then delete_expired_loop now batchSize (deleted + 1) ks (AList.delete k s)
               else delete_expired_loop now batchSize deleted ks s
           | None \<Rightarrow> delete_expired_loop now batchSize deleted ks s)"

definition mem_DeleteExpiredBatch :: "mem_store \<Rightarrow> time \<Rightarrow> int \<Rightarrow> mem_store \<times> int" where
  "mem_DeleteExpiredBatch s now batchSize = delete_expired_loop now batchSize 0 (map fst s) s"

definition mem_CountExpiredPending :: "mem_store \<Rightarrow> time \<Rightarrow> int" where
  "mem_CountExpiredPending s now = int (length (filter (\<lambda>(k, e). now > ie_expiresAt e) s))"

section \<open>The PostgreSQL store\<close>

text \<open>\<open>pg_faults\<close> says of the next driver calls whether they fail; once used up they all succeed.\<close>

record pg_store =
  pg_rows :: "((string \<times> string) \<times> idem_entry) list"
  pg_faults :: "bool list"
  pg_pool_nil :: bool

definition driver_call :: "pg_store \<Rightarrow> pg_store \<times> bool" where
  "driver_call s = (s\<lparr>pg_faults := tl (pg_faults s)\<rparr>, pg_faults s = [] \<or> \<not> hd (pg_faults s))"

text \<open>A write followed by the commit of its transaction.\<close>

definition write_commit :: "pg_store \<Rightarrow> string \<times> string \<Rightarrow> idem_entry \<Rightarrow> pg_store \<times> (idem_error, reservation) result" where
  "write_commit s k e =
     (let (s1, written) = driver_call s
      in if \<not> written then (s1, Inl StoreFailed)
         else
           let (s2, committed) = driver_call s1
           in if \<not> committed then (s2, Inl StoreFailed)
              else (s2\<lparr>pg_rows := AList.update k e (pg_rows s2)\<rparr>, Inr Reserved))"

definition pg_GetOrInsert :: "pg_store \<Rightarrow> time \<Rightarrow> duration \<Rightarrow> idem_request \<Rightarrow> pg_store \<times> (idem_error, reservation) result" where
  "pg_GetOrInsert s now ttl r =
     (if pg_pool_nil s then (s, Inl StoreFailed)
      else
        let (s1, begun) = driver_call s
        in if \<not> begun then (s1, Inl StoreFailed)
           else
             let (s2, looked_up) = driver_call s1; k = (ir_scope r, ir_key r)
             in if \<not> looked_up then (s2, Inl StoreFailed)
                else case map_of (pg_rows s2) k of
                  None \<Rightarrow> write_commit s2 k (fresh_entry now ttl r)
                | Some e \<Rightarrow>
                    if now > ie_expiresAt e then write_commit s2 k (fresh_entry now ttl r)
                    else if ie_statusCode e = 0 then (s2, Inr InFlight)
                    else if \<not> same_request e r then (s2, Inl ErrRequestMismatch)
                    else (s2, Inr (Replay (ie_statusCode e) (ie_responseBody e))))"

definition pg_UpdateResponse :: "pg_store \<Rightarrow> string \<Rightarrow> string \<Rightarrow> int \<Rightarrow> string \<Rightarrow> pg_store \<times> bool" where
  "pg_UpdateResponse s scope key status body =
     (if pg_pool_nil s then (s, False)
      else
        let (s1, ok) = driver_call s
        in if \<not> ok then (s1, False)
           else (s1\<lparr>pg_rows := (case map_of (pg_rows s1) (scope, key) of
                    Some e \<Rightarrow> AList.update (scope, key) (with_response status body e) (pg_rows s1)
                  | None \<Rightarrow> pg_rows s1)\<rparr>, True))"

definition pg_Lookup :: "pg_store \<Rightarrow> string \<Rightarrow> string \<Rightarrow> pg_store \<times> (idem_error, IdempotencyRecord option) result" where
  "pg_Lookup s scope key =
     (if pg_pool_nil s then (s, Inl StoreFailed)
      else
        let (s1, ok) = driver_call s
        in if \<not> ok then (s1, Inl StoreFailed)
           else (s1, Inr (map_option snapshot (map_of (pg_rows s1) (scope, key)))))"

definition pg_DeleteKey :: "pg_store \<Rightarrow> string \<Rightarrow> string \<Rightarrow> pg_store \<times> bool" where
  "pg_DeleteKey s scope key =
     (if pg_pool_nil s then (s, False)
      else
        let (s1, ok) = driver_call s
        in if \<not> ok then (s1, False)
           else (s1\<lparr>pg_rows := AList.delete (scope, key) (pg_rows s1)\<rparr>, True))"

text \<open>
  The batch is the first rows the query finds, which the table's order stands for; rows locked by
  other transactions are the environment's choice (\<open>locked\<close>) and are skipped.
\<close>

definition pg_DeleteExpiredBatch ::
    "pg_store \<Rightarrow> time \<Rightarrow> int \<Rightarrow> (string \<times> string \<Rightarrow> bool) \<Rightarrow> pg_store \<times> (idem_error, int) result" where
  "pg_DeleteExpiredBatch s now batchSize locked =
     (if pg_pool_nil s then (s, Inl StoreFailed)
      else
        let (s1, ok) = driver_call s
        in if \<not> ok then (s1, Inl StoreFailed)
           else
             let victims = take (nat batchSize)
                   (filter (\<lambda>k. \<not> locked k \<and> (case map_of (pg_rows s1) k of Some e \<Rightarrow> ie_expiresAt e \<le> now | None \<Rightarrow> False))
                     (map fst (pg_rows s1)))
             in (s1\<lparr>pg_rows := filter (\<lambda>(k, e). k \<notin> set victims) (pg_rows s1)\<rparr>, Inr (int (length victims))))"

definition pg_CountExpiredPending :: "pg_store \<Rightarrow> time \<Rightarrow> pg_store \<times> (idem_error, int) result" where
  "pg_CountExpiredPending s now =
     (if pg_pool_nil s then (s, Inl StoreFailed)
      else
        let (s1, ok) = driver_call s
        in if \<not> ok then (s1, Inl StoreFailed)
           else (s1, Inr (int (length (filter (\<lambda>(k, e). ie_expiresAt e \<le> now) (pg_rows s1))))))"

section \<open>The middleware\<close>

record 's idem_ops =
  op_GetOrInsert :: "'s \<Rightarrow> time \<Rightarrow> duration \<Rightarrow> idem_request \<Rightarrow> 's \<times> (idem_error, reservation) result"
  op_UpdateResponse :: "'s \<Rightarrow> string \<Rightarrow> string \<Rightarrow> int \<Rightarrow> string \<Rightarrow> 's"
  op_Delete :: "'s \<Rightarrow> string \<Rightarrow> string \<Rightarrow> 's"
  op_DeleteExpired :: "'s \<Rightarrow> time \<Rightarrow> int \<Rightarrow> 's"

definition mem_ops :: "mem_store idem_ops" where
  "mem_ops = \<lparr>op_GetOrInsert = mem_GetOrInsert, op_UpdateResponse = mem_UpdateResponse, op_Delete = mem_Delete,
     op_DeleteExpired = (\<lambda>s now n. fst (mem_DeleteExpiredBatch s now n))\<rparr>"

definition pg_ops :: "(string \<times> string \<Rightarrow> bool) \<Rightarrow> pg_store idem_ops" where
  "pg_ops locked = \<lparr>op_GetOrInsert = pg_GetOrInsert,
     op_UpdateResponse = (\<lambda>s scope key st b. fst (pg_UpdateResponse s scope key st b)),
     op_Delete = (\<lambda>s scope key. fst (pg_DeleteKey s scope key)),
     op_DeleteExpired = (\<lambda>s now n. fst (pg_DeleteExpiredBatch s now n locked))\<rparr>"

definition DefaultIdempotencyTTL :: duration where
  "DefaultIdempotencyTTL = 24 * Hour"

text \<open>An HTTP request as the middleware reads it; the body is \<open>None\<close> when reading it fails.\<close>

record http_request =
  hr_method :: string
  hr_path :: string
  hr_idempotencyKey :: string
  hr_tenantID :: "string option"
  hr_callerID :: "string option"
  hr_body :: "string option"

definition request_scope :: "http_request \<Rightarrow> string" where
  "request_scope h = (case (hr_tenantID h, hr_callerID h) of
      (Some t, Some c) \<Rightarrow> t @ '':'' @ c
    | (Some t, None) \<Rightarrow> t @ '':anonymous''
    | (None, Some c) \<Rightarrow> ''anonymous:'' @ c
    | (None, None) \<Rightarrow> ''anonymous'')"

datatype admission = Bypass | Refuse int | ReplayResponse int string | Proceed idem_request

text \<open>The part of the handler before \<^verbatim>\<open>c.Next()\<close>; \<open>sha\<close> is the hexadecimal SHA-256.\<close>

definition Idempotency_before ::
    "'s idem_ops \<Rightarrow> (string \<Rightarrow> string) \<Rightarrow> 's \<Rightarrow> time \<Rightarrow> http_request \<Rightarrow> 's \<times> admission" where
  "Idempotency_before ops sha s now h =
     (if hr_method h \<in> {''GET'', ''HEAD'', ''OPTIONS''} then (s, Bypass)
      else if hr_idempotencyKey h = '''' then (s, Refuse 400)
      else if length (hr_idempotencyKey h) > 255 then (s, Refuse 400)
      else case hr_body h of
        None \<Rightarrow> (s, Refuse 500)
      | Some body \<Rightarrow>
          (let r = \<lparr>ir_scope = request_scope h, ir_key = hr_idempotencyKey h, ir_method = hr_method h,
                    ir_path = hr_path h, ir_hash = sha body\<rparr>
           in case op_GetOrInsert ops s now DefaultIdempotencyTTL r of
                (s', Inl ErrRequestMismatch) \<Rightarrow> (s', Refuse 422)
              | (s', Inl StoreFailed) \<Rightarrow> (s', Refuse 500)
              | (s', Inr InFlight) \<Rightarrow> (s', Refuse 409)
              | (s', Inr (Replay st b)) \<Rightarrow> (s', ReplayResponse st b)
              | (s', Inr Reserved) \<Rightarrow> (s', Proceed r)))"

definition success_status :: "int \<Rightarrow> bool" where
  "success_status status \<longleftrightarrow> status \<ge> 200 \<and> status < 300"

text \<open>The part after \<^verbatim>\<open>c.Next()\<close>.\<close>

definition Idempotency_after :: "'s idem_ops \<Rightarrow> 's \<Rightarrow> idem_request \<Rightarrow> int \<Rightarrow> string \<Rightarrow> 's" where
  "Idempotency_after ops s r status body =
     (if success_status status then op_UpdateResponse ops s (ir_scope r) (ir_key r) status body
      else op_Delete ops s (ir_scope r) (ir_key r))"

section \<open>Concurrent requests\<close>

datatype ex_status = Running | Succeeded int string | Failed

record execution =
  ex_request :: idem_request
  ex_start :: time
  ex_status :: ex_status

record 's idem_state =
  st_store :: 's
  st_now :: time
  st_execs :: "execution list"

text \<open>
  Any interleaving of requests arriving, their handlers returning, the cleanup job and the clock;
  a handler does not run longer than the key lives.
\<close>

inductive idem_step :: "'s idem_ops \<Rightarrow> (string \<Rightarrow> string) \<Rightarrow> 's idem_state \<Rightarrow> 's idem_state \<Rightarrow> bool" for ops sha where
  Arrive_proceed: "Idempotency_before ops sha (st_store st) (st_now st) h = (s', Proceed r) \<Longrightarrow>
    idem_step ops sha st (st\<lparr>st_store := s',
      st_execs := st_execs st @ [\<lparr>ex_request = r, ex_start = st_now st, ex_status = Running\<rparr>]\<rparr>)"
| Arrive_other: "\<lbrakk>Idempotency_before ops sha (st_store st) (st_now st) h = (s', a); \<forall>r. a \<noteq> Proceed r\<rbrakk> \<Longrightarrow>
    idem_step ops sha st (st\<lparr>st_store := s'\<rparr>)"
| Return: "\<lbrakk>i < length (st_execs st); x = st_execs st ! i; ex_status x = Running\<rbrakk> \<Longrightarrow>
    idem_step ops sha st (st\<lparr>st_store := Idempotency_after ops (st_store st) (ex_request x) status body,
      st_execs := (st_execs st)[i := x\<lparr>ex_status := (if success_status status then Succeeded status body else Failed)\<rparr>]\<rparr>)"
| Cleanup: "idem_step ops sha st (st\<lparr>st_store := op_DeleteExpired ops (st_store st) (st_now st) batchSize\<rparr>)"
| Tick: "\<lbrakk>st_now st \<le> now; \<forall>x \<in> set (st_execs st). ex_status x = Running \<longrightarrow> now < ex_start x + DefaultIdempotencyTTL\<rbrakk> \<Longrightarrow>
    idem_step ops sha st (st\<lparr>st_now := now\<rparr>)"

inductive_cases idem_stepE: "idem_step ops sha st st'"

definition idem_init :: "'s \<Rightarrow> time \<Rightarrow> 's idem_state" where
  "idem_init s now = \<lparr>st_store = s, st_now = now, st_execs = []\<rparr>"

section \<open>The contract of a store\<close>

text \<open>
  \<open>view\<close> is what a store holds, under the slot it files a scope and key in.  Writes of a response and
  deletions may fail silently, which the middleware ignores.
\<close>

locale idem_store =
  fixes ops :: "'s idem_ops"
    and view :: "'s \<Rightarrow> 'k \<Rightarrow> idem_entry option"
    and slot :: "string \<Rightarrow> string \<Rightarrow> 'k"
  assumes reserve: "op_GetOrInsert ops s now ttl r = (s', Inr Reserved) \<Longrightarrow>
      (\<forall>e. view s (slot (ir_scope r) (ir_key r)) = Some e \<longrightarrow> ie_expiresAt e < now)
      \<and> view s' = (view s)(slot (ir_scope r) (ir_key r) \<mapsto> fresh_entry now ttl r)"
    and refuse: "\<lbrakk>op_GetOrInsert ops s now ttl r = (s', res); res \<noteq> Inr Reserved\<rbrakk> \<Longrightarrow> view s' = view s"
    and replay: "op_GetOrInsert ops s now ttl r = (s', Inr (Replay status b)) \<Longrightarrow>
      \<exists>e. view s (slot (ir_scope r) (ir_key r)) = Some e \<and> ie_statusCode e = status \<and> ie_responseBody e = b
        \<and> status \<noteq> 0 \<and> same_request e r"
    and respond: "view (op_UpdateResponse ops s sc k status b) = view s
      \<or> view (op_UpdateResponse ops s sc k status b)
          = (view s)(slot sc k := map_option (with_response status b) (view s (slot sc k)))"
    and remove: "view (op_Delete ops s sc k) = view s \<or> view (op_Delete ops s sc k) = (view s)(slot sc k := None)"
    and cleanup: "view (op_DeleteExpired ops s now n) x = view s x
      \<or> (\<exists>e. view s x = Some e \<and> ie_expiresAt e \<le> now) \<and> view (op_DeleteExpired ops s now n) x = None"

lemma TTL_pos: "0 < DefaultIdempotencyTTL"
  by (simp add: DefaultIdempotencyTTL_def)

text \<open>An execution is live while it has not failed and its key has not expired.\<close>

definition live :: "time \<Rightarrow> execution \<Rightarrow> bool" where
  "live now x \<longleftrightarrow> ex_status x \<noteq> Failed \<and> now < ex_start x + DefaultIdempotencyTTL"

text \<open>What the entry of a live execution looks like.\<close>

definition entry_of :: "execution \<Rightarrow> idem_entry \<Rightarrow> bool" where
  "entry_of x e \<longleftrightarrow> ie_expiresAt e = ex_start x + DefaultIdempotencyTTL \<and> same_request e (ex_request x)"

definition response_of :: "idem_entry \<Rightarrow> execution \<Rightarrow> bool" where
  "response_of e x \<longleftrightarrow> ex_status x = Succeeded (ie_statusCode e) (ie_responseBody e) \<and> same_request e (ex_request x)"

context idem_store
begin

definition ex_slot :: "execution \<Rightarrow> 'k" where
  "ex_slot x = slot (ir_scope (ex_request x)) (ir_key (ex_request x))"

definition idem_inv :: "'s idem_state \<Rightarrow> bool" where
  "idem_inv st \<longleftrightarrow>
     (\<forall>x \<in> set (st_execs st). ex_start x \<le> st_now st \<and> (ex_status x = Running \<longrightarrow> live (st_now st) x))
     \<and> (\<forall>x \<in> set (st_execs st). live (st_now st) x \<longrightarrow> (\<exists>e. view (st_store st) (ex_slot x) = Some e \<and> entry_of x e))
     \<and> (\<forall>i j. i < j \<longrightarrow> j < length (st_execs st) \<longrightarrow> ex_slot (st_execs st ! i) = ex_slot (st_execs st ! j)
          \<longrightarrow> ex_status (st_execs st ! i) \<noteq> Failed
          \<longrightarrow> ex_start (st_execs st ! i) + DefaultIdempotencyTTL \<le> ex_start (st_execs st ! j))
     \<and> (\<forall>k e. view (st_store st) k = Some e \<longrightarrow> ie_statusCode e \<noteq> 0
          \<longrightarrow> (\<exists>x \<in> set (st_execs st). ex_slot x = k \<and> response_of e x))"

lemma idem_invI:
  assumes "\<And>x. x \<in> set xs \<Longrightarrow> ex_start x \<le> st_now st \<and> (ex_status x = Running \<longrightarrow> live (st_now st) x)"
    and "\<And>x. \<lbrakk>x \<in> set xs; live (st_now st) x\<rbrakk> \<Longrightarrow> \<exists>e. view s (ex_slot x) = Some e \<and> entry_of x e"
    and "\<And>i j. \<lbrakk>i < j; j < length xs; ex_slot (xs ! i) = ex_slot (xs ! j); ex_status (xs ! i) \<noteq> Failed\<rbrakk>
      \<Longrightarrow> ex_start (xs ! i) + DefaultIdempotencyTTL \<le> ex_start (xs ! j)"
    and "\<And>k e. \<lbrakk>view s k = Some e; ie_statusCode e \<noteq> 0\<rbrakk> \<Longrightarrow> \<exists>x \<in> set xs. ex_slot x = k \<and> response_of e x"
  shows "idem_inv (st\<lparr>st_store := s, st_execs := xs\<rparr>)"
  unfolding idem_inv_def using assms by simp

lemma inv_started: "\<lbrakk>idem_inv st; x \<in> set (st_execs st)\<rbrakk> \<Longrightarrow> ex_start x \<le> st_now st"
  by (simp add: idem_inv_def)

lemma inv_running: "\<lbrakk>idem_inv st; x \<in> set (st_execs st); ex_status x = Running\<rbrakk> \<Longrightarrow> live (st_now st) x"
  by (simp add: idem_inv_def)

lemma inv_entry: "\<lbrakk>idem_inv st; x \<in> set (st_execs st); live (st_now st) x\<rbrakk>
    \<Longrightarrow> \<exists>e. view (st_store st) (ex_slot x) = Some e \<and> entry_of x e"
  by (simp add: idem_inv_def)

lemma inv_apart: "\<lbrakk>idem_inv st; i < j; j < length (st_execs st); ex_slot (st_execs st ! i) = ex_slot (st_execs st ! j);
    ex_status (st_execs st ! i) \<noteq> Failed\<rbrakk>
    \<Longrightarrow> ex_start (st_execs st ! i) + DefaultIdempotencyTTL \<le> ex_start (st_execs st ! j)"
  by (simp add: idem_inv_def)

lemma inv_response: "\<lbrakk>idem_inv st; view (st_store st) k = Some e; ie_statusCode e \<noteq> 0\<rbrakk>
    \<Longrightarrow> \<exists>x \<in> set (st_execs st). ex_slot x = k \<and> response_of e x"
  by (simp add: idem_inv_def)

text \<open>Two live executions of one slot are the same.\<close>

lemma live_unique:
  assumes "idem_inv st" "i < length (st_execs st)" "j < length (st_execs st)"
    and "ex_slot (st_execs st ! i) = ex_slot (st_execs st ! j)"
    and "live (st_now st) (st_execs st ! i)" "live (st_now st) (st_execs st ! j)"
  shows "i = j"
proof (rule ccontr)
  assume "i \<noteq> j"
  then consider "i < j" | "j < i"
    by linarith
  then show False
  proof cases
    case 1
    then show ?thesis
      using inv_apart [OF assms(1) 1 assms(3,4)] inv_started [OF assms(1) nth_mem [OF assms(3)]] assms(5)
      by (simp add: live_def)
  next
    case 2
    then show ?thesis
      using inv_apart [OF assms(1) 2 assms(2)] assms(4) inv_started [OF assms(1) nth_mem [OF assms(2)]] assms(6)
      by (simp add: live_def)
  qed
qed

lemma inv_same_view:
  "\<lbrakk>idem_inv st; view s' = view (st_store st)\<rbrakk> \<Longrightarrow> idem_inv (st\<lparr>st_store := s'\<rparr>)"
  by (simp add: idem_inv_def)

lemma before_cases:
  assumes "Idempotency_before ops sha s now h = (s', a)"
  obtains (proceed) r where "a = Proceed r" "op_GetOrInsert ops s now DefaultIdempotencyTTL r = (s', Inr Reserved)"
    | (replayed) r status b body where "a = ReplayResponse status b"
        "op_GetOrInsert ops s now DefaultIdempotencyTTL r = (s', Inr (Replay status b))" "view s' = view s"
        "ir_scope r = request_scope h" "ir_key r = hr_idempotencyKey h" "ir_method r = hr_method h"
        "ir_path r = hr_path h" "hr_body h = Some body" "ir_hash r = sha body"
    | (refused) "\<forall>r. a \<noteq> Proceed r" "\<forall>status b. a \<noteq> ReplayResponse status b" "view s' = view s"
proof (cases "hr_method h \<in> {''GET'', ''HEAD'', ''OPTIONS''} \<or> hr_idempotencyKey h = [] \<or> length (hr_idempotencyKey h) > 255 \<or> hr_body h = None")
  case True
  then have "s' = s" "\<forall>r. a \<noteq> Proceed r" "\<forall>status b. a \<noteq> ReplayResponse status b"
    using assms by (auto simp: Idempotency_before_def split: if_splits option.splits)
  then show ?thesis
    using refused by simp
next
  case False
  then obtain body where body: "hr_body h = Some body"
    by auto
  let ?r = "\<lparr>ir_scope = request_scope h, ir_key = hr_idempotencyKey h, ir_method = hr_method h,
    ir_path = hr_path h, ir_hash = sha body\<rparr>"
  obtain s1 res where g: "op_GetOrInsert ops s now DefaultIdempotencyTTL ?r = (s1, res)"
    by (rule prod.exhaust)
  have b: "Idempotency_before ops sha s now h = (case res of
      Inl ErrRequestMismatch \<Rightarrow> (s1, Refuse 422) | Inl StoreFailed \<Rightarrow> (s1, Refuse 500)
    | Inr InFlight \<Rightarrow> (s1, Refuse 409) | Inr (Replay st b) \<Rightarrow> (s1, ReplayResponse st b)
    | Inr Reserved \<Rightarrow> (s1, Proceed ?r))"
    using False body g by (simp add: Idempotency_before_def)
  show ?thesis
  proof (cases res)
    case (Inl e)
    then have "\<forall>r. a \<noteq> Proceed r" "\<forall>status b. a \<noteq> ReplayResponse status b" "s' = s1"
      using assms b by (cases e; auto)+
    then show ?thesis
      using refused refuse [OF g] Inl by simp
  next
    case (Inr rv)
    show ?thesis
    proof (cases rv)
      case Reserved
      then show ?thesis
        using proceed [of ?r] assms b g Inr by simp
    next
      case InFlight
      then have "a = Refuse 409" "s' = s1"
        using assms b Inr by simp_all
      then show ?thesis
        using refused refuse [OF g] InFlight Inr by simp
    next
      case (Replay status rb)
      then show ?thesis
        using replayed [of status rb ?r body] refuse [OF g] assms b g body Inr by simp
    qed
  qed
qed

lemma inv_reserve:
  assumes inv: "idem_inv st" and g: "op_GetOrInsert ops (st_store st) (st_now st) DefaultIdempotencyTTL r = (s', Inr Reserved)"
  shows "idem_inv (st\<lparr>st_store := s',
    st_execs := st_execs st @ [\<lparr>ex_request = r, ex_start = st_now st, ex_status = Running\<rparr>]\<rparr>)"
proof -
  let ?k = "slot (ir_scope r) (ir_key r)"
  let ?x = "\<lparr>ex_request = r, ex_start = st_now st, ex_status = Running\<rparr>"
  let ?xs = "st_execs st @ [?x]"
  have view: "view s' = (view (st_store st))(?k \<mapsto> fresh_entry (st_now st) DefaultIdempotencyTTL r)"
    and free: "\<And>e. view (st_store st) ?k = Some e \<Longrightarrow> ie_expiresAt e < st_now st"
    using reserve [OF g] by blast+
  have dead: "\<not> live (st_now st) x" if "x \<in> set (st_execs st)" "ex_slot x = ?k" for x
    using inv_entry [OF inv that(1)] free that(2) by (fastforce simp: entry_of_def live_def)
  have new: "ex_slot ?x = ?k" "live (st_now st) ?x" "entry_of ?x (fresh_entry (st_now st) DefaultIdempotencyTTL r)"
    using TTL_pos by (simp_all add: ex_slot_def live_def entry_of_def fresh_entry_def same_request_def)
  have c1: "ex_start x \<le> st_now st \<and> (ex_status x = Running \<longrightarrow> live (st_now st) x)" if "x \<in> set ?xs" for x
    using inv_started [OF inv, of x] inv_running [OF inv, of x] new(2) that by auto
  have c2: "\<exists>e. view s' (ex_slot x) = Some e \<and> entry_of x e" if "x \<in> set ?xs" "live (st_now st) x" for x
    using inv_entry [OF inv, of x] dead [of x] new that unfolding view by (cases "x = ?x") auto
  have c3: "ex_start (?xs ! i) + DefaultIdempotencyTTL \<le> ex_start (?xs ! j)"
    if "i < j" "j < length ?xs" "ex_slot (?xs ! i) = ex_slot (?xs ! j)" "ex_status (?xs ! i) \<noteq> Failed" for i j
  proof (cases "j < length (st_execs st)")
    case True
    then show ?thesis
      using inv_apart [OF inv that(1) True] that by (simp add: nth_append)
  next
    case False
    then have j: "j = length (st_execs st)"
      using that(2) by simp
    have "\<not> live (st_now st) (st_execs st ! i)"
      using dead [of "st_execs st ! i"] that j new(1) by (simp add: nth_append)
    then show ?thesis
      using that j by (simp add: nth_append live_def)
  qed
  have c4: "\<exists>x \<in> set ?xs. ex_slot x = k \<and> response_of e x" if "view s' k = Some e" "ie_statusCode e \<noteq> 0" for k e
    using inv_response [OF inv, of k e] that unfolding view by (auto simp: fresh_entry_def split: if_splits)
  show ?thesis
    by (rule idem_invI) (fact c1 c2 c3 c4)+
qed

lemma inv_return:
  assumes inv: "idem_inv st" and i: "i < length (st_execs st)" "ex_status (st_execs st ! i) = Running"
    and view: "view s' = view (st_store st) \<and> status' \<noteq> Running
      \<or> status' = Failed \<and> view s' = (view (st_store st))(ex_slot (st_execs st ! i) := None)
      \<or> status' = Succeeded code b \<and> view s' = (view (st_store st))(ex_slot (st_execs st ! i) :=
            map_option (with_response code b) (view (st_store st) (ex_slot (st_execs st ! i))))"
  shows "idem_inv (st\<lparr>st_store := s', st_execs := (st_execs st)[i := (st_execs st ! i)\<lparr>ex_status := status'\<rparr>]\<rparr>)"
proof -
  let ?x = "st_execs st ! i"
  let ?x' = "?x\<lparr>ex_status := status'\<rparr>"
  let ?xs = "(st_execs st)[i := ?x']"
  have x: "?x \<in> set (st_execs st)" "live (st_now st) ?x"
    using inv_running [OF inv nth_mem [OF i(1)] i(2)] i(1) by simp_all
  obtain e0 where e0: "view (st_store st) (ex_slot ?x) = Some e0" "entry_of ?x e0"
    using inv_entry [OF inv x] by blast
  have slots: "ex_slot ?x' = ex_slot ?x" "ex_start ?x' = ex_start ?x" "ex_request ?x' = ex_request ?x"
    by (simp_all add: ex_slot_def)
  have nth: "?xs ! j = (if j = i then ?x' else st_execs st ! j)" if "j < length (st_execs st)" for j
    using that by simp
  have c1: "ex_start y \<le> st_now st \<and> (ex_status y = Running \<longrightarrow> live (st_now st) y)" if "y \<in> set ?xs" for y
  proof (cases "y = ?x'")
    case True
    then show ?thesis
      using inv_started [OF inv x(1)] view by auto
  next
    case False
    then have "y \<in> set (st_execs st)"
      using set_update_subset_insert [of "st_execs st" i ?x'] that by blast
    then show ?thesis
      using inv_started [OF inv] inv_running [OF inv] by blast
  qed
  have c2: "\<exists>e. view s' (ex_slot y) = Some e \<and> entry_of y e" if "y \<in> set ?xs" "live (st_now st) y" for y
  proof -
    obtain j where j: "j < length (st_execs st)" "y = ?xs ! j"
      using \<open>y \<in> set ?xs\<close> by (metis in_set_conv_nth length_list_update)
    show ?thesis
    proof (cases "j = i")
      case True
      then have "y = ?x'" "status' \<noteq> Failed"
        using j nth that(2) by (auto simp: live_def)
      then show ?thesis
        using view e0 slots by (auto simp: entry_of_def with_response_def same_request_def)
    next
      case False
      then have y: "y = st_execs st ! j"
        using j nth by simp
      then have "ex_slot y \<noteq> ex_slot ?x"
        using live_unique [OF inv j(1) i(1)] that(2) x(2) False by auto
      then show ?thesis
        using inv_entry [OF inv, of y] j(1) y that(2) view by auto
    qed
  qed
  have c3: "ex_start (?xs ! a) + DefaultIdempotencyTTL \<le> ex_start (?xs ! b)"
    if "a < b" "b < length ?xs" "ex_slot (?xs ! a) = ex_slot (?xs ! b)" "ex_status (?xs ! a) \<noteq> Failed" for a b
    using inv_apart [OF inv that(1)] that slots i(2) by (auto simp: nth split: if_splits)
  have c4: "\<exists>y \<in> set ?xs. ex_slot y = k \<and> response_of e y" if e: "view s' k = Some e" "ie_statusCode e \<noteq> 0" for k e
  proof -
    have old: "\<exists>y \<in> set ?xs. ex_slot y = k \<and> response_of e y" if stored: "view (st_store st) k = Some e"
    proof -
      obtain y j where "j < length (st_execs st)" "y = st_execs st ! j" "ex_slot y = k" "response_of e y"
        using inv_response [OF inv stored e(2)] by (metis in_set_conv_nth)
      moreover from this have "j \<noteq> i"
        using i(2) by (auto simp: response_of_def)
      ultimately show ?thesis
        by (metis length_list_update nth_list_update_neq nth_mem)
    qed
    show ?thesis
    proof (cases "view s' k = view (st_store st) k")
      case False
      then have "status' = Succeeded code b" "e = with_response code b e0" "k = ex_slot ?x"
        using view e e0 by (auto split: if_splits)
      then have "response_of e ?x'"
        using e0(2) by (simp add: response_of_def with_response_def entry_of_def same_request_def)
      moreover have "?x' \<in> set ?xs"
        using i(1) by (simp add: set_update_memI)
      ultimately show ?thesis
        using \<open>k = ex_slot ?x\<close> slots(1) by auto
    next
      case True
      then show ?thesis
        using old e by simp
    qed
  qed
  show ?thesis
    by (rule idem_invI) (fact c1 c2 c3 c4)+
qed

lemma inv_after:
  assumes inv: "idem_inv st" and i: "i < length (st_execs st)" "ex_status (st_execs st ! i) = Running"
  shows "idem_inv (st\<lparr>st_store := Idempotency_after ops (st_store st) (ex_request (st_execs st ! i)) status body,
    st_execs := (st_execs st)[i := (st_execs st ! i)\<lparr>ex_status :=
      (if success_status status then Succeeded status body else Failed)\<rparr>]\<rparr>)"
proof (rule inv_return [OF inv i, of _ _ status body])
  let ?r = "ex_request (st_execs st ! i)"
  have "ex_slot (st_execs st ! i) = slot (ir_scope ?r) (ir_key ?r)"
    by (simp add: ex_slot_def)
  then show "view (Idempotency_after ops (st_store st) ?r status body) = view (st_store st)
        \<and> (if success_status status then Succeeded status body else Failed) \<noteq> Running
      \<or> (if success_status status then Succeeded status body else Failed) = Failed
        \<and> view (Idempotency_after ops (st_store st) ?r status body) = (view (st_store st))(ex_slot (st_execs st ! i) := None)
      \<or> (if success_status status then Succeeded status body else Failed) = Succeeded status body
        \<and> view (Idempotency_after ops (st_store st) ?r status body) = (view (st_store st))(ex_slot (st_execs st ! i) :=
            map_option (with_response status body) (view (st_store st) (ex_slot (st_execs st ! i))))"
    using respond [of "st_store st" "ir_scope ?r" "ir_key ?r" status body] remove [of "st_store st" "ir_scope ?r" "ir_key ?r"]
    by (simp add: Idempotency_after_def)
qed

lemma inv_cleanup:
  assumes "idem_inv st"
  shows "idem_inv (st\<lparr>st_store := op_DeleteExpired ops (st_store st) (st_now st) n\<rparr>)"
proof -
  let ?s = "op_DeleteExpired ops (st_store st) (st_now st) n"
  have kept: "view ?s k = Some e" if "view (st_store st) k = Some e" "st_now st < ie_expiresAt e" for k e
    using cleanup [of "st_store st" "st_now st" n k] that by auto
  have old: "view (st_store st) k = Some e" if "view ?s k = Some e" for k e
    using cleanup [of "st_store st" "st_now st" n k] that by auto
  have "idem_inv (st\<lparr>st_store := ?s, st_execs := st_execs st\<rparr>)"
  proof (rule idem_invI)
    fix x
    assume x: "x \<in> set (st_execs st)"
    then show "ex_start x \<le> st_now st \<and> (ex_status x = Running \<longrightarrow> live (st_now st) x)"
      using inv_started [OF assms] inv_running [OF assms] by blast
    assume l: "live (st_now st) x"
    obtain e where "view (st_store st) (ex_slot x) = Some e" "entry_of x e"
      using inv_entry [OF assms x l] by blast
    then show "\<exists>e. view ?s (ex_slot x) = Some e \<and> entry_of x e"
      using kept l by (auto simp: entry_of_def live_def)
  qed (use inv_apart [OF assms] inv_response [OF assms] old in blast)+
  then show ?thesis
    by simp
qed

lemma inv_tick:
  assumes "idem_inv st" "st_now st \<le> now"
    and "\<forall>x \<in> set (st_execs st). ex_status x = Running \<longrightarrow> now < ex_start x + DefaultIdempotencyTTL"
  shows "idem_inv (st\<lparr>st_now := now\<rparr>)"
proof -
  have l: "live (st_now st) x" if "live now x" for x
    using that assms(2) by (simp add: live_def)
  have "idem_inv (st\<lparr>st_now := now, st_store := st_store st, st_execs := st_execs st\<rparr>)"
  proof (rule idem_invI)
    fix x
    assume x: "x \<in> set (st_execs st)"
    then show "ex_start x \<le> st_now (st\<lparr>st_now := now\<rparr>) \<and> (ex_status x = Running \<longrightarrow> live (st_now (st\<lparr>st_now := now\<rparr>)) x)"
      using inv_started [OF assms(1) x] assms(2,3) by (auto simp: live_def)
    assume "live (st_now (st\<lparr>st_now := now\<rparr>)) x"
    then show "\<exists>e. view (st_store st) (ex_slot x) = Some e \<and> entry_of x e"
      using inv_entry [OF assms(1) x] l by simp
  qed (use inv_apart [OF assms(1)] inv_response [OF assms(1)] in blast)+
  then show ?thesis
    by simp
qed

lemma inv_step:
  assumes "idem_step ops sha st st'" "idem_inv st"
  shows "idem_inv st'"
  using assms(1)
proof (cases rule: idem_step.cases)
  case (Arrive_proceed h s' r)
  then show ?thesis
    using inv_reserve [OF assms(2)] by (elim before_cases) auto
next
  case (Arrive_other h s' a)
  then show ?thesis
    using inv_same_view [OF assms(2)] by (elim before_cases) auto
next
  case (Return i x status body)
  then show ?thesis
    using inv_after [OF assms(2), of i status body] by simp
next
  case (Cleanup n)
  then show ?thesis
    using inv_cleanup [OF assms(2)] by simp
next
  case (Tick now)
  then show ?thesis
    using inv_tick [OF assms(2)] by simp
qed

lemma inv_reachable:
  assumes "rtranclp (idem_step ops sha) (idem_init s0 t0) st" "view s0 = Map.empty"
  shows "idem_inv st"
  using assms(1)
proof (induction rule: rtranclp_induct)
  case base
  then show ?case
    using assms(2) by (simp add: idem_inv_def idem_init_def)
next
  case (step st st')
  then show ?case
    using inv_step by blast
qed

lemma executed_once:
  assumes "rtranclp (idem_step ops sha) (idem_init s0 t0) st" "view s0 = Map.empty"
    and "i < j" "j < length (st_execs st)" "ex_slot (st_execs st ! i) = ex_slot (st_execs st ! j)"
    and "ex_status (st_execs st ! i) \<noteq> Failed"
  shows "ex_start (st_execs st ! i) + DefaultIdempotencyTTL \<le> ex_start (st_execs st ! j)"
  using inv_apart [OF inv_reachable [OF assms(1,2)] assms(3-6)] .

lemma replayed_response:
  assumes "rtranclp (idem_step ops sha) (idem_init s0 t0) st" "view s0 = Map.empty"
    and "Idempotency_before ops sha (st_store st) (st_now st) h = (s', ReplayResponse status b)"
  shows "\<exists>x \<in> set (st_execs st). ex_slot x = slot (request_scope h) (hr_idempotencyKey h)
    \<and> ex_status x = Succeeded status b \<and> ir_method (ex_request x) = hr_method h
    \<and> ir_path (ex_request x) = hr_path h \<and> (\<exists>body. hr_body h = Some body \<and> ir_hash (ex_request x) = sha body)"
proof -
  have inv: "idem_inv st"
    using assms(1,2) by (rule inv_reachable)
  show ?thesis
    using assms(3)
  proof (cases rule: before_cases)
    case (replayed r status' b' body)
    then obtain e where e: "view (st_store st) (slot (ir_scope r) (ir_key r)) = Some e" "ie_statusCode e = status"
        "ie_responseBody e = b" "status \<noteq> 0" "same_request e r"
      using replay by blast
    then obtain x where "x \<in> set (st_execs st)" "ex_slot x = slot (ir_scope r) (ir_key r)" "response_of e x"
      using inv_response [OF inv] by blast
    then show ?thesis
      using e replayed by (auto simp: response_of_def same_request_def intro!: bexI [of _ x])
  qed simp_all
qed

end

section \<open>The two stores keep the contract\<close>

lemma map_of_filter_keys: "map_of (filter (\<lambda>(k, e). k \<notin> K) xs) x = (if x \<in> K then None else map_of xs x)"
  by (induction xs) auto

lemma expired_loop_keeps:
  "map_of (fst (delete_expired_loop now n d ks s)) x = map_of s x
    \<or> (\<exists>e. map_of s x = Some e \<and> ie_expiresAt e < now) \<and> map_of (fst (delete_expired_loop now n d ks s)) x = None"
  by (induction now n d ks s rule: delete_expired_loop.induct) (auto simp: delete_conv split: option.splits if_splits)

lemma mem_reserve:
  assumes "mem_GetOrInsert s now ttl r = (s', Inr Reserved)"
  shows "(\<forall>e. map_of s (mapKey (ir_scope r) (ir_key r)) = Some e \<longrightarrow> ie_expiresAt e < now)
    \<and> map_of s' = (map_of s)(mapKey (ir_scope r) (ir_key r) \<mapsto> fresh_entry now ttl r)"
  using assms
  by (auto simp: mem_GetOrInsert_def Let_def delete_conv update_conv split: option.splits if_splits)

lemma mem_refuse:
  assumes "mem_GetOrInsert s now ttl r = (s', res)" "res \<noteq> Inr Reserved"
  shows "map_of s' = map_of s"
  using assms by (auto simp: mem_GetOrInsert_def Let_def delete_conv update_conv split: option.splits if_splits)

lemma mem_replay:
  assumes "mem_GetOrInsert s now ttl r = (s', Inr (Replay status b))"
  shows "\<exists>e. map_of s (mapKey (ir_scope r) (ir_key r)) = Some e \<and> ie_statusCode e = status \<and> ie_responseBody e = b
    \<and> status \<noteq> 0 \<and> same_request e r"
  using assms by (auto simp: mem_GetOrInsert_def Let_def delete_conv update_conv split: option.splits if_splits)

interpretation memstore: idem_store mem_ops map_of mapKey
proof (unfold_locales, unfold mem_ops_def idem_ops.simps)
  fix s :: mem_store and sc k status b
  show "map_of (mem_UpdateResponse s sc k status b) = map_of s
      \<or> map_of (mem_UpdateResponse s sc k status b)
          = (map_of s)(mapKey sc k := map_option (with_response status b) (map_of s (mapKey sc k)))"
    by (cases "map_of s (mapKey sc k)") (simp_all add: mem_UpdateResponse_def update_conv')
  show "map_of (mem_Delete s sc k) = map_of s \<or> map_of (mem_Delete s sc k) = (map_of s)(mapKey sc k := None)"
    by (simp add: mem_Delete_def delete_conv')
next
  fix s :: mem_store and now n x
  show "map_of (fst (mem_DeleteExpiredBatch s now n)) x = map_of s x
      \<or> (\<exists>e. map_of s x = Some e \<and> ie_expiresAt e \<le> now) \<and> map_of (fst (mem_DeleteExpiredBatch s now n)) x = None"
    using expired_loop_keeps [of now n 0 "map fst s" s x] by (auto simp: mem_DeleteExpiredBatch_def)
qed (erule mem_reserve mem_refuse mem_replay; assumption)+

lemma driver_call_rows: "driver_call s = (s', ok) \<Longrightarrow> pg_rows s' = pg_rows s"
  by (auto simp: driver_call_def)

lemma write_commit_cases:
  assumes "write_commit s k e = (s', res)"
  shows "res = Inr Reserved \<and> pg_rows s' = AList.update k e (pg_rows s) \<or> res = Inl StoreFailed \<and> pg_rows s' = pg_rows s"
  using assms by (auto simp: write_commit_def Let_def dest!: driver_call_rows split: prod.splits if_splits)

lemma pg_get_cases:
  assumes "pg_GetOrInsert s now ttl r = (s', res)"
  shows "res = Inr Reserved \<and> pg_rows s' = AList.update (ir_scope r, ir_key r) (fresh_entry now ttl r) (pg_rows s)
        \<and> (\<forall>e. map_of (pg_rows s) (ir_scope r, ir_key r) = Some e \<longrightarrow> ie_expiresAt e < now)
    \<or> res \<noteq> Inr Reserved \<and> pg_rows s' = pg_rows s
        \<and> (\<forall>status b. res = Inr (Replay status b) \<longrightarrow>
            (\<exists>e. map_of (pg_rows s) (ir_scope r, ir_key r) = Some e \<and> ie_statusCode e = status \<and> ie_responseBody e = b
              \<and> status \<noteq> 0 \<and> same_request e r))"
  using assms
  by (auto simp: pg_GetOrInsert_def Let_def dest!: driver_call_rows write_commit_cases
      split: prod.splits if_splits option.splits)

definition pg_view :: "pg_store \<Rightarrow> string \<times> string \<Rightarrow> idem_entry option" where
  "pg_view s = map_of (pg_rows s)"

lemma pg_respond:
  "pg_view (fst (pg_UpdateResponse s sc k status b)) = pg_view s
    \<or> pg_view (fst (pg_UpdateResponse s sc k status b))
        = (pg_view s)((sc, k) := map_option (with_response status b) (pg_view s (sc, k)))"
proof -
  obtain s1 ok where d: "driver_call s = (s1, ok)"
    by (rule prod.exhaust)
  then show ?thesis
    using driver_call_rows [OF d]
    by (cases "map_of (pg_rows s) (sc, k)") (auto simp: pg_UpdateResponse_def pg_view_def update_conv')
qed

lemma pg_remove:
  "pg_view (fst (pg_DeleteKey s sc k)) = pg_view s \<or> pg_view (fst (pg_DeleteKey s sc k)) = (pg_view s)((sc, k) := None)"
proof -
  obtain s1 ok where d: "driver_call s = (s1, ok)"
    by (rule prod.exhaust)
  then show ?thesis
    using driver_call_rows [OF d] by (auto simp: pg_DeleteKey_def pg_view_def delete_conv')
qed

lemma pg_cleanup:
  "pg_view (fst (pg_DeleteExpiredBatch s now n locked)) x = pg_view s x
    \<or> (\<exists>e. pg_view s x = Some e \<and> ie_expiresAt e \<le> now) \<and> pg_view (fst (pg_DeleteExpiredBatch s now n locked)) x = None"
proof -
  obtain s1 ok where d: "driver_call s = (s1, ok)"
    by (rule prod.exhaust)
  define victims where "victims = take (nat n) (filter (\<lambda>k. \<not> locked k \<and> (case map_of (pg_rows s) k of Some e \<Rightarrow> ie_expiresAt e \<le> now | None \<Rightarrow> False))
    (map fst (pg_rows s)))"
  have "\<exists>e. map_of (pg_rows s) x = Some e \<and> ie_expiresAt e \<le> now" if "x \<in> set victims"
  proof -
    have "x \<in> set (filter (\<lambda>k. \<not> locked k \<and> (case map_of (pg_rows s) k of Some e \<Rightarrow> ie_expiresAt e \<le> now | None \<Rightarrow> False))
        (map fst (pg_rows s)))"
      using that unfolding victims_def by (rule in_set_takeD)
    then show ?thesis
      by (cases "map_of (pg_rows s) x") simp_all
  qed
  moreover have "pg_rows (fst (pg_DeleteExpiredBatch s now n locked)) \<in> {pg_rows s, filter (\<lambda>(k, e). k \<notin> set victims) (pg_rows s)}"
    using driver_call_rows [OF d] d by (auto simp: pg_DeleteExpiredBatch_def Let_def victims_def)
  ultimately show ?thesis
    unfolding pg_view_def by (cases "x \<in> set victims") (auto simp: map_of_filter_keys)
qed

interpretation pgstore: idem_store "pg_ops locked" pg_view Pair for locked
proof (unfold_locales, unfold pg_ops_def idem_ops.simps)
  fix s now ttl and r :: idem_request and s'
  assume "pg_GetOrInsert s now ttl r = (s', Inr Reserved)"
  then show "(\<forall>e. pg_view s (ir_scope r, ir_key r) = Some e \<longrightarrow> ie_expiresAt e < now)
      \<and> pg_view s' = (pg_view s)((ir_scope r, ir_key r) \<mapsto> fresh_entry now ttl r)"
    using pg_get_cases by (fastforce simp: pg_view_def update_conv')
next
  fix s now ttl and r :: idem_request and s' res
  assume "pg_GetOrInsert s now ttl r = (s', res)" "res \<noteq> Inr Reserved"
  then show "pg_view s' = pg_view s"
    using pg_get_cases by (fastforce simp: pg_view_def)
next
  fix s now ttl and r :: idem_request and s' status b
  assume "pg_GetOrInsert s now ttl r = (s', Inr (Replay status b))"
  then show "\<exists>e. pg_view s (ir_scope r, ir_key r) = Some e \<and> ie_statusCode e = status \<and> ie_responseBody e = b
      \<and> status \<noteq> 0 \<and> same_request e r"
    using pg_get_cases by (fastforce simp: pg_view_def)
qed (rule pg_respond pg_remove pg_cleanup)+

section \<open>Properties\<close>

definition pg_empty :: "bool list \<Rightarrow> pg_store" where
  "pg_empty faults = \<lparr>pg_rows = [], pg_faults = faults, pg_pool_nil = False\<rparr>"

lemma pg_empty_view: "pg_view (pg_empty faults) = Map.empty"
  by (simp add: pg_view_def pg_empty_def)

text \<open>
  C5: Under any interleaving of requests, handlers, cleanups and driver failures, a request with an
  idempotency key is executed at most once in twenty-four hours unless the earlier execution failed
  (and no handler runs for longer than that):
  two executions under one scope and key lie a day apart if the first one has not failed.
\<close>

theorem key_executes_once:
  assumes "rtranclp (idem_step (pg_ops locked) sha) (idem_init (pg_empty faults) t0) st"
    and "i < j" "j < length (st_execs st)"
    and "ir_scope (ex_request (st_execs st ! i)) = ir_scope (ex_request (st_execs st ! j))"
    and "ir_key (ex_request (st_execs st ! i)) = ir_key (ex_request (st_execs st ! j))"
    and "ex_status (st_execs st ! i) \<noteq> Failed"
  shows "ex_start (st_execs st ! i) + 24 * Hour \<le> ex_start (st_execs st ! j)"
  using pgstore.executed_once [OF assms(1) pg_empty_view assms(2,3) _ assms(6)] assms(4,5)
  by (simp add: pgstore.ex_slot_def DefaultIdempotencyTTL_def)

text \<open>
  A replayed response is the response of a successful execution of the same request: same scope
  and key, method, path and body hash.
\<close>

theorem replay_returns_original:
  assumes "rtranclp (idem_step (pg_ops locked) sha) (idem_init (pg_empty faults) t0) st"
    and "Idempotency_before (pg_ops locked) sha (st_store st) (st_now st) h = (s', ReplayResponse status b)"
  shows "\<exists>x \<in> set (st_execs st). ex_status x = Succeeded status b
    \<and> ir_scope (ex_request x) = request_scope h \<and> ir_key (ex_request x) = hr_idempotencyKey h
    \<and> ir_method (ex_request x) = hr_method h \<and> ir_path (ex_request x) = hr_path h
    \<and> (\<exists>body. hr_body h = Some body \<and> ir_hash (ex_request x) = sha body)"
  using pgstore.replayed_response [OF assms(1) pg_empty_view assms(2)]
  by (auto simp: pgstore.ex_slot_def)

text \<open>A request that is executed, answered, and sent again.\<close>

definition sample_http :: http_request where
  "sample_http = \<lparr>hr_method = ''POST'', hr_path = ''/s'', hr_idempotencyKey = ''k'', hr_tenantID = Some ''t'',
     hr_callerID = None, hr_body = Some ''b''\<rparr>"

definition sample_idem :: idem_request where
  "sample_idem = \<lparr>ir_scope = ''t:anonymous'', ir_key = ''k'', ir_method = ''POST'', ir_path = ''/s'', ir_hash = ''b''\<rparr>"

definition sample_execution :: "time \<Rightarrow> ex_status \<Rightarrow> execution" where
  "sample_execution t status = \<lparr>ex_request = sample_idem, ex_start = t, ex_status = status\<rparr>"

definition sample_table :: "time \<Rightarrow> int \<Rightarrow> string \<Rightarrow> pg_store" where
  "sample_table t status body = \<lparr>pg_rows = [((''t:anonymous'', ''k''),
     with_response status body (fresh_entry t DefaultIdempotencyTTL sample_idem))], pg_faults = [], pg_pool_nil = False\<rparr>"

definition sample_answered :: "time \<Rightarrow> pg_store idem_state" where
  "sample_answered now = \<lparr>st_store = sample_table 0 201 ''ok'', st_now = now,
     st_execs = [sample_execution 0 (Succeeded 201 ''ok'')]\<rparr>"

lemma sample_arrives:
  "Idempotency_before (pg_ops l) id (pg_empty []) 0 sample_http = (sample_table 0 0 [], Proceed sample_idem)"
  by (simp add: Idempotency_before_def pg_ops_def pg_GetOrInsert_def driver_call_def write_commit_def pg_empty_def
      sample_http_def sample_table_def sample_idem_def request_scope_def with_response_def fresh_entry_def)

lemma sample_answer:
  "Idempotency_after (pg_ops l) (sample_table 0 0 []) sample_idem 201 ''ok'' = sample_table 0 201 ''ok''"
  by (simp add: Idempotency_after_def success_status_def pg_ops_def pg_UpdateResponse_def driver_call_def
      sample_table_def sample_idem_def with_response_def fresh_entry_def)

lemma sample_reaches:
  assumes "0 \<le> now"
  shows "rtranclp (idem_step (pg_ops l) id) (idem_init (pg_empty []) 0) (sample_answered now)"
proof -
  let ?st1 = "\<lparr>st_store = sample_table 0 0 [], st_now = 0, st_execs = [sample_execution 0 Running]\<rparr>"
  have s1: "idem_step (pg_ops l) id (idem_init (pg_empty []) 0) ?st1"
    using idem_step.Arrive_proceed [of "pg_ops l" id "idem_init (pg_empty []) 0" sample_http] sample_arrives
    by (simp add: idem_init_def sample_execution_def)
  have s2: "idem_step (pg_ops l) id ?st1 (sample_answered 0)"
    using idem_step.Return [of 0 ?st1 "sample_execution 0 Running" "pg_ops l" id 201 "''ok''"] sample_answer
    by (simp add: sample_execution_def sample_answered_def success_status_def)
  have s3: "idem_step (pg_ops l) id (sample_answered 0) (sample_answered now)"
    using idem_step.Tick [of "sample_answered 0" now "pg_ops l" id] assms
    by (simp add: sample_answered_def sample_execution_def)
  show ?thesis
    by (rule rtranclp.rtrancl_into_rtrancl, rule rtranclp.rtrancl_into_rtrancl, rule rtranclp.rtrancl_into_rtrancl)
       (rule rtranclp.rtrancl_refl s1 s2 s3)+
qed

theorem key_executes_once_witness:
  "\<exists>st. rtranclp (idem_step (pg_ops (\<lambda>_. False)) id) (idem_init (pg_empty []) 0) st \<and> length (st_execs st) = 2
     \<and> ex_start (st_execs st ! 0) + 24 * Hour \<le> ex_start (st_execs st ! 1)"
proof -
  let ?ops = "pg_ops (\<lambda>_. False)"
  define later where "later = DefaultIdempotencyTTL + 1"
  let ?st = "\<lparr>st_store = sample_table later 0 [], st_now = later,
    st_execs = [sample_execution 0 (Succeeded 201 ''ok''), sample_execution later Running]\<rparr>"
  have "Idempotency_before ?ops id (sample_table 0 201 ''ok'') later sample_http = (sample_table later 0 [], Proceed sample_idem)"
    by (simp add: Idempotency_before_def pg_ops_def pg_GetOrInsert_def driver_call_def write_commit_def later_def
        sample_http_def sample_table_def sample_idem_def request_scope_def with_response_def fresh_entry_def)
  then have "idem_step ?ops id (sample_answered later) ?st"
    using idem_step.Arrive_proceed [of ?ops id "sample_answered later" sample_http]
    by (simp add: sample_answered_def sample_execution_def)
  moreover have "0 \<le> later"
    using TTL_pos by (simp add: later_def)
  ultimately have reach: "rtranclp (idem_step ?ops id) (idem_init (pg_empty []) 0) ?st"
    by (intro rtranclp.rtrancl_into_rtrancl [OF sample_reaches])
  then have "ex_start (st_execs ?st ! 0) + 24 * Hour \<le> ex_start (st_execs ?st ! 1)"
    by (rule key_executes_once) (simp_all add: sample_execution_def)
  with reach show ?thesis
    by (intro exI [of _ ?st]) simp
qed

theorem replay_returns_original_witness:
  "\<exists>x \<in> set (st_execs (sample_answered 0)). ex_status x = Succeeded 201 ''ok'' \<and> ir_key (ex_request x) = ''k''"
proof -
  let ?ops = "pg_ops (\<lambda>_. False)"
  have "\<not> DefaultIdempotencyTTL < 0"
    using TTL_pos by simp
  then have "Idempotency_before ?ops id (st_store (sample_answered 0)) (st_now (sample_answered 0)) sample_http
      = (sample_table 0 201 ''ok'', ReplayResponse 201 ''ok'')"
    by (simp add: Idempotency_before_def pg_ops_def pg_GetOrInsert_def driver_call_def sample_answered_def
        sample_http_def sample_table_def sample_idem_def request_scope_def with_response_def fresh_entry_def same_request_def)
  from replay_returns_original [OF sample_reaches [OF order_refl] this] show ?thesis
    by (auto simp: sample_http_def intro: bexI)
qed

text \<open>The in-memory store files two different scope and key pairs in one slot.\<close>

lemma mapKey_ambiguous: "mapKey ''a/b'' ''c'' = mapKey ''a'' ''b/c''"
  by (simp add: mapKey_def)

end
