(* ===== verification/Pagination.thy ===== *)
theory Pagination
  imports Prelude
begin

text \<open>
  Cursor and offset pagination (\<^verbatim>\<open>internal/pagination\<close>: \<^verbatim>\<open>cursor.go\<close>, \<^verbatim>\<open>limit.go\<close>, \<^verbatim>\<open>offset.go\<close>,
  \<^verbatim>\<open>scoped_cursor.go\<close>, \<^verbatim>\<open>link_header.go\<close>).  The JSON and base64 text of a cursor is given by a codec,
  an argument of the definitions; the HMAC of a scoped cursor and the URL functions of the Link
  header likewise.
\<close>

section \<open>Cursors\<close>

record Cursor =
  cur_ID :: string
  cur_SortValue :: string

definition empty_cursor :: Cursor where
  "empty_cursor = \<lparr>cur_ID = '''', cur_SortValue = ''''\<rparr>"

text \<open>Marshalling followed by base64, and the way back.\<close>

record 'c codec =
  cd_encode :: "'c \<Rightarrow> string"
  cd_decode :: "string \<Rightarrow> 'c option"

definition Encode :: "Cursor codec \<Rightarrow> Cursor \<Rightarrow> string" where
  "Encode cd c = (if cur_ID c = '''' \<and> cur_SortValue c = '''' then '''' else cd_encode cd c)"

definition Decode :: "Cursor codec \<Rightarrow> string \<Rightarrow> Cursor option" where
  "Decode cd s = (if s = '''' then Some empty_cursor else cd_decode cd s)"

record page_item =
  item_ID :: string
  item_SortValue :: string

definition item_cursor :: "page_item \<Rightarrow> Cursor" where
  "item_cursor it = \<lparr>cur_ID = item_ID it, cur_SortValue = item_SortValue it\<rparr>"

record Page =
  pg_Items :: "page_item list"
  pg_NextCursor :: string
  pg_PreviousCursor :: string
  pg_HasMore :: bool

section \<open>Pages of a slice\<close>

definition after_cursor :: "Cursor \<Rightarrow> page_item \<Rightarrow> bool" where
  "after_cursor c it \<longleftrightarrow> str_less (cur_SortValue c) (item_SortValue it)
     \<or> item_SortValue it = cur_SortValue c \<and> str_less (cur_ID c) (item_ID it)"

fun find_start :: "Cursor \<Rightarrow> page_item list \<Rightarrow> nat option" where
  "find_start c [] = None"
| "find_start c (it # items) = (if after_cursor c it then Some 0 else map_option Suc (find_start c items))"

definition previousCursor :: "Cursor codec \<Rightarrow> page_item list \<Rightarrow> nat \<Rightarrow> nat \<Rightarrow> string" where
  "previousCursor cd items startIdx limit =
     (if startIdx = 0 \<or> startIdx \<le> limit then ''''
      else Encode cd (item_cursor (items ! (startIdx - limit - 1))))"

text \<open>The page that starts at an index, with a positive limit.\<close>

definition page_at :: "Cursor codec \<Rightarrow> page_item list \<Rightarrow> nat \<Rightarrow> nat \<Rightarrow> Page" where
  "page_at cd items startIdx limit =
     (let hasMore = (startIdx + limit < length items);
          endIdx = (if hasMore then startIdx + limit else length items);
          pageItems = drop startIdx (take endIdx items)
      in \<lparr>pg_Items = pageItems,
          pg_NextCursor = (if pageItems \<noteq> [] \<and> hasMore then Encode cd (item_cursor (last pageItems)) else ''''),
          pg_PreviousCursor = previousCursor cd items startIdx limit,
          pg_HasMore = hasMore\<rparr>)"

definition PaginateSlice :: "Cursor codec \<Rightarrow> page_item list \<Rightarrow> Cursor \<Rightarrow> int \<Rightarrow> Page" where
  "PaginateSlice cd items cursor limit0 =
     (let limit = nat (if limit0 \<le> 0 then 10 else limit0)
      in if cur_ID cursor \<noteq> '''' \<or> cur_SortValue cursor \<noteq> ''''
         then case find_start cursor items of
                None \<Rightarrow> \<lparr>pg_Items = [], pg_NextCursor = '''', pg_PreviousCursor = '''', pg_HasMore = False\<rparr>
              | Some startIdx \<Rightarrow> page_at cd items startIdx limit
         else page_at cd items 0 limit)"

section \<open>Limits and offsets\<close>

definition MaxLimit :: int where "MaxLimit = 100"

text \<open>\<^verbatim>\<open>strconv.Atoi\<close> is \<^verbatim>\<open>ParseInt\<close> on a 64-bit platform; \<open>None\<close> is \<^verbatim>\<open>ErrInvalidLimit\<close>.\<close>

definition ParseLimit :: "string \<Rightarrow> int \<Rightarrow> int option" where
  "ParseLimit raw defaultLimit =
     (if raw = '''' then Some defaultLimit
      else if TrimSpace raw = '''' then None
      else case ParseInt64 raw of
             None \<Rightarrow> None
           | Some limit \<Rightarrow>
               if limit \<le> 0 then Some defaultLimit
               else if limit > MaxLimit then None
               else Some limit)"

record ListMetadata =
  lm_Total :: int
  lm_NextOffset :: int
  lm_HasMore :: bool

text \<open>\<open>order\<close> is the stable sort of the slice by the requested column, the identity without one.\<close>

definition PaginateList :: "('a list \<Rightarrow> 'a list) \<Rightarrow> 'a list \<Rightarrow> int \<Rightarrow> int \<Rightarrow> 'a list \<times> ListMetadata" where
  "PaginateList order items0 offset0 limit0 =
     (let limit = (if limit0 \<le> 0 then 10 else if limit0 > 100 then 100 else limit0);
          offset = (if offset0 < 0 then 0 else offset0);
          items = order items0;
          total_len = int (length items)
      in if total_len = 0 \<or> offset \<ge> total_len
         then ([], \<lparr>lm_Total = total_len, lm_NextOffset = 0, lm_HasMore = False\<rparr>)
         else
           let hasMore = (offset + limit < total_len);
               endIdx = (if hasMore then offset + limit else total_len)
           in (drop (nat offset) (take (nat endIdx) items),
               \<lparr>lm_Total = total_len, lm_NextOffset = (if hasMore then endIdx else 0), lm_HasMore = hasMore\<rparr>))"

section \<open>Scoped cursors\<close>

record ScopedCursor =
  sc_ID :: string
  sc_SortValue :: string
  sc_TenantID :: string
  sc_Sig :: string

datatype cursor_error = InvalidFormat | InvalidSignature | WrongTenant

definition signCursor :: "(string \<Rightarrow> string) \<Rightarrow> string \<Rightarrow> string \<Rightarrow> string \<Rightarrow> string" where
  "signCursor mac i sv tenantID = mac (i @ ''|'' @ sv @ ''|'' @ tenantID)"

definition EncodeScopedCursor ::
    "(string \<Rightarrow> string) \<Rightarrow> ScopedCursor codec \<Rightarrow> string \<Rightarrow> string \<Rightarrow> string \<Rightarrow> string" where
  "EncodeScopedCursor mac cd i sv tenantID =
     (if i = '''' \<and> sv = '''' then ''''
      else cd_encode cd \<lparr>sc_ID = i, sc_SortValue = sv, sc_TenantID = tenantID, sc_Sig = signCursor mac i sv tenantID\<rparr>)"

definition DecodeScopedCursor ::
    "(string \<Rightarrow> string) \<Rightarrow> ScopedCursor codec \<Rightarrow> string \<Rightarrow> string \<Rightarrow> (cursor_error, Cursor) result" where
  "DecodeScopedCursor mac cd encoded expectedTenantID =
     (if encoded = '''' then Inr empty_cursor
      else case cd_decode cd encoded of
             None \<Rightarrow> Inl InvalidFormat
           | Some sc \<Rightarrow>
               if sc_Sig sc \<noteq> signCursor mac (sc_ID sc) (sc_SortValue sc) (sc_TenantID sc) then Inl InvalidSignature
               else if sc_TenantID sc \<noteq> expectedTenantID then Inl WrongTenant
               else Inr \<lparr>cur_ID = sc_ID sc, cur_SortValue = sc_SortValue sc\<rparr>)"

section \<open>Link headers\<close>

record LinkParams =
  lp_Next :: string
  lp_Prev :: string
  lp_HasPrev :: bool

text \<open>\<open>withCursor\<close> renders the URL with the cursor parameter replaced; \<open>None\<close> stands for a base URL that does not parse or is not absolute.\<close>

definition link_entry :: "(string \<Rightarrow> string) \<Rightarrow> string \<Rightarrow> string \<Rightarrow> string" where
  "link_entry withCursor cursor rel = ''<'' @ withCursor cursor @ ''>; rel='' @ [CHR 34] @ rel @ [CHR 34]"

fun join_links :: "string list \<Rightarrow> string" where
  "join_links [] = ''''"
| "join_links [l] = l"
| "join_links (l # ls) = l @ '', '' @ join_links ls"

definition LinkHeader :: "(string \<Rightarrow> string) option \<Rightarrow> LinkParams \<Rightarrow> string" where
  "LinkHeader url p = (case url of
      None \<Rightarrow> ''''
    | Some withCursor \<Rightarrow> join_links
        (link_entry withCursor '''' ''first''
         # (if lp_HasPrev p then [link_entry withCursor (lp_Prev p) ''prev''] else [])
         @ (if lp_Next p \<noteq> '''' then [link_entry withCursor (lp_Next p) ''next''] else [])))"

section \<open>The order of items\<close>

lemma char_nat_inj: "char_nat a = char_nat b \<Longrightarrow> a = b"
  by (simp add: char_nat_def)

lemma str_less_irrefl [simp]: "\<not> str_less s s"
  by (induction s) simp_all

lemma str_less_trans: "\<lbrakk>str_less a b; str_less b c\<rbrakk> \<Longrightarrow> str_less a c"
proof (induction a b arbitrary: c rule: str_less.induct)
  case (2 y ys)
  then show ?case
    by (cases c) auto
next
  case (3 x xs y ys)
  then show ?case
    by (cases c) (auto dest: less_trans)
qed simp

definition item_less :: "page_item \<Rightarrow> page_item \<Rightarrow> bool" where
  "item_less a b = after_cursor (item_cursor a) b"

lemma item_less_irrefl [simp]: "\<not> item_less a a"
  by (simp add: item_less_def after_cursor_def item_cursor_def)

lemma item_less_trans: "\<lbrakk>item_less a b; item_less b c\<rbrakk> \<Longrightarrow> item_less a c"
  by (auto simp: item_less_def after_cursor_def item_cursor_def dest: str_less_trans)

lemma item_less_asym: "item_less a b \<Longrightarrow> \<not> item_less b a"
  using item_less_trans item_less_irrefl by blast

section \<open>Walking the pages\<close>

lemma find_start_first:
  assumes "k < length items" "after_cursor c (items ! k)" "\<forall>i < k. \<not> after_cursor c (items ! i)"
  shows "find_start c items = Some k"
  using assms
proof (induction items arbitrary: k)
  case (Cons it items)
  show ?case
  proof (cases k)
    case 0
    then show ?thesis
      using Cons.prems by simp
  next
    case (Suc k')
    then have "find_start c items = Some k'"
      using Cons.prems by (intro Cons.IH) auto
    moreover have "\<not> after_cursor c it"
      using Cons.prems(3) Suc by auto
    ultimately show ?thesis
      using Suc by simp
  qed
qed simp

text \<open>In a slice sorted by sort value and ID, an item's cursor points just behind the item.\<close>

lemma find_start_behind:
  assumes sorted: "sorted_wrt item_less items" and k: "Suc k < length items"
  shows "find_start (item_cursor (items ! k)) items = Some (Suc k)"
proof (rule find_start_first)
  show "after_cursor (item_cursor (items ! k)) (items ! Suc k)"
    using sorted_wrt_nth_less [OF sorted, of k "Suc k"] k by (simp add: item_less_def)
  show "\<forall>i < Suc k. \<not> after_cursor (item_cursor (items ! k)) (items ! i)"
  proof (intro allI impI)
    fix i
    assume "i < Suc k"
    then show "\<not> after_cursor (item_cursor (items ! k)) (items ! i)"
      using sorted_wrt_nth_less [OF sorted, of i k] k item_less_asym
      by (cases "i = k") (auto simp: item_less_def [symmetric])
  qed
qed (rule k)

text \<open>No item has an empty cursor, which would mean the first page.\<close>

definition named :: "page_item list \<Rightarrow> bool" where
  "named items \<longleftrightarrow> list_all (\<lambda>it. item_ID it \<noteq> '''' \<or> item_SortValue it \<noteq> '''') items"

definition codec_ok :: "'c codec \<Rightarrow> bool" where
  "codec_ok cd \<longleftrightarrow> (\<forall>c. cd_decode cd (cd_encode cd c) = Some c \<and> cd_encode cd c \<noteq> '''')"

lemma cursor_round_trip:
  assumes "codec_ok cd" "item_ID it \<noteq> '''' \<or> item_SortValue it \<noteq> ''''"
  shows "Encode cd (item_cursor it) \<noteq> ''''" "Decode cd (Encode cd (item_cursor it)) = Some (item_cursor it)"
  using assms by (auto simp: codec_ok_def Encode_def Decode_def item_cursor_def)

lemma page_after_item:
  assumes "sorted_wrt item_less items" "named items" "Suc k < length items" "0 < limit"
  shows "PaginateSlice cd items (item_cursor (items ! k)) limit = page_at cd items (Suc k) (nat limit)"
proof -
  have "item_ID (items ! k) \<noteq> '''' \<or> item_SortValue (items ! k) \<noteq> ''''"
    using assms(2,3) by (auto simp: named_def list_all_length)
  then show ?thesis
    using find_start_behind [OF assms(1,3)] assms(4) by (auto simp: PaginateSlice_def item_cursor_def)
qed

text \<open>A client that follows the next links, at most \<open>n\<close> requests.\<close>

fun walk :: "nat \<Rightarrow> Cursor codec \<Rightarrow> page_item list \<Rightarrow> int \<Rightarrow> string \<Rightarrow> page_item list list option" where
  "walk 0 cd items limit cur = None"
| "walk (Suc n) cd items limit cur = (case Decode cd cur of
      None \<Rightarrow> None
    | Some c \<Rightarrow>
        let p = PaginateSlice cd items c limit
        in if pg_NextCursor p = '''' then Some [pg_Items p]
           else map_option (\<lambda>ps. pg_Items p # ps) (walk n cd items limit (pg_NextCursor p)))"

lemma page_at_next:
  assumes "codec_ok cd" "named items" "0 < limit" "start + limit < length items"
  shows "pg_NextCursor (page_at cd items start limit) = Encode cd (item_cursor (items ! (start + limit - 1)))"
    "pg_NextCursor (page_at cd items start limit) \<noteq> ''''"
    "Decode cd (pg_NextCursor (page_at cd items start limit)) = Some (item_cursor (items ! (start + limit - 1)))"
proof -
  let ?page = "drop start (take (start + limit) items)"
  have "last ?page = items ! (start + limit - 1)" "?page \<noteq> []"
    using assms(3,4) by (simp_all add: last_conv_nth)
  then show next_cur: "pg_NextCursor (page_at cd items start limit) = Encode cd (item_cursor (items ! (start + limit - 1)))"
    using assms(4) by (simp add: page_at_def Let_def)
  have "item_ID (items ! (start + limit - 1)) \<noteq> '''' \<or> item_SortValue (items ! (start + limit - 1)) \<noteq> ''''"
    using assms(2,4) by (auto simp: named_def list_all_length)
  then show "pg_NextCursor (page_at cd items start limit) \<noteq> ''''"
    "Decode cd (pg_NextCursor (page_at cd items start limit)) = Some (item_cursor (items ! (start + limit - 1)))"
    unfolding next_cur using cursor_round_trip [OF assms(1)] by blast+
qed

lemma walk_from:
  assumes "codec_ok cd" "sorted_wrt item_less items" "named items" "0 < limit"
    and "Decode cd cur = Some c" "PaginateSlice cd items c limit = page_at cd items start (nat limit)"
    and "length items < start + n" "start \<le> length items"
  shows "\<exists>ps. walk n cd items limit cur = Some ps \<and> concat ps = drop start items
    \<and> list_all (\<lambda>p. length p \<le> nat limit) ps"
  using assms(5-8)
proof (induction n arbitrary: cur c start)
  case (Suc n)
  let ?p = "page_at cd items start (nat limit)"
  show ?case
  proof (cases "start + nat limit < length items")
    case True
    let ?k = "start + nat limit - 1"
    have k: "Suc ?k = start + nat limit" "Suc ?k < length items"
      using True assms(4) by auto
    note nx = page_at_next [OF assms(1,3) _ True]
    have "PaginateSlice cd items (item_cursor (items ! ?k)) limit = page_at cd items (start + nat limit) (nat limit)"
      using page_after_item [OF assms(2,3) k(2) assms(4)] k(1) by simp
    moreover have "length items < start + nat limit + n"
      using Suc.prems(3) assms(4) by simp
    ultimately obtain ps where ps: "walk n cd items limit (pg_NextCursor ?p) = Some ps" "concat ps = drop (start + nat limit) items"
        "list_all (\<lambda>p. length p \<le> nat limit) ps"
      using Suc.IH [of "pg_NextCursor ?p" "item_cursor (items ! ?k)" "start + nat limit"] nx(3) assms(4) Suc.prems True
      by auto
    have "pg_Items ?p = take (nat limit) (drop start items)"
      using True by (simp add: page_at_def Let_def take_drop add.commute)
    moreover have "take (nat limit) (drop start items) @ drop (start + nat limit) items = drop start items"
      by (metis append_take_drop_id drop_drop add.commute)
    ultimately show ?thesis
      using Suc.prems(1,2) nx(2) assms(4) ps by simp
  next
    case False
    then have "pg_NextCursor ?p = ''''" "pg_Items ?p = drop start items"
      by (simp_all add: page_at_def Let_def)
    moreover have "length (drop start items) \<le> nat limit"
      using False by simp
    ultimately show ?thesis
      using Suc.prems(1,2) by simp
  qed
qed simp

text \<open>
  C26: A client that starts without a cursor and follows the next cursors of a list sorted by sort
  value and ID, all different, receives every item exactly once, in order, in pages of at most the
  limit, and reaches the end.
\<close>

theorem pages_cover_items_once:
  assumes "codec_ok cd" "sorted_wrt item_less items" "named items" "0 < limit"
  shows "\<exists>ps. walk (length items + 1) cd items limit '''' = Some ps \<and> concat ps = items
    \<and> list_all (\<lambda>p. length p \<le> nat limit) ps"
proof -
  have "PaginateSlice cd items empty_cursor limit = page_at cd items 0 (nat limit)"
    using assms(4) by (simp add: PaginateSlice_def empty_cursor_def)
  then show ?thesis
    using walk_from [OF assms, of "''''" empty_cursor 0 "length items + 1"] by (simp add: Decode_def)
qed

text \<open>
  The previous cursor of a page leads back to the page of full length just before it.
\<close>

theorem previous_cursor_goes_back:
  assumes "codec_ok cd" "sorted_wrt item_less items" "named items" "0 < limit"
    and "nat limit < start" "start < length items"
    and "p = page_at cd items start (nat limit)"
  shows "\<exists>c. Decode cd (pg_PreviousCursor p) = Some c
    \<and> pg_Items (PaginateSlice cd items c limit) = take (nat limit) (drop (start - nat limit) items)
    \<and> Decode cd (pg_NextCursor (PaginateSlice cd items c limit)) = Some (item_cursor (items ! (start - 1)))"
proof -
  let ?k = "start - nat limit - 1"
  have k: "Suc ?k = start - nat limit" "Suc ?k < length items" "start - nat limit + nat limit = start"
    using assms(5,6) by simp_all
  have "item_ID (items ! ?k) \<noteq> '''' \<or> item_SortValue (items ! ?k) \<noteq> ''''"
    using assms(3) k(2) by (auto simp: named_def list_all_length)
  then have dec: "Decode cd (pg_PreviousCursor p) = Some (item_cursor (items ! ?k))"
    using cursor_round_trip(2) [OF assms(1)] assms(5,7) by (simp add: page_at_def Let_def previousCursor_def)
  have page: "PaginateSlice cd items (item_cursor (items ! ?k)) limit = page_at cd items (start - nat limit) (nat limit)"
    using page_after_item [OF assms(2,3) k(2) assms(4)] k(1) by simp
  have "pg_Items (page_at cd items (start - nat limit) (nat limit)) = take (nat limit) (drop (start - nat limit) items)"
    using k(3) assms(6) by (simp add: page_at_def Let_def take_drop add.commute)
  moreover have "Decode cd (pg_NextCursor (page_at cd items (start - nat limit) (nat limit))) = Some (item_cursor (items ! (start - 1)))"
    using page_at_next(3) [OF assms(1,3), of "nat limit" "start - nat limit"] k(3) assms(4,6) by simp
  ultimately show ?thesis
    using dec page by auto
qed

text \<open>Codecs that write the length of each field in unary before it.\<close>

definition counted :: "string \<Rightarrow> string" where
  "counted s = replicate (length s) (CHR ''x'') @ ''|'' @ s"

definition uncount :: "string \<Rightarrow> string \<times> string" where
  "uncount s = (let n = length (takeWhile (\<lambda>ch. ch = CHR ''x'') s); rest = drop (Suc n) s in (take n rest, drop n rest))"

lemma uncount_counted: "uncount (counted s @ r) = (s, r)"
proof -
  have "takeWhile (\<lambda>ch. ch = CHR ''x'') (replicate n (CHR ''x'') @ CHR ''|'' # rest) = replicate n (CHR ''x'')" for n rest
    by (induction n) simp_all
  moreover have "drop (Suc n) (replicate n (CHR ''x'') @ CHR ''|'' # rest) = rest" for n and rest :: string
    by (induction n) simp_all
  ultimately show ?thesis
    by (simp add: uncount_def counted_def Let_def)
qed

lemma counted_nonempty: "counted s \<noteq> []"
  by (simp add: counted_def)

definition unary_codec :: "Cursor codec" where
  "unary_codec = \<lparr>cd_encode = (\<lambda>c. counted (cur_ID c) @ cur_SortValue c),
     cd_decode = (\<lambda>s. let (i, sv) = uncount s in Some \<lparr>cur_ID = i, cur_SortValue = sv\<rparr>)\<rparr>"

lemma unary_codec_ok: "codec_ok unary_codec"
  by (simp add: codec_ok_def unary_codec_def uncount_counted counted_nonempty)

definition unary_scoped_codec :: "ScopedCursor codec" where
  "unary_scoped_codec = \<lparr>cd_encode = (\<lambda>sc. counted (sc_ID sc) @ counted (sc_SortValue sc) @ counted (sc_TenantID sc) @ sc_Sig sc),
     cd_decode = (\<lambda>s. let (i, r1) = uncount s; (sv, r2) = uncount r1; (t, sg) = uncount r2
       in Some \<lparr>sc_ID = i, sc_SortValue = sv, sc_TenantID = t, sc_Sig = sg\<rparr>)\<rparr>"

lemma unary_scoped_codec_ok: "codec_ok unary_scoped_codec"
  by (simp add: codec_ok_def unary_scoped_codec_def uncount_counted counted_nonempty)

definition sample_items :: "page_item list" where
  "sample_items = [\<lparr>item_ID = ''a'', item_SortValue = ''1''\<rparr>, \<lparr>item_ID = ''b'', item_SortValue = ''1''\<rparr>,
     \<lparr>item_ID = ''a'', item_SortValue = ''2''\<rparr>]"

lemma sample_items_ok: "sorted_wrt item_less sample_items" "named sample_items"
  by (simp_all add: sample_items_def item_less_def after_cursor_def item_cursor_def named_def char_nat_def)

theorem pages_cover_items_once_witness:
  "\<exists>ps. walk (length sample_items + 1) unary_codec sample_items 2 [] = Some ps \<and> concat ps = sample_items
    \<and> list_all (\<lambda>p. length p \<le> nat 2) ps"
  using unary_codec_ok sample_items_ok by (rule pages_cover_items_once) simp

theorem previous_cursor_goes_back_witness:
  "\<exists>c. Decode unary_codec (pg_PreviousCursor (page_at unary_codec sample_items 2 1)) = Some c
    \<and> pg_Items (PaginateSlice unary_codec sample_items c 1) = [\<lparr>item_ID = ''b'', item_SortValue = ''1''\<rparr>]"
proof -
  have "\<exists>c. Decode unary_codec (pg_PreviousCursor (page_at unary_codec sample_items 2 (nat 1))) = Some c
    \<and> pg_Items (PaginateSlice unary_codec sample_items c 1) = take (nat 1) (drop (2 - nat 1) sample_items)
    \<and> Decode unary_codec (pg_NextCursor (PaginateSlice unary_codec sample_items c 1)) = Some (item_cursor (sample_items ! (2 - 1)))"
    by (rule previous_cursor_goes_back [OF unary_codec_ok sample_items_ok]) (simp_all add: sample_items_def)
  then show ?thesis
    by (auto simp: sample_items_def)
qed

text \<open>
  A scoped cursor comes back as its ID and sort value for the tenant it was issued to, and is
  refused for every other tenant.
\<close>

theorem scoped_cursor_round_trip:
  assumes "codec_ok cd" "i \<noteq> [] \<or> sv \<noteq> []"
  shows "DecodeScopedCursor mac cd (EncodeScopedCursor mac cd i sv t) t'
    = (if t = t' then Inr \<lparr>cur_ID = i, cur_SortValue = sv\<rparr> else Inl WrongTenant)"
  using assms by (auto simp: DecodeScopedCursor_def EncodeScopedCursor_def codec_ok_def)

theorem scoped_cursor_round_trip_witness:
  "DecodeScopedCursor rev unary_scoped_codec (EncodeScopedCursor rev unary_scoped_codec ''i'' ''s'' ''t'') ''u'' = Inl WrongTenant"
  by (subst scoped_cursor_round_trip [OF unary_scoped_codec_ok]) simp_all

text \<open>The signature does not tell where the ID ends.\<close>

lemma signature_ambiguous: "signCursor mac ''a'' ''b|c'' t = signCursor mac ''a|b'' ''c'' t"
  by (simp add: signCursor_def)

lemma ParseLimit_bounds:
  "\<lbrakk>ParseLimit raw d = Some l; 0 < d; d \<le> MaxLimit\<rbrakk> \<Longrightarrow> 0 < l \<and> l \<le> MaxLimit"
  by (auto simp: ParseLimit_def split: if_splits option.splits)

lemma PaginateList_page:
  assumes "PaginateList order items offset limit = (page, md)"
  shows "length page \<le> 100 \<and> (lm_HasMore md \<longleftrightarrow> 0 < lm_NextOffset md) \<and> lm_NextOffset md < max 1 (lm_Total md)"
  using assms by (auto simp: PaginateList_def Let_def split: if_splits)

end
