(* ===== verification/Cached_Repo.thy ===== *)
theory Cached_Repo
  imports Subscription_Service
begin

text \<open>
  The read cache (\<^verbatim>\<open>internal/cache/cache.go\<close>) and the caching decorator of the subscription
  repository (\<^verbatim>\<open>internal/repository/cached_subscription_repo.go\<close>).  A cached value is the envelope whose
  JSON the code stores; the reads of the clock are the environment's, a list of readings.  The
  decorator keeps the contract \<^verbatim>\<open>subscription_repository\<close> of the repository it wraps.
\<close>

section \<open>The cache\<close>

record 'v cacheEnvelope =
  env_Data :: 'v
  env_StoredAt :: time

record 'v inmemoryItem =
  it_value :: "'v cacheEnvelope"
  it_exp :: "time option"

type_synonym 'v cache_items = "(string \<times> 'v inmemoryItem) list"

text \<open>The decorator's state over a repository state \<open>'s\<close>, with the readings of the clock still to come.\<close>

record ('s, 'v) cached_state =
  cs_backend :: 's
  cs_items :: "'v cache_items"
  cs_invalidatedAt :: "(string \<times> time) list"
  cs_hits :: nat
  cs_misses :: nat
  cs_stales :: nat
  cs_now :: time
  cs_ticks :: "time list"

text \<open>\<^verbatim>\<open>time.Now()\<close>\<close>

definition clock :: "('s, 'v) cached_state \<Rightarrow> ('s, 'v) cached_state \<times> time" where
  "clock s = (case cs_ticks s of
      [] \<Rightarrow> (s, cs_now s)
    | t # ts \<Rightarrow> (s\<lparr>cs_now := t, cs_ticks := ts\<rparr>, t))"

definition cache_Get :: "string \<Rightarrow> ('s, 'v) cached_state \<Rightarrow> ('s, 'v) cached_state \<times> 'v cacheEnvelope option" where
  "cache_Get key s = (case map_of (cs_items s) key of
      None \<Rightarrow> (s, None)
    | Some it \<Rightarrow> (case it_exp it of
        None \<Rightarrow> (s, Some (it_value it))
      | Some exp_at \<Rightarrow>
          (let (s1, now) = clock s
           in if exp_at < now then (s1\<lparr>cs_items := AList.delete key (cs_items s1)\<rparr>, None)
              else (s1, Some (it_value it)))))"

definition cache_Set :: "string \<Rightarrow> 'v cacheEnvelope \<Rightarrow> duration \<Rightarrow> ('s, 'v) cached_state \<Rightarrow> ('s, 'v) cached_state" where
  "cache_Set key v ttl s =
     (if ttl > 0 then
        let (s1, now) = clock s
        in s1\<lparr>cs_items := AList.update key \<lparr>it_value = v, it_exp = Some (now + ttl)\<rparr> (cs_items s1)\<rparr>
      else s\<lparr>cs_items := AList.update key \<lparr>it_value = v, it_exp = None\<rparr> (cs_items s)\<rparr>)"

definition cache_Delete :: "string \<Rightarrow> ('s, 'v) cached_state \<Rightarrow> ('s, 'v) cached_state" where
  "cache_Delete key s = s\<lparr>cs_items := AList.delete key (cs_items s)\<rparr>"

text \<open>
  \<^verbatim>\<open>GuardedCache.GetOrLoad\<close>: a hit, or a second look under the key's lock, or the loader, whose
  result is stored.
\<close>

definition GetOrLoad ::
    "string \<Rightarrow> duration \<Rightarrow> (('s, 'v) cached_state \<Rightarrow> ('s, 'v) cached_state \<times> ('e, 'v cacheEnvelope) result)
     \<Rightarrow> ('s, 'v) cached_state \<Rightarrow> ('s, 'v) cached_state \<times> ('e, 'v cacheEnvelope) result" where
  "GetOrLoad key ttl loader s = (case cache_Get key s of
      (s1, Some v) \<Rightarrow> (s1, Inr v)
    | (s1, None) \<Rightarrow> (case cache_Get key s1 of
        (s2, Some v) \<Rightarrow> (s2, Inr v)
      | (s2, None) \<Rightarrow> (case loader s2 of
          (s3, Inl e) \<Rightarrow> (s3, Inl e)
        | (s3, Inr v) \<Rightarrow> (cache_Set key v ttl s3, Inr v))))"

section \<open>The caching repository\<close>

definition cacheKey :: "string \<Rightarrow> string" where
  "cacheKey sid = ''sub:byid:'' @ sid"

definition tenantCacheKey :: "string \<Rightarrow> string \<Rightarrow> string" where
  "tenantCacheKey sid tenantID = ''sub:byidandtenant:'' @ sid @ '':'' @ tenantID"

definition isStale :: "('s, 'v) cached_state \<Rightarrow> string \<Rightarrow> 'v cacheEnvelope \<Rightarrow> bool" where
  "isStale s key env = (case map_of (cs_invalidatedAt s) key of None \<Rightarrow> False | Some t \<Rightarrow> env_StoredAt env < t)"

text \<open>The loader handed to the guard: ask the backend, stamp the answer.\<close>

definition backend_loader ::
    "('s \<Rightarrow> 's \<times> (repo_error, 'v) result) \<Rightarrow> ('s, 'v) cached_state
     \<Rightarrow> ('s, 'v) cached_state \<times> (repo_error, 'v cacheEnvelope) result" where
  "backend_loader ask s = (case ask (cs_backend s) of
      (b, Inl e) \<Rightarrow> (s\<lparr>cs_backend := b\<rparr>, Inl e)
    | (b, Inr v) \<Rightarrow>
        (let (s1, now) = clock (s\<lparr>cs_backend := b\<rparr>)
         in (s1, Inr \<lparr>env_Data = v, env_StoredAt = now\<rparr>)))"

text \<open>Reading the \<^verbatim>\<open>Data\<close> bytes of an envelope as the type the caller wants; the stored value may have another shape.\<close>

definition decoded :: "('v \<Rightarrow> 'r option) \<Rightarrow> 'v \<Rightarrow> (repo_error, 'r) result" where
  "decoded decode v = (case decode v of Some r \<Rightarrow> Inr r | None \<Rightarrow> Inl (RepoDriver ''json: cannot unmarshal''))"

text \<open>
  The body the lookups share: a fresh hit whose data decodes is the answer (data that does not is
  purged); then a stale entry is purged, and the guard loads.
\<close>

definition cached_load ::
    "duration \<Rightarrow> string \<Rightarrow> ('s \<Rightarrow> 's \<times> (repo_error, 'v) result) \<Rightarrow> ('v \<Rightarrow> 'r option) \<Rightarrow> ('s, 'v) cached_state
     \<Rightarrow> ('s, 'v) cached_state \<times> (repo_error, 'r) result" where
  "cached_load ttl key ask decode s1 =
     (let (s2, e2) = cache_Get key s1;
          s3 = (case e2 of
                  Some env \<Rightarrow> if isStale s2 key env
                              then cache_Delete key (s2\<lparr>cs_stales := cs_stales s2 + 1\<rparr>) else s2
                | None \<Rightarrow> s2)
      in case GetOrLoad key ttl (backend_loader ask) (s3\<lparr>cs_misses := cs_misses s3 + 1\<rparr>) of
           (s4, Inl e) \<Rightarrow> (s4, Inl e)
         | (s4, Inr env) \<Rightarrow> (s4, decoded decode (env_Data env)))"

definition cached_find ::
    "duration \<Rightarrow> string \<Rightarrow> ('s \<Rightarrow> 's \<times> (repo_error, 'v) result) \<Rightarrow> ('v \<Rightarrow> 'r option) \<Rightarrow> ('s, 'v) cached_state
     \<Rightarrow> ('s, 'v) cached_state \<times> (repo_error, 'r) result" where
  "cached_find ttl key ask decode s =
     (let (s1, e1) = cache_Get key s
      in case (case e1 of Some env \<Rightarrow> if isStale s1 key env then None else Some env | None \<Rightarrow> None) of
           Some env \<Rightarrow>
             (case decode (env_Data env) of
                Some r \<Rightarrow> (s1\<lparr>cs_hits := cs_hits s1 + 1\<rparr>, Inr r)
              | None \<Rightarrow> cached_load ttl key ask decode (cache_Delete key s1))
         | None \<Rightarrow> cached_load ttl key ask decode s1)"

definition cached_FindByID ::
    "'s sub_repo \<Rightarrow> duration \<Rightarrow> ('s, SubscriptionRow) cached_state \<Rightarrow> string
     \<Rightarrow> ('s, SubscriptionRow) cached_state \<times> (repo_error, SubscriptionRow) result" where
  "cached_FindByID R ttl s sid = cached_find ttl (cacheKey sid) (\<lambda>b. repo_FindByID R b sid) Some s"

definition cached_FindByIDAndTenant ::
    "'s sub_repo \<Rightarrow> duration \<Rightarrow> ('s, SubscriptionRow) cached_state \<Rightarrow> string \<Rightarrow> string
     \<Rightarrow> ('s, SubscriptionRow) cached_state \<times> (repo_error, SubscriptionRow) result" where
  "cached_FindByIDAndTenant R ttl s sid tenantID =
     cached_find ttl (tenantCacheKey sid tenantID) (\<lambda>b. repo_FindByIDAndTenant R b sid tenantID) Some s"

text \<open>A call passed on to the backend.\<close>

definition delegate :: "('s \<Rightarrow> 's \<times> 'r) \<Rightarrow> ('s, 'v) cached_state \<Rightarrow> ('s, 'v) cached_state \<times> 'r" where
  "delegate call s = (let (b, r) = call (cs_backend s) in (s\<lparr>cs_backend := b\<rparr>, r))"

definition cached_Delete :: "string \<Rightarrow> string \<Rightarrow> ('s, 'v) cached_state \<Rightarrow> ('s, 'v) cached_state" where
  "cached_Delete sid tenantID s =
     (let key = cacheKey sid; tenantKey = tenantCacheKey sid tenantID;
          (s1, now) = clock (cache_Delete tenantKey (cache_Delete key s))
      in s1\<lparr>cs_invalidatedAt := AList.update tenantKey now (AList.update key now (cs_invalidatedAt s1))\<rparr>)"

definition cached_UpdateStatus ::
    "'s sub_repo \<Rightarrow> ('s, SubscriptionRow) cached_state \<Rightarrow> string \<Rightarrow> string \<Rightarrow> string
     \<Rightarrow> ('s, SubscriptionRow) cached_state \<times> repo_error option" where
  "cached_UpdateStatus R s sid tenantID status =
     (case delegate (\<lambda>b. repo_UpdateStatus R b sid tenantID status) s of
        (s1, Some e) \<Rightarrow> (s1, Some e)
      | (s1, None) \<Rightarrow> (cached_Delete sid tenantID s1, None))"

definition CachedSubscriptionRepo :: "'s sub_repo \<Rightarrow> duration \<Rightarrow> ('s, SubscriptionRow) cached_state sub_repo" where
  "CachedSubscriptionRepo R ttl =
     \<lparr>repo_FindByID = cached_FindByID R ttl,
      repo_FindByIDAndTenant = cached_FindByIDAndTenant R ttl,
      repo_FindByIDsAndTenant = (\<lambda>s ids t. delegate (\<lambda>b. repo_FindByIDsAndTenant R b ids t) s),
      repo_ListByTenant = (\<lambda>s t. delegate (\<lambda>b. repo_ListByTenant R b t) s),
      repo_UpdateStatus = cached_UpdateStatus R\<rparr>"

definition NewCachedSubscriptionRepo :: "'s \<Rightarrow> time list \<Rightarrow> ('s, SubscriptionRow) cached_state" where
  "NewCachedSubscriptionRepo backend ticks =
     \<lparr>cs_backend = backend, cs_items = [], cs_invalidatedAt = [], cs_hits = 0, cs_misses = 0, cs_stales = 0,
      cs_now = 0, cs_ticks = ticks\<rparr>"

section \<open>Effects of the cache operations\<close>

definition entry :: "('s, 'v) cached_state \<Rightarrow> string \<Rightarrow> 'v option" where
  "entry s key = map_option (\<lambda>it. env_Data (it_value it)) (map_of (cs_items s) key)"

lemma clock_frame [simp]: "cs_backend (fst (clock s)) = cs_backend s" "cs_items (fst (clock s)) = cs_items s"
  by (simp_all add: clock_def split: list.split)

lemma entry_clock [simp]: "entry (fst (clock s)) = entry s"
  by (simp add: entry_def fun_eq_iff)

lemma entry_fields [simp]:
  "entry (s\<lparr>cs_backend := b\<rparr>) = entry s" "entry (s\<lparr>cs_hits := n\<rparr>) = entry s" "entry (s\<lparr>cs_misses := n\<rparr>) = entry s"
  "entry (s\<lparr>cs_stales := n\<rparr>) = entry s" "entry (s\<lparr>cs_invalidatedAt := i\<rparr>) = entry s"
  by (simp_all add: entry_def fun_eq_iff)

lemma cache_Get_frame:
  assumes "cache_Get key s = (s', r)"
  shows "cs_backend s' = cs_backend s" "entry s' k = entry s k \<or> entry s' k = None"
    "r = Some env \<Longrightarrow> entry s key = Some (env_Data env)"
proof -
  obtain s1 now where c: "clock s = (s1, now)"
    by (rule prod.exhaust)
  have f: "cs_backend s1 = cs_backend s" "cs_items s1 = cs_items s"
    using clock_frame [of s] c by simp_all
  show "cs_backend s' = cs_backend s" "entry s' k = entry s k \<or> entry s' k = None"
    "r = Some env \<Longrightarrow> entry s key = Some (env_Data env)"
    using assms c f
    by (auto simp: cache_Get_def entry_def delete_conv split: option.splits if_splits)
qed

lemma cache_Set_frame:
  "cs_backend (cache_Set key v ttl s) = cs_backend s"
  "entry (cache_Set key v ttl s) = (entry s)(key \<mapsto> env_Data v)"
  using clock_frame [of s] by (auto simp: cache_Set_def entry_def update_conv' case_prod_beta Let_def fun_eq_iff)

lemma cache_Delete_frame [simp]:
  "cs_backend (cache_Delete key s) = cs_backend s" "entry (cache_Delete key s) = (entry s)(key := None)"
  by (auto simp: cache_Delete_def entry_def delete_conv' fun_eq_iff)

lemma backend_loader_frame:
  assumes "backend_loader ask s = (s', r)" "ask (cs_backend s) = (b, r0)"
  shows "cs_backend s' = b" "entry s' = entry s"
    "r = (case r0 of Inl e \<Rightarrow> Inl e | Inr v \<Rightarrow> r)" "\<And>env. r = Inr env \<Longrightarrow> r0 = Inr (env_Data env)"
  using assms clock_frame [of "s\<lparr>cs_backend := b\<rparr>"] entry_clock [of "s\<lparr>cs_backend := b\<rparr>"]
  by (auto simp: backend_loader_def case_prod_beta Let_def split: sum.splits)

text \<open>
  What a lookup does: it answers from an entry of the cache that is there when it starts, or asks
  the backend once and stores a successful answer; other entries only ever disappear.
\<close>

lemma cached_load_cases:
  assumes "cached_load ttl key ask decode s = (s', res)"
  obtains (hit) v where "res = decoded decode v" "entry s key = Some v" "cs_backend s' = cs_backend s"
      "\<And>k. entry s' k = entry s k \<or> entry s' k = None"
    | (load) b v where "ask (cs_backend s) = (b, Inr v)" "res = decoded decode v" "cs_backend s' = b" "entry s' key = Some v"
      "\<And>k. k \<noteq> key \<Longrightarrow> entry s' k = entry s k \<or> entry s' k = None"
    | (fail) b e where "ask (cs_backend s) = (b, Inl e)" "res = Inl e" "cs_backend s' = b"
      "\<And>k. entry s' k = entry s k \<or> entry s' k = None"
proof -
  obtain s2 e2 where g2: "cache_Get key s = (s2, e2)"
    by (rule prod.exhaust)
  define s3 where "s3 = (case e2 of
      Some env \<Rightarrow> if isStale s2 key env then cache_Delete key (s2\<lparr>cs_stales := cs_stales s2 + 1\<rparr>) else s2
    | None \<Rightarrow> s2)"
  define s3' where "s3' = s3\<lparr>cs_misses := cs_misses s3 + 1\<rparr>"
  obtain s4 e4 where g4: "cache_Get key s3' = (s4, e4)"
    by (rule prod.exhaust)
  obtain s5 e5 where g5: "cache_Get key s4 = (s5, e5)"
    by (rule prod.exhaust)
  note f2 = cache_Get_frame [OF g2] and f4 = cache_Get_frame [OF g4] and f5 = cache_Get_frame [OF g5]
  have f3: "cs_backend s3' = cs_backend s2" "\<And>k. entry s3' k = entry s2 k \<or> entry s3' k = None"
    by (auto simp: s3'_def s3_def split: option.split)
  have sub3: "\<And>k. entry s3' k = entry s k \<or> entry s3' k = None"
    using f2(2) f3(2) by metis
  have sub4: "\<And>k. entry s4 k = entry s k \<or> entry s4 k = None" and sub5: "\<And>k. entry s5 k = entry s k \<or> entry s5 k = None"
    using sub3 f4(2) f5(2) by metis+
  have same: "cs_backend s4 = cs_backend s" "cs_backend s5 = cs_backend s"
    using f2(1) f3(1) f4(1) f5(1) by simp_all
  have run: "(case GetOrLoad key ttl (backend_loader ask) s3' of
      (s4, Inl e) \<Rightarrow> (s4, Inl e) | (s4, Inr env) \<Rightarrow> (s4, decoded decode (env_Data env))) = (s', res)"
    using assms g2 by (simp add: cached_load_def Let_def s3'_def s3_def)
  show ?thesis
  proof (cases e4)
    case (Some env)
    then have "entry s key = Some (env_Data env)"
      using f4(3) sub3 [of key] by auto
    then show ?thesis
      using hit [of "env_Data env"] run g4 Some sub4 same by (simp add: GetOrLoad_def)
  next
    case None
    show ?thesis
    proof (cases e5)
      case (Some env)
      then have "entry s key = Some (env_Data env)"
        using f5(3) sub4 [of key] by auto
      then show ?thesis
        using hit [of "env_Data env"] run g4 g5 None Some sub5 same by (simp add: GetOrLoad_def)
    next
      case none: None
      obtain b r0 where a: "ask (cs_backend s) = (b, r0)"
        by (rule prod.exhaust)
      obtain s6 r where l: "backend_loader ask s5 = (s6, r)"
        by (rule prod.exhaust)
      note fl = backend_loader_frame [OF l a [folded same(2)]]
      show ?thesis
      proof (cases r)
        case (Inl e)
        then have "r0 = Inl e"
          using fl(3) by (cases r0) (use l a same(2) in \<open>auto simp: backend_loader_def case_prod_beta Let_def\<close>)
        then show ?thesis
          using fail [of b e] run g4 g5 None none l Inl a fl sub5 by (simp add: GetOrLoad_def)
      next
        case (Inr env)
        then have "r0 = Inr (env_Data env)"
          by (rule fl(4))
        then show ?thesis
          using load [of b "env_Data env"] run g4 g5 None none l Inr a fl sub5
            cache_Set_frame [of key env ttl s6] by (simp add: GetOrLoad_def)
      qed
    qed
  qed
qed

lemma cached_find_cases:
  assumes "cached_find ttl key ask decode s = (s', res)"
  obtains (hit) v where "res = decoded decode v" "entry s key = Some v" "cs_backend s' = cs_backend s"
      "\<And>k. entry s' k = entry s k \<or> entry s' k = None"
    | (load) b v where "ask (cs_backend s) = (b, Inr v)" "res = decoded decode v" "cs_backend s' = b" "entry s' key = Some v"
      "\<And>k. k \<noteq> key \<Longrightarrow> entry s' k = entry s k \<or> entry s' k = None"
    | (fail) b e where "ask (cs_backend s) = (b, Inl e)" "res = Inl e" "cs_backend s' = b"
      "\<And>k. entry s' k = entry s k \<or> entry s' k = None"
proof -
  obtain s1 e1 where g1: "cache_Get key s = (s1, e1)"
    by (rule prod.exhaust)
  note f1 = cache_Get_frame [OF g1]
  show ?thesis
  proof (cases "\<exists>env r. e1 = Some env \<and> \<not> isStale s1 key env \<and> decode (env_Data env) = Some r")
    case True
    then obtain env r where e: "e1 = Some env" "\<not> isStale s1 key env" "decode (env_Data env) = Some r"
      by blast
    then have "s' = s1\<lparr>cs_hits := cs_hits s1 + 1\<rparr>" "res = decoded decode (env_Data env)"
      using assms g1 by (simp_all add: cached_find_def decoded_def)
    then show ?thesis
      using hit [of "env_Data env"] f1 e(1) by simp
  next
    case False
    then obtain u where u: "u = s1 \<or> u = cache_Delete key s1" "cached_load ttl key ask decode u = (s', res)"
      using assms g1 by (auto simp: cached_find_def split: option.splits if_splits)
    have fu: "cs_backend u = cs_backend s"
      using u(1) f1(1) by auto
    have su: "entry u k = entry s k \<or> entry u k = None" for k
      using u(1) f1(2) [of k] by (cases "k = key") auto
    have chain: "entry t k = entry s k \<or> entry t k = None" if "entry t k = entry u k \<or> entry t k = None"
      for t :: "('a, 'b) cached_state" and k
      using that su [of k] by auto
    show ?thesis
      using u(2)
    proof (cases rule: cached_load_cases)
      case (hit v)
      then show ?thesis
        using that(1) [of v] fu su [of key] chain by simp
    next
      case (load b v)
      show ?thesis
        by (rule that(2) [of b v]) (use load fu chain in simp_all)
    next
      case (fail b e)
      show ?thesis
        by (rule that(3) [of b e]) (use fail fu chain in simp_all)
    qed
  qed
qed

lemma decoded_Some [simp]: "decoded Some v = Inr v"
  by (simp add: decoded_def)

section \<open>The decorator keeps the contract\<close>

text \<open>
  The key of a row joins its ID and tenant with a colon, so the contract is kept for tables whose IDs
  and tenants have no colon, as UUIDs have none.
\<close>

definition colon_free :: "string \<Rightarrow> bool" where
  "colon_free s \<longleftrightarrow> CHR '':'' \<notin> set s"

lemma key_split:
  assumes "colon_free i" "colon_free t" "i @ '':'' @ t = i' @ '':'' @ t'"
  shows "i = i' \<and> t = t'"
proof -
  have one: "length (filter (\<lambda>c. c = CHR '':'') (i @ '':'' @ t)) = 1"
    using assms(1,2) by (auto simp: colon_free_def filter_empty_conv)
  have "length (filter (\<lambda>c. c = CHR '':'') (i' @ '':'' @ t')) = 1"
    using one unfolding assms(3) .
  then have "CHR '':'' \<notin> set i'"
    by (auto simp: filter_empty_conv)
  then have "takeWhile (\<lambda>c. c \<noteq> CHR '':'') (i' @ '':'' @ t') = i'"
    by (subst takeWhile_append2) auto
  moreover have "takeWhile (\<lambda>c. c \<noteq> CHR '':'') (i @ '':'' @ t) = i"
    using assms(1) by (subst takeWhile_append2) (auto simp: colon_free_def)
  ultimately show ?thesis
    using assms(3) by simp
qed

text \<open>Every tenant entry of the cache is the current row of the table.\<close>

locale cacheable_repository = subscription_repository R rows inv
  for R :: "'s sub_repo" and rows :: "'s \<Rightarrow> string \<Rightarrow> SubscriptionRow option" and inv :: "'s \<Rightarrow> bool"
begin

definition coherent :: "('s, SubscriptionRow) cached_state \<Rightarrow> bool" where
  "coherent s \<longleftrightarrow> (\<forall>k row. entry s k = Some row \<longrightarrow> (\<exists>sid t. k = tenantCacheKey sid t)
     \<longrightarrow> k = tenantCacheKey (sub_ID row) (sub_TenantID row) \<and> rows (cs_backend s) (sub_ID row) = Some row)"

definition cached_inv :: "('s, SubscriptionRow) cached_state \<Rightarrow> bool" where
  "cached_inv s \<longleftrightarrow> inv (cs_backend s) \<and> coherent s
     \<and> (\<forall>sid row. rows (cs_backend s) sid = Some row \<longrightarrow> colon_free sid \<and> colon_free (sub_TenantID row))"

lemma coherentD:
  "\<lbrakk>coherent s; entry s k = Some row; \<exists>sid t. k = tenantCacheKey sid t\<rbrakk>
    \<Longrightarrow> k = tenantCacheKey (sub_ID row) (sub_TenantID row) \<and> rows (cs_backend s) (sub_ID row) = Some row"
  by (simp add: coherent_def)

lemma coherent_less:
  assumes "coherent s" "rows (cs_backend s') = rows (cs_backend s)" "\<And>k. entry s' k = entry s k \<or> entry s' k = None"
  shows "coherent s'"
  unfolding coherent_def
proof (intro allI impI)
  fix k row
  assume k: "entry s' k = Some row" "\<exists>sid t. k = tenantCacheKey sid t"
  then have "entry s k = Some row"
    using assms(3) [of k] by simp
  then show "k = tenantCacheKey (sub_ID row) (sub_TenantID row) \<and> rows (cs_backend s') (sub_ID row) = Some row"
    using coherentD [OF assms(1) _ k(2)] assms(2) by simp
qed

lemma cached_inv_keep:
  "\<lbrakk>cached_inv s; inv (cs_backend s'); rows (cs_backend s') = rows (cs_backend s); coherent s'\<rbrakk> \<Longrightarrow> cached_inv s'"
  by (simp add: cached_inv_def)

lemma cached_find_tenant:
  assumes "cached_inv s" "cached_FindByIDAndTenant R ttl s sid t = (s', res)"
  shows "cached_inv s' \<and> rows (cs_backend s') = rows (cs_backend s)"
    "res = Inr row \<Longrightarrow> rows (cs_backend s) sid = Some row \<and> sub_TenantID row = t"
    "\<lbrakk>res = Inl RepoNotFound; rows (cs_backend s) sid = Some row\<rbrakk> \<Longrightarrow> sub_TenantID row \<noteq> t"
proof -
  let ?key = "tenantCacheKey sid t"
  have inv: "inv (cs_backend s)" and coh: "coherent s"
    and ids: "\<And>sid row. rows (cs_backend s) sid = Some row \<Longrightarrow> colon_free sid \<and> colon_free (sub_TenantID row)"
    using assms(1) by (auto simp: cached_inv_def)
  have "(cached_inv s' \<and> rows (cs_backend s') = rows (cs_backend s))
      \<and> (res = Inr row \<longrightarrow> rows (cs_backend s) sid = Some row \<and> sub_TenantID row = t)
      \<and> (res = Inl RepoNotFound \<longrightarrow> rows (cs_backend s) sid = Some row \<longrightarrow> sub_TenantID row \<noteq> t)"
    using assms(2) unfolding cached_FindByIDAndTenant_def
  proof (cases rule: cached_find_cases)
    case (hit v)
    then have v: "?key = tenantCacheKey (sub_ID v) (sub_TenantID v)" "rows (cs_backend s) (sub_ID v) = Some v"
      using coherentD [OF coh hit(2)] by blast+
    then have "sub_ID v = sid \<and> sub_TenantID v = t"
      using key_split [of "sub_ID v" "sub_TenantID v" sid t] ids [OF v(2)] by (simp add: tenantCacheKey_def)
    moreover have "coherent s'"
      by (rule coherent_less [OF coh]) (simp_all only: hit(3,4))
    ultimately show ?thesis
      using hit(1,3) v(2) inv cached_inv_keep [OF assms(1), of s'] by auto
  next
    case (load b v)
    have f: "inv b \<and> rows b = rows (cs_backend s)" "rows (cs_backend s) sid = Some v \<and> sub_TenantID v = t"
      using find_frame [OF inv load(1)] find_ok [OF inv load(1)] by simp_all
    then have "sub_ID v = sid"
      using rows_keyed [OF inv] by blast
    have "coherent s'"
      unfolding coherent_def
    proof (intro allI impI)
      fix k row'
      assume k: "entry s' k = Some row'" "\<exists>sid t. k = tenantCacheKey sid t"
      show "k = tenantCacheKey (sub_ID row') (sub_TenantID row') \<and> rows (cs_backend s') (sub_ID row') = Some row'"
      proof (cases "k = ?key")
        case True
        then show ?thesis
          using k(1) load(3,4) f \<open>sub_ID v = sid\<close> by simp
      next
        case False
        then have "entry s k = Some row'"
          using load(5) [OF False] k(1) by auto
        then show ?thesis
          using coherentD [OF coh _ k(2)] load(3) f(1) by simp
      qed
    qed
    then have "cached_inv s'"
      using cached_inv_keep [OF assms(1), of s'] load(3) f(1) by simp
    then show ?thesis
      using load(2,3) f by auto
  next
    case (fail b e)
    have f: "inv b \<and> rows b = rows (cs_backend s)"
      using find_frame [OF inv fail(1)] .
    moreover have "coherent s'"
      by (rule coherent_less [OF coh]) (simp_all only: fail(3,4) f)
    ultimately have "cached_inv s'"
      using cached_inv_keep [OF assms(1), of s'] fail(3) by simp
    then show ?thesis
      using fail(1-3) f find_miss [OF inv, of sid t b row] by simp
  qed
  then show "cached_inv s' \<and> rows (cs_backend s') = rows (cs_backend s)"
    "res = Inr row \<Longrightarrow> rows (cs_backend s) sid = Some row \<and> sub_TenantID row = t"
    "\<lbrakk>res = Inl RepoNotFound; rows (cs_backend s) sid = Some row\<rbrakk> \<Longrightarrow> sub_TenantID row \<noteq> t"
    by simp_all
qed

lemma cached_Delete_frame:
  "cs_backend (cached_Delete sid t s) = cs_backend s"
  "entry (cached_Delete sid t s) = (entry s)(cacheKey sid := None, tenantCacheKey sid t := None)"
  using clock_frame(1) [of "cache_Delete (tenantCacheKey sid t) (cache_Delete (cacheKey sid) s)"]
  by (simp_all add: cached_Delete_def Let_def case_prod_beta)

lemma cached_update:
  assumes "cached_inv s" "cached_UpdateStatus R s sid t st = (s', res)"
  shows "res = Some e \<Longrightarrow> cached_inv s' \<and> rows (cs_backend s') = rows (cs_backend s)"
    "res = None \<Longrightarrow> cached_inv s' \<and> (\<exists>row v. rows (cs_backend s) sid = Some row \<and> sub_TenantID row = t
        \<and> rows (cs_backend s') = (rows (cs_backend s))(sid \<mapsto> row\<lparr>sub_Status := st, sub_Version := v\<rparr>))"
    "\<lbrakk>res = Some RepoNotFound; rows (cs_backend s) sid = Some row\<rbrakk> \<Longrightarrow> sub_TenantID row \<noteq> t"
proof -
  obtain b r where u: "repo_UpdateStatus R (cs_backend s) sid t st = (b, r)"
    by (rule prod.exhaust)
  have inv: "inv (cs_backend s)" and coh: "coherent s"
    and ids: "\<And>sid row. rows (cs_backend s) sid = Some row \<Longrightarrow> colon_free sid \<and> colon_free (sub_TenantID row)"
    using assms(1) by (simp_all add: cached_inv_def)
  have "cached_UpdateStatus R s sid t st
      = ((if r = None then cached_Delete sid t (s\<lparr>cs_backend := b\<rparr>) else s\<lparr>cs_backend := b\<rparr>), r)"
    unfolding cached_UpdateStatus_def delegate_def u by (cases r) simp_all
  then have s': "res = r" "s' = (if r = None then cached_Delete sid t (s\<lparr>cs_backend := b\<rparr>) else s\<lparr>cs_backend := b\<rparr>)"
    unfolding assms(2) by (simp_all only: prod.inject)
  {
    assume "res = Some e"
    then have "inv b \<and> rows b = rows (cs_backend s)"
      using update_fail [OF inv] u s'(1) by simp
    moreover from this have "coherent (s\<lparr>cs_backend := b\<rparr>)"
      by (intro coherent_less [OF coh]) simp_all
    moreover have "s' = s\<lparr>cs_backend := b\<rparr>"
      using s' \<open>res = Some e\<close> by auto
    ultimately show "cached_inv s' \<and> rows (cs_backend s') = rows (cs_backend s)"
      using cached_inv_keep [OF assms(1), of s'] by simp
  }
  {
    assume none: "res = None"
    then obtain row v where row: "rows (cs_backend s) sid = Some row" "sub_TenantID row = t" "inv b"
        "rows b = (rows (cs_backend s))(sid \<mapsto> row\<lparr>sub_Status := st, sub_Version := v\<rparr>)"
      using update_ok [OF inv, of sid t st b] u s'(1) by auto
    have gone: "s' = cached_Delete sid t (s\<lparr>cs_backend := b\<rparr>)"
      unfolding s'(2) s'(1) [symmetric] none by (rule if_P [OF refl])
    have new: "cs_backend s' = b"
      unfolding gone cached_Delete_frame(1) by simp
    have tab: "rows (cs_backend s') = (rows (cs_backend s))(sid \<mapsto> row\<lparr>sub_Status := st, sub_Version := v\<rparr>)"
      unfolding new by (rule row(4))
    have kept: "entry s' = (entry s)(cacheKey sid := None, tenantCacheKey sid t := None)"
      unfolding gone cached_Delete_frame(2) by (simp only: entry_fields)
    have "coherent s'"
      unfolding coherent_def
    proof (intro allI impI)
      fix k row'
      assume k: "entry s' k = Some row'" "\<exists>sid t. k = tenantCacheKey sid t"
      have old: "entry s k = Some row'" "k \<noteq> tenantCacheKey sid t"
        using k(1) unfolding kept by (auto split: if_splits)
      then have r': "k = tenantCacheKey (sub_ID row') (sub_TenantID row')" "rows (cs_backend s) (sub_ID row') = Some row'"
        using coherentD [OF coh _ k(2)] by simp_all
      have "sub_ID row' \<noteq> sid"
      proof
        assume same: "sub_ID row' = sid"
        have "Some row' = Some row"
          unfolding row(1) [symmetric] same [symmetric] by (rule r'(2) [symmetric])
        then have "row' = row"
          by simp
        then show False
          using r'(1) old(2) row(2) same by simp
      qed
      then show "k = tenantCacheKey (sub_ID row') (sub_TenantID row') \<and> rows (cs_backend s') (sub_ID row') = Some row'"
        using r' tab by simp
    qed
    moreover have "colon_free i \<and> colon_free (sub_TenantID r)" if "rows (cs_backend s') i = Some r" for i r
      using that ids [of i r] ids [OF row(1)] unfolding tab by (cases "i = sid") auto
    ultimately have "cached_inv s'"
      using row(3) new by (simp add: cached_inv_def)
    then show "cached_inv s' \<and> (\<exists>row v. rows (cs_backend s) sid = Some row \<and> sub_TenantID row = t
        \<and> rows (cs_backend s') = (rows (cs_backend s))(sid \<mapsto> row\<lparr>sub_Status := st, sub_Version := v\<rparr>))"
      by (intro conjI exI [of _ row] exI [of _ v]) (simp_all only: row(1,2) tab)
  }
  show "\<lbrakk>res = Some RepoNotFound; rows (cs_backend s) sid = Some row\<rbrakk> \<Longrightarrow> sub_TenantID row \<noteq> t"
    using update_miss [OF inv, of sid t st b row] u s'(1) by simp
qed

end

sublocale cacheable_repository \<subseteq> cached: subscription_repository "CachedSubscriptionRepo R ttl"
    "\<lambda>s. rows (cs_backend s)" cached_inv for ttl
proof (unfold_locales, unfold CachedSubscriptionRepo_def sub_repo.simps)
  fix s s' sid t st res row e
  assume i: "cached_inv s"
  show "cached_FindByIDAndTenant R ttl s sid t = (s', res) \<Longrightarrow> cached_inv s' \<and> rows (cs_backend s') = rows (cs_backend s)"
    using cached_find_tenant(1) [OF i] .
  show "cached_FindByIDAndTenant R ttl s sid t = (s', Inr row) \<Longrightarrow> rows (cs_backend s) sid = Some row \<and> sub_TenantID row = t"
    using cached_find_tenant(2) [OF i _ refl] .
  show "\<lbrakk>cached_FindByIDAndTenant R ttl s sid t = (s', Inl RepoNotFound); rows (cs_backend s) sid = Some row\<rbrakk> \<Longrightarrow> sub_TenantID row \<noteq> t"
    using cached_find_tenant(3) [OF i _ refl] .
  show "cached_UpdateStatus R s sid t st = (s', Some e) \<Longrightarrow> cached_inv s' \<and> rows (cs_backend s') = rows (cs_backend s)"
    using cached_update(1) [OF i _ refl] .
  show "cached_UpdateStatus R s sid t st = (s', None) \<Longrightarrow> cached_inv s' \<and> (\<exists>row v. rows (cs_backend s) sid = Some row
      \<and> sub_TenantID row = t \<and> rows (cs_backend s') = (rows (cs_backend s))(sid \<mapsto> row\<lparr>sub_Status := st, sub_Version := v\<rparr>))"
    using cached_update(2) [OF i _ refl] .
  show "\<lbrakk>cached_UpdateStatus R s sid t st = (s', Some RepoNotFound); rows (cs_backend s) sid = Some row\<rbrakk> \<Longrightarrow> sub_TenantID row \<noteq> t"
    using cached_update(3) [OF i _ refl] .
  show "rows (cs_backend s) sid = Some row \<Longrightarrow> sub_ID row = sid"
    using i rows_keyed by (auto simp: cached_inv_def)
qed

interpretation cmock: cacheable_repository MockSubscriptionRepo map_of mock_inv
  by unfold_locales

interpretation cpg: cacheable_repository PostgresSubscriptionRepo "\<lambda>db. by_id (pg_rows db)" pg_inv
  by unfold_locales

section \<open>The caching plan repository\<close>

text \<open>
  The backend's operations on its state, and what the plan cache stores: a plan under its own key,
  all plans under the list key (\<^verbatim>\<open>internal/repository/cached_plan_repo.go\<close>).
\<close>

record 's plan_backend =
  pb_FindByID :: "'s \<Rightarrow> string \<Rightarrow> 's \<times> (repo_error, PlanRow) result"
  pb_FindByIDs :: "'s \<Rightarrow> string list \<Rightarrow> 's \<times> (repo_error, PlanRow list) result"
  pb_FindByIDsAndTenant :: "'s \<Rightarrow> string list \<Rightarrow> string \<Rightarrow> 's \<times> (repo_error, PlanRow list) result"
  pb_List :: "'s \<Rightarrow> 's \<times> (repo_error, PlanRow list) result"

datatype plan_data = PlanData PlanRow | PlanListData "PlanRow list"

definition as_plan :: "plan_data \<Rightarrow> PlanRow option" where
  "as_plan d = (case d of PlanData r \<Rightarrow> Some r | PlanListData _ \<Rightarrow> None)"

definition as_plans :: "plan_data \<Rightarrow> PlanRow list option" where
  "as_plans d = (case d of PlanListData rs \<Rightarrow> Some rs | PlanData _ \<Rightarrow> None)"

definition planKey :: "string \<Rightarrow> string" where
  "planKey pid = ''plan:byid:'' @ pid"

definition planListKey :: string where
  "planListKey = ''plan:list:all''"

definition cached_plan_FindByID ::
    "'s plan_backend \<Rightarrow> duration \<Rightarrow> ('s, plan_data) cached_state \<Rightarrow> string
     \<Rightarrow> ('s, plan_data) cached_state \<times> (repo_error, PlanRow) result" where
  "cached_plan_FindByID R ttl s pid =
     cached_find ttl (planKey pid) (\<lambda>b. map_prod (\<lambda>b. b) (map_sum (\<lambda>e. e) PlanData) (pb_FindByID R b pid)) as_plan s"

definition cached_plan_List ::
    "'s plan_backend \<Rightarrow> duration \<Rightarrow> ('s, plan_data) cached_state
     \<Rightarrow> ('s, plan_data) cached_state \<times> (repo_error, PlanRow list) result" where
  "cached_plan_List R ttl s =
     cached_find ttl planListKey (\<lambda>b. map_prod (\<lambda>b. b) (map_sum (\<lambda>e. e) PlanListData) (pb_List R b)) as_plans s"

definition cached_plan_Delete :: "string \<Rightarrow> ('s, plan_data) cached_state \<Rightarrow> ('s, plan_data) cached_state" where
  "cached_plan_Delete pid s =
     (let key = planKey pid;
          (s1, now) = clock (cache_Delete planListKey (cache_Delete key s))
      in s1\<lparr>cs_invalidatedAt := AList.update planListKey now (AList.update key now (cs_invalidatedAt s1))\<rparr>)"

definition CachedPlanRepo :: "'s plan_backend \<Rightarrow> duration \<Rightarrow> ('s, plan_data) cached_state plan_backend" where
  "CachedPlanRepo R ttl =
     \<lparr>pb_FindByID = cached_plan_FindByID R ttl,
      pb_FindByIDs = (\<lambda>s ids. delegate (\<lambda>b. pb_FindByIDs R b ids) s),
      pb_FindByIDsAndTenant = (\<lambda>s ids t. delegate (\<lambda>b. pb_FindByIDsAndTenant R b ids t) s),
      pb_List = cached_plan_List R ttl\<rparr>"

definition NewCachedPlanRepo :: "'s \<Rightarrow> time list \<Rightarrow> ('s, plan_data) cached_state" where
  "NewCachedPlanRepo backend ticks =
     \<lparr>cs_backend = backend, cs_items = [], cs_invalidatedAt = [], cs_hits = 0, cs_misses = 0, cs_stales = 0,
      cs_now = 0, cs_ticks = ticks\<rparr>"

text \<open>The in-memory plan repository as a backend; the rows come in the order of the list.\<close>

definition MockPlanBackend :: "(string \<times> PlanRow) list plan_backend" where
  "MockPlanBackend =
     \<lparr>pb_FindByID = (\<lambda>m pid. (m, plans_FindByID (MockPlanRepo m) pid)),
      pb_FindByIDs = (\<lambda>m ids. (m, plans_FindByIDs (MockPlanRepo m) ids)),
      pb_FindByIDsAndTenant = (\<lambda>m ids t. (m, plans_FindByIDsAndTenant (MockPlanRepo m) ids t)),
      pb_List = (\<lambda>m. (m, Inr (map snd m)))\<rparr>"

text \<open>Every entry has the shape its key is read with.\<close>

definition shaped :: "('s, plan_data) cached_state \<Rightarrow> bool" where
  "shaped s \<longleftrightarrow> (\<forall>pid v. entry s (planKey pid) = Some v \<longrightarrow> as_plan v \<noteq> None)
     \<and> (\<forall>v. entry s planListKey = Some v \<longrightarrow> as_plans v \<noteq> None)"

lemma plan_keys_differ [simp]: "planKey pid \<noteq> planListKey" "planListKey \<noteq> planKey pid"
  by (simp_all add: planKey_def planListKey_def)

lemma planKey_inject [simp]: "planKey a = planKey b \<longleftrightarrow> a = b"
  by (simp add: planKey_def)

lemma shaped_less:
  assumes "shaped s" "\<And>k. entry s' k = entry s k \<or> entry s' k = None"
  shows "shaped s'"
  using assms(1) assms(2) [of "planKey _"] assms(2) [of planListKey]
  by (simp add: shaped_def) (metis option.distinct(1))

lemma shaped_find:
  assumes "shaped s" "cached_plan_FindByID R ttl s pid = (s', res)"
  shows "shaped s' \<and> (res = Inl e \<longrightarrow> snd (pb_FindByID R (cs_backend s) pid) = Inl e)"
  using assms(2) unfolding cached_plan_FindByID_def
proof (cases rule: cached_find_cases)
  case (hit v)
  then have "as_plan v \<noteq> None"
    using assms(1) by (simp only: shaped_def) blast
  then obtain r where "as_plan v = Some r"
    by blast
  then show ?thesis
    using shaped_less [OF assms(1) hit(4)] hit(1) by (simp add: decoded_def)
next
  case (load b v)
  obtain r where v: "v = PlanData r"
    using load(1) by (cases "snd (pb_FindByID R (cs_backend s) pid)") (auto simp: map_prod_def case_prod_beta)
  have "shaped s'"
    unfolding shaped_def
  proof (intro conjI allI impI)
    fix pid' w
    assume "entry s' (planKey pid') = Some w"
    then show "as_plan w \<noteq> None"
      using load(4) load(5) [of "planKey pid'"] assms(1) v by (cases "pid' = pid") (auto simp: shaped_def as_plan_def)
  next
    fix w
    assume "entry s' planListKey = Some w"
    then show "as_plans w \<noteq> None"
      using load(5) [of planListKey] assms(1) by (auto simp: shaped_def)
  qed
  then show ?thesis
    using load(2) v by (simp add: decoded_def as_plan_def)
next
  case (fail b f)
  then show ?thesis
    using shaped_less [OF assms(1), of s']
    by (cases "snd (pb_FindByID R (cs_backend s) pid)") (auto simp: map_prod_def case_prod_beta)
qed

lemma shaped_list:
  assumes "shaped s" "cached_plan_List R ttl s = (s', res)"
  shows "shaped s' \<and> (res = Inl e \<longrightarrow> snd (pb_List R (cs_backend s)) = Inl e)"
  using assms(2) unfolding cached_plan_List_def
proof (cases rule: cached_find_cases)
  case (hit v)
  then show ?thesis
    using shaped_less [OF assms(1), of s'] assms(1) by (auto simp: decoded_def shaped_def)
next
  case (load b v)
  obtain rs where v: "v = PlanListData rs"
    using load(1) by (cases "snd (pb_List R (cs_backend s))") (auto simp: map_prod_def case_prod_beta)
  have "shaped s'"
    unfolding shaped_def
  proof (intro conjI allI impI)
    fix pid' w
    assume "entry s' (planKey pid') = Some w"
    then show "as_plan w \<noteq> None"
      using load(5) [of "planKey pid'"] assms(1) by (auto simp: shaped_def)
  next
    fix w
    assume "entry s' planListKey = Some w"
    then show "as_plans w \<noteq> None"
      using load(4) v by (auto simp: as_plans_def)
  qed
  then show ?thesis
    using load(2) v by (simp add: decoded_def as_plans_def)
next
  case (fail b f)
  then show ?thesis
    using shaped_less [OF assms(1), of s']
    by (cases "snd (pb_List R (cs_backend s))") (auto simp: map_prod_def case_prod_beta)
qed

lemma shaped_delete: "shaped s \<Longrightarrow> shaped (cached_plan_Delete pid s)"
  by (rule shaped_less, assumption)
    (auto simp: cached_plan_Delete_def Let_def case_prod_beta)

section \<open>Sequences of reads and writes\<close>

text \<open>Calls made one after another on a repository.\<close>

datatype repo_op = ReadOp string string | StatusOp string string string

fun run_repo_ops :: "'s sub_repo \<Rightarrow> 's \<Rightarrow> repo_op list \<Rightarrow> 's" where
  "run_repo_ops R s [] = s"
| "run_repo_ops R s (ReadOp sid t # ops) = run_repo_ops R (fst (repo_FindByIDAndTenant R s sid t)) ops"
| "run_repo_ops R s (StatusOp sid t st # ops) = run_repo_ops R (fst (repo_UpdateStatus R s sid t st)) ops"

datatype plan_op = FindPlan string | ListPlans | InvalidatePlan string

fun run_plan_ops :: "'s plan_backend \<Rightarrow> duration \<Rightarrow> ('s, plan_data) cached_state \<Rightarrow> plan_op list \<Rightarrow> ('s, plan_data) cached_state" where
  "run_plan_ops R ttl s [] = s"
| "run_plan_ops R ttl s (FindPlan pid # ops) = run_plan_ops R ttl (fst (cached_plan_FindByID R ttl s pid)) ops"
| "run_plan_ops R ttl s (ListPlans # ops) = run_plan_ops R ttl (fst (cached_plan_List R ttl s)) ops"
| "run_plan_ops R ttl s (InvalidatePlan pid # ops) = run_plan_ops R ttl (cached_plan_Delete pid s) ops"

lemma run_plan_ops_shaped: "shaped s \<Longrightarrow> shaped (run_plan_ops R ttl s ops)"
proof (induction ops arbitrary: s)
  case (Cons op ops)
  then show ?case
    using shaped_find [OF Cons.prems prod.collapse [symmetric]] shaped_list [OF Cons.prems prod.collapse [symmetric]]
      shaped_delete [OF Cons.prems] by (cases op) simp_all
qed simp

text \<open>
  A lookup whose backend read is overtaken by another request: the row has been read, then
  \<^verbatim>\<open>other\<close> runs to its end, then the envelope is stamped and stored.
\<close>

definition overtaken_loader ::
    "('s \<Rightarrow> 's \<times> (repo_error, 'v) result) \<Rightarrow> (('s, 'v) cached_state \<Rightarrow> ('s, 'v) cached_state) \<Rightarrow> ('s, 'v) cached_state
     \<Rightarrow> ('s, 'v) cached_state \<times> (repo_error, 'v cacheEnvelope) result" where
  "overtaken_loader ask other s = (case ask (cs_backend s) of
      (b, Inl e) \<Rightarrow> (other (s\<lparr>cs_backend := b\<rparr>), Inl e)
    | (b, Inr v) \<Rightarrow>
        (let (s1, now) = clock (other (s\<lparr>cs_backend := b\<rparr>))
         in (s1, Inr \<lparr>env_Data = v, env_StoredAt = now\<rparr>)))"

context subscription_repository
begin

lemma run_repo_ops_inv: "inv s \<Longrightarrow> inv (run_repo_ops R s ops)"
proof (induction ops arbitrary: s)
  case (Cons op ops)
  then show ?case
  proof (cases op)
    case (ReadOp sid t)
    obtain s1 r where c: "repo_FindByIDAndTenant R s sid t = (s1, r)"
      by (rule prod.exhaust)
    then show ?thesis
      using Cons.IH [of s1] find_frame [OF Cons.prems c] ReadOp by simp
  next
    case (StatusOp sid t st)
    obtain s1 r where c: "repo_UpdateStatus R s sid t st = (s1, r)"
      by (rule prod.exhaust)
    then have "inv s1"
      using update_fail [OF Cons.prems] update_ok [OF Cons.prems] by (cases r) blast+
    then show ?thesis
      using Cons.IH [of s1] c StatusOp by simp
  qed
qed simp

end

lemma fresh_cached_inv:
  assumes "pg_inv db" "list_all (\<lambda>r. colon_free (sub_ID r) \<and> colon_free (sub_TenantID r)) (pg_rows db)"
  shows "cpg.cached_inv (NewCachedSubscriptionRepo db ticks)"
proof -
  have "cpg.coherent (NewCachedSubscriptionRepo db ticks)"
    by (simp add: cpg.coherent_def entry_def NewCachedSubscriptionRepo_def)
  moreover have "colon_free sid \<and> colon_free (sub_TenantID row)" if "by_id (pg_rows db) sid = Some row" for sid row
    using that assms(2) by_id_mem [of "pg_rows db" sid row] assms(1) by (auto simp: pg_inv_def list_all_iff)
  ultimately show ?thesis
    using assms(1) by (simp add: cpg.cached_inv_def NewCachedSubscriptionRepo_def)
qed

section \<open>Properties\<close>







text \<open>
  The invalidation does not protect a read that is already under way.  A reader has fetched the row, a status
  change commits and invalidates, then the reader stamps and stores what it fetched: the stamp is later than the
  invalidation, so the cache serves the row from before the change although the table holds the new one.
\<close>

theorem overtaken_read_serves_stale_row:
  assumes "pg_inv db" "pg_faults db = []" "by_id (pg_rows db) sid = Some row" "sub_TenantID row = t"
    and "s = fst (GetOrLoad (tenantCacheKey sid t) ttl
        (overtaken_loader (\<lambda>b. repo_FindByIDAndTenant PostgresSubscriptionRepo b sid t)
           (\<lambda>s. fst (cached_UpdateStatus PostgresSubscriptionRepo s sid t st)))
        (NewCachedSubscriptionRepo db [invalidated, stored, expires_from, read_at]))"
    and "0 < ttl" "invalidated \<le> stored" "read_at \<le> expires_from + ttl"
  shows "by_id (pg_rows (cs_backend s)) sid = Some (row\<lparr>sub_Status := st, sub_Version := sub_Version row + 1\<rparr>)
    \<and> snd (cached_FindByIDAndTenant PostgresSubscriptionRepo ttl s sid t) = Inr row"
proof -
  let ?k = "tenantCacheKey sid t"
  let ?s0 = "NewCachedSubscriptionRepo db [invalidated, stored, expires_from, read_at]"
  obtain db' where db': "repo_UpdateStatus PostgresSubscriptionRepo db sid t st = (db', None)"
      "by_id (pg_rows db') sid = Some (row\<lparr>sub_Status := st, sub_Version := sub_Version row + 1\<rparr>)"
    using pg_update_hit [OF assms(1-4)] by blast
  let ?env = "\<lparr>env_Data = row, env_StoredAt = stored\<rparr>"
  have s: "s = ?s0\<lparr>cs_backend := db', cs_now := expires_from, cs_ticks := [read_at],
      cs_invalidatedAt := [(cacheKey sid, invalidated), (?k, invalidated)],
      cs_items := [(?k, \<lparr>it_value = ?env, it_exp = Some (expires_from + ttl)\<rparr>)]\<rparr>"
    using assms(6) db'(1) pg_find_hit [OF assms(1-4)] unfolding assms(5)
    by (simp add: GetOrLoad_def cache_Get_def NewCachedSubscriptionRepo_def overtaken_loader_def cached_UpdateStatus_def
        delegate_def cached_Delete_def cache_Delete_def clock_def cache_Set_def cacheKey_def tenantCacheKey_def)
  have "cache_Get ?k s = (s\<lparr>cs_now := read_at, cs_ticks := []\<rparr>, Some ?env)"
    using assms(8) by (simp add: s cache_Get_def clock_def NewCachedSubscriptionRepo_def)
  moreover have "\<not> isStale (s\<lparr>cs_now := read_at, cs_ticks := []\<rparr>) ?k ?env"
    using assms(7) by (simp add: s isStale_def cacheKey_def tenantCacheKey_def)
  ultimately show ?thesis
    using db'(2) by (simp add: cached_FindByIDAndTenant_def cached_find_def) (simp add: s)
qed

lemma overtaken_read_serves_stale_row_witness:
  "let s = fst (GetOrLoad (tenantCacheKey ''s1'' ''t1'') 60
        (overtaken_loader (\<lambda>b. repo_FindByIDAndTenant PostgresSubscriptionRepo b ''s1'' ''t1'')
           (\<lambda>s. fst (cached_UpdateStatus PostgresSubscriptionRepo s ''s1'' ''t1'' ''cancelled'')))
        (NewCachedSubscriptionRepo sample_db [1, 2, 2, 50]))
   in snd (cached_FindByIDAndTenant PostgresSubscriptionRepo 60 s ''s1'' ''t1'') = Inr sample_row
      \<and> map_option sub_Status (by_id (pg_rows (cs_backend s)) ''s1'') = Some ''cancelled''"
  using overtaken_read_serves_stale_row [OF sample_facts(1-3) _ refl, of "''t1''" 60 1 2 50 2 "''cancelled''"]
  by (simp add: Let_def sample_row_def)

end
