(* ===== verification/Webhooks.thy ===== *)
theory Webhooks
  imports Prelude "HOL-Library.Sublist"
begin

text \<open>
  Verification of inbound webhooks (\<^verbatim>\<open>internal/middleware/webhook_verification.go\<close>), the cache of seen event IDs
  (\<^verbatim>\<open>webhook_event_cache.go\<close>) and the two middlewares for signed admin requests (\<^verbatim>\<open>RequestSigning\<close> and
  \<^verbatim>\<open>request_signing.go\<close>).  A byte slice is a string.  HMAC, SHA-256, the parsing of RFC 3339 dates and URL escaping are
  parameters; a request carries the clock readings its handler will make, in nanoseconds.
\<close>

section \<open>Strings\<close>

definition HasPrefix :: "string \<Rightarrow> string \<Rightarrow> bool" where
  "HasPrefix s p = (take (length p) s = p)"

definition TrimPrefix :: "string \<Rightarrow> string \<Rightarrow> string" where
  "TrimPrefix s p = (if HasPrefix s p then drop (length p) s else s)"

fun Split :: "char \<Rightarrow> string \<Rightarrow> string list" where
  "Split c [] = [[]]"
| "Split c (x # xs) =
     (if x = c then [] # Split c xs
      else case Split c xs of [] \<Rightarrow> [[x]] | p # ps \<Rightarrow> (x # p) # ps)"

fun Join :: "string \<Rightarrow> string list \<Rightarrow> string" where
  "Join sep [] = []"
| "Join sep [p] = p"
| "Join sep (p # q # ps) = p @ sep @ Join sep (q # ps)"

fun Fields_from :: "string \<Rightarrow> string \<Rightarrow> string list" where
  "Fields_from acc [] = (if acc = [] then [] else [acc])"
| "Fields_from acc (c # s) =
     (if is_space c then (if acc = [] then Fields_from [] s else acc # Fields_from [] s)
      else Fields_from (acc @ [c]) s)"

definition Fields :: "string \<Rightarrow> string list" where
  "Fields s = Fields_from [] s"

definition newline :: string where
  "newline = [CHR 0x0A]"

text \<open>\<^verbatim>\<open>encoding/hex\<close>: lower case digits out, both cases in.\<close>

definition hex_char :: "nat \<Rightarrow> char" where
  "hex_char n = ''0123456789abcdef'' ! n"

definition hexEncode :: "string \<Rightarrow> string" where
  "hexEncode bs = concat (map (\<lambda>b. [hex_char (char_nat b div 16), hex_char (char_nat b mod 16)]) bs)"

definition hex_value :: "char \<Rightarrow> nat option" where
  "hex_value c =
     (let n = char_nat c
      in if 48 \<le> n \<and> n \<le> 57 then Some (n - 48)
         else if 97 \<le> n \<and> n \<le> 102 then Some (n - 87)
         else if 65 \<le> n \<and> n \<le> 70 then Some (n - 55) else None)"

fun hexDecode :: "string \<Rightarrow> string option" where
  "hexDecode [] = Some []"
| "hexDecode [c] = None"
| "hexDecode (a # b # s) = (case (hex_value a, hex_value b, hexDecode s) of
      (Some x, Some y, Some bs) \<Rightarrow> Some (char_of (16 * x + y) # bs)
    | _ \<Rightarrow> None)"

text \<open>\<^verbatim>\<open>fmt.Sscanf(s, "%d", &n)\<close>: blanks are skipped, what follows the digits is ignored.\<close>

definition parseInt64 :: "string \<Rightarrow> int option" where
  "parseInt64 s =
     (let rest = dropWhile (\<lambda>c. is_space c \<and> c \<noteq> CHR 0x0A) s;
          sign = takeWhile (\<lambda>c. c \<in> {CHR ''+'', CHR ''-''}) (take 1 rest);
          digits = takeWhile is_digit (drop (length sign) rest)
      in if digits = [] then None else ParseInt64 (sign @ digits))"

section \<open>Libraries\<close>

datatype SignatureAlgorithm = HMACSHA256 | HMACSHA384 | HMACSHA512 | OtherAlgorithm string

record sig_api =
  hmac :: "SignatureAlgorithm \<Rightarrow> string \<Rightarrow> string \<Rightarrow> string"
  sha256 :: "string \<Rightarrow> string"
  parse_RFC3339 :: "string \<Rightarrow> int option"
  parse_RFC3339Nano :: "string \<Rightarrow> int option"
  QueryEscape :: "string \<Rightarrow> string"

text \<open>The readings of \<^verbatim>\<open>time.Now()\<close> one request makes.\<close>

record request_clock =
  at_verify :: time
  at_cleanup :: time
  at_check :: time
  at_store :: time

section \<open>The cache of seen event IDs\<close>

datatype webhook_error = ErrInvalidSignature | ErrMissingSignature | ErrMissingTimestamp | ErrMissingEventID
  | ErrTimestampTooOld | ErrTimestampTooNew | ErrReplayDetected | ErrBodyTooLarge | ErrInvalidConfig
  | ErrEventIDAlreadySeen | ErrEmptyEventID | ErrReadBody

record EventIDCache =
  ec_entries :: "(string \<times> time) list"
  ec_ttl :: duration

definition NewEventIDCache :: "duration \<Rightarrow> EventIDCache" where
  "NewEventIDCache ttl = \<lparr>ec_entries = [], ec_ttl = (if ttl \<le> 0 then 5 * Minute else ttl)\<rparr>"

definition cleanupExpired :: "time \<Rightarrow> EventIDCache \<Rightarrow> EventIDCache" where
  "cleanupExpired now c = c\<lparr>ec_entries := filter (\<lambda>(i, expiry). \<not> now > expiry) (ec_entries c)\<rparr>"

definition CheckAndStore :: "request_clock \<Rightarrow> string \<Rightarrow> EventIDCache \<Rightarrow> EventIDCache \<times> webhook_error option" where
  "CheckAndStore clk eventID c =
     (if eventID = [] then (c, Some ErrEmptyEventID)
      else
        let c1 = cleanupExpired (at_cleanup clk) c
        in case map_of (ec_entries c1) eventID of
             Some expiry \<Rightarrow>
               if at_check clk < expiry then (c1, Some ErrEventIDAlreadySeen)
               else (c1\<lparr>ec_entries := AList.update eventID (at_store clk + ec_ttl c1) (AList.delete eventID (ec_entries c1))\<rparr>, None)
           | None \<Rightarrow> (c1\<lparr>ec_entries := AList.update eventID (at_store clk + ec_ttl c1) (ec_entries c1)\<rparr>, None))"

definition Has :: "time \<Rightarrow> string \<Rightarrow> EventIDCache \<Rightarrow> bool" where
  "Has now eventID c = (case map_of (ec_entries c) eventID of Some expiry \<Rightarrow> now < expiry | None \<Rightarrow> False)"

definition Remove :: "string \<Rightarrow> EventIDCache \<Rightarrow> EventIDCache" where
  "Remove eventID c = c\<lparr>ec_entries := AList.delete eventID (ec_entries c)\<rparr>"

definition Len :: "time \<Rightarrow> EventIDCache \<Rightarrow> EventIDCache \<times> nat" where
  "Len now c = (let c1 = cleanupExpired now c in (c1, length (ec_entries c1)))"

definition Clear :: "EventIDCache \<Rightarrow> EventIDCache" where
  "Clear c = c\<lparr>ec_entries := []\<rparr>"

section \<open>Configuration\<close>

datatype WebhookProvider = ProviderGeneric | ProviderStripe | ProviderPayPal | ProviderSquare | ProviderGitHub
  | ProviderCustom | ProviderOther string

record WebhookConfig =
  wc_Provider :: WebhookProvider
  wc_SecretKey :: string
  wc_SignatureHeader :: string
  wc_TimestampHeader :: string
  wc_EventIDHeader :: string
  wc_SignatureVersion :: string
  wc_Algorithm :: SignatureAlgorithm
  wc_Tolerance :: int
  wc_MaxBodySize :: int
  wc_RequireTimestamp :: bool
  wc_RequireEventID :: bool
  wc_EnableReplayProtection :: bool

definition DefaultMaxBodySize :: int where
  "DefaultMaxBodySize = 1024 * 1024 * 5"

definition DefaultTimestampSkew :: int where
  "DefaultTimestampSkew = 300"

definition DefaultWebhookConfig :: WebhookConfig where
  "DefaultWebhookConfig =
     \<lparr>wc_Provider = ProviderGeneric, wc_SecretKey = [], wc_SignatureHeader = ''X-Webhook-Signature'',
      wc_TimestampHeader = ''X-Webhook-Timestamp'', wc_EventIDHeader = ''X-Webhook-Event-Id'',
      wc_SignatureVersion = ''v2'', wc_Algorithm = HMACSHA256, wc_Tolerance = DefaultTimestampSkew,
      wc_MaxBodySize = DefaultMaxBodySize, wc_RequireTimestamp = True, wc_RequireEventID = True,
      wc_EnableReplayProtection = True\<rparr>"

definition ProviderConfig :: "WebhookProvider \<Rightarrow> WebhookConfig" where
  "ProviderConfig provider =
     (let cfg = DefaultWebhookConfig\<lparr>wc_Provider := provider, wc_SecretKey := ''test_secret''\<rparr>
      in case provider of
           ProviderStripe \<Rightarrow> cfg\<lparr>wc_SignatureHeader := ''Stripe-Signature'', wc_TimestampHeader := [], wc_EventIDHeader := [],
             wc_SignatureVersion := ''v1'', wc_Algorithm := HMACSHA256, wc_Tolerance := 300, wc_RequireTimestamp := True,
             wc_RequireEventID := False, wc_EnableReplayProtection := False\<rparr>
         | ProviderPayPal \<Rightarrow> cfg\<lparr>wc_SignatureHeader := ''PAYPAL-TRANSMISSION-SIG'',
             wc_TimestampHeader := ''PAYPAL-TRANSMISSION-TIME'', wc_EventIDHeader := ''PAYPAL-TRANSMISSION-ID'',
             wc_Algorithm := HMACSHA256, wc_Tolerance := 600, wc_RequireTimestamp := True, wc_RequireEventID := True,
             wc_EnableReplayProtection := True\<rparr>
         | ProviderGitHub \<Rightarrow> cfg\<lparr>wc_SignatureHeader := ''X-Hub-Signature-256'', wc_TimestampHeader := ''X-Hub-Request-Started'',
             wc_EventIDHeader := ''X-GitHub-Delivery'', wc_SignatureVersion := ''sha256='', wc_Algorithm := HMACSHA256,
             wc_Tolerance := 900, wc_RequireTimestamp := False, wc_RequireEventID := True, wc_EnableReplayProtection := True\<rparr>
         | ProviderSquare \<Rightarrow> cfg\<lparr>wc_SignatureHeader := ''x-square-hmacsha256-signature'',
             wc_TimestampHeader := ''x-square-signature-timestamp'', wc_EventIDHeader := ''x-square-delivery-id'',
             wc_Algorithm := HMACSHA256, wc_Tolerance := 300, wc_RequireTimestamp := True, wc_RequireEventID := True,
             wc_EnableReplayProtection := True\<rparr>
         | _ \<Rightarrow> cfg)"

definition WithSecret :: "string \<Rightarrow> WebhookConfig \<Rightarrow> WebhookConfig" where
  "WithSecret secret c = c\<lparr>wc_SecretKey := secret\<rparr>"

definition Validate :: "WebhookConfig \<Rightarrow> (webhook_error, WebhookConfig) result" where
  "Validate c =
     (if wc_SecretKey c = [] then Inl ErrInvalidConfig
      else if wc_Provider c = ProviderOther [] then Inl ErrInvalidConfig
      else if \<not> (case wc_Algorithm c of OtherAlgorithm _ \<Rightarrow> False | _ \<Rightarrow> True) then Inl ErrInvalidConfig
      else
        let c1 = (if wc_MaxBodySize c = 0 then c\<lparr>wc_MaxBodySize := DefaultMaxBodySize\<rparr> else c)
        in Inr (if wc_Tolerance c1 = 0 then c1\<lparr>wc_Tolerance := DefaultTimestampSkew\<rparr> else c1))"

section \<open>Timestamps\<close>

definition parseUnixTimestamp :: "sig_api \<Rightarrow> string \<Rightarrow> int option" where
  "parseUnixTimestamp A timestamp = (case parseInt64 timestamp of
      Some secs \<Rightarrow>
        Some (if secs > 10000000000 then (if secs > 1000000000000 then secs div 1000000000 else secs div 1000) else secs)
    | None \<Rightarrow> (case parse_RFC3339 A timestamp of
        Some t \<Rightarrow> Some t
      | None \<Rightarrow> parse_RFC3339Nano A timestamp))"

definition Unix :: "time \<Rightarrow> int" where
  "Unix t = t div Second"

definition verifyTimestamp :: "sig_api \<Rightarrow> time \<Rightarrow> string \<Rightarrow> int \<Rightarrow> webhook_error option" where
  "verifyTimestamp A now timestamp tolerance = (case parseUnixTimestamp A timestamp of
      None \<Rightarrow> Some ErrInvalidSignature
    | Some secs \<Rightarrow>
        if secs < Unix now - tolerance then Some ErrTimestampTooOld
        else if secs > Unix now + tolerance then Some ErrTimestampTooNew else None)"

section \<open>Signatures\<close>

definition strip_version :: "WebhookConfig \<Rightarrow> string \<Rightarrow> string" where
  "strip_version cfg signature =
     (if wc_SignatureVersion cfg \<noteq> [] \<and> HasPrefix signature (wc_SignatureVersion cfg)
      then TrimPrefix signature (wc_SignatureVersion cfg) else signature)"

text \<open>The loop of \<^verbatim>\<open>verifyCompositeSignature\<close> over the parts: the timestamp and the signature found last.\<close>

definition composite_part :: "WebhookConfig \<Rightarrow> string \<Rightarrow> string \<times> string \<Rightarrow> string \<times> string" where
  "composite_part cfg part p = (case p of (timestamp, sig) \<Rightarrow>
     if HasPrefix part ''t='' then (TrimPrefix part ''t='', sig)
     else if HasPrefix part (wc_SignatureVersion cfg @ ''='') then (timestamp, TrimPrefix part (wc_SignatureVersion cfg @ ''=''))
     else if HasPrefix part ''v1='' then (timestamp, TrimPrefix part ''v1='')
     else (timestamp, sig))"

definition composite_parts :: "WebhookConfig \<Rightarrow> string \<Rightarrow> string \<times> string" where
  "composite_parts cfg signature = fold (composite_part cfg) (Split (CHR '','') signature) ([], [])"

lemma Split_shorter: "p \<in> set (Split c s) \<Longrightarrow> length p \<le> length s"
  by (induction s arbitrary: p) (auto split: if_splits list.splits intro: le_SucI)

lemma composite_loop_shorter:
  assumes "\<forall>p \<in> set ps. length p \<le> n" "snd p0 = [] \<or> length (snd p0) < n"
  shows "snd (fold (composite_part cfg) ps p0) = [] \<or> length (snd (fold (composite_part cfg) ps p0)) < n"
  using assms
proof (induction ps arbitrary: p0)
  case (Cons p ps)
  have "snd (composite_part cfg p p0) = [] \<or> length (snd (composite_part cfg p p0)) < n"
    using Cons.prems by (cases "length p = 0"; auto simp: composite_part_def TrimPrefix_def HasPrefix_def split: prod.splits)
  then show ?case
    using Cons.IH [of "composite_part cfg p p0"] Cons.prems(1) by simp
qed simp

lemma composite_sig_shorter:
  assumes "(timestamp, sig) = composite_parts cfg s" "sig \<noteq> []"
  shows "length sig < length s"
  using composite_loop_shorter [of "Split (CHR '','') s" "length s" "([], [])" cfg] Split_shorter assms
  by (simp add: composite_parts_def prod_eq_iff)

definition check_hmac :: "sig_api \<Rightarrow> WebhookConfig \<Rightarrow> string \<Rightarrow> string \<Rightarrow> webhook_error option" where
  "check_hmac A cfg payload signature = (case hexDecode signature of
      None \<Rightarrow> Some ErrInvalidSignature
    | Some sigBytes \<Rightarrow>
        (case wc_Algorithm cfg of
           OtherAlgorithm _ \<Rightarrow> Some ErrInvalidSignature
         | alg \<Rightarrow> if sigBytes \<noteq> hmac A alg (wc_SecretKey cfg) payload then Some ErrInvalidSignature else None))"

lemma strip_version_shorter: "length (strip_version cfg s) \<le> length s"
  by (simp add: strip_version_def TrimPrefix_def)

function verifySignature :: "sig_api \<Rightarrow> time \<Rightarrow> WebhookConfig \<Rightarrow> string \<Rightarrow> string \<Rightarrow> webhook_error option"
  and verifyCompositeSignature :: "sig_api \<Rightarrow> time \<Rightarrow> WebhookConfig \<Rightarrow> string \<Rightarrow> string \<Rightarrow> webhook_error option"
where
  "verifySignature A now cfg payload signature =
     (if signature = [] then Some ErrMissingSignature
      else if CHR '','' \<in> set (strip_version cfg signature)
      then verifyCompositeSignature A now cfg payload (strip_version cfg signature)
      else check_hmac A cfg payload (strip_version cfg signature))"
| "verifyCompositeSignature A now cfg payload signature =
     (case composite_parts cfg signature of (timestamp, sig) \<Rightarrow>
        if sig = [] then Some ErrInvalidSignature
        else case (if wc_TimestampHeader cfg = [] \<and> timestamp \<noteq> []
                   then verifyTimestamp A now timestamp (wc_Tolerance cfg) else None) of
               Some e \<Rightarrow> Some e
             | None \<Rightarrow>
                 if timestamp \<noteq> [] then verifySignature A now cfg (timestamp @ ''.'' @ payload) sig
                 else verifySignature A now cfg payload sig)"
  by pat_completeness auto

termination
proof (relation "measure (\<lambda>x. case x of
      Inl (A, now, cfg, payload, signature) \<Rightarrow> 2 * length signature + 1
    | Inr (A, now, cfg, payload, signature) \<Rightarrow> 2 * length signature)")
  show "(Inr (A, now, cfg, payload, strip_version cfg signature), Inl (A, now, cfg, payload, signature))
      \<in> measure (\<lambda>x. case x of
        Inl (A, now, cfg, payload, signature) \<Rightarrow> 2 * length signature + 1
      | Inr (A, now, cfg, payload, signature) \<Rightarrow> 2 * length signature)"
    for A :: sig_api and now :: time and cfg payload signature
    using strip_version_shorter [of cfg signature] by simp
qed (auto dest: composite_sig_shorter)

declare verifySignature.simps [simp del] verifyCompositeSignature.simps [simp del]

section \<open>The webhook middleware\<close>

record webhook_request =
  wr_ContentLength :: int
  wr_body :: "string option"
  wr_header :: "string \<Rightarrow> string"
  wr_clock :: request_clock

text \<open>What the next handler finds in the context, or the status and error of the answer.\<close>

datatype webhook_verdict = Passed "string option" WebhookProvider string | Aborted nat webhook_error

definition check_timestamp :: "sig_api \<Rightarrow> WebhookConfig \<Rightarrow> webhook_request \<Rightarrow> webhook_error option" where
  "check_timestamp A cfg r =
     (if wc_RequireTimestamp cfg \<and> wc_TimestampHeader cfg \<noteq> [] then
        let timestamp = wr_header r (wc_TimestampHeader cfg)
        in if timestamp = [] then Some ErrMissingTimestamp
           else verifyTimestamp A (at_verify (wr_clock r)) timestamp (wc_Tolerance cfg)
      else None)"

definition webhook_handle ::
    "sig_api \<Rightarrow> WebhookConfig \<Rightarrow> webhook_request \<Rightarrow> EventIDCache option \<Rightarrow> EventIDCache option \<times> webhook_verdict" where
  "webhook_handle A cfg r replayCache =
     (if wr_ContentLength r > wc_MaxBodySize cfg then (replayCache, Aborted 413 ErrBodyTooLarge)
      else case wr_body r of
        None \<Rightarrow> (replayCache, Aborted 400 ErrReadBody)
      | Some rawBody \<Rightarrow>
          let signature = wr_header r (wc_SignatureHeader cfg)
          in if signature = [] then (replayCache, Aborted 401 ErrMissingSignature)
             else case verifySignature A (at_verify (wr_clock r)) cfg rawBody signature of
               Some e \<Rightarrow> (replayCache, Aborted 401 e)
             | None \<Rightarrow>
                 (case check_timestamp A cfg r of
                    Some e \<Rightarrow> (replayCache, Aborted 401 e)
                  | None \<Rightarrow>
                      if wc_RequireEventID cfg \<and> wc_EventIDHeader cfg \<noteq> [] then
                        let eventID = wr_header r (wc_EventIDHeader cfg)
                        in if eventID = [] then (replayCache, Aborted 401 ErrMissingEventID)
                           else (case replayCache of
                             None \<Rightarrow> (None, Passed (Some eventID) (wc_Provider cfg) rawBody)
                           | Some c \<Rightarrow>
                               (case CheckAndStore (wr_clock r) eventID c of
                                  (c1, Some _) \<Rightarrow> (Some c1, Aborted 401 ErrReplayDetected)
                                | (c1, None) \<Rightarrow> (Some c1, Passed (Some eventID) (wc_Provider cfg) rawBody)))
                      else (replayCache, Passed None (wc_Provider cfg) rawBody)))"

definition WebhookVerificationMiddleware :: "WebhookConfig \<Rightarrow> (webhook_error, WebhookConfig \<times> EventIDCache option) result" where
  "WebhookVerificationMiddleware cfg = (case Validate cfg of
      Inl e \<Rightarrow> Inl e
    | Inr cfg1 \<Rightarrow> Inr (cfg1, if wc_EnableReplayProtection cfg1 then Some (NewEventIDCache (5 * Minute)) else None))"

text \<open>The older middleware with a single secret.\<close>

datatype plain_verdict = PlainPassed string | PlainAborted nat string

definition WebhookVerification :: "sig_api \<Rightarrow> string \<Rightarrow> webhook_request \<Rightarrow> plain_verdict" where
  "WebhookVerification A secret r =
     (if secret = [] then PlainAborted 401 ''webhook_secret_not_configured''
      else
        let sig = wr_header r ''X-Webhook-Signature''
        in if sig = [] then PlainAborted 401 ''missing_signature''
           else case wr_body r of
             None \<Rightarrow> PlainAborted 400 ''body_read_error''
           | Some body \<Rightarrow>
               if sig \<noteq> hexEncode (hmac A HMACSHA256 secret body) then PlainAborted 401 ''invalid_signature''
               else PlainPassed body)"

section \<open>Signed admin requests\<close>

datatype admin_error = ErrAdminSigningNotConfigured | ErrMissingAdminDate | ErrInvalidAdminDate | ErrMissingAdminSignature
  | ErrInvalidAdminSignature | ErrAdminReplayDetected | ErrAdminBodyTooLarge | ErrAdminReadBody | ErrAdminMissingHost
  | ErrAdminMissingRequestID | ErrAdminTimestampSkew | ErrAdminCache webhook_error

record admin_request =
  ad_ContentLength :: int
  ad_body :: "string option"
  ad_Host :: string
  ad_Method :: string
  ad_EscapedPath :: string
  ad_Path :: string
  ad_QueryEncode :: string
  ad_Query :: "(string \<times> string list) list"
  ad_header :: "string \<Rightarrow> string"
  ad_clock :: request_clock

datatype admin_verdict = AdminPassed | AdminAborted nat admin_error

definition AdminDateHeader :: string where
  "AdminDateHeader = ''X-Stellabill-Date''"

definition AdminSignatureHeader :: string where
  "AdminSignatureHeader = ''X-Stellabill-Signature''"

definition AdminMaxBodySize :: int where
  "AdminMaxBodySize = DefaultMaxBodySize"

definition AdminTimestampSkew :: int where
  "AdminTimestampSkew = 60"

definition adminReplayCacheTTL :: duration where
  "adminReplayCacheTTL = 5 * Minute"

text \<open>A header line and its name, when the header is there.\<close>

definition signed_header :: "admin_request \<Rightarrow> string \<Rightarrow> string \<Rightarrow> string \<times> string \<Rightarrow> string \<times> string" where
  "signed_header r name key p = (case p of (headers, signedHeaders) \<Rightarrow>
     let v = TrimSpace (ad_header r name)
     in if v = [] then (headers, signedHeaders)
        else (headers @ key @ '':'' @ Join '' '' (Fields v) @ newline, signedHeaders @ '';'' @ key))"

definition canonicalAdminRequest :: "sig_api \<Rightarrow> admin_request \<Rightarrow> string \<Rightarrow> (admin_error, string) result" where
  "canonicalAdminRequest A r body =
     (if ad_Host r = [] then Inl ErrAdminMissingHost
      else
        let method0 = ToUpper (ad_Method r);
            method = (if method0 = [] then ''GET'' else method0);
            path = (if ad_EscapedPath r = [] then ''/'' else ad_EscapedPath r);
            date = TrimSpace (ad_header r AdminDateHeader)
        in if date = [] then Inl ErrMissingAdminDate
           else
             let headers = ''host:'' @ Join '' '' (Fields (ad_Host r)) @ newline
                   @ ''x-stellabill-date:'' @ Join '' '' (Fields date) @ newline;
                 (headers1, signed1) = signed_header r ''X-Admin-Token'' ''x-admin-token''
                   (signed_header r ''Authorization'' ''authorization''
                     (signed_header r ''Content-Type'' ''content-type'' (headers, ''host;x-stellabill-date'')))
             in Inr (Join newline [method, path, ad_QueryEncode r, headers1, signed1, hexEncode (sha256 A body)]))"

definition RequestSigning :: "sig_api \<Rightarrow> string \<Rightarrow> admin_request \<Rightarrow> EventIDCache \<Rightarrow> EventIDCache \<times> admin_verdict" where
  "RequestSigning A secret r replayCache =
     (if secret = [] then (replayCache, AdminAborted 503 ErrAdminSigningNotConfigured)
      else
        let date = TrimSpace (ad_header r AdminDateHeader)
        in if date = [] then (replayCache, AdminAborted 401 ErrMissingAdminDate)
           else case verifyTimestamp A (at_verify (ad_clock r)) date AdminTimestampSkew of
             Some _ \<Rightarrow> (replayCache, AdminAborted 401 ErrInvalidAdminDate)
           | None \<Rightarrow>
               let sig = TrimSpace (ad_header r AdminSignatureHeader)
               in if sig = [] then (replayCache, AdminAborted 401 ErrMissingAdminSignature)
                  else if ad_ContentLength r > AdminMaxBodySize then (replayCache, AdminAborted 413 ErrAdminBodyTooLarge)
                  else case ad_body r of
                    None \<Rightarrow> (replayCache, AdminAborted 400 ErrAdminReadBody)
                  | Some body \<Rightarrow>
                      if int (length body) > AdminMaxBodySize then (replayCache, AdminAborted 413 ErrAdminBodyTooLarge)
                      else (case canonicalAdminRequest A r body of
                        Inl e \<Rightarrow> (replayCache, AdminAborted 400 e)
                      | Inr canonical \<Rightarrow>
                          let expected = hexEncode (hmac A HMACSHA256 secret canonical)
                          in if sig \<noteq> expected then (replayCache, AdminAborted 401 ErrInvalidAdminSignature)
                             else (case CheckAndStore (ad_clock r) (''admin:'' @ expected) replayCache of
                               (c1, Some _) \<Rightarrow> (c1, AdminAborted 401 ErrAdminReplayDetected)
                             | (c1, None) \<Rightarrow> (c1, AdminPassed))))"

text \<open>The second middleware, of \<^verbatim>\<open>request_signing.go\<close>, with its own request ID.\<close>

definition AdminRequestIDHeader :: string where
  "AdminRequestIDHeader = ''X-Stellabill-Request-ID''"

definition buildCanonicalRequest :: "sig_api \<Rightarrow> admin_request \<Rightarrow> string \<Rightarrow> string" where
  "buildCanonicalRequest A r body =
     (let path = (if ad_Path r = [] then ''/'' else ad_Path r);
          sortedQuery = sort_slice str_less
            (concat (map (\<lambda>(key, values). map (\<lambda>v. QueryEscape A key @ ''='' @ QueryEscape A v) values) (ad_Query r)));
          headerValues = [(ToLower AdminDateHeader, ad_header r AdminDateHeader),
                          (ToLower AdminRequestIDHeader, ad_header r AdminRequestIDHeader)];
          signedHeaders = sort_slice str_less (map fst headerValues);
          headersPart = concat (map (\<lambda>k. k @ '':'' @ TrimSpace (the (map_of headerValues k)) @ newline) signedHeaders)
      in ad_Method r @ newline @ path @ newline @ Join ''&'' sortedQuery @ newline @ headersPart @ newline
         @ Join '';'' signedHeaders @ newline @ hexEncode (sha256 A body))"

definition verifyAdminTimestamp :: "sig_api \<Rightarrow> time \<Rightarrow> string \<Rightarrow> admin_error option" where
  "verifyAdminTimestamp A now date = (case parseUnixTimestamp A date of
      None \<Rightarrow> Some ErrInvalidAdminSignature
    | Some secs \<Rightarrow>
        if secs < Unix now - AdminTimestampSkew \<or> secs > Unix now + AdminTimestampSkew then Some ErrAdminTimestampSkew else None)"

definition verifyAdminSignature :: "sig_api \<Rightarrow> string \<Rightarrow> string \<Rightarrow> string \<Rightarrow> admin_error option" where
  "verifyAdminSignature A canonicalRequest signature secretKey = (case hexDecode (TrimPrefix signature ''v1='') of
      None \<Rightarrow> Some ErrInvalidAdminSignature
    | Some sigBytes \<Rightarrow>
        if sigBytes \<noteq> hmac A HMACSHA256 secretKey canonicalRequest then Some ErrInvalidAdminSignature else None)"

definition AdminSigningMiddleware :: "sig_api \<Rightarrow> string \<Rightarrow> admin_request \<Rightarrow> EventIDCache \<Rightarrow> EventIDCache \<times> admin_verdict" where
  "AdminSigningMiddleware A secretKey r replayCache =
     (let date = ad_header r AdminDateHeader; requestID = ad_header r AdminRequestIDHeader;
          signature = ad_header r AdminSignatureHeader
      in if date = [] then (replayCache, AdminAborted 401 ErrMissingAdminDate)
         else if requestID = [] then (replayCache, AdminAborted 401 ErrAdminMissingRequestID)
         else if signature = [] then (replayCache, AdminAborted 401 ErrMissingAdminSignature)
         else case verifyAdminTimestamp A (at_verify (ad_clock r)) date of
           Some e \<Rightarrow> (replayCache, AdminAborted 401 e)
         | None \<Rightarrow>
             (case CheckAndStore (ad_clock r) requestID replayCache of
                (c1, Some e) \<Rightarrow>
                  (c1, if e = ErrEventIDAlreadySeen then AdminAborted 401 ErrAdminReplayDetected
                       else AdminAborted 400 (ErrAdminCache e))
              | (c1, None) \<Rightarrow>
                  (case ad_body r of
                     None \<Rightarrow> (c1, AdminAborted 400 ErrAdminReadBody)
                   | Some rawBody \<Rightarrow>
                       (case verifyAdminSignature A (buildCanonicalRequest A r rawBody) signature secretKey of
                          Some e \<Rightarrow> (c1, AdminAborted 401 e)
                        | None \<Rightarrow> (c1, AdminPassed)))))"

section \<open>What a replay cache promises\<close>

text \<open>
  A handler over a replay cache, as far as the cache is concerned: it leaves the cache alone, or it checks one key and
  then reports the key if the check let it through.
\<close>

locale replay_cache =
  fixes check :: "request_clock \<Rightarrow> string \<Rightarrow> 'c \<Rightarrow> 'c \<times> webhook_error option"
    and seen_until :: "'c \<Rightarrow> string \<Rightarrow> time option"
    and keeps_for :: "'c \<Rightarrow> duration"
  assumes refused: "\<lbrakk>seen_until c k = Some e; at_cleanup clk \<le> at_check clk; at_check clk < e\<rbrakk> \<Longrightarrow> snd (check clk k c) \<noteq> None"
    and remembered: "\<lbrakk>seen_until c k = Some e; at_cleanup clk \<le> at_check clk; at_check clk < e\<rbrakk>
      \<Longrightarrow> seen_until (fst (check clk k' c)) k = Some e"
    and stored: "snd (check clk k c) = None \<Longrightarrow> seen_until (fst (check clk k c)) k = Some (at_store clk + keeps_for c)"
    and keeps_for_kept: "keeps_for (fst (check clk k c)) = keeps_for c"
begin

fun guarded_run :: "('r \<Rightarrow> 'c \<Rightarrow> 'c \<times> string option) \<Rightarrow> 'r list \<Rightarrow> 'c \<Rightarrow> string option list" where
  "guarded_run handle [] c = []"
| "guarded_run handle (r # rs) c = snd (handle r c) # guarded_run handle rs (fst (handle r c))"

definition guarded :: "('r \<Rightarrow> request_clock) \<Rightarrow> ('r \<Rightarrow> 'c \<Rightarrow> 'c \<times> string option) \<Rightarrow> bool" where
  "guarded clk handle \<longleftrightarrow> (\<forall>r c. handle r c = (c, None)
     \<or> (\<exists>k. handle r c = (fst (check (clk r) k c), if snd (check (clk r) k c) = None then Some k else None)))"

lemma guardedE:
  assumes "guarded clk handle"
  obtains "handle r c = (c, None)"
    | k where "handle r c = (fst (check (clk r) k c), if snd (check (clk r) k c) = None then Some k else None)"
  using assms unfolding guarded_def by blast

lemma length_guarded_run [simp]: "length (guarded_run handle rs c) = length rs"
  by (induction rs arbitrary: c) simp_all

lemma remembered_key:
  assumes "guarded clk handle" "seen_until c k = Some e"
    and "j < length rs" "guarded_run handle rs c ! j = Some k"
    and "\<forall>i \<le> j. at_cleanup (clk (rs ! i)) \<le> at_check (clk (rs ! i)) \<and> at_check (clk (rs ! i)) \<le> at_check (clk (rs ! j))"
  shows "e \<le> at_check (clk (rs ! j))"
  using assms(2-)
proof (induction rs arbitrary: c j)
  case (Cons r rs)
  show ?case
  proof (rule ccontr)
    assume late: "\<not> e \<le> at_check (clk ((r # rs) ! j))"
    have now: "at_cleanup (clk r) \<le> at_check (clk r)" "at_check (clk r) < e"
      using Cons.prems(4) late by (auto dest: spec [of _ 0])
    have next_seen: "seen_until (fst (handle r c)) k = Some e"
      using assms(1)
    proof (cases rule: guardedE [where r = r and c = c])
      case 1
      then show ?thesis using Cons.prems(1) by simp
    next
      case (2 k')
      then show ?thesis using remembered [OF Cons.prems(1) now] by simp
    qed
    show False
    proof (cases j)
      case 0
      have "snd (handle r c) = Some k"
        using Cons.prems(3) 0 by simp
      then show False
        using refused [OF Cons.prems(1) now]
        by - (rule guardedE [OF assms(1), of r c]; auto split: if_splits)
    next
      case (Suc j')
      have "e \<le> at_check (clk (rs ! j'))"
      proof (rule Cons.IH [OF next_seen])
        show "j' < length rs" "guarded_run handle rs (fst (handle r c)) ! j' = Some k"
          using Cons.prems(2,3) Suc by simp_all
        show "\<forall>i \<le> j'. at_cleanup (clk (rs ! i)) \<le> at_check (clk (rs ! i)) \<and> at_check (clk (rs ! i)) \<le> at_check (clk (rs ! j'))"
        proof (intro allI impI)
          fix i assume "i \<le> j'"
          then show "at_cleanup (clk (rs ! i)) \<le> at_check (clk (rs ! i)) \<and> at_check (clk (rs ! i)) \<le> at_check (clk (rs ! j'))"
            using Cons.prems(4) [rule_format, of "Suc i"] Suc by simp
        qed
      qed
      then show False
        using late Suc by simp
    qed
  qed
qed simp

text \<open>Two requests let through under the same key are as far apart as the cache keeps a key.\<close>

lemma guarded_spacing:
  assumes "guarded clk handle"
    and "i < j" "j < length rs" "guarded_run handle rs c ! i = Some k" "guarded_run handle rs c ! j = Some k"
    and "\<forall>l < length rs. at_cleanup (clk (rs ! l)) \<le> at_check (clk (rs ! l)) \<and> at_check (clk (rs ! l)) \<le> at_store (clk (rs ! l))"
    and "sorted_wrt (\<lambda>a b. at_store (clk a) \<le> at_cleanup (clk b)) rs"
  shows "at_store (clk (rs ! i)) + keeps_for c \<le> at_check (clk (rs ! j))"
  using assms(2-)
proof (induction rs arbitrary: c i j)
  case (Cons r rs)
  have kept: "keeps_for (fst (handle r c)) = keeps_for c"
    using assms(1) by (cases rule: guardedE [where r = r and c = c]) (simp_all add: keeps_for_kept)
  obtain j' where j: "j = Suc j'" "j' < length rs"
    using Cons.prems(1,2) by (cases j) auto
  have order: "at_check (clk (rs ! a)) \<le> at_check (clk (rs ! b))" if "a \<le> b" "b < length rs" for a b
  proof (cases "a = b")
    case False
    then have "at_store (clk (rs ! a)) \<le> at_cleanup (clk (rs ! b))"
      using Cons.prems(6) that sorted_wrt_nth_less [of _ rs a b] by fastforce
    then show ?thesis
      using Cons.prems(5) [rule_format, of "Suc a"] Cons.prems(5) [rule_format, of "Suc b"] that by simp
  qed simp
  show ?case
  proof (cases i)
    case 0
    have let_in: "snd (handle r c) = Some k"
      using Cons.prems(3) 0 by simp
    then have "seen_until (fst (handle r c)) k = Some (at_store (clk r) + keeps_for c)"
      using stored [of "clk r" k c] by - (rule guardedE [OF assms(1), of r c]; auto split: if_splits)
    then have "at_store (clk r) + keeps_for c \<le> at_check (clk (rs ! j'))"
    proof (rule remembered_key [OF assms(1)])
      show "j' < length rs" "guarded_run handle rs (fst (handle r c)) ! j' = Some k"
        using j Cons.prems(4) by simp_all
      show "\<forall>i \<le> j'. at_cleanup (clk (rs ! i)) \<le> at_check (clk (rs ! i)) \<and> at_check (clk (rs ! i)) \<le> at_check (clk (rs ! j'))"
      proof (intro allI impI)
        fix a assume "a \<le> j'"
        then show "at_cleanup (clk (rs ! a)) \<le> at_check (clk (rs ! a)) \<and> at_check (clk (rs ! a)) \<le> at_check (clk (rs ! j'))"
          using order [of a j'] j(2) Cons.prems(5) [rule_format, of "Suc a"] by simp
      qed
    qed
    then show ?thesis
      using 0 j by simp
  next
    case (Suc i')
    have "at_store (clk (rs ! i')) + keeps_for (fst (handle r c)) \<le> at_check (clk (rs ! j'))"
    proof (rule Cons.IH)
      show "\<forall>l < length rs. at_cleanup (clk (rs ! l)) \<le> at_check (clk (rs ! l)) \<and> at_check (clk (rs ! l)) \<le> at_store (clk (rs ! l))"
        using Cons.prems(5) by fastforce
    qed (use Cons.prems Suc j in simp_all)
    then show ?thesis
      using Suc j kept by simp
  qed
qed simp

end

lemma map_of_filter_keeps: "\<lbrakk>map_of xs k = Some v; P (k, v)\<rbrakk> \<Longrightarrow> map_of (filter P xs) k = Some v"
  by (induction xs) (auto split: if_splits)

lemma cleanup_keeps:
  "\<lbrakk>map_of (ec_entries c) k = Some e; now < e\<rbrakk> \<Longrightarrow> map_of (ec_entries (cleanupExpired now c)) k = Some e"
  by (simp add: cleanupExpired_def map_of_filter_keeps)

interpretation seen_ids: replay_cache CheckAndStore "\<lambda>c k. if k = [] then None else map_of (ec_entries c) k" ec_ttl
proof
  fix c :: EventIDCache and k k' :: string and e :: time and clk :: request_clock
  assume s: "(if k = [] then None else map_of (ec_entries c) k) = Some e" and t: "at_cleanup clk \<le> at_check clk" "at_check clk < e"
  have k: "k \<noteq> []" "map_of (ec_entries (cleanupExpired (at_cleanup clk) c)) k = Some e"
    using s t cleanup_keeps [of c k e "at_cleanup clk"] by (simp_all split: if_splits)
  show "snd (CheckAndStore clk k c) \<noteq> None"
    using k t by (simp add: CheckAndStore_def)
  show "(if k = [] then None else map_of (ec_entries (fst (CheckAndStore clk k' c))) k) = Some e"
    using s k t by (cases "k' = k") (auto simp: CheckAndStore_def Let_def delete_conv' split: option.split)
next
  fix c :: EventIDCache and k :: string and clk :: request_clock
  show "snd (CheckAndStore clk k c) = None \<Longrightarrow>
      (if k = [] then None else map_of (ec_entries (fst (CheckAndStore clk k c))) k) = Some (at_store clk + ec_ttl c)"
    by (auto simp: CheckAndStore_def Let_def cleanupExpired_def split: if_splits option.splits)
  show "ec_ttl (fst (CheckAndStore clk k c)) = ec_ttl c"
    by (auto simp: CheckAndStore_def Let_def cleanupExpired_def split: option.splits)
qed

section \<open>Signatures that verify\<close>

lemma Split_parts:
  "Split c s \<noteq> [] \<and> prefix (hd (Split c s)) s \<and> (\<forall>p \<in> set (Split c s). sublist p s \<and> c \<notin> set p)"
proof (induction s)
  case (Cons x xs)
  obtain q qs where q: "Split c xs = q # qs"
    using Cons by (cases "Split c xs") auto
  have "prefix q xs" "\<forall>p \<in> insert q (set qs). sublist p xs \<and> c \<notin> set p"
    using Cons q by auto
  then show ?case
    using q by (auto simp: sublist_Cons_right)
qed simp

text \<open>The signature found in a composite one ends a part of it.\<close>

lemma composite_loop_sig:
  assumes "fold (composite_part cfg) ps (t0, g0) = (timestamp, sig)" "sig \<noteq> []"
  shows "sig = g0 \<or> (\<exists>p \<in> set ps. suffix sig p)"
  using assms
proof (induction ps arbitrary: t0 g0)
  case (Cons p ps)
  obtain t1 g1 where one: "composite_part cfg p (t0, g0) = (t1, g1)"
    by (rule prod.exhaust)
  then have "g1 = g0 \<or> suffix g1 p"
    by (auto simp: composite_part_def TrimPrefix_def suffix_drop split: if_splits)
  moreover have "sig = g1 \<or> (\<exists>p \<in> set ps. suffix sig p)"
    using Cons.IH [of t1 g1] Cons.prems one by simp
  ultimately show ?case
    by auto
qed simp

lemma composite_sig:
  assumes "composite_parts cfg s = (timestamp, sig)" "sig \<noteq> []"
  shows "sublist sig s \<and> CHR '','' \<notin> set sig"
proof -
  obtain p where p: "p \<in> set (Split (CHR '','') s)" "suffix sig p"
    using composite_loop_sig [OF assms(1) [unfolded composite_parts_def] assms(2)] assms(2) by auto
  then show ?thesis
    using Split_parts [of "CHR '',''" s] sublist_order.order_trans [OF suffix_imp_sublist [OF p(2)]] set_mono_suffix [OF p(2)] by blast
qed

lemma strip_version_suffix: "suffix (strip_version cfg s) s"
  by (simp add: strip_version_def TrimPrefix_def suffix_drop)

text \<open>
  The specification: some stretch of the header is the hexadecimal HMAC, under the configured secret, of the body or of a
  timestamp, a dot and the body.
\<close>

definition authentic :: "sig_api \<Rightarrow> WebhookConfig \<Rightarrow> string \<Rightarrow> string \<Rightarrow> bool" where
  "authentic A cfg body signature \<longleftrightarrow> (\<exists>p sig. (p = body \<or> (\<exists>t. p = t @ ''.'' @ body)) \<and> sublist sig signature
     \<and> hexDecode sig = Some (hmac A (wc_Algorithm cfg) (wc_SecretKey cfg) p))"

lemma authenticI:
  "\<lbrakk>p = body \<or> p = t @ ''.'' @ body; sublist sig signature; hexDecode sig = Some (hmac A (wc_Algorithm cfg) (wc_SecretKey cfg) p)\<rbrakk>
    \<Longrightarrow> authentic A cfg body signature"
  unfolding authentic_def by (intro exI [of _ p] exI [of _ sig]) auto

lemma check_hmac_None:
  "check_hmac A cfg p sig = None \<Longrightarrow> hexDecode sig = Some (hmac A (wc_Algorithm cfg) (wc_SecretKey cfg) p)"
  by (auto simp: check_hmac_def split: option.splits SignatureAlgorithm.splits if_splits)

lemma verifySignature_single:
  assumes "CHR '','' \<notin> set sig" "verifySignature A now cfg p sig = None"
  shows "\<exists>g. sublist g sig \<and> hexDecode g = Some (hmac A (wc_Algorithm cfg) (wc_SecretKey cfg) p)"
proof -
  have "CHR '','' \<notin> set (strip_version cfg sig)"
    using assms(1) set_mono_suffix [OF strip_version_suffix [of cfg sig]] by blast
  then have "check_hmac A cfg p (strip_version cfg sig) = None"
    using assms(2) by (auto simp: verifySignature.simps split: if_splits)
  then show ?thesis
    using check_hmac_None strip_version_suffix by blast
qed

lemma verifySignature_authentic:
  assumes "verifySignature A now cfg body signature = None"
  shows "authentic A cfg body signature"
proof (cases "CHR '','' \<in> set (strip_version cfg signature)")
  case False
  then have "check_hmac A cfg body (strip_version cfg signature) = None"
    using assms by (auto simp: verifySignature.simps split: if_splits)
  then show ?thesis
    by (intro authenticI [OF disjI1 [OF refl] suffix_imp_sublist [OF strip_version_suffix]] check_hmac_None)
next
  case True
  obtain timestamp sig where c: "composite_parts cfg (strip_version cfg signature) = (timestamp, sig)"
    by (rule prod.exhaust)
  have comp: "verifyCompositeSignature A now cfg body (strip_version cfg signature) = None"
    using True assms by (auto simp: verifySignature.simps [of _ _ _ body] split: if_splits)
  note run = comp [unfolded verifyCompositeSignature.simps c]
  then have sig: "sig \<noteq> []"
    by auto
  then have "\<exists>p. (p = body \<or> p = timestamp @ ''.'' @ body) \<and> verifySignature A now cfg p sig = None"
    using run by (auto split: if_splits option.splits)
  then obtain p where p: "p = body \<or> p = timestamp @ ''.'' @ body" "verifySignature A now cfg p sig = None"
    by blast
  obtain g where g: "sublist g sig" "hexDecode g = Some (hmac A (wc_Algorithm cfg) (wc_SecretKey cfg) p)"
    using verifySignature_single [OF composite_sig [OF c sig, THEN conjunct2] p(2)] by blast
  have "sublist g signature"
    by (rule sublist_order.order_trans [OF g(1) sublist_order.order_trans
          [OF composite_sig [OF c sig, THEN conjunct1] suffix_imp_sublist [OF strip_version_suffix]]])
  then show ?thesis
    by (rule authenticI [OF p(1) _ g(2)])
qed

section \<open>Sequences of requests\<close>

fun webhook_run :: "sig_api \<Rightarrow> WebhookConfig \<Rightarrow> webhook_request list \<Rightarrow> EventIDCache option \<Rightarrow> webhook_verdict list" where
  "webhook_run A cfg [] c = []"
| "webhook_run A cfg (r # rs) c = snd (webhook_handle A cfg r c) # webhook_run A cfg rs (fst (webhook_handle A cfg r c))"

fun admin_run :: "sig_api \<Rightarrow> string \<Rightarrow> admin_request list \<Rightarrow> EventIDCache \<Rightarrow> admin_verdict list" where
  "admin_run A secret [] c = []"
| "admin_run A secret (r # rs) c = snd (RequestSigning A secret r c) # admin_run A secret rs (fst (RequestSigning A secret r c))"

text \<open>
  The requests come in the order in which they enter the cache's critical section, so their clock readings there are
  ordered; the check of the timestamp comes before.
\<close>

definition clocks_ordered :: "request_clock list \<Rightarrow> bool" where
  "clocks_ordered cs \<longleftrightarrow> list_all (\<lambda>c. at_verify c \<le> at_cleanup c \<and> at_cleanup c \<le> at_check c \<and> at_check c \<le> at_store c) cs
     \<and> sorted_wrt (\<lambda>a b. at_store a \<le> at_cleanup b) cs"

definition accepted_id :: "webhook_verdict \<Rightarrow> string option" where
  "accepted_id v = (case v of Passed i _ _ \<Rightarrow> i | Aborted _ _ \<Rightarrow> None)"

definition webhook_step :: "sig_api \<Rightarrow> WebhookConfig \<Rightarrow> webhook_request \<Rightarrow> EventIDCache \<Rightarrow> EventIDCache \<times> string option" where
  "webhook_step A cfg r c =
     (case webhook_handle A cfg r (Some c) of (c1, v) \<Rightarrow> (case c1 of Some c2 \<Rightarrow> c2 | None \<Rightarrow> c, accepted_id v))"

text \<open>What a request has passed when it reaches the replay check.\<close>

definition verified :: "sig_api \<Rightarrow> WebhookConfig \<Rightarrow> webhook_request \<Rightarrow> string \<Rightarrow> bool" where
  "verified A cfg r body \<longleftrightarrow> wr_ContentLength r \<le> wc_MaxBodySize cfg \<and> wr_body r = Some body
     \<and> wr_header r (wc_SignatureHeader cfg) \<noteq> []
     \<and> verifySignature A (at_verify (wr_clock r)) cfg body (wr_header r (wc_SignatureHeader cfg)) = None
     \<and> check_timestamp A cfg r = None"

lemma webhook_handle_event:
  assumes "verified A cfg r body" "wc_RequireEventID cfg" "wc_EventIDHeader cfg \<noteq> []" "wr_header r (wc_EventIDHeader cfg) = i" "i \<noteq> []"
  shows "webhook_handle A cfg r cache = (case cache of
          None \<Rightarrow> (None, Passed (Some i) (wc_Provider cfg) body)
        | Some c \<Rightarrow> (case CheckAndStore (wr_clock r) i c of
            (c1, Some _) \<Rightarrow> (Some c1, Aborted 401 ErrReplayDetected)
          | (c1, None) \<Rightarrow> (Some c1, Passed (Some i) (wc_Provider cfg) body)))"
  using assms by (simp add: webhook_handle_def Let_def verified_def)

lemma webhook_handle_cases:
  obtains (stop) n e where "webhook_handle A cfg r cache = (cache, Aborted n e)"
    | (plain) body where "verified A cfg r body" "webhook_handle A cfg r cache = (cache, Passed None (wc_Provider cfg) body)"
    | (event) body i where "verified A cfg r body" "wc_RequireEventID cfg \<and> wc_EventIDHeader cfg \<noteq> []" "wr_header r (wc_EventIDHeader cfg) = i" "i \<noteq> []"
      "webhook_handle A cfg r cache = (case cache of
          None \<Rightarrow> (None, Passed (Some i) (wc_Provider cfg) body)
        | Some c \<Rightarrow> (case CheckAndStore (wr_clock r) i c of
            (c1, Some _) \<Rightarrow> (Some c1, Aborted 401 ErrReplayDetected)
          | (c1, None) \<Rightarrow> (Some c1, Passed (Some i) (wc_Provider cfg) body)))"
proof (cases "wr_ContentLength r > wc_MaxBodySize cfg \<or> wr_body r = None \<or> wr_header r (wc_SignatureHeader cfg) = []")
  case True
  then show ?thesis
    using stop by (cases "wr_ContentLength r > wc_MaxBodySize cfg"; cases "wr_body r") (simp_all add: webhook_handle_def)
next
  case False
  then obtain body where b: "wr_body r = Some body"
    by auto
  show ?thesis
  proof (cases "verifySignature A (at_verify (wr_clock r)) cfg body (wr_header r (wc_SignatureHeader cfg))")
    case (Some e)
    then show ?thesis
      using stop False b by (simp add: webhook_handle_def)
  next
    case sig: None
    show ?thesis
    proof (cases "check_timestamp A cfg r")
      case (Some e)
      then show ?thesis
        using stop False b sig by (simp add: webhook_handle_def)
    next
      case None
      then have v: "verified A cfg r body"
        using b sig False by (simp add: verified_def)
      show ?thesis
      proof (cases "wc_RequireEventID cfg \<and> wc_EventIDHeader cfg \<noteq> []")
        case True
        show ?thesis
        proof (cases "wr_header r (wc_EventIDHeader cfg) = []")
          case True
          then show ?thesis
            using stop False b sig None \<open>wc_RequireEventID cfg \<and> wc_EventIDHeader cfg \<noteq> []\<close> by (simp add: webhook_handle_def)
        next
          case id: False
          show ?thesis
            by (rule event [OF v True refl id webhook_handle_event [OF v _ _ refl id]]) (use True in simp_all)
        qed
      next
        case id: False
        have "webhook_handle A cfg r cache = (cache, Passed None (wc_Provider cfg) body)"
          using False b sig None id by (cases "wc_RequireEventID cfg") (simp_all add: webhook_handle_def)
        then show ?thesis
          by (rule plain [OF v])
      qed
    qed
  qed
qed

lemma webhook_guarded: "seen_ids.guarded wr_clock (webhook_step A cfg)"
  unfolding seen_ids.guarded_def
proof (intro allI)
  fix r :: webhook_request and c
  show "webhook_step A cfg r c = (c, None) \<or> (\<exists>k. webhook_step A cfg r c =
      (fst (CheckAndStore (wr_clock r) k c), if snd (CheckAndStore (wr_clock r) k c) = None then Some k else None))"
  proof (cases rule: webhook_handle_cases [of A cfg r "Some c"])
    case (event body i)
    obtain c1 e where cs: "CheckAndStore (wr_clock r) i c = (c1, e)"
      by (rule prod.exhaust)
    then have "webhook_step A cfg r c = (fst (CheckAndStore (wr_clock r) i c), if snd (CheckAndStore (wr_clock r) i c) = None then Some i else None)"
      using event(5) by (cases e) (simp_all add: webhook_step_def accepted_id_def)
    then show ?thesis
      by blast
  qed (simp_all add: webhook_step_def accepted_id_def)
qed

lemma webhook_handle_Some: "\<exists>c1. fst (webhook_handle A cfg r (Some c)) = Some c1"
proof (cases rule: webhook_handle_cases [of A cfg r "Some c"])
  case (event body i)
  then show ?thesis
    by (cases "CheckAndStore (wr_clock r) i c"; cases "snd (CheckAndStore (wr_clock r) i c)") simp_all
qed simp_all

lemma webhook_run_guarded:
  "map accepted_id (webhook_run A cfg rs (Some c)) = seen_ids.guarded_run (webhook_step A cfg) rs c"
proof (induction rs arbitrary: c)
  case (Cons r rs)
  obtain c1 v where h: "webhook_handle A cfg r (Some c) = (Some c1, v)"
    using webhook_handle_Some [of A cfg r c] by (metis prod.collapse)
  then show ?case
    using Cons by (simp add: webhook_step_def)
qed simp

lemma length_webhook_run [simp]: "length (webhook_run A cfg rs c) = length rs"
  by (induction rs arbitrary: c) simp_all

lemma webhook_run_verified:
  assumes "i < length rs" "webhook_run A cfg rs c ! i = Passed ev prov body"
  shows "verified A cfg (rs ! i) body"
  using assms
proof (induction rs arbitrary: c i)
  case (Cons r rs)
  show ?case
  proof (cases i)
    case 0
    then have "snd (webhook_handle A cfg r c) = Passed ev prov body"
      using Cons.prems(2) by simp
    then show ?thesis
      using 0 by (cases rule: webhook_handle_cases [of A cfg r c])
        (auto split: option.splits prod.splits)
  next
    case (Suc i')
    then show ?thesis
      using Cons.IH [of i' "fst (webhook_handle A cfg r c)"] Cons.prems by simp
  qed
qed simp

lemma verified_timestamp:
  assumes "verified A cfg r body" "wc_RequireTimestamp cfg" "wc_TimestampHeader cfg \<noteq> []"
  shows "\<exists>secs. parseUnixTimestamp A (wr_header r (wc_TimestampHeader cfg)) = Some secs
     \<and> \<bar>secs - Unix (at_verify (wr_clock r))\<bar> \<le> wc_Tolerance cfg"
  using assms
  by (auto simp: verified_def check_timestamp_def verifyTimestamp_def Let_def split: if_splits option.splits)

lemma clocks_orderedD:
  assumes "clocks_ordered (map clk rs)"
  shows "\<forall>l < length rs. at_cleanup (clk (rs ! l)) \<le> at_check (clk (rs ! l)) \<and> at_check (clk (rs ! l)) \<le> at_store (clk (rs ! l))"
    "sorted_wrt (\<lambda>a b. at_store (clk a) \<le> at_cleanup (clk b)) rs"
    "\<forall>l < length rs. at_verify (clk (rs ! l)) \<le> at_store (clk (rs ! l))"
proof -
  have all: "list_all (\<lambda>r. at_verify (clk r) \<le> at_cleanup (clk r) \<and> at_cleanup (clk r) \<le> at_check (clk r) \<and> at_check (clk r) \<le> at_store (clk r)) rs"
    using assms by (simp add: clocks_ordered_def list_all_length)
  show "\<forall>l < length rs. at_cleanup (clk (rs ! l)) \<le> at_check (clk (rs ! l)) \<and> at_check (clk (rs ! l)) \<le> at_store (clk (rs ! l))"
    using all by (simp add: list_all_length)
  show "\<forall>l < length rs. at_verify (clk (rs ! l)) \<le> at_store (clk (rs ! l))"
    using all by (force simp: list_all_length)
  show "sorted_wrt (\<lambda>a b. at_store (clk a) \<le> at_cleanup (clk b)) rs"
    using assms by (simp add: clocks_ordered_def sorted_wrt_map)
qed

lemma webhook_spacing:
  assumes "clocks_ordered (map wr_clock rs)" "i < j" "j < length rs"
    and "webhook_run A cfg rs (Some c) ! i = Passed (Some k) p b" "webhook_run A cfg rs (Some c) ! j = Passed (Some k) q d"
  shows "at_store (wr_clock (rs ! i)) + ec_ttl c \<le> at_check (wr_clock (rs ! j))"
proof (rule seen_ids.guarded_spacing [OF webhook_guarded assms(2,3) _ _ clocks_orderedD(1,2) [OF assms(1)]])
  have "seen_ids.guarded_run (webhook_step A cfg) rs c ! l = accepted_id (webhook_run A cfg rs (Some c) ! l)" if "l < length rs" for l
    using that unfolding webhook_run_guarded [symmetric] by simp
  then show "seen_ids.guarded_run (webhook_step A cfg) rs c ! i = Some k" "seen_ids.guarded_run (webhook_step A cfg) rs c ! j = Some k"
    using assms by (simp_all add: accepted_id_def)
qed

section \<open>Signed admin requests, one after another\<close>

definition admin_step :: "sig_api \<Rightarrow> string \<Rightarrow> admin_request \<Rightarrow> EventIDCache \<Rightarrow> EventIDCache \<times> string option" where
  "admin_step A secret r c = (case RequestSigning A secret r c of (c1, v) \<Rightarrow>
     (c1, if v = AdminPassed then Some (''admin:'' @ TrimSpace (ad_header r AdminSignatureHeader)) else None))"

text \<open>What a request has passed when it reaches the replay check.\<close>

definition admin_verified :: "sig_api \<Rightarrow> string \<Rightarrow> admin_request \<Rightarrow> bool" where
  "admin_verified A secret r \<longleftrightarrow>
     verifyTimestamp A (at_verify (ad_clock r)) (TrimSpace (ad_header r AdminDateHeader)) AdminTimestampSkew = None
     \<and> (\<exists>body canonical. ad_body r = Some body \<and> canonicalAdminRequest A r body = Inr canonical
          \<and> TrimSpace (ad_header r AdminSignatureHeader) = hexEncode (hmac A HMACSHA256 secret canonical))"

lemma RequestSigning_cases:
  obtains (stop) n e where "RequestSigning A secret r c = (c, AdminAborted n e)"
    | (check) "admin_verified A secret r"
      "RequestSigning A secret r c = (case CheckAndStore (ad_clock r) (''admin:'' @ TrimSpace (ad_header r AdminSignatureHeader)) c of
          (c1, Some _) \<Rightarrow> (c1, AdminAborted 401 ErrAdminReplayDetected)
        | (c1, None) \<Rightarrow> (c1, AdminPassed))"
proof (cases "secret = [] \<or> TrimSpace (ad_header r AdminDateHeader) = []")
  case True
  then show ?thesis
    using stop by (cases "secret = []") (simp_all add: RequestSigning_def)
next
  case False
  show ?thesis
  proof (cases "verifyTimestamp A (at_verify (ad_clock r)) (TrimSpace (ad_header r AdminDateHeader)) AdminTimestampSkew")
    case (Some e)
    then show ?thesis
      using stop False by (simp add: RequestSigning_def)
  next
    case ts: None
    show ?thesis
    proof (cases "TrimSpace (ad_header r AdminSignatureHeader) = [] \<or> ad_ContentLength r > AdminMaxBodySize \<or> ad_body r = None")
      case True
      then show ?thesis
        using stop False ts by (cases "TrimSpace (ad_header r AdminSignatureHeader) = []"; cases "ad_ContentLength r > AdminMaxBodySize")
          (simp_all add: RequestSigning_def)
    next
      case pre: False
      then obtain body where b: "ad_body r = Some body"
        by auto
      show ?thesis
      proof (cases "int (length body) > AdminMaxBodySize")
        case True
        then show ?thesis
          using stop False ts pre b by (simp add: RequestSigning_def)
      next
        case short: False
        show ?thesis
        proof (cases "canonicalAdminRequest A r body")
          case (Inl e)
          then show ?thesis
            using stop False ts pre b short by (simp add: RequestSigning_def)
        next
          case (Inr canonical)
          show ?thesis
          proof (cases "TrimSpace (ad_header r AdminSignatureHeader) = hexEncode (hmac A HMACSHA256 secret canonical)")
            case True
            show ?thesis
            proof (rule check)
              show "admin_verified A secret r"
                using ts b Inr True by (simp add: admin_verified_def)
              show "RequestSigning A secret r c = (case CheckAndStore (ad_clock r) (''admin:'' @ TrimSpace (ad_header r AdminSignatureHeader)) c of
                  (c1, Some _) \<Rightarrow> (c1, AdminAborted 401 ErrAdminReplayDetected)
                | (c1, None) \<Rightarrow> (c1, AdminPassed))"
                using False ts pre b short Inr True unfolding RequestSigning_def by (simp add: Let_def)
            qed
          next
            case False
            then show ?thesis
              using stop \<open>\<not> (secret = [] \<or> TrimSpace (ad_header r AdminDateHeader) = [])\<close> ts pre b short Inr
              by (simp add: RequestSigning_def)
          qed
        qed
      qed
    qed
  qed
qed

lemma admin_guarded: "seen_ids.guarded ad_clock (admin_step A secret)"
  unfolding seen_ids.guarded_def
proof (intro allI)
  fix r :: admin_request and c
  let ?k = "''admin:'' @ TrimSpace (ad_header r AdminSignatureHeader)"
  show "admin_step A secret r c = (c, None) \<or> (\<exists>k. admin_step A secret r c =
      (fst (CheckAndStore (ad_clock r) k c), if snd (CheckAndStore (ad_clock r) k c) = None then Some k else None))"
  proof (cases rule: RequestSigning_cases [of A secret r c])
    case check
    obtain c1 e where cs: "CheckAndStore (ad_clock r) ?k c = (c1, e)"
      by (rule prod.exhaust)
    then have "admin_step A secret r c = (fst (CheckAndStore (ad_clock r) ?k c), if snd (CheckAndStore (ad_clock r) ?k c) = None then Some ?k else None)"
      using check(2) by (cases e) (simp_all add: admin_step_def)
    then show ?thesis
      by blast
  qed (simp_all add: admin_step_def)
qed

lemma admin_run_nth:
  assumes "i < length rs" "admin_run A secret rs c ! i = AdminPassed"
  shows "admin_verified A secret (rs ! i)
     \<and> seen_ids.guarded_run (admin_step A secret) rs c ! i = Some (''admin:'' @ TrimSpace (ad_header (rs ! i) AdminSignatureHeader))"
  using assms
proof (induction rs arbitrary: c i)
  case (Cons r rs)
  show ?case
  proof (cases i)
    case 0
    then have p: "snd (RequestSigning A secret r c) = AdminPassed"
      using Cons.prems(2) by simp
    then have "admin_verified A secret r"
      by (cases rule: RequestSigning_cases [of A secret r c]) auto
    then show ?thesis
      using 0 p by (simp add: admin_step_def case_prod_beta)
  next
    case (Suc i')
    have "fst (admin_step A secret r c) = fst (RequestSigning A secret r c)"
      by (simp add: admin_step_def split: prod.splits)
    then show ?thesis
      using Suc Cons.IH [of i' "fst (RequestSigning A secret r c)"] Cons.prems by simp
  qed
qed simp

section \<open>Hexadecimal round trip\<close>

lemma hex_value_char: "n < 16 \<Longrightarrow> hex_value (hex_char n) = Some n"
proof -
  assume "n < 16"
  then have "n \<in> set [0, 1, 2, 3, 4, 5, 6, 7, 8, 9, 10, 11, 12, 13, 14, 15]"
    by (simp; arith)
  then show ?thesis
    by (auto simp: hex_value_def hex_char_def char_nat_def)
qed

lemma hexDecode_hexEncode: "hexDecode (hexEncode bs) = Some bs"
proof (induction bs)
  case (Cons b bs)
  have "char_nat b < 256"
    by (simp add: char_nat_def)
  then have "char_nat b div 16 < 16"
    by (simp add: less_mult_imp_div_less)
  moreover have "char_of (char_nat b div 16 * 16 + char_nat b mod 16) = b"
    by (simp only: div_mult_mod_eq) (simp add: char_nat_def)
  ultimately show ?case
    using Cons by (simp add: hexEncode_def hex_value_char mult.commute)
qed (simp add: hexEncode_def)

section \<open>Properties\<close>


text \<open>A concrete interface: the code of a text is the key followed by the text's first two bytes.\<close>

definition sample_api :: sig_api where
  "sample_api = \<lparr>hmac = (\<lambda>alg key text. key @ take 2 text), sha256 = (\<lambda>b. take 2 b), parse_RFC3339 = (\<lambda>_. None),
     parse_RFC3339Nano = (\<lambda>_. None), QueryEscape = (\<lambda>s. s)\<rparr>"

definition sample_webhook :: "string \<Rightarrow> time \<Rightarrow> webhook_request" where
  "sample_webhook eventID t =
     \<lparr>wr_ContentLength = 2, wr_body = Some ''hi'',
      wr_header = (\<lambda>h. if h = ''X-Hub-Signature-256'' then ''sha256='' @ hexEncode (''k'' @ ''hi'')
                       else if h = ''X-GitHub-Delivery'' then eventID else []),
      wr_clock = \<lparr>at_verify = t, at_cleanup = t, at_check = t, at_store = t\<rparr>\<rparr>"


text \<open>
  C10: A signed admin request is accepted once.  As long as no request takes longer than 179 seconds between the check of its date and
  the replay check, no two requests with the same date and the same canonical text are let through, whatever else is sent in between,
  and every request let through carries the HMAC of its canonical text.
\<close>

theorem admin_request_accepted_once:
  assumes "clocks_ordered (map ad_clock rs)"
    and "list_all (\<lambda>r. at_check (ad_clock r) \<le> at_verify (ad_clock r) + 179 * Second) rs"
    and "vs = admin_run A secret rs (NewEventIDCache adminReplayCacheTTL)"
  shows "(\<forall>i < length rs. vs ! i = AdminPassed \<longrightarrow> (\<exists>body canonical. ad_body (rs ! i) = Some body
        \<and> canonicalAdminRequest A (rs ! i) body = Inr canonical
        \<and> TrimSpace (ad_header (rs ! i) AdminSignatureHeader) = hexEncode (hmac A HMACSHA256 secret canonical)))
    \<and> (\<forall>i j bi bj. i < j \<and> j < length rs \<and> ad_body (rs ! i) = Some bi \<and> ad_body (rs ! j) = Some bj
        \<and> canonicalAdminRequest A (rs ! i) bi = canonicalAdminRequest A (rs ! j) bj
        \<and> TrimSpace (ad_header (rs ! i) AdminDateHeader) = TrimSpace (ad_header (rs ! j) AdminDateHeader)
        \<longrightarrow> \<not> (vs ! i = AdminPassed \<and> vs ! j = AdminPassed))"
proof (intro conjI allI impI notI)
  fix i
  assume "i < length rs" "vs ! i = AdminPassed"
  then show "\<exists>body canonical. ad_body (rs ! i) = Some body \<and> canonicalAdminRequest A (rs ! i) body = Inr canonical
      \<and> TrimSpace (ad_header (rs ! i) AdminSignatureHeader) = hexEncode (hmac A HMACSHA256 secret canonical)"
    using admin_run_nth assms(3) unfolding admin_verified_def by blast
next
  fix i j bi bj
  assume same: "i < j \<and> j < length rs \<and> ad_body (rs ! i) = Some bi \<and> ad_body (rs ! j) = Some bj
      \<and> canonicalAdminRequest A (rs ! i) bi = canonicalAdminRequest A (rs ! j) bj
      \<and> TrimSpace (ad_header (rs ! i) AdminDateHeader) = TrimSpace (ad_header (rs ! j) AdminDateHeader)"
    and both: "vs ! i = AdminPassed \<and> vs ! j = AdminPassed"
  let ?a = "rs ! i" and ?b = "rs ! j"
  have len: "i < length rs" "j < length rs"
    using same by simp_all
  have passed: "admin_run A secret rs (NewEventIDCache adminReplayCacheTTL) ! i = AdminPassed"
      "admin_run A secret rs (NewEventIDCache adminReplayCacheTTL) ! j = AdminPassed"
    using both assms(3) by simp_all
  have v: "admin_verified A secret ?a" "admin_verified A secret ?b"
    and run: "seen_ids.guarded_run (admin_step A secret) rs (NewEventIDCache adminReplayCacheTTL) ! i
        = Some (''admin:'' @ TrimSpace (ad_header ?a AdminSignatureHeader))"
      "seen_ids.guarded_run (admin_step A secret) rs (NewEventIDCache adminReplayCacheTTL) ! j
        = Some (''admin:'' @ TrimSpace (ad_header ?b AdminSignatureHeader))"
    using admin_run_nth [OF len(1) passed(1)] admin_run_nth [OF len(2) passed(2)] by simp_all
  have "TrimSpace (ad_header ?a AdminSignatureHeader) = TrimSpace (ad_header ?b AdminSignatureHeader)"
    using v same by (auto simp: admin_verified_def)
  then have "at_store (ad_clock ?a) + ec_ttl (NewEventIDCache adminReplayCacheTTL) \<le> at_check (ad_clock ?b)"
    using seen_ids.guarded_spacing [OF admin_guarded _ len(2) run(1) _ clocks_orderedD(1,2) [OF assms(1)]] same run(2) by simp
  then have far: "at_store (ad_clock ?a) + 300 * Second \<le> at_check (ad_clock ?b)"
    by (simp add: NewEventIDCache_def adminReplayCacheTTL_def Minute_def Second_def)
  have near: "Unix (at_verify (ad_clock ?b)) \<le> Unix (at_verify (ad_clock ?a)) + 120"
    using v same by (auto simp: admin_verified_def verifyTimestamp_def AdminTimestampSkew_def split: option.splits if_splits)
  have "at_verify (ad_clock ?a) \<le> at_store (ad_clock ?a)" "at_check (ad_clock ?b) \<le> at_verify (ad_clock ?b) + 179 * Second"
    using clocks_orderedD(3) [OF assms(1)] assms(2) len by (auto simp: list_all_length)
  then show False
    using far near by (simp add: Unix_def Second_def)
qed

definition sample_admin :: "time \<Rightarrow> admin_request" where
  "sample_admin t =
     \<lparr>ad_ContentLength = 2, ad_body = Some ''{}'', ad_Host = ''h'', ad_Method = ''POST'', ad_EscapedPath = ''/p'',
      ad_Path = ''/p'', ad_QueryEncode = [], ad_Query = [],
      ad_header = (\<lambda>h. if h = AdminDateHeader then ''9'' else if h = AdminSignatureHeader then ''6b504f'' else []),
      ad_clock = \<lparr>at_verify = t, at_cleanup = t, at_check = t, at_store = t\<rparr>\<rparr>"

lemma admin_request_accepted_once_witness:
  "admin_run sample_api ''k'' [sample_admin (9 * Second), sample_admin (10 * Second)] (NewEventIDCache adminReplayCacheTTL) ! 0 = AdminPassed
   \<and> \<not> (admin_run sample_api ''k'' [sample_admin (9 * Second), sample_admin (10 * Second)] (NewEventIDCache adminReplayCacheTTL) ! 0 = AdminPassed
        \<and> admin_run sample_api ''k'' [sample_admin (9 * Second), sample_admin (10 * Second)] (NewEventIDCache adminReplayCacheTTL) ! 1 = AdminPassed)"
proof -
  let ?rs = "[sample_admin (9 * Second), sample_admin (10 * Second)]"
  let ?vs = "admin_run sample_api ''k'' ?rs (NewEventIDCache adminReplayCacheTTL)"
  have first: "?vs ! 0 = AdminPassed"
    by code_simp
  have clocks: "clocks_ordered (map ad_clock ?rs)"
    by (simp add: clocks_ordered_def sample_admin_def Second_def)
  have fast: "list_all (\<lambda>r. at_check (ad_clock r) \<le> at_verify (ad_clock r) + 179 * Second) ?rs"
    by (simp add: sample_admin_def Second_def)
  have "canonicalAdminRequest sample_api (?rs ! 0) ''{}'' = canonicalAdminRequest sample_api (?rs ! 1) ''{}''"
    "ad_body (?rs ! 0) = Some ''{}''" "ad_body (?rs ! 1) = Some ''{}''"
    "TrimSpace (ad_header (?rs ! 0) AdminDateHeader) = TrimSpace (ad_header (?rs ! 1) AdminDateHeader)"
    by code_simp+
  then have "\<not> (?vs ! 0 = AdminPassed \<and> ?vs ! 1 = AdminPassed)"
    using admin_request_accepted_once [OF clocks fast refl, of sample_api "''k''", THEN conjunct2, rule_format,
        of 0 1 "''{}''" "''{}''"] by simp
  then show ?thesis
    using first by blast
qed

text \<open>With a timestamp header configured, the signature does not cover the time.\<close>

lemma verifySignature_any_time:
  "wc_TimestampHeader cfg \<noteq> [] \<Longrightarrow> verifySignature A now cfg p s = verifySignature A now' cfg p s"
  "wc_TimestampHeader cfg \<noteq> [] \<Longrightarrow> verifyCompositeSignature A now cfg p s = verifyCompositeSignature A now' cfg p s"
proof (induction A now cfg p s and A now cfg p s rule: verifySignature_verifyCompositeSignature.induct)
  case (1 A now cfg p s)
  then show ?case
    unfolding verifySignature.simps [of A now] verifySignature.simps [of A now'] by simp
next
  case (2 A now cfg p s)
  obtain t g where "composite_parts cfg s = (t, g)"
    by (rule prod.exhaust)
  then show ?case
    using 2 unfolding verifyCompositeSignature.simps [of A now] verifyCompositeSignature.simps [of A now'] by simp
qed

text \<open>
  The event ID and the timestamp are not part of what is signed.  Whoever has seen one accepted request can have it
  accepted again at any later time by replacing the two headers: the same body and signature with a
  fresh event ID and the current time pass every check.
\<close>

theorem unsigned_headers_allow_replay:
  assumes "webhook_handle A cfg r c0 = (c1, Passed (Some i) p body)"
    and "wc_TimestampHeader cfg \<noteq> []" "wc_SignatureHeader cfg \<notin> {wc_TimestampHeader cfg, wc_EventIDHeader cfg}"
    and "wc_TimestampHeader cfg \<noteq> wc_EventIDHeader cfg"
    and "verifyTimestamp A (at_verify clk) date (wc_Tolerance cfg) = None" "date \<noteq> []"
    and "fresh \<noteq> []" "map_of (ec_entries c) fresh = None"
  shows "snd (webhook_handle A cfg
      (r\<lparr>wr_header := (wr_header r)(wc_TimestampHeader cfg := date, wc_EventIDHeader cfg := fresh), wr_clock := clk\<rparr>) (Some c))
    = Passed (Some fresh) p body"
proof -
  let ?h = "(wr_header r)(wc_TimestampHeader cfg := date, wc_EventIDHeader cfg := fresh)"
  let ?r = "r\<lparr>wr_header := ?h, wr_clock := clk\<rparr>"
  have "verified A cfg r body \<and> wc_RequireEventID cfg \<and> wc_EventIDHeader cfg \<noteq> [] \<and> p = wc_Provider cfg"
    using assms(1) by (cases rule: webhook_handle_cases [of A cfg r c0]) (auto split: option.splits prod.splits)
  then have v: "verified A cfg r body" and ids: "wc_RequireEventID cfg" "wc_EventIDHeader cfg \<noteq> []" and p: "p = wc_Provider cfg"
    by simp_all
  have h: "?h (wc_SignatureHeader cfg) = wr_header r (wc_SignatureHeader cfg)" "?h (wc_TimestampHeader cfg) = date" "?h (wc_EventIDHeader cfg) = fresh"
    using assms(3,4) by auto
  have "verifySignature A (at_verify clk) cfg body (wr_header r (wc_SignatureHeader cfg)) = None"
    using v verifySignature_any_time(1) [OF assms(2), of A "at_verify clk" body "wr_header r (wc_SignatureHeader cfg)" "at_verify (wr_clock r)"]
    by (simp add: verified_def)
  moreover have "check_timestamp A cfg ?r = None"
    using assms(5,6) h(2) by (simp add: check_timestamp_def)
  ultimately have v2: "verified A cfg ?r body"
    using v h(1) by (simp add: verified_def del: fun_upd_apply)
  have "map_of (ec_entries (cleanupExpired (at_cleanup clk) c)) fresh = None"
    using assms(8) by (auto simp: cleanupExpired_def map_of_eq_None_iff)
  then have "snd (CheckAndStore (wr_clock ?r) fresh c) = None"
    using assms(7) by (simp add: CheckAndStore_def Let_def)
  moreover have "wr_header ?r (wc_EventIDHeader cfg) = fresh"
    using h(3) by simp
  ultimately show ?thesis
    using webhook_handle_event [OF v2 ids _ assms(7), of "Some c"] p
    by (simp add: case_prod_beta split: option.split)
qed

lemma unsigned_headers_allow_replay_witness:
  "snd (webhook_handle sample_api (WithSecret ''k'' (ProviderConfig ProviderGitHub))
      (sample_webhook ''e1'' 0\<lparr>wr_header := (wr_header (sample_webhook ''e1'' 0))(''X-Hub-Request-Started'' := ''9'', ''X-GitHub-Delivery'' := ''e2''),
         wr_clock := wr_clock (sample_webhook ''e1'' (9 * Second))\<rparr>)
      (Some \<lparr>ec_entries = [(''e1'', 300 * Second)], ec_ttl = 5 * Minute\<rparr>))
    = Passed (Some ''e2'') ProviderGitHub ''hi''"
proof -
  let ?cfg = "WithSecret ''k'' (ProviderConfig ProviderGitHub)"
  let ?c = "\<lparr>ec_entries = [(''e1'', 300 * Second)], ec_ttl = 5 * Minute\<rparr>"
  have first: "webhook_handle sample_api ?cfg (sample_webhook ''e1'' 0) (Some (NewEventIDCache (5 * Minute)))
      = (Some ?c, Passed (Some ''e1'') ProviderGitHub ''hi'')"
    by code_simp
  have cfg: "wc_TimestampHeader ?cfg = ''X-Hub-Request-Started''" "wc_EventIDHeader ?cfg = ''X-GitHub-Delivery''"
    "wc_SignatureHeader ?cfg = ''X-Hub-Signature-256''"
    by (simp_all add: WithSecret_def ProviderConfig_def)
  have "verifyTimestamp sample_api (at_verify (wr_clock (sample_webhook ''e1'' (9 * Second)))) ''9'' (wc_Tolerance ?cfg) = None"
    by code_simp
  then show ?thesis
    using unsigned_headers_allow_replay [OF first, unfolded cfg, of "wr_clock (sample_webhook ''e1'' (9 * Second))" "''9''" "''e2''" ?c]
    by simp
qed

section \<open>Further behaviour\<close>

text \<open>
  The second admin middleware records the request ID before it looks at the signature, so a request with any
  signature makes the genuine one with the same ID fail for the next five minutes.
\<close>

lemma forged_request_blocks_genuine:
  assumes "AdminSigningMiddleware A secret forged c = (c1, AdminAborted 401 ErrInvalidAdminSignature)"
    and "ad_header genuine AdminRequestIDHeader = ad_header forged AdminRequestIDHeader"
    and "at_cleanup (ad_clock genuine) \<le> at_check (ad_clock genuine)"
    and "at_check (ad_clock genuine) < at_store (ad_clock forged) + ec_ttl c"
    and "parseUnixTimestamp A (ad_header forged AdminDateHeader) = Some secs"
  shows "snd (AdminSigningMiddleware A secret genuine c1) \<noteq> AdminPassed"
proof -
  let ?k = "ad_header forged AdminRequestIDHeader"
  have "ad_header forged AdminDateHeader \<noteq> [] \<and> ?k \<noteq> [] \<and> ad_header forged AdminSignatureHeader \<noteq> []
      \<and> verifyAdminTimestamp A (at_verify (ad_clock forged)) (ad_header forged AdminDateHeader) = None"
    using assms(1,5) by (auto simp: AdminSigningMiddleware_def verifyAdminTimestamp_def Let_def split: if_splits option.splits)
  then have "CheckAndStore (ad_clock forged) ?k c = (c1, None)"
    using assms(1) by (auto simp: AdminSigningMiddleware_def Let_def split: if_splits option.splits prod.splits)
  then have "snd (CheckAndStore (ad_clock forged) ?k c) = None" "c1 = fst (CheckAndStore (ad_clock forged) ?k c)"
    by simp_all
  then have "snd (CheckAndStore (ad_clock genuine) ?k c1) \<noteq> None"
    using seen_ids.refused [OF seen_ids.stored assms(3,4)] by simp
  then show ?thesis
    using assms(2) by (auto simp: AdminSigningMiddleware_def Let_def split: option.splits prod.splits)
qed

text \<open>
  The generic configuration has the version \<^verbatim>\<open>v2\<close> without the equals sign that follows it in a header, so a header
  \<^verbatim>\<open>v2=...\<close> leaves the equals sign in place and is rejected whatever its code.
\<close>

lemma versioned_signature_rejected:
  assumes "CHR '','' \<notin> set code"
  shows "verifySignature A now (WithSecret secret DefaultWebhookConfig) body (''v2='' @ code) = Some ErrInvalidSignature"
proof -
  have strip: "strip_version (WithSecret secret DefaultWebhookConfig) (''v2='' @ code) = ''='' @ code"
    by (simp add: strip_version_def WithSecret_def DefaultWebhookConfig_def HasPrefix_def TrimPrefix_def)
  have "hexDecode (''='' @ code) = None"
    by (cases code) (simp_all add: hex_value_def char_nat_def)
  then show ?thesis
    using assms unfolding verifySignature.simps strip by (simp add: check_hmac_def)
qed

text \<open>A timestamp in milliseconds, of any time since 2001, is taken for nanoseconds and refused as too old.\<close>

lemma millisecond_timestamp_rejected:
  assumes "parseInt64 s = Some ms" "1000000000000 < ms" "ms div 1000 = Unix now" "tolerance \<le> 900"
  shows "verifyTimestamp A now s tolerance = Some ErrTimestampTooOld"
proof -
  have "parseUnixTimestamp A s = Some (ms div 1000000000)"
    using assms(1,2) by (simp add: parseUnixTimestamp_def)
  moreover have "ms div 1000000000 < Unix now - tolerance"
    using assms(2-4) by linarith
  ultimately show ?thesis
    by (simp add: verifyTimestamp_def)
qed

end
