(* ===== verification/Lockout.thy ===== *)
theory Lockout
  imports Prelude
begin

text \<open>
  The lockout tracker for failed admin logins (\<^verbatim>\<open>internal/security/lockout.go\<close>).  Every operation takes the clock
  readings it makes; \<^verbatim>\<open>RecordFailure\<close> makes two, one in the sweep and one for the new window.
\<close>

section \<open>The tracker\<close>

definition DefaultBaseLockout :: duration where
  "DefaultBaseLockout = Second"

definition DefaultMaxLockout :: duration where
  "DefaultMaxLockout = 15 * Minute"

definition defaultCleanupEvery :: duration where
  "defaultCleanupEvery = Minute"

record lockoutEntry =
  lk_attempts :: nat
  lk_lockedAt :: time
  lk_lockoutFor :: duration

record LockoutTracker =
  lt_entries :: "(string \<times> lockoutEntry) list"
  lt_baseLockout :: duration
  lt_maxLockout :: duration
  lt_lastCleanup :: time
  lt_cleanupEvery :: duration

definition NewLockoutTracker :: "duration option \<Rightarrow> duration option \<Rightarrow> time \<Rightarrow> LockoutTracker" where
  "NewLockoutTracker withBase withMax now =
     \<lparr>lt_entries = [], lt_baseLockout = (case withBase of Some d \<Rightarrow> d | None \<Rightarrow> DefaultBaseLockout),
      lt_maxLockout = (case withMax of Some d \<Rightarrow> d | None \<Rightarrow> DefaultMaxLockout),
      lt_lastCleanup = now, lt_cleanupEvery = defaultCleanupEvery\<rparr>"

definition lockoutKey :: "string \<Rightarrow> string \<Rightarrow> string" where
  "lockoutKey source account = source @ ''|'' @ account"

definition lock_expiry :: "lockoutEntry \<Rightarrow> time" where
  "lock_expiry e = lk_lockedAt e + lk_lockoutFor e"

definition cleanupLocked :: "time \<Rightarrow> LockoutTracker \<Rightarrow> LockoutTracker" where
  "cleanupLocked now lt =
     (if now - lt_lastCleanup lt < lt_cleanupEvery lt then lt
      else lt\<lparr>lt_lastCleanup := now, lt_entries := filter (\<lambda>(k, e). \<not> now > lock_expiry e) (lt_entries lt)\<rparr>)"

text \<open>The loop that doubles the window for each failure after the first.\<close>

fun backoff_loop :: "nat \<Rightarrow> duration \<Rightarrow> duration \<Rightarrow> duration" where
  "backoff_loop 0 maxLockout d = d"
| "backoff_loop (Suc n) maxLockout d =
     (if 2 * d \<ge> maxLockout then maxLockout else backoff_loop n maxLockout (2 * d))"

definition RecordFailure :: "time \<Rightarrow> time \<Rightarrow> string \<Rightarrow> string \<Rightarrow> LockoutTracker \<Rightarrow> LockoutTracker" where
  "RecordFailure swept now source account lt =
     (let lt1 = cleanupLocked swept lt;
          k = lockoutKey source account;
          attempts = (case map_of (lt_entries lt1) k of None \<Rightarrow> 0 | Some e \<Rightarrow> lk_attempts e) + 1;
          d = backoff_loop (attempts - 1) (lt_maxLockout lt1) (lt_baseLockout lt1)
      in lt1\<lparr>lt_entries := AList.update k \<lparr>lk_attempts = attempts, lk_lockedAt = now, lk_lockoutFor = d\<rparr> (lt_entries lt1)\<rparr>)"

text \<open>Between the read lock and the write lock of \<^verbatim>\<open>IsLocked\<close> nothing else runs here.\<close>

definition IsLocked :: "time \<Rightarrow> string \<Rightarrow> string \<Rightarrow> LockoutTracker \<Rightarrow> LockoutTracker \<times> bool" where
  "IsLocked now source account lt =
     (let k = lockoutKey source account
      in case map_of (lt_entries lt) k of
           None \<Rightarrow> (lt, False)
         | Some e \<Rightarrow>
             if now < lock_expiry e then (lt, True)
             else if now > lock_expiry e then (lt\<lparr>lt_entries := AList.delete k (lt_entries lt)\<rparr>, False)
             else (lt, False))"

definition Reset :: "string \<Rightarrow> string \<Rightarrow> LockoutTracker \<Rightarrow> LockoutTracker" where
  "Reset source account lt = lt\<lparr>lt_entries := AList.delete (lockoutKey source account) (lt_entries lt)\<rparr>"

definition LockoutRemaining :: "time \<Rightarrow> string \<Rightarrow> string \<Rightarrow> LockoutTracker \<Rightarrow> duration" where
  "LockoutRemaining now source account lt =
     (case map_of (lt_entries lt) (lockoutKey source account) of
        None \<Rightarrow> 0
      | Some e \<Rightarrow> if now < lock_expiry e then (lock_expiry e - now) div Second * Second else 0)"

definition Attempts :: "string \<Rightarrow> string \<Rightarrow> LockoutTracker \<Rightarrow> nat" where
  "Attempts source account lt =
     (case map_of (lt_entries lt) (lockoutKey source account) of None \<Rightarrow> 0 | Some e \<Rightarrow> lk_attempts e)"

section \<open>The login handler\<close>

text \<open>
  \<^verbatim>\<open>AdminHandler.Login\<close> (\<^verbatim>\<open>internal/handlers/admin.go\<close>): the credentials bound from the body, or \<^verbatim>\<open>None\<close> when binding
  fails, the two headers, the caller's address, and the clock readings.
\<close>

record login_request =
  lr_bound :: "(string \<times> string) option"
  lr_header :: "string \<Rightarrow> string"
  lr_ClientIP :: string
  lr_asked :: time
  lr_remaining :: time
  lr_swept :: time
  lr_failed :: time

datatype login_answer = LoginMissing | RateLimited int | InvalidCredentials | Authenticated

definition extractCredentialsFromHeaders :: "login_request \<Rightarrow> string \<times> string" where
  "extractCredentialsFromHeaders r = (lr_header r ''X-Admin-User'', lr_header r ''X-Admin-Token'')"

definition Login :: "string \<Rightarrow> login_request \<Rightarrow> LockoutTracker \<Rightarrow> LockoutTracker \<times> login_answer" where
  "Login expectedToken r lt =
     (let (username, token) = (case lr_bound r of Some c \<Rightarrow> c | None \<Rightarrow> extractCredentialsFromHeaders r)
      in if username = [] \<or> token = [] then (lt, LoginMissing)
         else
           let (lt1, locked) = IsLocked (lr_asked r) (lr_ClientIP r) username lt
           in if locked then (lt1, RateLimited (LockoutRemaining (lr_remaining r) (lr_ClientIP r) username lt1 div Second))
              else if \<not> (expectedToken \<noteq> [] \<and> expectedToken = token)
              then (RecordFailure (lr_swept r) (lr_failed r) (lr_ClientIP r) username lt1, InvalidCredentials)
              else (Reset (lr_ClientIP r) username lt1, Authenticated))"

definition PurgeCache :: "string \<Rightarrow> string \<Rightarrow> bool" where
  "PurgeCache expectedToken token = (expectedToken \<noteq> [] \<and> expectedToken = token)"

section \<open>Sequences of operations\<close>

datatype lockout_op = Fail time time string string | Ask time string string | ResetOp string string

fun run_lockout :: "lockout_op list \<Rightarrow> LockoutTracker \<Rightarrow> LockoutTracker" where
  "run_lockout [] lt = lt"
| "run_lockout (Fail t1 t2 s a # ops) lt = run_lockout ops (RecordFailure t1 t2 s a lt)"
| "run_lockout (Ask t s a # ops) lt = run_lockout ops (fst (IsLocked t s a lt))"
| "run_lockout (ResetOp s a # ops) lt = run_lockout ops (Reset s a lt)"

text \<open>Operations that leave a pair's window open until a given instant.\<close>

fun spares :: "string \<Rightarrow> time \<Rightarrow> lockout_op \<Rightarrow> bool" where
  "spares k expiry (Fail t1 t2 s a) \<longleftrightarrow> lockoutKey s a \<noteq> k \<and> t1 < expiry"
| "spares k expiry (Ask t s a) \<longleftrightarrow> lockoutKey s a \<noteq> k \<or> t < expiry"
| "spares k expiry (ResetOp s a) \<longleftrightarrow> lockoutKey s a \<noteq> k"

lemma map_of_filter_live: "\<lbrakk>map_of xs k = Some v; P (k, v)\<rbrakk> \<Longrightarrow> map_of (filter P xs) k = Some v"
  by (induction xs) (auto split: if_splits)

lemma cleanup_spares:
  "\<lbrakk>map_of (lt_entries lt) k = Some e; now < lock_expiry e\<rbrakk> \<Longrightarrow> map_of (lt_entries (cleanupLocked now lt)) k = Some e"
  by (simp add: cleanupLocked_def map_of_filter_live)

lemma spared_entry:
  assumes "map_of (lt_entries lt) k = Some e" "list_all (spares k (lock_expiry e)) ops"
  shows "map_of (lt_entries (run_lockout ops lt)) k = Some e"
  using assms
proof (induction ops arbitrary: lt)
  case (Cons op ops)
  show ?case
  proof (cases op)
    case (Fail t1 t2 s a)
    then have "map_of (lt_entries (RecordFailure t1 t2 s a lt)) k = Some e"
      using Cons.prems cleanup_spares [of lt k e t1] by (auto simp: RecordFailure_def Let_def)
    then show ?thesis
      using Cons.IH Cons.prems(2) Fail by simp
  next
    case (Ask t s a)
    then have "map_of (lt_entries (fst (IsLocked t s a lt))) k = Some e"
      using Cons.prems by (auto simp: IsLocked_def Let_def delete_conv' split: option.splits)
    then show ?thesis
      using Cons.IH Cons.prems(2) Ask by simp
  next
    case (ResetOp s a)
    then have "map_of (lt_entries (Reset s a lt)) k = Some e"
      using Cons.prems by (auto simp: Reset_def delete_conv')
    then show ?thesis
      using Cons.IH Cons.prems(2) ResetOp by simp
  qed
qed simp

lemma backoff_doubles:
  assumes "0 < d" "d \<le> m"
  shows "backoff_loop n m d = min (d * 2 ^ n) m"
  using assms
proof (induction n arbitrary: d)
  case (Suc n)
  show ?case
  proof (cases "2 * d \<ge> m")
    case True
    have "2 * d * 1 \<le> 2 * d * 2 ^ n"
      using Suc.prems(1) by (intro mult_left_mono) simp_all
    then have "m \<le> d * 2 ^ Suc n"
      using True by (simp add: mult.assoc mult.left_commute)
    then show ?thesis
      using True by simp
  next
    case False
    then show ?thesis
      using Suc.IH [of "2 * d"] Suc.prems by (simp add: mult.assoc mult.left_commute)
  qed
qed simp

definition lockout_inv :: "LockoutTracker \<Rightarrow> bool" where
  "lockout_inv lt \<longleftrightarrow> distinct (map fst (lt_entries lt))"

lemma distinct_filter_keys: "distinct (map fst xs) \<Longrightarrow> distinct (map fst (filter P xs))"
  by (simp add: distinct_map_filter)

lemma lockout_inv_cleanup [inv_intros]: "lockout_inv lt \<Longrightarrow> lockout_inv (cleanupLocked now lt)"
  by (simp add: lockout_inv_def cleanupLocked_def distinct_filter_keys)

lemma lockout_inv_run [inv_intros]: "lockout_inv lt \<Longrightarrow> lockout_inv (run_lockout ops lt)"
proof (induction ops arbitrary: lt)
  case (Cons op ops)
  show ?case
  proof (cases op)
    case (Fail t1 t2 s a)
    then show ?thesis
      using Cons.IH [of "RecordFailure t1 t2 s a lt"] lockout_inv_cleanup [OF Cons.prems, of t1]
      by (simp add: RecordFailure_def Let_def lockout_inv_def)
  next
    case (Ask t s a)
    then show ?thesis
      using Cons.IH [of "fst (IsLocked t s a lt)"] Cons.prems
      by (auto simp: IsLocked_def Let_def lockout_inv_def distinct_delete split: option.splits)
  next
    case (ResetOp s a)
    then show ?thesis
      using Cons.IH [of "Reset s a lt"] Cons.prems by (simp add: Reset_def lockout_inv_def distinct_delete)
  qed
qed simp

lemma run_lockout_settings [simp]:
  "lt_baseLockout (run_lockout ops lt) = lt_baseLockout lt" "lt_maxLockout (run_lockout ops lt) = lt_maxLockout lt"
  by (induction ops lt rule: run_lockout.induct)
    (auto simp: RecordFailure_def IsLocked_def Reset_def Let_def cleanupLocked_def split: option.splits)

lemma cleanup_attempts:
  assumes "lockout_inv lt"
  shows "Attempts source account (cleanupLocked now lt) \<in> {0, Attempts source account lt}"
proof (cases "map_of (lt_entries (cleanupLocked now lt)) (lockoutKey source account)")
  case (Some e)
  have d: "distinct (map fst (lt_entries lt))" "distinct (map fst (lt_entries (cleanupLocked now lt)))"
    using assms lockout_inv_cleanup [OF assms, of now] by (simp_all add: lockout_inv_def)
  have "(lockoutKey source account, e) \<in> set (lt_entries lt)"
    using map_of_SomeD [OF Some] by (auto simp: cleanupLocked_def split: if_splits)
  then have "map_of (lt_entries lt) (lockoutKey source account) = Some e"
    using d(1) by simp
  then show ?thesis
    using Some by (simp add: Attempts_def)
qed (simp add: Attempts_def)

section \<open>Properties\<close>

text \<open>
  C20: A recorded failure locks the pair for the base duration doubled once per earlier failure still counted, up to the
  maximum: in any history of the tracker, and whatever other logins are tracked, reset, swept or asked about
  meanwhile, \<^verbatim>\<open>IsLocked\<close> answers yes at exactly the instants before that window ends.
\<close>

theorem lockout_window_holds:
  assumes "lt = run_lockout before (NewLockoutTracker b m started)" "0 < lt_baseLockout lt" "lt_baseLockout lt \<le> lt_maxLockout lt"
    and "lt1 = RecordFailure swept now source account lt" "n = Attempts source account lt1"
    and "expiry = now + min (lt_baseLockout lt * 2 ^ (n - 1)) (lt_maxLockout lt)"
    and "list_all (spares (lockoutKey source account) expiry) ops"
  shows "(n = 1 \<or> n = Attempts source account lt + 1)
    \<and> (snd (IsLocked t source account (run_lockout ops lt1)) \<longleftrightarrow> t < expiry)"
proof -
  let ?k = "lockoutKey source account"
  define e where "e = \<lparr>lk_attempts = n, lk_lockedAt = now, lk_lockoutFor = min (lt_baseLockout lt * 2 ^ (n - 1)) (lt_maxLockout lt)\<rparr>"
  have same: "lt_baseLockout (cleanupLocked swept lt) = lt_baseLockout lt" "lt_maxLockout (cleanupLocked swept lt) = lt_maxLockout lt"
    by (simp_all add: cleanupLocked_def)
  have "lockout_inv lt"
    unfolding assms(1) by (intro inv_intros) (simp add: lockout_inv_def NewLockoutTracker_def)
  then have "Attempts source account (cleanupLocked swept lt) \<in> {0, Attempts source account lt}"
    by (rule cleanup_attempts)
  moreover have n: "n = Attempts source account (cleanupLocked swept lt) + 1"
    unfolding assms(4,5) by (simp add: RecordFailure_def Attempts_def Let_def)
  ultimately have count: "n = 1 \<or> n = Attempts source account lt + 1"
    by auto
  have "map_of (lt_entries lt1) ?k = Some e"
    using n backoff_doubles [OF assms(2,3)] unfolding assms(4) e_def
    by (simp add: RecordFailure_def Let_def Attempts_def same)
  then have "map_of (lt_entries (run_lockout ops lt1)) ?k = Some e"
    using assms(6,7) by (intro spared_entry) (simp_all add: e_def lock_expiry_def)
  then have "snd (IsLocked t source account (run_lockout ops lt1)) \<longleftrightarrow> t < expiry"
    using assms(6) by (auto simp: IsLocked_def Let_def e_def lock_expiry_def)
  then show ?thesis
    using count by blast
qed

lemma lockout_window_holds_witness:
  "let lt = run_lockout [Fail 0 0 ''ip'' ''root''] (NewLockoutTracker None None 0);
       lt1 = RecordFailure 1 1 ''ip'' ''root'' lt
   in Attempts ''ip'' ''root'' lt1 = 2
      \<and> snd (IsLocked (2 * Second) ''ip'' ''root'' (run_lockout [Fail 3 3 ''ip'' ''other''] lt1))"
proof -
  let ?lt = "run_lockout [Fail 0 0 ''ip'' ''root''] (NewLockoutTracker None None 0)"
  let ?lt1 = "RecordFailure 1 1 ''ip'' ''root'' ?lt"
  have two: "Attempts ''ip'' ''root'' ?lt1 = 2" "lt_baseLockout ?lt = Second" "lt_maxLockout ?lt = 15 * Minute"
    by code_simp+
  have order: "0 < lt_baseLockout ?lt" "lt_baseLockout ?lt \<le> lt_maxLockout ?lt"
    unfolding two by (simp_all add: Minute_def Second_def)
  have "list_all (spares (lockoutKey ''ip'' ''root'') (1 + min (lt_baseLockout ?lt * 2 ^ (Attempts ''ip'' ''root'' ?lt1 - 1)) (lt_maxLockout ?lt)))
      [Fail 3 3 ''ip'' ''other'']"
    by (simp only: two) code_simp
  then have "snd (IsLocked (2 * Second) ''ip'' ''root'' (run_lockout [Fail 3 3 ''ip'' ''other''] ?lt1))
      \<longleftrightarrow> 2 * Second < 1 + min (lt_baseLockout ?lt * 2 ^ (Attempts ''ip'' ''root'' ?lt1 - 1)) (lt_maxLockout ?lt)"
    using lockout_window_holds [OF refl order refl refl refl] by blast
  then show ?thesis
    by (simp only: Let_def two) (simp add: Minute_def Second_def)
qed

text \<open>
  The count does not survive a window: a login after the window has ended removes the entry before the attempt is
  recorded, so a caller who waits out each window is never locked for longer than the base duration.
\<close>

lemma waiting_restarts_backoff:
  assumes "lt_entries lt = [(lockoutKey (lr_ClientIP r) username, e)]" "lock_expiry e < lr_asked r"
    and "lr_bound r = Some (username, token)" "username \<noteq> []" "token \<noteq> []" "token \<noteq> expected"
  shows "lt_entries (fst (Login expected r lt)) = [(lockoutKey (lr_ClientIP r) username,
      \<lparr>lk_attempts = 1, lk_lockedAt = lr_failed r, lk_lockoutFor = lt_baseLockout lt\<rparr>)]"
  using assms by (auto simp: Login_def IsLocked_def RecordFailure_def cleanupLocked_def Let_def)

text \<open>
  Only the token is checked, while the lockout is kept per account name: a caller who uses a new name for each guess is
  never locked out.
\<close>

lemma new_name_never_locked:
  assumes "map_of (lt_entries lt) (lockoutKey (lr_ClientIP r) username) = None"
    and "lr_bound r = Some (username, token)" "username \<noteq> []" "token \<noteq> []"
  shows "snd (Login expected r lt) = (if expected = token then Authenticated else InvalidCredentials)"
  using assms by (auto simp: Login_def IsLocked_def Let_def)

end
