(* ===== verification/Fraud.thy ===== *)
theory Fraud
  imports Prelude "HOL-Library.Signed_Division"
begin

text \<open>
  Fraud signals per tenant (\<^verbatim>\<open>internal/security/fraud\<close>): the ring-buffer sliding window of \<^verbatim>\<open>window.go\<close> and the collector
  of \<^verbatim>\<open>fraud.go\<close> and \<^verbatim>\<open>emitter.go\<close>.  The keyed tenant hash is a parameter; \<^verbatim>\<open>time.Time{}\<close> in a bucket is \<^verbatim>\<open>None\<close>.
\<close>

section \<open>The sliding window\<close>

record slidingWindow =
  sw_window :: duration
  sw_bucketSpan :: duration
  sw_buckets :: "int list"
  sw_bucketTime :: "time option list"

definition newSlidingWindow :: "duration \<Rightarrow> int \<Rightarrow> slidingWindow" where
  "newSlidingWindow window0 buckets0 =
     (let buckets = (if buckets0 < 1 then 1 else buckets0);
          window = (if window0 \<le> 0 then Second else window0)
      in \<lparr>sw_window = window, sw_bucketSpan = window sdiv buckets,
          sw_buckets = replicate (nat buckets) 0, sw_bucketTime = replicate (nat buckets) None\<rparr>)"

definition bucketIndex :: "slidingWindow \<Rightarrow> time \<Rightarrow> nat" where
  "bucketIndex w t =
     (let n = int (length (sw_buckets w)); idx = (t sdiv sw_bucketSpan w) smod n
      in nat (if idx < 0 then idx + n else idx))"

definition bucketStart :: "slidingWindow \<Rightarrow> time \<Rightarrow> time" where
  "bucketStart w t = (t sdiv sw_bucketSpan w) * sw_bucketSpan w"

definition stale :: "slidingWindow \<Rightarrow> time \<Rightarrow> nat \<Rightarrow> bool" where
  "stale w now i = (case sw_bucketTime w ! i of None \<Rightarrow> False | Some t \<Rightarrow> now - t \<ge> sw_window w)"

definition roll :: "time \<Rightarrow> slidingWindow \<Rightarrow> slidingWindow" where
  "roll now w =
     w\<lparr>sw_buckets := map (\<lambda>i. if stale w now i then 0 else sw_buckets w ! i) [0..<length (sw_buckets w)],
       sw_bucketTime := map (\<lambda>i. if stale w now i then None else sw_bucketTime w ! i) [0..<length (sw_buckets w)]\<rparr>"

definition window_sum :: "time \<Rightarrow> slidingWindow \<Rightarrow> int" where
  "window_sum now w =
     sum_list (map (\<lambda>i. case sw_bucketTime w ! i of
                          None \<Rightarrow> 0
                        | Some t \<Rightarrow> if now - t < sw_window w then sw_buckets w ! i else 0) [0..<length (sw_buckets w)])"

definition window_add :: "time \<Rightarrow> int \<Rightarrow> slidingWindow \<Rightarrow> slidingWindow \<times> int" where
  "window_add now n w =
     (let w1 = roll now w;
          idx = bucketIndex w1 now;
          start = bucketStart w1 now;
          w2 = (if sw_bucketTime w1 ! idx \<noteq> Some start
                then w1\<lparr>sw_buckets := (sw_buckets w1)[idx := 0], sw_bucketTime := (sw_bucketTime w1)[idx := Some start]\<rparr>
                else w1);
          w3 = w2\<lparr>sw_buckets := (sw_buckets w2)[idx := sw_buckets w2 ! idx + n]\<rparr>
      in (w3, window_sum now w3))"

definition window_count :: "time \<Rightarrow> slidingWindow \<Rightarrow> slidingWindow \<times> int" where
  "window_count now w = (let w1 = roll now w in (w1, window_sum now w1))"

definition window_empty :: "time \<Rightarrow> slidingWindow \<Rightarrow> slidingWindow \<times> bool" where
  "window_empty now w = (let (w1, c) = window_count now w in (w1, c = 0))"

section \<open>The collector\<close>

datatype Signal = SignalAuthFailRate | SignalSubscriptionIDMisses | SignalPlanChurnRate | OtherSignal string

record SignalConfig =
  sig_Window :: duration
  sig_Buckets :: int
  sig_Threshold :: int
  sig_Cooldown :: duration

definition DefaultFraudConfig :: "(Signal \<times> SignalConfig) list" where
  "DefaultFraudConfig =
     [(SignalAuthFailRate, \<lparr>sig_Window = Minute, sig_Buckets = 12, sig_Threshold = 20, sig_Cooldown = Minute\<rparr>),
      (SignalSubscriptionIDMisses, \<lparr>sig_Window = 5 * Minute, sig_Buckets = 10, sig_Threshold = 30, sig_Cooldown = 2 * Minute\<rparr>),
      (SignalPlanChurnRate, \<lparr>sig_Window = Hour, sig_Buckets = 12, sig_Threshold = 6, sig_Cooldown = 10 * Minute\<rparr>)]"

record signalState =
  ss_window :: slidingWindow
  ss_lastEmit :: "time option"
  ss_lastActive :: time

type_synonym tenantState = "(Signal \<times> signalState) list"

record AuditEvent =
  ae_Signal :: Signal
  ae_TenantHash :: string
  ae_Count :: int
  ae_Threshold :: int
  ae_Window :: duration
  ae_DetectedAt :: time

record Collector =
  fc_Signals :: "(Signal \<times> SignalConfig) list"
  fc_emitter :: bool
  fc_secret :: string
  fc_idleTTL :: duration
  fc_tenants :: "(string \<times> tenantState) list"

definition NewCollector :: "(Signal \<times> SignalConfig) list option \<Rightarrow> string \<Rightarrow> duration \<Rightarrow> bool \<Rightarrow> Collector" where
  "NewCollector signals0 hashSecret idleTTL emitter =
     (let signals = (case signals0 of None \<Rightarrow> DefaultFraudConfig | Some s \<Rightarrow> s);
          idle0 = (if idleTTL \<le> 0 then foldl (\<lambda>idle (s, sc). if sig_Window sc > idle then sig_Window sc else idle) idleTTL signals else idleTTL);
          idle = (if idle0 \<le> 0 then Minute else idle0)
      in \<lparr>fc_Signals = signals, fc_emitter = emitter,
          fc_secret = (if hashSecret = [] then ''stellabill-fraud-default'' else hashSecret),
          fc_idleTTL = idle, fc_tenants = []\<rparr>)"

definition tenantStateFor :: "string \<Rightarrow> Collector \<Rightarrow> tenantState" where
  "tenantStateFor tenant c = (case map_of (fc_tenants c) tenant of None \<Rightarrow> [] | Some ts \<Rightarrow> ts)"

text \<open>The new collector, the event handed to the emitter, and the answer.\<close>

definition observeN :: "(string \<Rightarrow> string \<Rightarrow> string) \<Rightarrow> time \<Rightarrow> string \<Rightarrow> Signal \<Rightarrow> int \<Rightarrow> Collector
    \<Rightarrow> Collector \<times> AuditEvent option \<times> bool" where
  "observeN hash now tenant signal n c =
     (if tenant = [] \<or> n \<le> 0 then (c, None, False)
      else case map_of (fc_Signals c) signal of
        None \<Rightarrow> (c, None, False)
      | Some sc \<Rightarrow>
          let ts = tenantStateFor tenant c;
              st0 = (case map_of ts signal of
                       Some st \<Rightarrow> st
                     | None \<Rightarrow> \<lparr>ss_window = newSlidingWindow (sig_Window sc) (sig_Buckets sc), ss_lastEmit = None, ss_lastActive = 0\<rparr>);
              (w, count) = window_add now n (ss_window st0);
              st1 = st0\<lparr>ss_lastActive := now, ss_window := w\<rparr>;
              store = (\<lambda>st. c\<lparr>fc_tenants := AList.update tenant (AList.update signal st ts) (fc_tenants c)\<rparr>)
          in if sig_Threshold sc \<le> 0 \<or> count < sig_Threshold sc then (store st1, None, False)
             else if (case ss_lastEmit st1 of None \<Rightarrow> False | Some e \<Rightarrow> sig_Cooldown sc > 0 \<and> now - e < sig_Cooldown sc)
             then (store st1, None, False)
             else
               let st2 = st1\<lparr>ss_lastEmit := Some now\<rparr>
               in if \<not> fc_emitter c then (store st2, None, False)
                  else (store st2, Some \<lparr>ae_Signal = signal, ae_TenantHash = hash (fc_secret c) tenant, ae_Count = count,
                          ae_Threshold = sig_Threshold sc, ae_Window = sig_Window sc, ae_DetectedAt = now\<rparr>, True))"

definition Observe :: "(string \<Rightarrow> string \<Rightarrow> string) \<Rightarrow> time \<Rightarrow> string \<Rightarrow> Signal \<Rightarrow> Collector
    \<Rightarrow> Collector \<times> AuditEvent option \<times> bool" where
  "Observe hash now tenant signal c = observeN hash now tenant signal 1 c"

definition Count :: "time \<Rightarrow> string \<Rightarrow> Signal \<Rightarrow> Collector \<Rightarrow> Collector \<times> int" where
  "Count now tenant signal c =
     (if tenant = [] \<or> map_of (fc_Signals c) signal = None then (c, 0)
      else case map_of (fc_tenants c) tenant of
        None \<Rightarrow> (c, 0)
      | Some ts \<Rightarrow>
          (case map_of ts signal of
             None \<Rightarrow> (c, 0)
           | Some st \<Rightarrow>
               (let (w, n) = window_count now (ss_window st)
                in (c\<lparr>fc_tenants := AList.update tenant (AList.update signal (st\<lparr>ss_window := w\<rparr>) ts) (fc_tenants c)\<rparr>, n))))"

text \<open>The inner loop of \<^verbatim>\<open>EvictIdle\<close>: it stops at the first signal that is still in use.\<close>

fun idle_scan :: "time \<Rightarrow> duration \<Rightarrow> tenantState \<Rightarrow> tenantState \<times> bool" where
  "idle_scan now ttl [] = ([], True)"
| "idle_scan now ttl ((s, st) # rest) =
     (if now - ss_lastActive st < ttl then ((s, st) # rest, False)
      else
        let (w, empty) = window_empty now (ss_window st); st1 = st\<lparr>ss_window := w\<rparr>
        in if \<not> empty then ((s, st1) # rest, False)
           else let (rest1, idle) = idle_scan now ttl rest in ((s, st1) # rest1, idle))"

definition EvictIdle :: "time \<Rightarrow> Collector \<Rightarrow> Collector \<times> nat" where
  "EvictIdle now c =
     (let scanned = map (\<lambda>(t, ts). (t, idle_scan now (fc_idleTTL c) ts)) (fc_tenants c)
      in (c\<lparr>fc_tenants := map (\<lambda>(t, ts, idle). (t, ts)) (filter (\<lambda>(t, ts, idle). \<not> idle) scanned)\<rparr>,
          length (filter (\<lambda>(t, ts, idle). idle) scanned)))"

definition ObserveAuthFailure :: "(string \<Rightarrow> string \<Rightarrow> string) \<Rightarrow> time \<Rightarrow> string \<Rightarrow> Collector \<Rightarrow> Collector \<times> AuditEvent option \<times> bool" where
  "ObserveAuthFailure hash now tenant c = Observe hash now tenant SignalAuthFailRate c"

definition ObserveSubscriptionIDMiss :: "(string \<Rightarrow> string \<Rightarrow> string) \<Rightarrow> time \<Rightarrow> string \<Rightarrow> Collector \<Rightarrow> Collector \<times> AuditEvent option \<times> bool" where
  "ObserveSubscriptionIDMiss hash now tenant c = Observe hash now tenant SignalSubscriptionIDMisses c"

definition ObservePlanChange :: "(string \<Rightarrow> string \<Rightarrow> string) \<Rightarrow> time \<Rightarrow> string \<Rightarrow> Collector \<Rightarrow> Collector \<times> AuditEvent option \<times> bool" where
  "ObservePlanChange hash now tenant c = Observe hash now tenant SignalPlanChurnRate c"

section \<open>What a window counts\<close>

text \<open>
  The specification of a window of \<open>n\<close> buckets of length \<open>span\<close>: an event counts as long as the bucket it fell into
  started less than a window ago.
\<close>

definition start_of :: "duration \<Rightarrow> time \<Rightarrow> time" where
  "start_of span t = t div span * span"

definition in_window :: "duration \<Rightarrow> nat \<Rightarrow> time \<Rightarrow> time \<times> int \<Rightarrow> bool" where
  "in_window span n now e \<longleftrightarrow> now - start_of span (fst e) < span * int n"

definition total_of :: "(time \<times> int) list \<Rightarrow> int" where
  "total_of evs = sum_list (map snd evs)"

definition window_ok :: "duration \<Rightarrow> nat \<Rightarrow> slidingWindow \<Rightarrow> bool" where
  "window_ok span n w \<longleftrightarrow> 0 < span \<and> 0 < n \<and> sw_bucketSpan w = span \<and> sw_window w = span * int n
     \<and> length (sw_buckets w) = n \<and> length (sw_bucketTime w) = n"

text \<open>The slot of the ring an event belongs to.\<close>

definition slot :: "duration \<Rightarrow> nat \<Rightarrow> time \<Rightarrow> nat" where
  "slot span n t = nat (t div span mod int n)"

definition slot_holds :: "duration \<Rightarrow> nat \<Rightarrow> time \<Rightarrow> (time \<times> int) list \<Rightarrow> nat \<Rightarrow> int \<Rightarrow> time option \<Rightarrow> bool" where
  "slot_holds span n now evs i b bt = (case bt of
      None \<Rightarrow> (\<forall>e \<in> set evs. slot span n (fst e) = i \<longrightarrow> \<not> in_window span n now e)
    | Some s \<Rightarrow> b = total_of (filter (\<lambda>e. start_of span (fst e) = s) evs) \<and> start_of span s = s \<and> slot span n s = i \<and> s \<le> now
        \<and> (\<forall>e \<in> set evs. slot span n (fst e) = i \<and> in_window span n now e \<longrightarrow> start_of span (fst e) = s))"

definition represents :: "duration \<Rightarrow> nat \<Rightarrow> slidingWindow \<Rightarrow> time \<Rightarrow> (time \<times> int) list \<Rightarrow> bool" where
  "represents span n w now evs \<longleftrightarrow> window_ok span n w \<and> (\<forall>e \<in> set evs. 0 \<le> fst e \<and> fst e \<le> now)
     \<and> (\<forall>i < n. slot_holds span n now evs i (sw_buckets w ! i) (sw_bucketTime w ! i))"

lemma represents_slot:
  "\<lbrakk>represents span n w now evs; i < n\<rbrakk> \<Longrightarrow> slot_holds span n now evs i (sw_buckets w ! i) (sw_bucketTime w ! i)"
  by (simp add: represents_def)

lemma slot_less: "0 < n \<Longrightarrow> slot span n t < n"
  by (simp add: slot_def nat_less_iff)

lemma start_of_le: "0 < span \<Longrightarrow> start_of span t \<le> t \<and> t < start_of span t + span"
  by (simp add: start_of_def) (metis add.commute add_left_mono mod_div_mult_eq pos_mod_bound pos_mod_sign le_add_same_cancel1 add_less_cancel_left)

lemma start_of_start [simp]: "0 < span \<Longrightarrow> start_of span (start_of span t) = start_of span t"
  by (simp add: start_of_def)

lemma slot_start [simp]: "0 < span \<Longrightarrow> slot span n (start_of span t) = slot span n t"
  by (simp add: slot_def start_of_def)

text \<open>Two starts of the same slot that are less than a window apart are the same.\<close>

lemma same_slot_start:
  assumes "0 < span" "0 < n" "start_of span s = s" "slot span n s = slot span n t" "s \<le> t" "t - s < span * int n"
  shows "start_of span t = s"
proof -
  have "s div span mod int n = t div span mod int n"
    using assms(2,4) by (simp add: slot_def nat_eq_iff2)
  then obtain q where q: "t div span = s div span + q * int n"
    by (metis mod_eqE mult.commute)
  have s: "s = s div span * span"
    using assms(3) by (simp add: start_of_def)
  have t: "start_of span t = s + q * (span * int n)"
    using s q by (simp add: start_of_def algebra_simps)
  have "start_of span t \<le> t" "t < start_of span t + span"
    using start_of_le [OF assms(1), of t] by simp_all
  moreover have "span \<le> span * int n"
    using assms(1,2) by simp
  ultimately have "q * (span * int n) < 1 * (span * int n)" "- 1 * (span * int n) < q * (span * int n)"
    using t assms(5,6) by linarith+
  then have "q < 1" "- 1 < q"
    using assms(1,2) by (simp_all only: mult_less_cancel_right) (auto simp: zero_less_mult_iff)
  then show ?thesis
    using t by simp
qed

lemma nonneg_index: "0 \<le> i \<Longrightarrow> nat (if i < 0 then i + n else i) = nat i"
  by simp

lemma window_ok_index:
  assumes "window_ok span n w" "0 \<le> t"
  shows "bucketIndex w t = slot span n t" "bucketStart w t = start_of span t"
proof -
  have d: "t sdiv span = t div span" "0 \<le> t div span"
    using assms by (simp_all add: window_ok_def signed_divide_int_def pos_imp_zdiv_nonneg_iff sgn_if)
  have m: "(t div span) smod int n = t div span mod int n"
    using d(2) assms(1) by (simp add: window_ok_def signed_modulo_int_def signed_divide_int_def sgn_if minus_div_mult_eq_mod)
  have f: "sw_bucketSpan w = span" "length (sw_buckets w) = n" "0 \<le> t div span mod int n"
    using assms(1) by (simp_all add: window_ok_def)
  show "bucketIndex w t = slot span n t"
    unfolding bucketIndex_def Let_def f(1,2) d(1) m slot_def by (rule nonneg_index [OF f(3)])
  show "bucketStart w t = start_of span t"
    unfolding bucketStart_def f(1) d(1) start_of_def by (rule refl)
qed

lemma in_window_later: "\<lbrakk>in_window span n now' e; now \<le> now'\<rbrakk> \<Longrightarrow> in_window span n now e"
  by (simp add: in_window_def)

lemma represents_later:
  assumes "represents span n w now evs" "now \<le> now'"
  shows "represents span n w now' evs"
proof -
  have "slot_holds span n now' evs i b bt" if "slot_holds span n now evs i b bt" for i b bt
    using that assms(2) in_window_later [of span n now' _ now] by (fastforce simp: slot_holds_def split: option.splits)
  then show ?thesis
    using assms by (fastforce simp: represents_def)
qed

lemma represents_roll:
  assumes "represents span n w now evs"
  shows "represents span n (roll now w) now evs" "i < n \<Longrightarrow> sw_bucketTime (roll now w) ! i = Some s \<Longrightarrow> now - s < span * int n"
proof -
  have ok: "window_ok span n w" "window_ok span n (roll now w)"
    using assms by (auto simp: represents_def window_ok_def roll_def)
  have "slot_holds span n now evs i (sw_buckets (roll now w) ! i) (sw_bucketTime (roll now w) ! i)" if i: "i < n" for i
  proof -
    have h: "slot_holds span n now evs i (sw_buckets w ! i) (sw_bucketTime w ! i)"
      using assms i by (simp add: represents_def)
    show ?thesis
    proof (cases "stale w now i")
      case True
      then obtain s where "sw_bucketTime w ! i = Some s" "span * int n \<le> now - s"
        using ok(1) by (auto simp: stale_def window_ok_def split: option.splits)
      then show ?thesis
        using True h i ok(1) by (auto simp: slot_holds_def roll_def window_ok_def in_window_def)
    next
      case False
      then show ?thesis
        using h i ok(1) by (simp add: roll_def window_ok_def)
    qed
  qed
  then show "represents span n (roll now w) now evs"
    using assms ok(2) by (simp add: represents_def)
  show "i < n \<Longrightarrow> sw_bucketTime (roll now w) ! i = Some s \<Longrightarrow> now - s < span * int n"
    using ok(1) by (auto simp: roll_def window_ok_def stale_def split: if_splits option.splits)
qed

lemma total_of_simps [simp]: "total_of [] = 0" "total_of (e # evs) = snd e + total_of evs" "total_of (xs @ ys) = total_of xs + total_of ys"
  by (simp_all add: total_of_def)

lemma total_by_slot:
  assumes "\<forall>e \<in> set evs. f e < n"
  shows "sum_list (map (\<lambda>i. total_of (filter (\<lambda>e. f e = i \<and> P e) evs)) [0..<n]) = total_of (filter P evs)"
  using assms
proof (induction evs)
  case (Cons e evs)
  have "sum_list (map (\<lambda>i. total_of (filter (\<lambda>x. f x = i \<and> P x) (e # evs))) [0..<n])
      = sum_list (map (\<lambda>i. (if f e = i \<and> P e then snd e else 0) + total_of (filter (\<lambda>x. f x = i \<and> P x) evs)) [0..<n])"
    by (intro arg_cong [where f = sum_list] map_cong refl) simp
  also have "\<dots> = sum_list (map (\<lambda>i. if f e = i \<and> P e then snd e else 0) [0..<n]) + total_of (filter P evs)"
    using Cons by (simp add: sum_list_addf)
  also have "sum_list (map (\<lambda>i. if f e = i \<and> P e then snd e else 0) [0..<n]) = (if P e then snd e else 0)"
    using Cons.prems by (simp add: interv_sum_list_conv_sum_set_nat)
  finally show ?case
    by simp
qed simp

text \<open>The sum over the ring is the total of the events in the window.\<close>

lemma represents_sum:
  assumes "represents span n w now evs"
  shows "window_sum now w = total_of (filter (in_window span n now) evs)"
proof -
  have ok: "0 < span" "0 < n" "sw_window w = span * int n" "length (sw_buckets w) = n"
    using assms by (simp_all add: represents_def window_ok_def)
  have slot_sum: "(case sw_bucketTime w ! i of None \<Rightarrow> 0 | Some t \<Rightarrow> if now - t < sw_window w then sw_buckets w ! i else 0)
      = total_of (filter (\<lambda>e. slot span n (fst e) = i \<and> in_window span n now e) evs)" if i: "i < n" for i
  proof -
    have h: "slot_holds span n now evs i (sw_buckets w ! i) (sw_bucketTime w ! i)"
      using assms i by (simp add: represents_def)
    show ?thesis
    proof (cases "sw_bucketTime w ! i")
      case None
      then have "filter (\<lambda>e. slot span n (fst e) = i \<and> in_window span n now e) evs = []"
        using h by (auto simp: slot_holds_def filter_empty_conv)
      then show ?thesis
        using None by simp
    next
      case (Some s)
      show ?thesis
      proof (cases "now - s < span * int n")
        case True
        have "filter (\<lambda>e. slot span n (fst e) = i \<and> in_window span n now e) evs = filter (\<lambda>e. start_of span (fst e) = s) evs"
        proof (rule filter_cong [OF refl])
          fix e assume "e \<in> set evs"
          then show "(slot span n (fst e) = i \<and> in_window span n now e) = (start_of span (fst e) = s)"
            using h Some True slot_start [OF ok(1), of n "fst e"] by (auto simp: slot_holds_def in_window_def)
        qed
        then show ?thesis
          using h Some True ok(3) by (simp add: slot_holds_def)
      next
        case False
        then have "filter (\<lambda>e. slot span n (fst e) = i \<and> in_window span n now e) evs = []"
          using h Some by (auto simp: slot_holds_def filter_empty_conv in_window_def)
        then show ?thesis
          using Some False ok(3) by simp
      qed
    qed
  qed
  have "window_sum now w = sum_list (map (\<lambda>i. total_of (filter (\<lambda>e. slot span n (fst e) = i \<and> in_window span n now e) evs)) [0..<n])"
    unfolding window_sum_def ok(4) by (intro arg_cong [where f = sum_list] map_cong refl) (simp add: slot_sum)
  then show ?thesis
    using total_by_slot [of evs "\<lambda>e. slot span n (fst e)" n "in_window span n now"] slot_less [OF ok(2)] by simp
qed

lemma in_window_now: "\<lbrakk>0 < span; 0 < n; start_of span t = start_of span now\<rbrakk> \<Longrightarrow> in_window span n now (t, k)"
proof -
  assume span: "0 < span" and n: "0 < n" and same: "start_of span t = start_of span now"
  have "span \<le> span * int n"
    using span n by simp
  then show ?thesis
    using start_of_le [OF span, of now] same unfolding in_window_def fst_conv by linarith
qed

text \<open>The bucket of the current instant, after the roll, is free or already the current one.\<close>

lemma current_bucket:
  assumes "represents span n w now evs" "0 \<le> now" "sw_bucketTime (roll now w) ! slot span n now = Some s"
  shows "s = start_of span now"
proof -
  have ok: "0 < span" "0 < n"
    using assms(1) by (simp_all add: represents_def window_ok_def)
  have i: "slot span n now < n"
    using slot_less [OF ok(2)] .
  have "slot_holds span n now evs (slot span n now) (sw_buckets (roll now w) ! slot span n now) (Some s)"
    using represents_slot [OF represents_roll(1) [OF assms(1)] i] unfolding assms(3) .
  then have h: "start_of span s = s" "slot span n s = slot span n now" "s \<le> now"
    by (simp_all add: slot_holds_def)
  show ?thesis
    by (rule same_slot_start [OF ok h represents_roll(2) [OF assms(1) i assms(3)], symmetric])
qed

lemma represents_add:
  assumes "represents span n w now evs" "0 \<le> now"
  shows "represents span n (fst (window_add now k w)) now (evs @ [(now, k)])"
    "snd (window_add now k w) = total_of (filter (in_window span n now) (evs @ [(now, k)]))"
proof -
  let ?w1 = "roll now w" and ?i = "slot span n now" and ?s = "start_of span now"
  have r1: "represents span n ?w1 now evs"
    by (rule represents_roll(1) [OF assms(1)])
  then have ok: "window_ok span n ?w1" "0 < span" "0 < n"
    by (simp_all add: represents_def window_ok_def)
  have i: "?i < n"
    using slot_less [OF ok(3)] .
  let ?old = "if sw_bucketTime ?w1 ! ?i \<noteq> Some ?s then 0 else sw_buckets ?w1 ! ?i"
  define w3 where "w3 = ?w1\<lparr>sw_bucketTime := (sw_bucketTime ?w1)[?i := Some ?s], sw_buckets := (sw_buckets ?w1)[?i := ?old + k]\<rparr>"
  have len: "length (sw_buckets ?w1) = n" "length (sw_bucketTime ?w1) = n"
    using ok(1) by (simp_all add: window_ok_def)
  have w3: "window_add now k w = (w3, window_sum now w3)"
  proof (cases "sw_bucketTime ?w1 ! ?i = Some ?s")
    case True
    then have "(sw_bucketTime ?w1)[?i := Some ?s] = sw_bucketTime ?w1"
      using list_update_id [of "sw_bucketTime ?w1" ?i] by simp
    then have "w3 = ?w1\<lparr>sw_buckets := (sw_buckets ?w1)[?i := sw_buckets ?w1 ! ?i + k]\<rparr>"
      using True by (cases ?w1) (simp add: w3_def)
    then show ?thesis
      using True by (simp add: window_add_def Let_def window_ok_index [OF ok(1) assms(2)])
  next
    case False
    then show ?thesis
      using i len by (simp add: window_add_def Let_def window_ok_index [OF ok(1) assms(2)] w3_def)
  qed
  have old: "?old = total_of (filter (\<lambda>e. start_of span (fst e) = ?s) evs)"
  proof (cases "sw_bucketTime ?w1 ! ?i")
    case None
    then have none: "\<forall>e \<in> set evs. slot span n (fst e) = ?i \<longrightarrow> \<not> in_window span n now e"
      using represents_slot [OF r1 i] by (simp add: slot_holds_def)
    have "filter (\<lambda>e. start_of span (fst e) = ?s) evs = []"
      unfolding filter_empty_conv
    proof (intro ballI notI)
      fix e assume e: "e \<in> set evs" "start_of span (fst e) = ?s"
      then have "slot span n (fst e) = ?i"
        using slot_start [OF ok(2), of n "fst e"] slot_start [OF ok(2), of n now] by simp
      then show False
        using none e in_window_now [OF ok(2,3) e(2), of "snd e"] by simp
    qed
    then show ?thesis
      using None by simp
  next
    case (Some s)
    then show ?thesis
      using current_bucket [OF assms Some] represents_slot [OF r1 i] by (simp add: slot_holds_def)
  qed
  have "slot_holds span n now (evs @ [(now, k)]) j (sw_buckets w3 ! j) (sw_bucketTime w3 ! j)" if j: "j < n" for j
  proof (cases "j = ?i")
    case True
    have "start_of span (fst e) = ?s" if e: "e \<in> set evs" "slot span n (fst e) = ?i" "in_window span n now e" for e
    proof -
      have "start_of span (fst e) \<le> now"
        using r1 e(1) start_of_le [OF ok(2), of "fst e"] by (force simp: represents_def)
      then show ?thesis
        using same_slot_start [OF ok(2,3), of "start_of span (fst e)" now] e ok by (simp add: in_window_def)
    qed
    then show ?thesis
      using True i len old ok start_of_le [OF ok(2), of now] by (simp add: slot_holds_def w3_def)
  next
    case False
    have h: "slot_holds span n now evs j (sw_buckets ?w1 ! j) (sw_bucketTime ?w1 ! j)"
      using r1 j by (simp add: represents_def)
    have "?s \<noteq> s" if "slot span n s = j" "start_of span s = s" for s
      using False that slot_start [OF ok(2), of n now] by auto
    then show ?thesis
      using h False j len by (auto simp: slot_holds_def w3_def split: option.splits)
  qed
  then have rep: "represents span n w3 now (evs @ [(now, k)])"
    using r1 ok(1) assms(2) by (auto simp: represents_def window_ok_def w3_def)
  show "represents span n (fst (window_add now k w)) now (evs @ [(now, k)])"
    using rep w3 by simp
  show "snd (window_add now k w) = total_of (filter (in_window span n now) (evs @ [(now, k)]))"
    using represents_sum [OF rep] w3 by simp
qed

lemma represents_new:
  assumes "0 < window" "0 < buckets" "buckets dvd window" "\<forall>e \<in> set evs. 0 \<le> fst e \<and> fst e \<le> now \<and> \<not> in_window (window div buckets) (nat buckets) now e"
  shows "represents (window div buckets) (nat buckets) (newSlidingWindow window buckets) now evs"
proof -
  have "0 < window div buckets"
    using assms(1-3) by (simp add: pos_imp_zdiv_pos_iff zdvd_imp_le)
  moreover have "window sdiv buckets = window div buckets"
    using assms(1,2) by (simp add: signed_divide_int_def sgn_if)
  moreover have "window = window div buckets * buckets"
    using assms(3) by simp
  ultimately have "window_ok (window div buckets) (nat buckets) (newSlidingWindow window buckets)"
    using assms(1,2) by (simp add: window_ok_def newSlidingWindow_def Let_def)
  moreover have "slot_holds (window div buckets) (nat buckets) now evs i (sw_buckets (newSlidingWindow window buckets) ! i)
      (sw_bucketTime (newSlidingWindow window buckets) ! i)" if "i < nat buckets" for i
    using that assms(2,4) by (simp add: slot_holds_def newSlidingWindow_def Let_def)
  ultimately show ?thesis
    using assms(4) by (simp add: represents_def)
qed

section \<open>What the collector reports\<close>

text \<open>
  The specification keeps, for each tenant and signal, every observation ever made and the last alert.  It
  never forgets anything, and eviction does nothing.
\<close>

type_synonym fraud_spec = "string \<Rightarrow> Signal \<Rightarrow> (time \<times> int) list \<times> time option"

definition cooling :: "SignalConfig \<Rightarrow> time \<Rightarrow> time option \<Rightarrow> time option" where
  "cooling sc now l = (case l of None \<Rightarrow> None | Some e \<Rightarrow> if sig_Cooldown sc > 0 \<and> now - e < sig_Cooldown sc then Some e else None)"

definition recent :: "SignalConfig \<Rightarrow> time \<Rightarrow> time \<times> int \<Rightarrow> bool" where
  "recent sc now e = in_window (sig_Window sc div sig_Buckets sc) (nat (sig_Buckets sc)) now e"

definition alert :: "SignalConfig \<Rightarrow> time \<Rightarrow> (time \<times> int) list \<Rightarrow> time option \<Rightarrow> int option" where
  "alert sc now evs l =
     (let count = total_of (filter (recent sc now) evs)
      in if sig_Threshold sc \<le> 0 \<or> count < sig_Threshold sc \<or> cooling sc now l \<noteq> None then None else Some count)"

datatype fraud_op = ObserveOp time string Signal int | CountOp time string Signal | EvictOp time

fun fraud_op_time :: "fraud_op \<Rightarrow> time" where
  "fraud_op_time (ObserveOp t _ _ _) = t"
| "fraud_op_time (CountOp t _ _) = t"
| "fraud_op_time (EvictOp t) = t"

text \<open>What a call shows: the count in the alert it raised, or the count it returned.\<close>

fun fraud_step :: "(string \<Rightarrow> string \<Rightarrow> string) \<Rightarrow> fraud_op \<Rightarrow> Collector \<Rightarrow> Collector \<times> int option" where
  "fraud_step hash (ObserveOp now tenant signal n) c =
     (case observeN hash now tenant signal n c of (c1, ev, b) \<Rightarrow> (c1, map_option ae_Count ev))"
| "fraud_step hash (CountOp now tenant signal) c = (case Count now tenant signal c of (c1, k) \<Rightarrow> (c1, Some k))"
| "fraud_step hash (EvictOp now) c = (fst (EvictIdle now c), None)"

fun spec_step :: "(Signal \<times> SignalConfig) list \<Rightarrow> bool \<Rightarrow> fraud_op \<Rightarrow> fraud_spec \<Rightarrow> fraud_spec \<times> int option" where
  "spec_step cfg emitter (ObserveOp now tenant signal n) sp =
     (if tenant = [] \<or> n \<le> 0 then (sp, None)
      else case map_of cfg signal of
        None \<Rightarrow> (sp, None)
      | Some sc \<Rightarrow>
          let evs = fst (sp tenant signal) @ [(now, n)]; l = snd (sp tenant signal); a = alert sc now evs l
          in (sp(tenant := (sp tenant)(signal := (evs, if a = None then l else Some now))), if emitter then a else None))"
| "spec_step cfg emitter (CountOp now tenant signal) sp =
     (sp, Some (if tenant = [] then 0 else case map_of cfg signal of
        None \<Rightarrow> 0 | Some sc \<Rightarrow> total_of (filter (recent sc now) (fst (sp tenant signal)))))"
| "spec_step cfg emitter (EvictOp now) sp = (sp, None)"

fun fraud_run :: "(string \<Rightarrow> string \<Rightarrow> string) \<Rightarrow> fraud_op list \<Rightarrow> Collector \<Rightarrow> int option list" where
  "fraud_run hash [] c = []"
| "fraud_run hash (op # ops) c = snd (fraud_step hash op c) # fraud_run hash ops (fst (fraud_step hash op c))"

fun spec_run :: "(Signal \<times> SignalConfig) list \<Rightarrow> bool \<Rightarrow> fraud_op list \<Rightarrow> fraud_spec \<Rightarrow> int option list" where
  "spec_run cfg emitter [] sp = []"
| "spec_run cfg emitter (op # ops) sp =
     snd (spec_step cfg emitter op sp) # spec_run cfg emitter ops (fst (spec_step cfg emitter op sp))"

definition signal_ok :: "duration \<Rightarrow> SignalConfig \<Rightarrow> bool" where
  "signal_ok idleTTL sc \<longleftrightarrow> 0 < sig_Window sc \<and> 0 < sig_Buckets sc \<and> sig_Buckets sc dvd sig_Window sc \<and> sig_Cooldown sc \<le> idleTTL"

definition state_of :: "Collector \<Rightarrow> string \<Rightarrow> Signal \<Rightarrow> signalState option" where
  "state_of c tenant signal = (case map_of (fc_tenants c) tenant of None \<Rightarrow> None | Some ts \<Rightarrow> map_of ts signal)"

definition tracks :: "SignalConfig \<Rightarrow> time \<Rightarrow> signalState option \<Rightarrow> (time \<times> int) list \<times> time option \<Rightarrow> bool" where
  "tracks sc now so p \<longleftrightarrow>
     (\<forall>e \<in> set (fst p). 0 \<le> fst e \<and> fst e \<le> now \<and> 0 < snd e)
     \<and> (case so of
          None \<Rightarrow> (\<forall>e \<in> set (fst p). \<not> recent sc now e) \<and> cooling sc now (snd p) = None
        | Some st \<Rightarrow> represents (sig_Window sc div sig_Buckets sc) (nat (sig_Buckets sc)) (ss_window st) now (fst p)
            \<and> cooling sc now (ss_lastEmit st) = cooling sc now (snd p)
            \<and> (\<forall>e. ss_lastEmit st = Some e \<longrightarrow> e \<le> ss_lastActive st) \<and> ss_lastActive st \<le> now)"

definition simulates :: "time \<Rightarrow> Collector \<Rightarrow> fraud_spec \<Rightarrow> bool" where
  "simulates now c sp \<longleftrightarrow> distinct (map fst (fc_tenants c))
     \<and> (\<forall>signal sc. map_of (fc_Signals c) signal = Some sc \<longrightarrow> signal_ok (fc_idleTTL c) sc
          \<and> (\<forall>tenant. tracks sc now (state_of c tenant signal) (sp tenant signal)))"

lemma cooling_later:
  assumes "cooling sc now a = cooling sc now b" "now \<le> now'"
  shows "cooling sc now' a = cooling sc now' b"
  using assms by (auto simp: cooling_def split: option.splits if_splits)

lemma tracks_later:
  assumes "tracks sc now so p" "now \<le> now'"
  shows "tracks sc now' so p"
proof -
  have was: "\<forall>e \<in> set (fst p). 0 \<le> fst e \<and> fst e \<le> now \<and> 0 < snd e"
    using assms(1) unfolding tracks_def by (rule conjunct1)
  have ev: "\<forall>e \<in> set (fst p). 0 \<le> fst e \<and> fst e \<le> now' \<and> 0 < snd e"
  proof
    fix e
    assume "e \<in> set (fst p)"
    then show "0 \<le> fst e \<and> fst e \<le> now' \<and> 0 < snd e"
      using was [rule_format, of e] assms(2) by simp
  qed
  show ?thesis
  proof (cases so)
    case None
    then have dead: "\<forall>e \<in> set (fst p). \<not> recent sc now e" "cooling sc now (snd p) = cooling sc now None"
      using assms(1) by (simp_all add: tracks_def cooling_def)
    have "\<forall>e \<in> set (fst p). \<not> recent sc now' e"
      using dead(1) in_window_later [OF _ assms(2)] unfolding recent_def by blast
    moreover have "cooling sc now' (snd p) = None"
      using cooling_later [OF dead(2) assms(2)] by (simp add: cooling_def)
    ultimately show ?thesis
      using ev None by (simp add: tracks_def)
  next
    case (Some st)
    then have st: "represents (sig_Window sc div sig_Buckets sc) (nat (sig_Buckets sc)) (ss_window st) now (fst p)"
        "cooling sc now (ss_lastEmit st) = cooling sc now (snd p)" "\<forall>e. ss_lastEmit st = Some e \<longrightarrow> e \<le> ss_lastActive st"
        "ss_lastActive st \<le> now"
      using assms(1) by (simp_all add: tracks_def)
    show ?thesis
      unfolding tracks_def Some option.case
      by (intro conjI ev represents_later [OF st(1) assms(2)] cooling_later [OF st(2) assms(2)] st(3) order_trans [OF st(4) assms(2)])
  qed
qed

lemma simulates_later:
  assumes "simulates now c sp" "now \<le> now'"
  shows "simulates now' c sp"
  unfolding simulates_def
proof (intro conjI allI impI)
  show "distinct (map fst (fc_tenants c))"
    using assms(1) by (simp add: simulates_def)
  fix signal sc tenant
  assume s: "map_of (fc_Signals c) signal = Some sc"
  show "signal_ok (fc_idleTTL c) sc"
    using assms(1) s unfolding simulates_def by blast
  have "tracks sc now (state_of c tenant signal) (sp tenant signal)"
    using assms(1) s unfolding simulates_def by blast
  then show "tracks sc now' (state_of c tenant signal) (sp tenant signal)"
    by (rule tracks_later [OF _ assms(2)])
qed

lemma simulatesD:
  assumes "simulates now c sp" "map_of (fc_Signals c) signal = Some sc"
  shows "signal_ok (fc_idleTTL c) sc" "tracks sc now (state_of c tenant signal) (sp tenant signal)"
  using assms by (simp_all add: simulates_def)

text \<open>A state changed for one tenant and signal.\<close>

lemma state_of_update:
  "state_of (c\<lparr>fc_tenants := AList.update tenant (AList.update signal st (tenantStateFor tenant c)) (fc_tenants c)\<rparr>) t s
     = (if t = tenant \<and> s = signal then Some st else state_of c t s)"
  by (auto simp: state_of_def tenantStateFor_def split: option.split)

lemma simulates_update:
  assumes "simulates now c sp" "map_of (fc_Signals c) signal = Some sc" "tracks sc now (Some st) p"
  shows "simulates now (c\<lparr>fc_tenants := AList.update tenant (AList.update signal st (tenantStateFor tenant c)) (fc_tenants c)\<rparr>)
    (sp(tenant := (sp tenant)(signal := p)))"
  unfolding simulates_def
proof (intro conjI allI impI)
  let ?c = "c\<lparr>fc_tenants := AList.update tenant (AList.update signal st (tenantStateFor tenant c)) (fc_tenants c)\<rparr>"
  show "distinct (map fst (fc_tenants ?c))"
    using assms(1) by (simp add: simulates_def)
  fix s sc'
  assume s: "map_of (fc_Signals ?c) s = Some sc'"
  then have s': "map_of (fc_Signals c) s = Some sc'"
    by simp
  show "signal_ok (fc_idleTTL ?c) sc'"
    using simulatesD(1) [OF assms(1) s'] by simp
  fix t
  show "tracks sc' now (state_of ?c t s) ((sp(tenant := (sp tenant)(signal := p))) t s)"
    using simulatesD(2) [OF assms(1) s', of t] assms(2,3) s' by (cases "t = tenant"; cases "s = signal") (simp_all add: state_of_update)
qed

lemma tracksD:
  assumes "tracks sc now (Some st) p"
  shows "\<forall>e \<in> set (fst p). 0 \<le> fst e \<and> fst e \<le> now \<and> 0 < snd e"
    "represents (sig_Window sc div sig_Buckets sc) (nat (sig_Buckets sc)) (ss_window st) now (fst p)"
    "cooling sc now (ss_lastEmit st) = cooling sc now (snd p)"
    "ss_lastEmit st = Some e \<Longrightarrow> e \<le> ss_lastActive st" "ss_lastActive st \<le> now"
  using assms by (simp_all add: tracks_def)

lemma tracksI:
  assumes "\<forall>e \<in> set (fst p). 0 \<le> fst e \<and> fst e \<le> now \<and> 0 < snd e"
    "represents (sig_Window sc div sig_Buckets sc) (nat (sig_Buckets sc)) (ss_window st) now (fst p)"
    "cooling sc now (ss_lastEmit st) = cooling sc now (snd p)"
    "\<And>e. ss_lastEmit st = Some e \<Longrightarrow> e \<le> ss_lastActive st" "ss_lastActive st \<le> now"
  shows "tracks sc now (Some st) p"
  using assms by (simp add: tracks_def)

lemma tracks_roll:
  assumes "tracks sc now (Some st) p"
  shows "tracks sc now (Some (st\<lparr>ss_window := roll now (ss_window st)\<rparr>)) p"
  using tracksD [OF assms] represents_roll(1) [OF tracksD(2) [OF assms]] by (intro tracksI) simp_all

text \<open>A signal that has been quiet for the retention time and counts nothing may be forgotten.\<close>

lemma total_zero:
  assumes "total_of es = 0" "\<forall>e \<in> set es. 0 < snd e"
  shows "es = []"
proof -
  have "0 \<le> total_of es" if "\<forall>e \<in> set es. 0 < snd e" for es
    using that by (induction es) auto
  then show ?thesis
    using assms by (cases es) force+
qed

lemma tracks_idle:
  assumes "tracks sc now (Some st) p" "signal_ok ttl sc" "ttl \<le> now - ss_lastActive st" "window_sum now (roll now (ss_window st)) = 0"
  shows "tracks sc now None p"
proof -
  note t = tracksD [OF assms(1)]
  have "total_of (filter (recent sc now) (fst p)) = 0"
    using represents_sum [OF represents_roll(1) [OF t(2)]] assms(4) by (simp add: recent_def [abs_def])
  then have "filter (recent sc now) (fst p) = []"
    by (rule total_zero) (simp add: t(1))
  moreover have "cooling sc now (ss_lastEmit st) = None"
    using t(4) assms(2,3) by (force simp: cooling_def signal_ok_def split: option.split)
  ultimately show ?thesis
    using t(1,3) by (simp add: tracks_def filter_empty_conv)
qed

lemma idle_scan_states:
  "map_of (fst (idle_scan now ttl ts)) s = map_of ts s
   \<or> (\<exists>st. map_of ts s = Some st \<and> map_of (fst (idle_scan now ttl ts)) s = Some (st\<lparr>ss_window := roll now (ss_window st)\<rparr>))"
  by (induction now ttl ts rule: idle_scan.induct) (auto simp: window_empty_def window_count_def Let_def split: prod.splits)

lemma idle_scan_idle:
  "\<lbrakk>snd (idle_scan now ttl ts); map_of ts s = Some st\<rbrakk>
   \<Longrightarrow> ttl \<le> now - ss_lastActive st \<and> window_sum now (roll now (ss_window st)) = 0"
  by (induction now ttl ts rule: idle_scan.induct)
    (auto simp: window_empty_def window_count_def Let_def split: prod.splits if_splits)

lemma map_of_evicted:
  assumes "distinct (map fst l)"
  shows "map_of (map (\<lambda>(t, ts, idle). (t, ts)) (filter (\<lambda>(t, ts, idle). \<not> idle) (map (\<lambda>(t, ts). (t, idle_scan now ttl ts)) l))) tenant
     = (case map_of l tenant of None \<Rightarrow> None
        | Some ts \<Rightarrow> if snd (idle_scan now ttl ts) then None else Some (fst (idle_scan now ttl ts)))"
  using assms
proof (induction l)
  case (Cons x l)
  obtain t ts where x: "x = (t, ts)"
    by (cases x)
  have "map_of l t = None"
    using Cons.prems x by (simp add: map_of_eq_None_iff)
  then show ?case
    using Cons x by (auto split: option.splits prod.splits)
qed simp

lemma evict_state:
  assumes "distinct (map fst (fc_tenants c))"
  shows "state_of (fst (EvictIdle now c)) t s = (case map_of (fc_tenants c) t of None \<Rightarrow> None
        | Some ts \<Rightarrow> if snd (idle_scan now (fc_idleTTL c) ts) then None else map_of (fst (idle_scan now (fc_idleTTL c) ts)) s)"
  using map_of_evicted [OF assms, of now "fc_idleTTL c" t]
  by (auto simp: state_of_def EvictIdle_def Let_def split: option.split)

lemma evict_keys:
  assumes "distinct (map fst (fc_tenants c))"
  shows "distinct (map fst (fc_tenants (fst (EvictIdle now c))))"
proof -
  have "distinct (map fst (map (\<lambda>(t, ts, idle). (t, ts)) (filter P (map (\<lambda>(t, ts). (t, f ts)) l))))"
    if "distinct (map fst l)" for P and f :: "tenantState \<Rightarrow> tenantState \<times> bool" and l :: "(string \<times> tenantState) list"
    using that by (induction l) (auto split: prod.splits simp: image_iff Ball_def Bex_def)
  then show ?thesis
    using assms by (simp add: EvictIdle_def Let_def)
qed

lemma evict_simulates:
  assumes "simulates now c sp"
  shows "simulates now (fst (EvictIdle now c)) sp"
  unfolding simulates_def
proof (intro conjI allI impI)
  have d: "distinct (map fst (fc_tenants c))"
    using assms by (simp add: simulates_def)
  show "distinct (map fst (fc_tenants (fst (EvictIdle now c))))"
    by (rule evict_keys [OF d])
  have same: "fc_Signals (fst (EvictIdle now c)) = fc_Signals c" "fc_idleTTL (fst (EvictIdle now c)) = fc_idleTTL c"
    by (simp_all add: EvictIdle_def Let_def)
  fix signal sc
  assume "map_of (fc_Signals (fst (EvictIdle now c))) signal = Some sc"
  then have s: "map_of (fc_Signals c) signal = Some sc"
    by (simp add: same)
  show ok: "signal_ok (fc_idleTTL (fst (EvictIdle now c))) sc"
    using simulatesD(1) [OF assms s] by (simp add: same)
  fix tenant
  have t: "tracks sc now (state_of c tenant signal) (sp tenant signal)"
    by (rule simulatesD(2) [OF assms s])
  show "tracks sc now (state_of (fst (EvictIdle now c)) tenant signal) (sp tenant signal)"
  proof (cases "map_of (fc_tenants c) tenant")
    case None
    then show ?thesis
      using t evict_state [OF d, of now tenant signal] by (simp add: state_of_def)
  next
    case (Some ts)
    have st: "state_of c tenant signal = map_of ts signal"
      using Some by (simp add: state_of_def)
    show ?thesis
    proof (cases "snd (idle_scan now (fc_idleTTL c) ts)")
      case True
      have "tracks sc now None (sp tenant signal)"
        using t idle_scan_idle [OF True, of signal] tracks_idle [OF _ ok [unfolded same]]
        by (cases "map_of ts signal") (simp_all add: st)
      then show ?thesis
        using Some True evict_state [OF d, of now tenant signal] by simp
    next
      case False
      have "tracks sc now (map_of (fst (idle_scan now (fc_idleTTL c) ts)) signal) (sp tenant signal)"
        using idle_scan_states [of now "fc_idleTTL c" ts signal]
      proof (elim disjE exE conjE)
        fix st'
        assume "map_of ts signal = Some st'" "map_of (fst (idle_scan now (fc_idleTTL c) ts)) signal = Some (st'\<lparr>ss_window := roll now (ss_window st')\<rparr>)"
        then show ?thesis
          using tracks_roll [of sc now st' "sp tenant signal"] t by (simp add: st)
      qed (use t in \<open>simp add: st\<close>)
      then show ?thesis
        using Some False evict_state [OF d, of now tenant signal] by simp
    qed
  qed
qed

text \<open>The state an observation starts from.\<close>

definition state_before :: "SignalConfig \<Rightarrow> signalState option \<Rightarrow> signalState" where
  "state_before sc so = (case so of Some st \<Rightarrow> st
     | None \<Rightarrow> \<lparr>ss_window = newSlidingWindow (sig_Window sc) (sig_Buckets sc), ss_lastEmit = None, ss_lastActive = 0\<rparr>)"

lemma tracks_before:
  assumes "tracks sc now so p" "signal_ok ttl sc" "0 \<le> now"
  shows "tracks sc now (Some (state_before sc so)) p"
proof (cases so)
  case None
  then have t: "\<forall>e \<in> set (fst p). 0 \<le> fst e \<and> fst e \<le> now \<and> 0 < snd e" "\<forall>e \<in> set (fst p). \<not> recent sc now e"
      "cooling sc now (snd p) = None"
    using assms(1) by (simp_all add: tracks_def)
  have "represents (sig_Window sc div sig_Buckets sc) (nat (sig_Buckets sc)) (newSlidingWindow (sig_Window sc) (sig_Buckets sc)) now (fst p)"
    using t(1,2) assms(2) by (intro represents_new) (simp_all add: signal_ok_def recent_def)
  then show ?thesis
    using t None assms(3) by (intro tracksI) (simp_all add: state_before_def cooling_def)
next
  case (Some st)
  then show ?thesis
    using assms(1) by (simp add: state_before_def)
qed

lemma map_of_tenantStateFor: "map_of (tenantStateFor tenant c) signal = state_of c tenant signal"
  by (simp add: tenantStateFor_def state_of_def split: option.split)

text \<open>What an observation does, in the terms of the specification.\<close>

lemma observeN_alert:
  assumes "tenant \<noteq> []" "0 < n" "map_of (fc_Signals c) signal = Some sc" "tracks sc now (Some (state_before sc (state_of c tenant signal))) p"
    "0 \<le> now"
  defines "st0 \<equiv> state_before sc (state_of c tenant signal)" and "a \<equiv> alert sc now (fst p @ [(now, n)]) (snd p)"
  shows "observeN hash now tenant signal n c =
    (c\<lparr>fc_tenants := AList.update tenant (AList.update signal
         (st0\<lparr>ss_lastActive := now, ss_window := fst (window_add now n (ss_window st0)),
              ss_lastEmit := (if a = None then ss_lastEmit st0 else Some now)\<rparr>) (tenantStateFor tenant c)) (fc_tenants c)\<rparr>,
     if fc_emitter c then map_option (\<lambda>k. \<lparr>ae_Signal = signal, ae_TenantHash = hash (fc_secret c) tenant, ae_Count = k,
        ae_Threshold = sig_Threshold sc, ae_Window = sig_Window sc, ae_DetectedAt = now\<rparr>) a else None,
     fc_emitter c \<and> a \<noteq> None)"
proof -
  note t = tracksD [OF assms(4), folded st0_def]
  have count: "snd (window_add now n (ss_window st0)) = total_of (filter (recent sc now) (fst p @ [(now, n)]))"
    using represents_add(2) [OF t(2) assms(5), of n] by (simp add: recent_def [abs_def])
  have cool: "(case ss_lastEmit st0 of None \<Rightarrow> False | Some e \<Rightarrow> sig_Cooldown sc > 0 \<and> now - e < sig_Cooldown sc) = (cooling sc now (snd p) \<noteq> None)"
    using t(3) by (simp only: cooling_def [of sc now "ss_lastEmit st0", symmetric] t(3) [symmetric]) (simp add: cooling_def split: option.split)
  have st: "(case map_of (tenantStateFor tenant c) signal of Some st \<Rightarrow> st
      | None \<Rightarrow> \<lparr>ss_window = newSlidingWindow (sig_Window sc) (sig_Buckets sc), ss_lastEmit = None, ss_lastActive = 0\<rparr>) = st0"
    by (simp add: st0_def state_before_def map_of_tenantStateFor)
  obtain w k where wk: "window_add now n (ss_window st0) = (w, k)"
    by (cases "window_add now n (ss_window st0)")
  have a: "a = (if sig_Threshold sc \<le> 0 \<or> k < sig_Threshold sc \<or> cooling sc now (snd p) \<noteq> None then None else Some k)"
    using count wk by (simp add: a_def alert_def Let_def)
  have guard: "(tenant = [] \<or> n \<le> 0) = False"
    using assms(1,2) by simp
  have sel: "ss_lastEmit (st0\<lparr>ss_lastActive := now, ss_window := w\<rparr>) = ss_lastEmit st0"
    by simp
  show ?thesis
    unfolding observeN_def guard if_False assms(3) option.case st Let_def wk prod.case sel cool
    by (cases "sig_Threshold sc \<le> 0 \<or> k < sig_Threshold sc"; cases "cooling sc now (snd p) = None") (simp_all add: a)
qed

lemma observe_simulates:
  fixes tenant signal n
  assumes "simulates now c sp" "0 \<le> now"
  defines "op \<equiv> ObserveOp now tenant signal n"
  shows "simulates now (fst (fraud_step hash op c)) (fst (spec_step (fc_Signals c) (fc_emitter c) op sp))"
    and "snd (fraud_step hash op c) = snd (spec_step (fc_Signals c) (fc_emitter c) op sp)"
proof -
  let ?g1 = "simulates now (fst (fraud_step hash op c)) (fst (spec_step (fc_Signals c) (fc_emitter c) op sp))"
  let ?g2 = "snd (fraud_step hash op c) = snd (spec_step (fc_Signals c) (fc_emitter c) op sp)"
  have "?g1 \<and> ?g2"
  proof (cases "tenant = [] \<or> n \<le> 0 \<or> map_of (fc_Signals c) signal = None")
    case True
    then show ?thesis
      using assms(1) by (auto simp: op_def observeN_def)
  next
    case False
    then obtain sc where sc: "map_of (fc_Signals c) signal = Some sc" and tn: "tenant \<noteq> []" "0 < n"
      by auto
    define p where "p = sp tenant signal"
    define st0 where "st0 = state_before sc (state_of c tenant signal)"
    define a where "a = alert sc now (fst p @ [(now, n)]) (snd p)"
    define l where "l = (if a = None then snd p else Some now)"
    define st where "st = st0\<lparr>ss_lastActive := now, ss_window := fst (window_add now n (ss_window st0)),
        ss_lastEmit := (if a = None then ss_lastEmit st0 else Some now)\<rparr>"
    have t0: "tracks sc now (Some st0) p"
      unfolding st0_def p_def by (rule tracks_before [OF simulatesD(2) [OF assms(1) sc] simulatesD(1) [OF assms(1) sc] assms(2)])
    note t = tracksD [OF t0]
    have le: "e \<le> now" if "ss_lastEmit st0 = Some e" for e
      using t(4) [OF that] t(5) by simp
    have tr: "tracks sc now (Some st) (fst p @ [(now, n)], l)"
    proof (rule tracksI)
      show "\<forall>e \<in> set (fst (fst p @ [(now, n)], l)). 0 \<le> fst e \<and> fst e \<le> now \<and> 0 < snd e"
        using t(1) assms(2) tn(2) by simp
      show "represents (sig_Window sc div sig_Buckets sc) (nat (sig_Buckets sc)) (ss_window st) now (fst (fst p @ [(now, n)], l))"
        using represents_add(1) [OF t(2) assms(2), of n] by (simp add: st_def)
      show "cooling sc now (ss_lastEmit st) = cooling sc now (snd (fst p @ [(now, n)], l))"
        using t(3) by (simp add: st_def l_def)
      show "e \<le> ss_lastActive st" if "ss_lastEmit st = Some e" for e
        using that le by (cases "a = None") (simp_all add: st_def)
      show "ss_lastActive st \<le> now"
        by (simp add: st_def)
    qed
    note obs = observeN_alert [OF tn sc t0 [unfolded st0_def] assms(2), of hash, folded st0_def a_def, folded st_def]
    have c': "fst (fraud_step hash op c) = c\<lparr>fc_tenants := AList.update tenant (AList.update signal st (tenantStateFor tenant c)) (fc_tenants c)\<rparr>"
      unfolding op_def fraud_step.simps obs by simp
    have r': "snd (fraud_step hash op c) = (if fc_emitter c then a else None)"
      unfolding op_def fraud_step.simps obs by (cases a) simp_all
    have sp': "spec_step (fc_Signals c) (fc_emitter c) op sp
        = (sp(tenant := (sp tenant)(signal := (fst p @ [(now, n)], l))), if fc_emitter c then a else None)"
      using tn sc by (simp add: op_def Let_def p_def a_def l_def)
    show ?thesis
      unfolding c' r' sp' fst_conv snd_conv using simulates_update [OF assms(1) sc tr] by simp
  qed
  then show ?g1 ?g2
    by simp_all
qed

lemma count_simulates:
  fixes tenant signal
  assumes "simulates now c sp"
  defines "op \<equiv> CountOp now tenant signal"
  shows "simulates now (fst (fraud_step hash op c)) (fst (spec_step (fc_Signals c) (fc_emitter c) op sp))"
    and "snd (fraud_step hash op c) = snd (spec_step (fc_Signals c) (fc_emitter c) op sp)"
proof -
  let ?g1 = "simulates now (fst (fraud_step hash op c)) (fst (spec_step (fc_Signals c) (fc_emitter c) op sp))"
  let ?g2 = "snd (fraud_step hash op c) = snd (spec_step (fc_Signals c) (fc_emitter c) op sp)"
  have "?g1 \<and> ?g2"
  proof (cases "tenant = [] \<or> map_of (fc_Signals c) signal = None")
    case True
    then show ?thesis
      using assms(1) by (auto simp: op_def Count_def)
  next
    case False
    then obtain sc where sc: "map_of (fc_Signals c) signal = Some sc" and tn: "tenant \<noteq> []"
      by auto
    note tr = simulatesD(2) [OF assms(1) sc, of tenant]
    have spec: "spec_step (fc_Signals c) (fc_emitter c) op sp = (sp, Some (total_of (filter (recent sc now) (fst (sp tenant signal)))))"
      using tn sc by (simp add: op_def)
    show ?thesis
    proof (cases "state_of c tenant signal")
      case None
      then have "Count now tenant signal c = (c, 0)"
        by (auto simp: Count_def state_of_def split: option.splits)
      moreover have "filter (recent sc now) (fst (sp tenant signal)) = []"
        using tr None by (simp add: tracks_def filter_empty_conv)
      ultimately show ?thesis
        using assms(1) unfolding spec by (simp add: op_def)
    next
      case (Some st)
      then obtain ts where ts: "map_of (fc_tenants c) tenant = Some ts" "map_of ts signal = Some st"
        by (auto simp: state_of_def split: option.splits)
      then have tsf: "tenantStateFor tenant c = ts"
        by (simp add: tenantStateFor_def)
      let ?w = "roll now (ss_window st)"
      have "Count now tenant signal c = (c\<lparr>fc_tenants := AList.update tenant (AList.update signal (st\<lparr>ss_window := ?w\<rparr>)
          (tenantStateFor tenant c)) (fc_tenants c)\<rparr>, window_sum now ?w)"
        using tn sc ts by (simp add: Count_def window_count_def Let_def tsf)
      moreover have "window_sum now ?w = total_of (filter (recent sc now) (fst (sp tenant signal)))"
        using represents_sum [OF represents_roll(1) [OF tracksD(2) [OF tr [unfolded Some]]]] by (simp add: recent_def [abs_def])
      moreover have "sp(tenant := (sp tenant)(signal := sp tenant signal)) = sp"
        by simp
      ultimately show ?thesis
        using simulates_update [OF assms(1) sc tracks_roll [OF tr [unfolded Some]], of tenant] unfolding spec by (simp add: op_def)
    qed
  qed
  then show ?g1 ?g2
    by simp_all
qed

lemma fraud_step_simulates:
  assumes "simulates now c sp" "now \<le> fraud_op_time op" "0 \<le> fraud_op_time op"
  shows "simulates (fraud_op_time op) (fst (fraud_step hash op c)) (fst (spec_step (fc_Signals c) (fc_emitter c) op sp))"
    and "snd (fraud_step hash op c) = snd (spec_step (fc_Signals c) (fc_emitter c) op sp)"
proof -
  have s: "simulates (fraud_op_time op) c sp"
    by (rule simulates_later [OF assms(1,2)])
  show "simulates (fraud_op_time op) (fst (fraud_step hash op c)) (fst (spec_step (fc_Signals c) (fc_emitter c) op sp))"
  proof (cases op)
    case (ObserveOp t te si n)
    show ?thesis
      using s assms(3) unfolding ObserveOp fraud_op_time.simps by (rule observe_simulates(1))
  next
    case (CountOp t te si)
    show ?thesis
      using s unfolding CountOp fraud_op_time.simps by (rule count_simulates(1))
  next
    case (EvictOp t)
    then show ?thesis
      using s evict_simulates by simp
  qed
  show "snd (fraud_step hash op c) = snd (spec_step (fc_Signals c) (fc_emitter c) op sp)"
  proof (cases op)
    case (ObserveOp t te si n)
    show ?thesis
      using s assms(3) unfolding ObserveOp fraud_op_time.simps by (rule observe_simulates(2))
  next
    case (CountOp t te si)
    show ?thesis
      using s unfolding CountOp fraud_op_time.simps by (rule count_simulates(2))
  qed simp
qed

lemma fraud_step_config:
  "fc_Signals (fst (fraud_step hash op c)) = fc_Signals c" "fc_emitter (fst (fraud_step hash op c)) = fc_emitter c"
  by (cases op; simp add: observeN_def Count_def EvictIdle_def Let_def split: prod.split option.split)+

lemma fraud_run_spec:
  "\<lbrakk>simulates now c sp; sorted (now # map fraud_op_time ops); \<forall>op \<in> set ops. 0 \<le> fraud_op_time op\<rbrakk>
   \<Longrightarrow> fraud_run hash ops c = spec_run (fc_Signals c) (fc_emitter c) ops sp"
proof (induction ops arbitrary: now c sp)
  case (Cons op ops)
  have t: "now \<le> fraud_op_time op" "0 \<le> fraud_op_time op"
    using Cons.prems(2,3) by simp_all
  note step = fraud_step_simulates [OF Cons.prems(1) t, of hash]
  have "fraud_run hash ops (fst (fraud_step hash op c))
      = spec_run (fc_Signals c) (fc_emitter c) ops (fst (spec_step (fc_Signals c) (fc_emitter c) op sp))"
    using Cons.IH [OF step(1)] Cons.prems(2,3) by (simp add: fraud_step_config)
  then show ?case
    using step(2) by simp
qed simp

text \<open>
  C11: whatever the sequence of observations, counts and evictions, a collector whose windows divide into their
  buckets and whose cooldowns fit in the retention time raises exactly the alerts, and returns exactly the counts,
  of the specification that keeps every observation and every alert for ever: the ring of buckets never loses or
  doubles an event, and eviction of idle tenants is invisible.
\<close>

theorem fraud_alerts_exact:
  assumes "\<forall>(signal, sc) \<in> set (fc_Signals (NewCollector signals secret idleTTL emitter)).
      signal_ok (fc_idleTTL (NewCollector signals secret idleTTL emitter)) sc"
    and "sorted (map fraud_op_time ops)" "\<forall>op \<in> set ops. 0 \<le> fraud_op_time op"
  shows "fraud_run hash ops (NewCollector signals secret idleTTL emitter)
    = spec_run (fc_Signals (NewCollector signals secret idleTTL emitter)) emitter ops (\<lambda>_ _. ([], None))"
proof -
  let ?c = "NewCollector signals secret idleTTL emitter"
  have c: "fc_tenants ?c = []" "fc_emitter ?c = emitter"
    by (simp_all add: NewCollector_def Let_def)
  have "simulates 0 ?c (\<lambda>_ _. ([], None))"
    using assms(1) c(1) by (auto simp: simulates_def state_of_def tracks_def cooling_def dest: map_of_SomeD)
  then show ?thesis
    using fraud_run_spec [of 0 ?c "\<lambda>_ _. ([], None)" ops hash] assms(2,3) c(2) by simp
qed

theorem fraud_alerts_exact_witness:
  "fraud_run (\<lambda>_ t. t)
     [ObserveOp 0 ''t'' SignalPlanChurnRate 5, ObserveOp Minute ''t'' SignalPlanChurnRate 1, ObserveOp (2 * Minute) ''t'' SignalPlanChurnRate 1,
      EvictOp (2 * Hour), CountOp (2 * Hour) ''t'' SignalPlanChurnRate] (NewCollector None [] 0 True)
   = [None, Some 6, None, None, Some 0]"
proof -
  let ?ops = "[ObserveOp 0 ''t'' SignalPlanChurnRate 5, ObserveOp Minute ''t'' SignalPlanChurnRate 1,
      ObserveOp (2 * Minute) ''t'' SignalPlanChurnRate 1, EvictOp (2 * Hour), CountOp (2 * Hour) ''t'' SignalPlanChurnRate]"
  let ?c = "NewCollector None [] 0 True"
  have cfg: "fc_Signals ?c = DefaultFraudConfig" "fc_idleTTL ?c = Hour"
    by (simp_all add: NewCollector_def DefaultFraudConfig_def Second_def Minute_def Hour_def)
  have "fraud_run (\<lambda>_ t. t) ?ops ?c = spec_run DefaultFraudConfig True ?ops (\<lambda>_ _. ([], None))"
    unfolding cfg(1) [symmetric]
    by (rule fraud_alerts_exact) (simp_all add: cfg DefaultFraudConfig_def signal_ok_def Second_def Minute_def Hour_def)
  also have "\<dots> = [None, Some 6, None, None, Some 0]"
    by (simp add: DefaultFraudConfig_def alert_def cooling_def recent_def [abs_def] in_window_def start_of_def Second_def Minute_def Hour_def)
  finally show ?thesis .
qed

end
