(* ===== verification/Outbox_Worker.thy ===== *)
theory Outbox_Worker
  imports Outbox_Repo
begin

text \<open>
  The polling outbox worker (\<^verbatim>\<open>internal/worker/outbox_worker.go\<close>) on the table of \<^verbatim>\<open>Outbox_Repo\<close>: the claim
  transaction with \<^verbatim>\<open>FOR UPDATE SKIP LOCKED\<close>, the processing of a claimed event and its failure handling, and any number
  of workers as a step relation.  The clock and the outcome of a publication are inputs.
\<close>

section \<open>Worker and events\<close>

record OutboxEvent =
  oe_ID :: uuid
  oe_EventType :: string
  oe_EventData :: string
  oe_AggregateID :: "string option"
  oe_AggregateType :: "string option"
  oe_OccurredAt :: time
  oe_Status :: Status
  oe_RetryCount :: int
  oe_MaxRetries :: int
  oe_NextRetryAt :: "time option"
  oe_ErrorMessage :: "string option"
  oe_CreatedAt :: time
  oe_UpdatedAt :: time
  oe_Version :: int

definition scanOutboxEvent :: "Event \<Rightarrow> OutboxEvent" where
  "scanOutboxEvent r = \<lparr>oe_ID = ev_ID r, oe_EventType = ev_EventType r, oe_EventData = ev_EventData r,
     oe_AggregateID = ev_AggregateID r, oe_AggregateType = ev_AggregateType r, oe_OccurredAt = ev_OccurredAt r,
     oe_Status = ev_Status r, oe_RetryCount = ev_RetryCount r, oe_MaxRetries = ev_MaxRetries r,
     oe_NextRetryAt = ev_NextRetryAt r, oe_ErrorMessage = ev_ErrorMessage r, oe_CreatedAt = ev_CreatedAt r,
     oe_UpdatedAt = ev_UpdatedAt r, oe_Version = ev_Version r\<rparr>"

record OutboxWorkerConfig =
  ow_PollInterval :: duration
  ow_BatchSize :: int
  ow_MaxRetries :: int
  ow_RetryBackoffBase :: duration
  ow_ShutdownTimeout :: duration
  ow_ProcessingTimeout :: duration

definition DefaultOutboxWorkerConfig :: OutboxWorkerConfig where
  "DefaultOutboxWorkerConfig = \<lparr>ow_PollInterval = 5 * Second, ow_BatchSize = 10, ow_MaxRetries = 3,
     ow_RetryBackoffBase = Second, ow_ShutdownTimeout = 30 * Second, ow_ProcessingTimeout = 30 * Second\<rparr>"

text \<open>\<open>ow_cancel\<close> tells whether \<^verbatim>\<open>Start\<close> has set the cancel function.\<close>

record OutboxWorker =
  ow_config :: OutboxWorkerConfig
  ow_cancel :: bool
  ow_running :: bool
  ow_processed :: int
  ow_succeeded :: int
  ow_failed :: int
  ow_deadLettered :: int
  ow_lastPollTime :: "time option"
  ow_consecutiveErrs :: int

definition NewOutboxWorker :: "OutboxWorkerConfig \<Rightarrow> OutboxWorker" where
  "NewOutboxWorker config = \<lparr>ow_config = config, ow_cancel = False, ow_running = False, ow_processed = 0, ow_succeeded = 0,
     ow_failed = 0, ow_deadLettered = 0, ow_lastPollTime = None, ow_consecutiveErrs = 0\<rparr>"

definition worker_Start :: "OutboxWorker \<Rightarrow> OutboxWorker" where
  "worker_Start w = w\<lparr>ow_cancel := True, ow_running := True\<rparr>"

text \<open>The first argument tells whether the poll loop ended within the shutdown timeout.\<close>

definition worker_Stop :: "bool \<Rightarrow> OutboxWorker \<Rightarrow> OutboxWorker \<times> string option" where
  "worker_Stop drained w =
     (if \<not> ow_cancel w then (w, None)
      else if drained then (w\<lparr>ow_running := False\<rparr>, None)
      else (w\<lparr>ow_running := False\<rparr>, Some ''outbox worker shutdown timed out''))"

definition worker_Health :: "OutboxWorker \<Rightarrow> string option" where
  "worker_Health w =
     (if \<not> ow_running w then Some ''outbox worker is not running''
      else if ow_consecutiveErrs w > 5 then Some ''outbox worker has consecutive poll errors''
      else None)"

section \<open>Claiming a batch\<close>

text \<open>
  The claim transaction up to the rows it locks: \<open>skip\<close> says which rows other transactions have locked.
\<close>

definition claim_select :: "OutboxWorkerConfig \<Rightarrow> time \<Rightarrow> (uuid \<Rightarrow> bool) \<Rightarrow> outbox_db \<Rightarrow> outbox_db \<times> (string, OutboxEvent list) result" where
  "claim_select cfg now skip db =
     (case ob_stmt ''begin tx: '' (\<lambda>db. (db, Inr ())) db of
        (db1, Inl e) \<Rightarrow> (db1, Inl e)
      | (db1, Inr _) \<Rightarrow>
          (case ob_stmt ''query pending: '' (ob_select (ow_BatchSize cfg)
                 (\<lambda>db. sort_slice (\<lambda>a b. ev_OccurredAt a < ev_OccurredAt b)
                    (filter (\<lambda>e. deliverable now e \<and> \<not> skip (ev_ID e)) (ob_events db)))) db1 of
             (db2, Inl e) \<Rightarrow> (db2, Inl e)
           | (db2, Inr rows) \<Rightarrow> (db2, Inr (map scanOutboxEvent rows))))"

fun mark_processing :: "time \<Rightarrow> OutboxEvent list \<Rightarrow> outbox_db \<Rightarrow> outbox_db \<times> (string, unit) result" where
  "mark_processing now [] db = (db, Inr ())"
| "mark_processing now (e # es) db =
     (case ob_stmt (''mark processing '' @ uuid_String (oe_ID e) @ '': '')
             (ob_update now (\<lambda>r. ev_ID r = oe_ID e) (\<lambda>r. r\<lparr>ev_Status := StatusProcessing\<rparr>)) db of
        (db1, Inl err) \<Rightarrow> (db1, Inl err)
      | (db1, Inr _) \<Rightarrow> mark_processing now es db1)"

definition claim_commit :: "time \<Rightarrow> OutboxEvent list \<Rightarrow> outbox_db \<Rightarrow> outbox_db \<times> (string, unit) result" where
  "claim_commit now es db =
     (case mark_processing now es db of
        (db1, Inl e) \<Rightarrow> (rollback_to db db1, Inl e)
      | (db1, Inr _) \<Rightarrow>
          (case ob_stmt ''commit claim: '' (\<lambda>db. (db, Inr ())) db1 of
             (db2, Inl e) \<Rightarrow> (rollback_to db db2, Inl e)
           | (db2, Inr _) \<Rightarrow> (db2, Inr ())))"

definition claimBatch :: "OutboxWorkerConfig \<Rightarrow> time \<Rightarrow> (uuid \<Rightarrow> bool) \<Rightarrow> outbox_db \<Rightarrow> outbox_db \<times> (string, OutboxEvent list) result" where
  "claimBatch cfg now skip db =
     (case claim_select cfg now skip db of
        (db1, Inl e) \<Rightarrow> (db1, Inl e)
      | (db1, Inr events) \<Rightarrow>
          if events = [] then (db1, Inr [])
          else (case claim_commit now events db1 of
                  (db2, Inl e) \<Rightarrow> (db2, Inl e)
                | (db2, Inr _) \<Rightarrow> (db2, Inr events)))"

section \<open>Processing an event\<close>

definition worker_backoff :: "OutboxWorkerConfig \<Rightarrow> int \<Rightarrow> duration" where
  "worker_backoff cfg n = ow_RetryBackoffBase cfg * (if n - 1 < 0 then 0 else 2 ^ nat (n - 1))"

definition handleFailure :: "time \<Rightarrow> OutboxEvent \<Rightarrow> string \<Rightarrow> OutboxWorker \<Rightarrow> outbox_db \<Rightarrow> OutboxWorker \<times> outbox_db" where
  "handleFailure now event errMsg w db =
     (let newRetryCount = oe_RetryCount event + 1
      in if newRetryCount \<ge> oe_MaxRetries event \<or> newRetryCount \<ge> ow_MaxRetries (ow_config w)
         then (w\<lparr>ow_deadLettered := ow_deadLettered w + 1\<rparr>,
               fst (ob_stmt [] (ob_update now (\<lambda>r. ev_ID r = oe_ID event)
                 (\<lambda>r. r\<lparr>ev_Status := StatusFailed, ev_RetryCount := newRetryCount, ev_ErrorMessage := Some errMsg\<rparr>)) db))
         else
           let nextRetry = now + worker_backoff (ow_config w) newRetryCount
           in (w\<lparr>ow_failed := ow_failed w + 1\<rparr>,
               fst (ob_stmt [] (ob_update now (\<lambda>r. ev_ID r = oe_ID event)
                 (\<lambda>r. r\<lparr>ev_Status := StatusFailed, ev_RetryCount := newRetryCount, ev_NextRetryAt := Some nextRetry,
                        ev_ErrorMessage := Some errMsg\<rparr>)) db)))"

definition markCompleted :: "time \<Rightarrow> OutboxEvent \<Rightarrow> OutboxWorker \<Rightarrow> outbox_db \<Rightarrow> OutboxWorker \<times> outbox_db" where
  "markCompleted now event w db =
     (case ob_stmt [] (ob_update now (\<lambda>r. ev_ID r = oe_ID event) (\<lambda>r. r\<lparr>ev_Status := StatusCompleted\<rparr>)) db of
        (db1, Inl _) \<Rightarrow> (w, db1)
      | (db1, Inr _) \<Rightarrow> (w\<lparr>ow_succeeded := ow_succeeded w + 1\<rparr>, db1))"

text \<open>The outcome of a publication is \<^verbatim>\<open>None\<close>, or the error's message.\<close>

definition worker_processEvent :: "time \<Rightarrow> OutboxEvent \<Rightarrow> string option \<Rightarrow> OutboxWorker \<Rightarrow> outbox_db \<Rightarrow> OutboxWorker \<times> outbox_db" where
  "worker_processEvent now event outcome w db =
     (let w1 = w\<lparr>ow_processed := ow_processed w + 1\<rparr>
      in case outcome of
           Some msg \<Rightarrow> handleFailure now event msg w1 db
         | None \<Rightarrow> markCompleted now event w1 db)"

text \<open>
  The loop of \<^verbatim>\<open>poll\<close>: \<open>pub\<close> gives, for each event, the clock and the outcome of its publication, or \<^verbatim>\<open>None\<close> when the
  worker has been stopped before it.  The third result lists the events handed to the publisher.
\<close>

fun process_batch :: "(OutboxEvent \<Rightarrow> (time \<times> string option) option) \<Rightarrow> OutboxEvent list \<Rightarrow> OutboxWorker \<Rightarrow> outbox_db
    \<Rightarrow> OutboxWorker \<times> outbox_db \<times> uuid list" where
  "process_batch pub [] w db = (w, db, [])"
| "process_batch pub (e # es) w db =
     (case pub e of
        None \<Rightarrow> (w, db, [])
      | Some (now, outcome) \<Rightarrow>
          (case worker_processEvent now e outcome w db of
             (w1, db1) \<Rightarrow> (case process_batch pub es w1 db1 of (w2, db2, sent) \<Rightarrow> (w2, db2, oe_ID e # sent))))"

text \<open>The metrics query of every poll reads the backlog; only its fault is visible here.\<close>

definition refreshBacklogMetrics :: "time \<Rightarrow> outbox_db \<Rightarrow> outbox_db \<times> (string, (string \<times> nat) list) result" where
  "refreshBacklogMetrics now db = ob_stmt []
     (\<lambda>db. let due = map ev_TenantID (filter (deliverable now) (ob_events db))
            in (db, Inr (map (\<lambda>t. (t, count_list due t)) (remdups due)))) db"

definition poll :: "time \<Rightarrow> (uuid \<Rightarrow> bool) \<Rightarrow> (OutboxEvent \<Rightarrow> (time \<times> string option) option) \<Rightarrow> OutboxWorker \<Rightarrow> outbox_db
    \<Rightarrow> OutboxWorker \<times> outbox_db \<times> uuid list" where
  "poll now skip pub w db =
     (let w1 = w\<lparr>ow_lastPollTime := Some now\<rparr>; db1 = fst (refreshBacklogMetrics now db)
      in case claimBatch (ow_config w) now skip db1 of
           (db2, Inl _) \<Rightarrow> (w1\<lparr>ow_consecutiveErrs := ow_consecutiveErrs w1 + 1\<rparr>, db2, [])
         | (db2, Inr events) \<Rightarrow>
             if events = [] then (w1, db2, [])
             else process_batch pub events (w1\<lparr>ow_consecutiveErrs := 0\<rparr>) db2)"

section \<open>Any number of workers\<close>

text \<open>
  \<open>wd_locked\<close> holds the rows an open claim transaction has selected and locked, \<open>wd_hand\<close> the events a worker has claimed
  and not yet processed, \<open>wd_sent\<close> what was handed to the publisher.
\<close>

record ow_world =
  wd_db :: outbox_db
  wd_locked :: "nat \<Rightarrow> OutboxEvent list"
  wd_hand :: "nat \<Rightarrow> OutboxEvent list"
  wd_sent :: "(nat \<times> uuid) list"

definition row_locked :: "ow_world \<Rightarrow> uuid \<Rightarrow> bool" where
  "row_locked st i \<longleftrightarrow> (\<exists>w. i \<in> oe_ID ` set (wd_locked st w))"

inductive ow_step :: "ow_world \<Rightarrow> ow_world \<Rightarrow> bool" where
  claim_begin: "\<lbrakk>wd_locked st w = []; wd_hand st w = []; claim_select cfg now (row_locked st) (wd_db st) = (db', r)\<rbrakk>
    \<Longrightarrow> ow_step st (st\<lparr>wd_db := db', wd_locked := (wd_locked st)(w := case r of Inl _ \<Rightarrow> [] | Inr es \<Rightarrow> es)\<rparr>)"
| claim_end: "\<lbrakk>wd_locked st w \<noteq> []; claim_commit now (wd_locked st w) (wd_db st) = (db', r)\<rbrakk>
    \<Longrightarrow> ow_step st (st\<lparr>wd_db := db', wd_locked := (wd_locked st)(w := []),
          wd_hand := (wd_hand st)(w := case r of Inl _ \<Rightarrow> [] | Inr _ \<Rightarrow> wd_locked st w)\<rparr>)"
| process: "\<lbrakk>wd_hand st w = e # es; worker_processEvent now e outcome worker (wd_db st) = (worker', db')\<rbrakk>
    \<Longrightarrow> ow_step st (st\<lparr>wd_db := db', wd_hand := (wd_hand st)(w := es), wd_sent := wd_sent st @ [(w, oe_ID e)]\<rparr>)"
| stop_or_crash: "ow_step st (st\<lparr>wd_locked := (wd_locked st)(w := []), wd_hand := (wd_hand st)(w := [])\<rparr>)"
| request_store: "ow_step st (st\<lparr>wd_db := fst (Store e (wd_db st))\<rparr>)"
| requeue: "\<not> row_locked st i \<Longrightarrow> ow_step st (st\<lparr>wd_db := fst (RequeueEvent now i (wd_db st))\<rparr>)"
| cleanup: "ow_step st (st\<lparr>wd_db := fst (DeleteCompletedEvents t (wd_db st))\<rparr>)"

inductive ow_reachable :: "outbox_db \<Rightarrow> ow_world \<Rightarrow> bool" for db where
  start: "ow_reachable db \<lparr>wd_db = db, wd_locked = (\<lambda>_. []), wd_hand = (\<lambda>_. []), wd_sent = []\<rparr>"
| step: "\<lbrakk>ow_reachable db st; ow_step st st'\<rbrakk> \<Longrightarrow> ow_reachable db st'"

section \<open>The statuses of the rows\<close>

definition statuses :: "outbox_db \<Rightarrow> uuid \<Rightarrow> Status option" where
  "statuses db = map_of (map (\<lambda>e. (ev_ID e, ev_Status e)) (ob_events db))"

lemma statuses_same: "same_tables db db' \<Longrightarrow> statuses db' = statuses db"
  by (simp add: statuses_def same_tables_def)

lemma statuses_row: "\<lbrakk>ob_inv db; r \<in> set (ob_events db)\<rbrakk> \<Longrightarrow> statuses db (ev_ID r) = Some (ev_Status r)"
  by (auto simp: statuses_def ob_inv_def comp_def intro!: map_of_is_SomeI)

text \<open>An update of one row by its identifier.\<close>

lemma update_row:
  assumes "\<And>r. ev_ID (upd r) = ev_ID r" "\<And>r. ev_Status (upd r) = s"
    and "ob_stmt msg (ob_update now (\<lambda>r. ev_ID r = i) upd) db = (db', res)"
  shows "map ev_ID (ob_events db') = map ev_ID (ob_events db)"
    "statuses db' = statuses db \<or> statuses db' = (statuses db)(i := map_option (\<lambda>_. s) (statuses db i))"
    "is_ok res \<Longrightarrow> statuses db' = (statuses db)(i := map_option (\<lambda>_. s) (statuses db i))"
proof -
  let ?f = "\<lambda>r. if ev_ID r = i then (upd r)\<lparr>ev_UpdatedAt := now\<rparr> else r"
  have ids: "map ev_ID (map ?f rows) = map ev_ID rows" for rows
    using assms(1) by (induction rows) auto
  have st: "map_of (map (\<lambda>e. (ev_ID e, ev_Status e)) (map ?f rows)) = (m)(i := map_option (\<lambda>_. s) (m i))"
    if "m = map_of (map (\<lambda>e. (ev_ID e, ev_Status e)) rows)" for m rows
    unfolding that using assms(1,2) by (induction rows) (auto simp: fun_eq_iff)
  show "map ev_ID (ob_events db') = map ev_ID (ob_events db)"
    using assms(3) by (rule ob_stmt_cases) (use ids in \<open>auto simp: ob_update_def same_tables_def\<close>)
  show "statuses db' = statuses db \<or> statuses db' = (statuses db)(i := map_option (\<lambda>_. s) (statuses db i))"
    using assms(3) by (rule ob_stmt_cases) (use st [OF refl] in \<open>auto simp: statuses_def ob_update_def same_tables_def\<close>)
  show "is_ok res \<Longrightarrow> statuses db' = (statuses db)(i := map_option (\<lambda>_. s) (statuses db i))"
    using assms(3) by (rule ob_stmt_cases) (use st [OF refl] in \<open>auto simp: statuses_def ob_update_def same_tables_def\<close>)
qed

lemma ob_inv_ids: "map ev_ID (ob_events db') = map ev_ID (ob_events db) \<Longrightarrow> ob_inv db' = ob_inv db"
  by (simp add: ob_inv_def)

lemma mark_processing_statuses:
  "mark_processing now es db = (db', r) \<Longrightarrow> map ev_ID (ob_events db') = map ev_ID (ob_events db)
     \<and> (is_ok r \<longrightarrow> statuses db' = (\<lambda>i. if i \<in> oe_ID ` set es then map_option (\<lambda>_. StatusProcessing) (statuses db i) else statuses db i))"
proof (induction es arbitrary: db)
  case (Cons e es)
  obtain db1 r1 where u: "ob_stmt (''mark processing '' @ uuid_String (oe_ID e) @ '': '')
      (ob_update now (\<lambda>r. ev_ID r = oe_ID e) (\<lambda>r. r\<lparr>ev_Status := StatusProcessing\<rparr>)) db = (db1, r1)"
    by (rule prod.exhaust)
  note row = update_row [OF _ _ u, of StatusProcessing, simplified]
  show ?case
  proof (cases r1)
    case (Inl err)
    then show ?thesis
      using Cons.prems u row(1) by auto
  next
    case (Inr n)
    then have rest: "mark_processing now es db1 = (db', r)"
      using Cons.prems u by simp
    have s1: "statuses db1 = (statuses db)(oe_ID e := map_option (\<lambda>_. StatusProcessing) (statuses db (oe_ID e)))"
      using row(3) Inr by simp
    show ?thesis
      using Cons.IH [OF rest] row(1) s1 by (auto simp: fun_eq_iff option.map_comp comp_def)
  qed
qed (simp add: fun_eq_iff)

lemma claim_commit_statuses:
  assumes "claim_commit now es db = (db', r)"
  shows "map ev_ID (ob_events db') = map ev_ID (ob_events db)"
    "\<not> is_ok r \<Longrightarrow> statuses db' = statuses db"
    "is_ok r \<Longrightarrow> statuses db' = (\<lambda>i. if i \<in> oe_ID ` set es then map_option (\<lambda>_. StatusProcessing) (statuses db i) else statuses db i)"
proof -
  obtain db1 r1 where m: "mark_processing now es db = (db1, r1)"
    by (rule prod.exhaust)
  obtain db2 r2 where c: "ob_stmt ''commit claim: '' (\<lambda>db. (db, Inr ())) db1 = (db2, r2)"
    by (rule prod.exhaust)
  have st: "same_tables db1 db2"
    using ob_stmt_read [OF c] by (rule conjunct1)
  have roll: "statuses (rollback_to db d) = statuses db" "ob_events (rollback_to db d) = ob_events db" for d
    by (simp_all add: statuses_def rollback_to_def)
  note spec = mark_processing_statuses [OF m] statuses_same [OF st] same_tablesD(1) [OF st]
  have res: "(db', r) = (if is_ok r1 \<and> is_ok r2 then (db2, Inr ()) else (rollback_to db (if is_ok r1 then db2 else db1), r)) \<and> (is_ok r \<longleftrightarrow> is_ok r1 \<and> is_ok r2)"
    using assms unfolding claim_commit_def m prod.case by (cases r1; cases r2) (auto simp: c)
  then show "map ev_ID (ob_events db') = map ev_ID (ob_events db)"
      "\<not> is_ok r \<Longrightarrow> statuses db' = statuses db"
      "is_ok r \<Longrightarrow> statuses db' = (\<lambda>i. if i \<in> oe_ID ` set es then map_option (\<lambda>_. StatusProcessing) (statuses db i) else statuses db i)"
    using spec roll by (auto split: if_splits)
qed

lemma distinct_ids_sublist:
  assumes "distinct (map ev_ID rows)"
  shows "distinct (map ev_ID (take n (sort_slice before (filter P rows))))"
proof -
  have "mset (map ev_ID (sort_slice before (filter P rows))) = mset (map ev_ID (filter P rows))"
    by simp
  then have "distinct (map ev_ID (sort_slice before (filter P rows)))"
    using distinct_map_filter [OF assms, of P] mset_eq_imp_distinct_iff by blast
  then show ?thesis
    by (simp add: take_map [symmetric])
qed

lemma claim_select_rows:
  assumes "claim_select cfg now skip db = (db', r)"
  shows "same_tables db db'"
    "\<lbrakk>r = Inr es; ob_inv db\<rbrakk> \<Longrightarrow> distinct (map oe_ID es)"
    "\<lbrakk>r = Inr es; ob_inv db; i \<in> oe_ID ` set es\<rbrakk> \<Longrightarrow> \<not> skip i \<and> statuses db i \<in> {Some StatusPending, Some StatusFailed}"
proof -
  let ?q = "\<lambda>db. sort_slice (\<lambda>a b. ev_OccurredAt a < ev_OccurredAt b) (filter (\<lambda>e. deliverable now e \<and> \<not> skip (ev_ID e)) (ob_events db))"
  obtain db1 r1 where b: "ob_stmt ''begin tx: '' (\<lambda>db. (db, Inr ())) db = (db1, r1)"
    by (rule prod.exhaust)
  obtain db2 r2 where s: "ob_stmt ''query pending: '' (ob_select (ow_BatchSize cfg) ?q) db1 = (db2, r2)"
    by (rule prod.exhaust)
  have st1: "same_tables db db1"
    using ob_stmt_read [OF b] by (rule conjunct1)
  have "same_tables db1 db2 \<and> ((\<exists>e. r2 = Inl e) \<or> r2 = Inr (take (nat (ow_BatchSize cfg)) (?q db1)))"
    using s by (rule ob_stmt_cases) (auto simp: ob_select_def same_tables_def split: if_splits)
  then have st2: "same_tables db db2" and r2: "(\<exists>e. r2 = Inl e) \<or> r2 = Inr (take (nat (ow_BatchSize cfg)) (?q db))"
    using st1 by (auto simp: same_tables_def)
  have res: "(db' = db1 \<or> db' = db2) \<and> (r = Inr es \<longrightarrow> es = map scanOutboxEvent (take (nat (ow_BatchSize cfg)) (?q db)))" for es
    using assms r2 unfolding claim_select_def b prod.case s by (cases r1; cases r2) auto
  show "same_tables db db'"
    using res st1 st2 by auto
  have es: "map oe_ID es = map ev_ID (take (nat (ow_BatchSize cfg)) (?q db))" if "r = Inr es"
    using res [of es] that by (simp add: scanOutboxEvent_def)
  show "distinct (map oe_ID es)" if "r = Inr es" "ob_inv db"
    unfolding es [OF that(1)] using distinct_ids_sublist that(2) by (simp add: ob_inv_def)
  show "\<not> skip i \<and> statuses db i \<in> {Some StatusPending, Some StatusFailed}" if h: "r = Inr es" "ob_inv db" "i \<in> oe_ID ` set es"
  proof -
    have "i \<in> set (map oe_ID es)"
      using h(3) by simp
    then obtain row where row: "row \<in> set (take (nat (ow_BatchSize cfg)) (?q db))" "i = ev_ID row"
      unfolding es [OF h(1)] set_map by (rule imageE)
    have "row \<in> set (?q db)"
      by (rule in_set_takeD [OF row(1)])
    then have "row \<in> set (ob_events db)" "deliverable now row" "\<not> skip i"
      using row(2) by simp_all
    then show ?thesis
      using statuses_row [OF h(2), of row] row(2) by (auto simp: deliverable_def)
  qed
qed

lemma processEvent_statuses:
  assumes "worker_processEvent now e outcome w db = (w', db')"
  shows "map ev_ID (ob_events db') = map ev_ID (ob_events db)" "i \<noteq> oe_ID e \<Longrightarrow> statuses db' i = statuses db i"
proof -
  have "\<exists>upd s msg db1 r. (\<forall>x. ev_ID (upd x) = ev_ID x) \<and> (\<forall>x. ev_Status (upd x) = s)
      \<and> ob_stmt msg (ob_update now (\<lambda>r. ev_ID r = oe_ID e) upd) db = (db1, r) \<and> db' = db1"
  proof (cases outcome)
    case None
    obtain db1 r where "ob_stmt [] (ob_update now (\<lambda>r. ev_ID r = oe_ID e) (\<lambda>r. r\<lparr>ev_Status := StatusCompleted\<rparr>)) db = (db1, r)"
      by (rule prod.exhaust)
    then show ?thesis
      using assms None
      by (intro exI [of _ "\<lambda>r. r\<lparr>ev_Status := StatusCompleted\<rparr>"] exI [of _ StatusCompleted] exI [of _ "[]"] exI [of _ db1] exI [of _ r])
        (auto simp: worker_processEvent_def markCompleted_def Let_def split: sum.splits)
  next
    case (Some m)
    let ?w = "w\<lparr>ow_processed := ow_processed w + 1\<rparr>"
    let ?n = "oe_RetryCount e + 1"
    let ?dead = "?n \<ge> oe_MaxRetries e \<or> ?n \<ge> ow_MaxRetries (ow_config ?w)"
    let ?u1 = "\<lambda>r. r\<lparr>ev_Status := StatusFailed, ev_RetryCount := ?n, ev_ErrorMessage := Some m\<rparr>"
    let ?u2 = "\<lambda>r. r\<lparr>ev_Status := StatusFailed, ev_RetryCount := ?n, ev_NextRetryAt := Some (now + worker_backoff (ow_config ?w) ?n), ev_ErrorMessage := Some m\<rparr>"
    have "db' = fst (ob_stmt [] (ob_update now (\<lambda>r. ev_ID r = oe_ID e) (if ?dead then ?u1 else ?u2)) db)"
      using assms Some by (auto simp: worker_processEvent_def handleFailure_def Let_def)
    then show ?thesis
      by (intro exI [of _ "if ?dead then ?u1 else ?u2"] exI [of _ StatusFailed] exI [of _ "[]"] exI [of _ db']
          exI [of _ "snd (ob_stmt [] (ob_update now (\<lambda>r. ev_ID r = oe_ID e) (if ?dead then ?u1 else ?u2)) db)"]) auto
  qed
  then obtain upd s msg r where u: "\<And>x. ev_ID (upd x) = ev_ID x" "\<And>x. ev_Status (upd x) = s"
      "ob_stmt msg (ob_update now (\<lambda>r. ev_ID r = oe_ID e) upd) db = (db', r)"
    by blast
  show "map ev_ID (ob_events db') = map ev_ID (ob_events db)"
    by (rule update_row(1) [OF u])
  show "i \<noteq> oe_ID e \<Longrightarrow> statuses db' i = statuses db i"
    using update_row(2) [OF u] by auto
qed

lemma Store_statuses:
  assumes "ob_inv db"
  shows "ob_inv (fst (Store e db))" "statuses db i \<noteq> None \<Longrightarrow> statuses (fst (Store e db)) i = statuses db i"
proof -
  obtain db' r where s: "Store e db = (db', r)"
    by (rule prod.exhaust)
  have "same_tables db db' \<or> ev_ID e \<notin> ev_ID ` set (ob_events db) \<and> ob_events db' = ob_events db @ [e\<lparr>ev_Partition := 0\<rparr>]"
    using s [unfolded Store_def] by (rule ob_stmt_cases) (auto simp: violates_unique_def same_tables_def split: if_splits)
  then show "ob_inv (fst (Store e db))" "statuses db i \<noteq> None \<Longrightarrow> statuses (fst (Store e db)) i = statuses db i"
    using assms s by (auto simp: ob_inv_def statuses_def same_tables_def map_add_def split: option.splits)
qed

lemma Requeue_statuses:
  shows "map ev_ID (ob_events (fst (RequeueEvent now i db))) = map ev_ID (ob_events db)"
    "statuses (fst (RequeueEvent now i db)) j = statuses db j
     \<or> j = i \<and> statuses db j = Some StatusFailed"
proof -
  let ?wh = "\<lambda>e. ev_ID e = i \<and> ev_Status e = StatusFailed"
  let ?u = "\<lambda>e. e\<lparr>ev_Status := StatusPending, ev_RetryCount := 0, ev_NextRetryAt := None, ev_ErrorMessage := None\<rparr>"
  obtain db' r where s: "ob_stmt ''failed to requeue event: '' (ob_update now ?wh ?u) db = (db', r)"
    by (rule prod.exhaust)
  have f: "fst (RequeueEvent now i db) = db'"
    using s by (simp add: RequeueEvent_def require_row_def split: sum.splits)
  let ?f = "\<lambda>e. if ?wh e then (?u e)\<lparr>ev_UpdatedAt := now\<rparr> else e"
  have ids: "map ev_ID (map ?f rows) = map ev_ID rows" for rows
    by (induction rows) auto
  have ev: "ob_events db' = ob_events db \<or> ob_events db' = map ?f (ob_events db)"
    using s by (rule ob_stmt_cases) (auto simp: ob_update_def same_tables_def)
  then show "map ev_ID (ob_events (fst (RequeueEvent now i db))) = map ev_ID (ob_events db)"
    unfolding f by (elim disjE) (simp_all only: ids)
  have st: "map_of (map (\<lambda>e. (ev_ID e, ev_Status e)) (map ?f rows)) j = map_of (map (\<lambda>e. (ev_ID e, ev_Status e)) rows) j
      \<or> j = i \<and> map_of (map (\<lambda>e. (ev_ID e, ev_Status e)) rows) j = Some StatusFailed" for rows
    by (induction rows) auto
  show "statuses (fst (RequeueEvent now i db)) j = statuses db j \<or> j = i \<and> statuses db j = Some StatusFailed"
    using ev
  proof
    assume "ob_events db' = map ?f (ob_events db)"
    then show ?thesis
      unfolding f statuses_def by (simp only: st)
  qed (simp add: f statuses_def)
qed

lemma Delete_statuses:
  assumes "ob_inv db"
  shows "ob_inv (fst (DeleteCompletedEvents t db))"
    "statuses db i \<noteq> Some StatusCompleted \<Longrightarrow> statuses (fst (DeleteCompletedEvents t db)) i = statuses db i"
proof -
  obtain db' r where s: "DeleteCompletedEvents t db = (db', r)"
    by (rule prod.exhaust)
  let ?old = "\<lambda>e. ev_Status e = StatusCompleted \<and> ev_UpdatedAt e < t"
  have ev: "same_tables db db' \<or> ob_events db' = filter (\<lambda>e. \<not> ?old e) (ob_events db)"
    using s [unfolded DeleteCompletedEvents_def] by (rule ob_stmt_cases) (auto simp: Let_def same_tables_def)
  show "ob_inv (fst (DeleteCompletedEvents t db))"
    using ev assms s by (auto simp: ob_inv_def same_tables_def distinct_map_filter)
  have "map_of (map (\<lambda>e. (ev_ID e, ev_Status e)) (filter (\<lambda>e. \<not> ?old e) rows)) i = map_of (map (\<lambda>e. (ev_ID e, ev_Status e)) rows) i"
    if "distinct (map ev_ID rows)" "map_of (map (\<lambda>e. (ev_ID e, ev_Status e)) rows) i \<noteq> Some StatusCompleted" for rows
    using that by (induction rows) (auto split: if_splits)
  then show "statuses db i \<noteq> Some StatusCompleted \<Longrightarrow> statuses (fst (DeleteCompletedEvents t db)) i = statuses db i"
    using ev assms s by (auto simp: ob_inv_def statuses_def same_tables_def)
qed

section \<open>One holder per event\<close>

text \<open>
  What a worker holds is \<^verbatim>\<open>processing\<close> in the table; what a claim transaction has locked is \<^verbatim>\<open>pending\<close> or \<^verbatim>\<open>failed\<close>; no two
  workers hold, and no two transactions lock, the same event.
\<close>

definition has :: "uuid \<Rightarrow> OutboxEvent list \<Rightarrow> bool" where
  "has i es \<longleftrightarrow> i \<in> oe_ID ` set es"

lemma has_simps [simp]: "\<not> has i []" "has i (e # es) \<longleftrightarrow> i = oe_ID e \<or> has i es"
  by (auto simp: has_def)

lemma has_mono: "\<lbrakk>has i es; set es \<subseteq> set fs\<rbrakk> \<Longrightarrow> has i fs"
  by (auto simp: has_def)

lemma distinct_has: "distinct (map oe_ID (e # es)) \<longleftrightarrow> \<not> has (oe_ID e) es \<and> distinct (map oe_ID es)"
  by (simp add: has_def)

definition world_inv :: "ow_world \<Rightarrow> bool" where
  "world_inv st \<longleftrightarrow> ob_inv (wd_db st)
     \<and> (\<forall>w. distinct (map oe_ID (wd_hand st w)) \<and> distinct (map oe_ID (wd_locked st w)))
     \<and> (\<forall>v w i. has i (wd_hand st v) \<longrightarrow> has i (wd_hand st w) \<longrightarrow> v = w)
     \<and> (\<forall>v w i. has i (wd_locked st v) \<longrightarrow> has i (wd_locked st w) \<longrightarrow> v = w)
     \<and> (\<forall>w i. has i (wd_hand st w) \<longrightarrow> statuses (wd_db st) i = Some StatusProcessing)
     \<and> (\<forall>w i. has i (wd_locked st w) \<longrightarrow> statuses (wd_db st) i \<in> {Some StatusPending, Some StatusFailed})"

lemma world_invD:
  assumes "world_inv st"
  shows "ob_inv (wd_db st)" "distinct (map oe_ID (wd_hand st w))" "distinct (map oe_ID (wd_locked st w))"
    "\<lbrakk>has i (wd_hand st v); has i (wd_hand st w)\<rbrakk> \<Longrightarrow> v = w"
    "\<lbrakk>has i (wd_locked st v); has i (wd_locked st w)\<rbrakk> \<Longrightarrow> v = w"
    "has i (wd_hand st w) \<Longrightarrow> statuses (wd_db st) i = Some StatusProcessing"
    "has i (wd_locked st w) \<Longrightarrow> statuses (wd_db st) i \<in> {Some StatusPending, Some StatusFailed}"
  using assms unfolding world_inv_def by blast+

lemma world_invI:
  assumes "ob_inv (wd_db st)" "\<And>w. distinct (map oe_ID (wd_hand st w))" "\<And>w. distinct (map oe_ID (wd_locked st w))"
    "\<And>v w i. \<lbrakk>has i (wd_hand st v); has i (wd_hand st w)\<rbrakk> \<Longrightarrow> v = w"
    "\<And>v w i. \<lbrakk>has i (wd_locked st v); has i (wd_locked st w)\<rbrakk> \<Longrightarrow> v = w"
    "\<And>w i. has i (wd_hand st w) \<Longrightarrow> statuses (wd_db st) i = Some StatusProcessing"
    "\<And>w i. has i (wd_locked st w) \<Longrightarrow> statuses (wd_db st) i \<in> {Some StatusPending, Some StatusFailed}"
  shows "world_inv st"
  unfolding world_inv_def using assms by blast

text \<open>A change of the table alone, or of the table and the hands to a part of what they were.\<close>

lemma world_inv_shrink:
  assumes "world_inv st" "ob_inv db'"
    and "\<And>w. set (hand' w) \<subseteq> set (wd_hand st w)" "\<And>w. set (locked' w) \<subseteq> set (wd_locked st w)"
    and "\<And>w. distinct (map oe_ID (hand' w))" "\<And>w. distinct (map oe_ID (locked' w))"
    and "\<And>w i. has i (hand' w) \<Longrightarrow> statuses db' i = statuses (wd_db st) i"
    and "\<And>w i. has i (locked' w) \<Longrightarrow> statuses db' i \<in> {Some StatusPending, Some StatusFailed}"
  shows "world_inv (st\<lparr>wd_db := db', wd_locked := locked', wd_hand := hand', wd_sent := sent\<rparr>)"
proof (rule world_invI, goal_cases)
  case (4 v w i)
  have "has i (wd_hand st v)" "has i (wd_hand st w)"
    using 4 by (auto intro: has_mono [OF _ assms(3)])
  then show ?case
    by (rule world_invD(4) [OF assms(1)])
next
  case (5 v w i)
  have "has i (wd_locked st v)" "has i (wd_locked st w)"
    using 5 by (auto intro: has_mono [OF _ assms(4)])
  then show ?case
    by (rule world_invD(5) [OF assms(1)])
next
  case (6 w i)
  have "has i (wd_hand st w)"
    using 6 by (auto intro: has_mono [OF _ assms(3)])
  then show ?case
    using assms(7) [of i w] 6 world_invD(6) [OF assms(1)] by simp
qed (use assms in simp_all)

lemma ow_step_inv:
  assumes "ow_step st st'" "world_inv st"
  shows "world_inv st'"
  using assms
proof (induction rule: ow_step.induct)
  case (claim_begin st w cfg now db' r)
  note rows = claim_select_rows [OF claim_begin(3), folded has_def]
  note inv = world_invD [OF claim_begin(4)]
  let ?l = "case r of Inl _ \<Rightarrow> [] | Inr es \<Rightarrow> es"
  have l: "distinct (map oe_ID ?l)" "has i ?l \<Longrightarrow> \<not> row_locked st i \<and> statuses (wd_db st) i \<in> {Some StatusPending, Some StatusFailed}" for i
    using rows(2,3) inv(1) by (cases r; simp)+
  have db: "statuses db' = statuses (wd_db st)" "ob_inv db'"
    using statuses_same [OF rows(1)] ob_inv_same [OF rows(1)] inv(1) by simp_all
  show ?case
  proof (rule world_invI, goal_cases)
    case (5 v x i)
    then show ?case
      using l(2) [of i] inv(5) [of i v x] unfolding row_locked_def has_def [symmetric] by (auto split: if_splits)
  next
    case (7 x i)
    then show ?case
      using l(2) [of i] inv(7) [of i x] db by (auto split: if_splits)
  qed (use l inv db in \<open>simp_all\<close>)
next
  case (claim_end st w now db' r)
  note c = claim_commit_statuses [OF claim_end(2), folded has_def]
  note inv = world_invD [OF claim_end(3)]
  have db: "ob_inv db'"
    using ob_inv_ids [OF c(1)] inv(1) by simp
  have other: "\<not> has i (wd_locked st w)" if "has i (wd_hand st v)" for v i
    using inv(6) [OF that] inv(7) [of i w] by auto
  show ?case
  proof (cases "is_ok r")
    case True
    then have r: "(case r of Inl _ \<Rightarrow> [] | Inr _ \<Rightarrow> wd_locked st w) = wd_locked st w"
      by (cases r) simp_all
    note s = c(3) [OF True]
    show ?thesis
      unfolding r
    proof (rule world_invI, goal_cases)
      case (4 v x i)
      then show ?case
        using other [of i v] other [of i x] inv(4) [of i v x] by (auto split: if_splits)
    next
      case (6 x i)
      then show ?case
        using inv(6) [of i x] inv(7) [of i w] s by (auto split: if_splits)
    next
      case (7 x i)
      then have "has i (wd_locked st x)" "x \<noteq> w"
        by (auto split: if_splits)
      then show ?case
        using inv(7) [of i x] inv(5) [of i x w] s by auto
    qed (use inv db in \<open>auto split: if_splits\<close>)
  next
    case False
    then have r: "(case r of Inl _ \<Rightarrow> [] | Inr _ \<Rightarrow> wd_locked st w) = []"
      by (cases r) simp_all
    have "world_inv (st\<lparr>wd_db := db', wd_locked := (wd_locked st)(w := []), wd_hand := (wd_hand st)(w := []), wd_sent := wd_sent st\<rparr>)"
      by (rule world_inv_shrink [OF claim_end(3) db]) (use inv c(2) [OF False] in \<open>auto split: if_splits\<close>)
    then show ?thesis
      unfolding r by simp
  qed
next
  case (process st w e es now outcome worker worker' db')
  note p = processEvent_statuses [OF process(2)]
  note inv = world_invD [OF process(3)]
  have db: "ob_inv db'"
    using ob_inv_ids [OF p(1)] inv(1) by simp
  have e: "has (oe_ID e) (wd_hand st w)" "\<not> has (oe_ID e) es"
    using process(1) inv(2) [of w] by (simp_all only: distinct_has has_simps simp_thms)
  have same: "statuses db' i = statuses (wd_db st) i" if "has i (((wd_hand st)(w := es)) v) \<or> has i (wd_locked st v)" for v i
  proof (rule p(2))
    show "i \<noteq> oe_ID e"
      using that e inv(4) [of "oe_ID e" v w] inv(6) [OF e(1)] inv(7) [of "oe_ID e" v] by (auto split: if_splits)
  qed
  have "world_inv (st\<lparr>wd_db := db', wd_locked := wd_locked st, wd_hand := (wd_hand st)(w := es), wd_sent := wd_sent st @ [(w, oe_ID e)]\<rparr>)"
  proof (rule world_inv_shrink [OF process(3) db], goal_cases)
    case (3 v)
    then show ?case
      using inv(2) [of v] inv(2) [of w] process(1) by (simp add: distinct_has)
  next
    case (5 v i)
    then show ?case
      by (intro same disjI1)
  next
    case (6 v i)
    then show ?case
      using same [of i v] inv(7) [of i v] by simp
  qed (use process(1) inv in auto)
  then show ?case
    by simp
next
  case (stop_or_crash st w)
  note inv = world_invD [OF stop_or_crash]
  have "world_inv (st\<lparr>wd_db := wd_db st, wd_locked := (wd_locked st)(w := []), wd_hand := (wd_hand st)(w := []), wd_sent := wd_sent st\<rparr>)"
    by (rule world_inv_shrink [OF stop_or_crash inv(1)]) (use inv in \<open>auto split: if_splits\<close>)
  then show ?case
    by simp
next
  case (request_store st e)
  note inv = world_invD [OF request_store]
  have "world_inv (st\<lparr>wd_db := fst (Store e (wd_db st)), wd_locked := wd_locked st, wd_hand := wd_hand st, wd_sent := wd_sent st\<rparr>)"
  proof (rule world_inv_shrink [OF request_store Store_statuses(1) [OF inv(1)]], goal_cases)
    case (5 v i)
    then show ?case
      using Store_statuses(2) [OF inv(1), of i] inv(6) [of i v] by simp
  next
    case (6 v i)
    then show ?case
      using Store_statuses(2) [OF inv(1), of i] inv(7) [of i v] by auto
  qed (use inv in auto)
  then show ?case
    by simp
next
  case (requeue st i now)
  note inv = world_invD [OF requeue(2)]
  have db: "ob_inv (fst (RequeueEvent now i (wd_db st)))"
    using ob_inv_ids [OF Requeue_statuses(1)] inv(1) by simp
  have "world_inv (st\<lparr>wd_db := fst (RequeueEvent now i (wd_db st)), wd_locked := wd_locked st, wd_hand := wd_hand st, wd_sent := wd_sent st\<rparr>)"
  proof (rule world_inv_shrink [OF requeue(2) db], goal_cases)
    case (5 v j)
    then show ?case
      using Requeue_statuses(2) [of now i "wd_db st" j] inv(6) [of j v] by auto
  next
    case (6 v j)
    then show ?case
      using Requeue_statuses(2) [of now i "wd_db st" j] inv(7) [of j v] requeue(1) unfolding row_locked_def has_def [symmetric] by auto
  qed (use inv in auto)
  then show ?case
    by simp
next
  case (cleanup st t)
  note inv = world_invD [OF cleanup]
  have "world_inv (st\<lparr>wd_db := fst (DeleteCompletedEvents t (wd_db st)), wd_locked := wd_locked st, wd_hand := wd_hand st, wd_sent := wd_sent st\<rparr>)"
  proof (rule world_inv_shrink [OF cleanup Delete_statuses(1) [OF inv(1)]], goal_cases)
    case (5 v i)
    then show ?case
      using Delete_statuses(2) [OF inv(1), of i] inv(6) [of i v] by simp
  next
    case (6 v i)
    then show ?case
      using Delete_statuses(2) [OF inv(1), of i] inv(7) [of i v] by auto
  qed (use inv in auto)
  then show ?case
    by simp
qed

lemma ow_reachable_inv:
  assumes "ow_reachable db st" "ob_inv db"
  shows "world_inv st"
  using assms(1)
proof (induction rule: ow_reachable.induct)
  case start
  show ?case
    by (rule world_invI) (use assms(2) in simp_all)
next
  case (step st st')
  then show ?case
    using ow_step_inv by blast
qed

text \<open>
  C7: Whatever workers claim, process, stop or crash, and whatever requests store, requeue and clean up meanwhile, an
  event is never in the hands of two workers at once.
\<close>

theorem outbox_event_held_once:
  assumes "distinct (map ev_ID (ob_events db))" "ow_reachable db st"
    and "e \<in> set (wd_hand st v)" "f \<in> set (wd_hand st w)" "oe_ID e = oe_ID f"
  shows "v = w"
proof -
  have "world_inv st"
    using ow_reachable_inv [OF assms(2)] assms(1) by (simp add: ob_inv_def)
  moreover have "has (oe_ID e) (wd_hand st v)" "has (oe_ID e) (wd_hand st w)"
    using assms(3-5) by (auto simp: has_def intro: rev_image_eqI)
  ultimately show ?thesis
    using world_invD(4) by blast
qed

definition sample_outbox_row :: Event where
  "sample_outbox_row = \<lparr>ev_ID = 7, ev_TenantID = ''t1'', ev_EventType = ''payment.processed'', ev_EventData = ''{}'',
     ev_AggregateID = None, ev_AggregateType = None, ev_OccurredAt = 1, ev_Status = StatusPending, ev_RetryCount = 0,
     ev_MaxRetries = 3, ev_NextRetryAt = None, ev_ErrorMessage = None, ev_CreatedAt = 1, ev_UpdatedAt = 1,
     ev_Version = 1, ev_DeduplicationID = None, ev_Partition = 0\<rparr>"

text \<open>Worker 4 claims the only event and holds it; nobody else does.\<close>

lemma outbox_event_held_once_witness:
  "\<exists>st. ow_reachable \<lparr>ob_events = [sample_outbox_row], ob_progress = [], ob_faults = []\<rparr> st
     \<and> oe_ID ` set (wd_hand st 4) = {7} \<and> \<not> (7 \<in> oe_ID ` set (wd_hand st 5))"
proof -
  let ?db = "\<lparr>ob_events = [sample_outbox_row], ob_progress = [], ob_faults = []\<rparr>"
  let ?s0 = "\<lparr>wd_db = ?db, wd_locked = (\<lambda>_. []), wd_hand = (\<lambda>_. []), wd_sent = []\<rparr>"
  let ?es = "[scanOutboxEvent sample_outbox_row]"
  obtain db1 r1 where sel: "claim_select DefaultOutboxWorkerConfig 5 (row_locked ?s0) (wd_db ?s0) = (db1, r1)"
    by (rule prod.exhaust)
  have "row_locked ?s0 = (\<lambda>_. False)"
    by (simp add: row_locked_def fun_eq_iff)
  then have r1: "db1 = ?db" "r1 = Inr ?es"
    using sel by (simp_all add: claim_select_def ob_stmt_def ob_next_fault_def ob_select_def sort_slice_def deliverable_def
        sample_outbox_row_def DefaultOutboxWorkerConfig_def)
  let ?s1 = "?s0\<lparr>wd_db := db1, wd_locked := (wd_locked ?s0)(4 := case r1 of Inl _ \<Rightarrow> [] | Inr es \<Rightarrow> es)\<rparr>"
  have s1: "ow_reachable ?db ?s1"
    by (rule ow_reachable.step [OF ow_reachable.start ow_step.claim_begin [OF _ _ sel]]) simp_all
  obtain db2 r2 where com: "claim_commit 6 (wd_locked ?s1 4) (wd_db ?s1) = (db2, r2)"
    by (rule prod.exhaust)
  have r2: "r2 = Inr ()"
    using com r1 by (simp add: claim_commit_def ob_stmt_def ob_next_fault_def ob_update_def)
  let ?s2 = "?s1\<lparr>wd_db := db2, wd_locked := (wd_locked ?s1)(4 := []), wd_hand := (wd_hand ?s1)(4 := case r2 of Inl _ \<Rightarrow> [] | Inr _ \<Rightarrow> wd_locked ?s1 4)\<rparr>"
  have s2: "ow_reachable ?db ?s2"
    by (rule ow_reachable.step [OF s1 ow_step.claim_end [OF _ com]]) (simp add: r1)
  have oe7: "oe_ID (scanOutboxEvent sample_outbox_row) = 7"
    by (simp add: scanOutboxEvent_def sample_outbox_row_def)
  have h: "wd_hand ?s2 4 = ?es"
    by (simp add: r1 r2)
  have "\<not> (7 \<in> oe_ID ` set (wd_hand ?s2 5))"
  proof
    assume "7 \<in> oe_ID ` set (wd_hand ?s2 5)"
    then obtain f where f: "f \<in> set (wd_hand ?s2 5)" "oe_ID f = 7"
      by auto
    have "(4 :: nat) = 5"
      by (rule outbox_event_held_once [OF _ s2 _ f(1), of "scanOutboxEvent sample_outbox_row"])
        (simp_all only: h f(2) oe7, simp_all)
    then show False
      by simp
  qed
  moreover have "oe_ID ` set (wd_hand ?s2 4) = {7}"
    unfolding h by (simp add: oe7)
  ultimately show ?thesis
    using s2 by blast
qed

section \<open>An event that keeps failing\<close>

text \<open>Polls one after the other, by one worker, while the publisher refuses the event.\<close>

fun run_polls :: "time list \<Rightarrow> string \<Rightarrow> OutboxWorker \<Rightarrow> outbox_db \<Rightarrow> uuid list" where
  "run_polls [] msg w db = []"
| "run_polls (t # ts) msg w db =
     (case poll t (\<lambda>_. False) (\<lambda>_. Some (t, Some msg)) w db of (w1, db1, sent) \<Rightarrow> sent @ run_polls ts msg w1 db1)"

lemma ob_stmt_no_fault: "ob_faults db = [] \<Longrightarrow> ob_stmt msg f db = f db"
  by (simp add: ob_stmt_def ob_next_fault_def)

lemma claim_single_event:
  assumes "ob_events db = [r]" "ob_faults db = []" "deliverable t r" "0 < ow_BatchSize cfg"
  shows "claimBatch cfg t (\<lambda>_. False) db = (db\<lparr>ob_events := [r\<lparr>ev_Status := StatusProcessing, ev_UpdatedAt := t\<rparr>]\<rparr>, Inr [scanOutboxEvent r])"
proof -
  have "take (nat (ow_BatchSize cfg)) [r] = [r]"
    using assms(4) by (simp add: take_Cons')
  then have s: "claim_select cfg t (\<lambda>_. False) db = (db, Inr [scanOutboxEvent r])"
    using assms by (simp add: claim_select_def ob_stmt_no_fault ob_select_def sort_slice_def)
  have m: "mark_processing t [scanOutboxEvent r] db = (db\<lparr>ob_events := [r\<lparr>ev_Status := StatusProcessing, ev_UpdatedAt := t\<rparr>]\<rparr>, Inr ())"
    using assms(1,2) by (simp add: ob_stmt_no_fault ob_update_def) (simp add: scanOutboxEvent_def)
  have "claim_commit t [scanOutboxEvent r] db = (db\<lparr>ob_events := [r\<lparr>ev_Status := StatusProcessing, ev_UpdatedAt := t\<rparr>]\<rparr>, Inr ())"
    unfolding claim_commit_def m using assms(2) by (simp add: ob_stmt_no_fault)
  then show ?thesis
    unfolding claimBatch_def s by simp
qed

text \<open>The row after a refused publication.\<close>

definition refused_row :: "OutboxWorkerConfig \<Rightarrow> time \<Rightarrow> string \<Rightarrow> Event \<Rightarrow> Event" where
  "refused_row cfg t msg r =
     (let n = ev_RetryCount r + 1; failed = r\<lparr>ev_Status := StatusFailed, ev_RetryCount := n, ev_ErrorMessage := Some msg, ev_UpdatedAt := t\<rparr>
      in if n \<ge> ev_MaxRetries r \<or> n \<ge> ow_MaxRetries cfg then failed
         else failed\<lparr>ev_NextRetryAt := Some (t + worker_backoff cfg n)\<rparr>)"

lemma poll_refused:
  assumes "ob_events db = [r]" "ob_faults db = []" "deliverable t r" "0 < ow_BatchSize (ow_config w)"
  obtains w' where "poll t (\<lambda>_. False) (\<lambda>_. Some (t, Some msg)) w db = (w', db\<lparr>ob_events := [refused_row (ow_config w) t msg r]\<rparr>, [ev_ID r])"
    "ow_config w' = ow_config w"
proof -
  let ?db = "db\<lparr>ob_events := [r\<lparr>ev_Status := StatusProcessing, ev_UpdatedAt := t\<rparr>]\<rparr>"
  let ?w1 = "w\<lparr>ow_lastPollTime := Some t, ow_consecutiveErrs := 0\<rparr>"
  have m: "fst (refreshBacklogMetrics t db) = db"
    using assms(2) by (simp add: refreshBacklogMetrics_def ob_stmt_no_fault Let_def)
  obtain w' db' where o: "worker_processEvent t (scanOutboxEvent r) (Some msg) ?w1 ?db = (w', db')"
    by (rule prod.exhaust)
  have p: "poll t (\<lambda>_. False) (\<lambda>_. Some (t, Some msg)) w db = (w', db', [ev_ID r])"
    unfolding poll_def Let_def m claim_single_event [OF assms] by (simp add: o) (simp add: scanOutboxEvent_def)
  have f: "ob_faults ?db = []"
    using assms(2) by simp
  have "worker_processEvent t (scanOutboxEvent r) (Some msg) ?w1 ?db = (w', db')
      \<Longrightarrow> db' = db\<lparr>ob_events := [refused_row (ow_config w) t msg r]\<rparr> \<and> ow_config w' = ow_config w"
    unfolding worker_processEvent_def handleFailure_def Let_def ob_stmt_no_fault [OF f] option.case
    by (auto simp: ob_update_def refused_row_def Let_def scanOutboxEvent_def split: if_splits)
  then have "db' = db\<lparr>ob_events := [refused_row (ow_config w) t msg r]\<rparr>" "ow_config w' = ow_config w"
    using o by simp_all
  then show thesis
    using that p by simp
qed

lemma worker_backoff_le:
  assumes "0 \<le> ow_RetryBackoffBase cfg" "k < n"
  shows "worker_backoff cfg k \<le> ow_RetryBackoffBase cfg * 2 ^ nat n"
proof -
  have "(if k - 1 < 0 then 0 else 2 ^ nat (k - 1) :: int) \<le> 2 ^ nat n"
    using assms(2) by (auto intro!: power_increasing nat_mono)
  then show ?thesis
    unfolding worker_backoff_def by (rule mult_left_mono [OF _ assms(1)])
qed

text \<open>Still due at every later poll.\<close>

definition stays_due :: "time list \<Rightarrow> Event \<Rightarrow> bool" where
  "stays_due ts r \<longleftrightarrow> (ev_RetryCount r = 0 \<and> ev_Status r = StatusPending
     \<or> 0 < ev_RetryCount r \<and> ev_Status r = StatusFailed \<and> (\<exists>s. ev_NextRetryAt r = Some s \<and> (\<forall>t \<in> set ts. s \<le> t)))"

lemma run_polls_refused:
  "\<lbrakk>ob_events db = [r]; ob_faults db = []; 0 < ow_BatchSize (ow_config w); 0 \<le> ow_RetryBackoffBase (ow_config w);
    1 < ow_MaxRetries (ow_config w); 1 < ev_MaxRetries r; stays_due ts r;
    sorted_wrt (\<lambda>s t. s + ow_RetryBackoffBase (ow_config w) * 2 ^ nat (ow_MaxRetries (ow_config w)) \<le> t) ts\<rbrakk>
   \<Longrightarrow> run_polls ts msg w db = replicate (length ts) (ev_ID r)"
proof (induction ts arbitrary: w db r)
  case (Cons t ts)
  have due: "deliverable t r"
    using Cons.prems(7) by (auto simp: stays_due_def deliverable_def)
  obtain w' where p: "poll t (\<lambda>_. False) (\<lambda>_. Some (t, Some msg)) w db = (w', db\<lparr>ob_events := [refused_row (ow_config w) t msg r]\<rparr>, [ev_ID r])"
      and w': "ow_config w' = ow_config w"
    using poll_refused [OF Cons.prems(1,2) due Cons.prems(3)] by blast
  let ?r = "refused_row (ow_config w) t msg r" and ?B = "ow_RetryBackoffBase (ow_config w) * 2 ^ nat (ow_MaxRetries (ow_config w))"
  have later: "t + ?B \<le> u" if "u \<in> set ts" for u
    using Cons.prems(8) that by simp
  have B: "0 \<le> ?B"
    using Cons.prems(4) by simp
  have row: "ev_ID ?r = ev_ID r" "ev_MaxRetries ?r = ev_MaxRetries r" "ev_RetryCount ?r = ev_RetryCount r + 1" "ev_Status ?r = StatusFailed"
    by (simp_all add: refused_row_def Let_def)
  have next_at: "\<exists>s. ev_NextRetryAt ?r = Some s \<and> (\<forall>u \<in> set ts. s \<le> u)"
  proof (cases "ev_RetryCount r + 1 \<ge> ev_MaxRetries r \<or> ev_RetryCount r + 1 \<ge> ow_MaxRetries (ow_config w)")
    case True
    then have "ev_NextRetryAt ?r = ev_NextRetryAt r" "ev_RetryCount r \<noteq> 0"
      using Cons.prems(5,6) by (auto simp: refused_row_def Let_def)
    then show ?thesis
      using Cons.prems(7) by (auto simp: stays_due_def)
  next
    case False
    then have "ev_NextRetryAt ?r = Some (t + worker_backoff (ow_config w) (ev_RetryCount r + 1))"
      by (auto simp: refused_row_def Let_def)
    moreover have "worker_backoff (ow_config w) (ev_RetryCount r + 1) \<le> ?B"
      using worker_backoff_le [OF Cons.prems(4)] False by simp
    ultimately show ?thesis
      using later by fastforce
  qed
  have "stays_due ts ?r"
    using next_at row Cons.prems(7) by (auto simp: stays_due_def)
  then have "run_polls ts msg w' (db\<lparr>ob_events := [?r]\<rparr>) = replicate (length ts) (ev_ID ?r)"
    using Cons.prems by (intro Cons.IH) (simp_all add: w' row)
  then show ?case
    using p row by simp
qed simp



end
