(* ===== verification/Sharded_Dispatcher.thy ===== *)
theory Sharded_Dispatcher
  imports Outbox_Dispatcher
begin

text \<open>
  The sharded outbox dispatcher (\<^verbatim>\<open>internal/outbox/sharded_dispatcher.go\<close>): shards are owned through PostgreSQL session-level
  advisory locks.  A session is a number; the lock table gives each shard the session that holds it and how often, as
  such locks are reentrant.  Closing a \<^verbatim>\<open>sql.Conn\<close> gives the session back to the pool with its locks; only the end of the session
  releases them.  Drain, heartbeat and cleanup goroutines run between a successful \<^verbatim>\<open>Start\<close> and \<^verbatim>\<open>Stop\<close>.
\<close>

section \<open>Advisory locks\<close>

type_synonym lock_table = "int \<Rightarrow> (nat \<times> nat) option"

definition pg_try_advisory_lock :: "nat \<Rightarrow> int \<Rightarrow> lock_table \<Rightarrow> lock_table \<times> bool" where
  "pg_try_advisory_lock session shard L = (case L shard of
      None \<Rightarrow> (L(shard \<mapsto> (session, 1)), True)
    | Some (s, n) \<Rightarrow> if s = session then (L(shard \<mapsto> (s, n + 1)), True) else (L, False))"

definition pg_advisory_unlock :: "nat \<Rightarrow> int \<Rightarrow> lock_table \<Rightarrow> lock_table \<times> bool" where
  "pg_advisory_unlock session shard L = (case L shard of
      None \<Rightarrow> (L, False)
    | Some (s, n) \<Rightarrow>
        if s \<noteq> session then (L, False)
        else (L(shard := if n \<le> 1 then None else Some (s, n - 1)), True))"

definition end_session :: "nat \<Rightarrow> lock_table \<Rightarrow> lock_table" where
  "end_session session L = (\<lambda>shard. case L shard of None \<Rightarrow> None | Some (s, n) \<Rightarrow> if s = session then None else Some (s, n))"

section \<open>The dispatcher\<close>

text \<open>
  \<open>sd_lockConn\<close> is the dedicated connection with its session and whether it has been closed; \<open>sd_active\<close> tells
  whether the goroutines run.
\<close>

record shardedDispatcher =
  sd_disp :: dispatcher
  sd_ownedShards :: "int list"
  sd_ownedShardsList :: "int list"
  sd_lockConn :: "(nat \<times> bool) option"
  sd_running :: bool
  sd_active :: bool

definition NewShardedDispatcher :: "bool \<Rightarrow> DispatcherConfig \<Rightarrow> (string, shardedDispatcher) result" where
  "NewShardedDispatcher hasDB config =
     (if dc_ShardCount config \<le> 0 then Inl ''shard count must be positive for sharded dispatcher''
      else if dc_OwnedShards config = [] then Inl ''must own at least one shard''
      else if \<not> hasDB then Inl ''database connection required for advisory locks''
      else if list_ex (\<lambda>s. s < 0 \<or> s \<ge> dc_ShardCount config) (dc_OwnedShards config) then Inl ''owned shard out of range''
      else
        let config1 = config\<lparr>
              dc_HeartbeatInterval := (if dc_HeartbeatInterval config \<le> 0 then 30 * Second else dc_HeartbeatInterval config),
              dc_CleanupInterval := (if dc_CleanupInterval config \<le> 0 then Hour else dc_CleanupInterval config),
              dc_CompletedEventTTL := (if dc_CompletedEventTTL config \<le> 0 then 24 * Hour else dc_CompletedEventTTL config)\<rparr>
        in Inr \<lparr>sd_disp = start_dispatcher config1 [], sd_ownedShards = remdups (dc_OwnedShards config),
                sd_ownedShardsList = dc_OwnedShards config, sd_lockConn = None, sd_running = False, sd_active = False\<rparr>)"

text \<open>
  The loop of \<^verbatim>\<open>acquireShardLocks\<close>: \<open>faults\<close> gives the driver error of a shard's statement.  The first result is the
  owned set so far.
\<close>

fun acquire_loop :: "(int \<Rightarrow> string option) \<Rightarrow> nat \<Rightarrow> int list \<Rightarrow> int list \<Rightarrow> lock_table
    \<Rightarrow> int list \<times> lock_table \<times> string option" where
  "acquire_loop faults session [] owned L = (owned, L, None)"
| "acquire_loop faults session (shard # shards) owned L =
     (case faults shard of
        Some e \<Rightarrow> (owned, L, Some (''failed to acquire advisory lock: '' @ e))
      | None \<Rightarrow>
          (case pg_try_advisory_lock session shard L of
             (L1, True) \<Rightarrow> acquire_loop faults session shards owned L1
           | (L1, False) \<Rightarrow> acquire_loop faults session shards (filter (\<lambda>s. s \<noteq> shard) owned) L1))"

definition acquireShardLocks :: "(int \<Rightarrow> string option) \<Rightarrow> nat \<Rightarrow> shardedDispatcher \<Rightarrow> lock_table
    \<Rightarrow> shardedDispatcher \<times> lock_table \<times> string option" where
  "acquireShardLocks faults session d L =
     (case acquire_loop faults session (sd_ownedShardsList d) (sd_ownedShards d) L of
        (owned, L1, Some e) \<Rightarrow> (d\<lparr>sd_ownedShards := owned\<rparr>, L1, Some e)
      | (owned, L1, None) \<Rightarrow>
          let lst = sort owned; d1 = d\<lparr>sd_ownedShards := owned, sd_ownedShardsList := lst\<rparr>
          in if lst = [] then (d1, L1, Some ''no shards acquired; cannot start dispatcher'') else (d1, L1, None))"

fun release_loop :: "(int \<Rightarrow> string option) \<Rightarrow> nat \<Rightarrow> int list \<Rightarrow> lock_table \<Rightarrow> lock_table" where
  "release_loop faults session [] L = L"
| "release_loop faults session (shard # shards) L =
     release_loop faults session shards
       (case faults shard of Some _ \<Rightarrow> L | None \<Rightarrow> fst (pg_advisory_unlock session shard L))"

text \<open>A statement on a closed connection fails.\<close>

definition releaseAllLocks :: "(int \<Rightarrow> string option) \<Rightarrow> shardedDispatcher \<Rightarrow> lock_table \<Rightarrow> lock_table" where
  "releaseAllLocks faults d L = (case sd_lockConn d of
      None \<Rightarrow> L
    | Some (session, gone) \<Rightarrow> if gone then L else release_loop faults session (sd_ownedShardsList d) L)"

text \<open>
  \<^verbatim>\<open>Start\<close>: \<open>conn\<close> is what \<^verbatim>\<open>db.Conn\<close> returns, \<open>table\<close> the error of \<^verbatim>\<open>EnsurePublisherProgressTable\<close>.
\<close>

definition sharded_Start :: "(string, nat) result \<Rightarrow> (int \<Rightarrow> string option) \<Rightarrow> string option \<Rightarrow> (int \<Rightarrow> string option) \<Rightarrow> string list
    \<Rightarrow> shardedDispatcher \<Rightarrow> lock_table \<Rightarrow> shardedDispatcher \<times> lock_table \<times> string option" where
  "sharded_Start conn faults table release_faults names d L =
     (if sd_running d then (d, L, None)
      else
        let d1 = d\<lparr>sd_running := True\<rparr>
        in case conn of
             Inl e \<Rightarrow> (d1, L, Some (''failed to acquire advisory lock connection: '' @ e))
           | Inr session \<Rightarrow>
               let d2 = d1\<lparr>sd_lockConn := Some (session, False)\<rparr>
               in (case acquireShardLocks faults session d2 L of
                     (d3, L1, Some e) \<Rightarrow> (d3\<lparr>sd_lockConn := Some (session, True)\<rparr>, L1, Some e)
                   | (d3, L1, None) \<Rightarrow>
                       (case table of
                          Some e \<Rightarrow> (d3\<lparr>sd_lockConn := Some (session, True)\<rparr>, releaseAllLocks release_faults d3 L1, Some e)
                        | None \<Rightarrow> (d3\<lparr>sd_disp := start_dispatcher (d_config (sd_disp d3)) names, sd_active := True\<rparr>, L1, None))))"

definition sharded_Stop :: "(int \<Rightarrow> string option) \<Rightarrow> shardedDispatcher \<Rightarrow> lock_table \<Rightarrow> shardedDispatcher \<times> lock_table" where
  "sharded_Stop faults d L =
     (if \<not> sd_running d then (d, L)
      else
        let d1 = d\<lparr>sd_running := False, sd_active := False\<rparr>
        in (d1\<lparr>sd_lockConn := None\<rparr>, releaseAllLocks faults d1 L))"

text \<open>The heartbeat: \<open>ping\<close> is whether the connection still answers.\<close>

definition verifyLockHealth :: "bool \<Rightarrow> shardedDispatcher \<Rightarrow> shardedDispatcher" where
  "verifyLockHealth ping d = (case sd_lockConn d of
      None \<Rightarrow> d
    | Some _ \<Rightarrow> if ping then d else d\<lparr>sd_ownedShardsList := [], sd_ownedShards := []\<rparr>)"

definition currentShards :: "shardedDispatcher \<Rightarrow> int list" where
  "currentShards d = sd_ownedShardsList d"

section \<open>Draining\<close>

fun filter_batch :: "int list \<Rightarrow> int \<Rightarrow> Event list \<Rightarrow> Event list \<Rightarrow> Event list" where
  "filter_batch shards batch [] filtered = filtered"
| "filter_batch shards batch (e # es) filtered =
     (let f1 = (if ev_Partition e \<in> set shards then filtered @ [e] else filtered)
      in if int (length f1) \<ge> batch then f1 else filter_batch shards batch es f1)"

text \<open>
  The repository's shard query when it has one (\<open>sharded\<close>), else all pending events filtered in memory.
\<close>

definition fetchEvents :: "'s Repository \<Rightarrow> (int list \<Rightarrow> int \<Rightarrow> 's \<Rightarrow> 's \<times> (string, Event list) result) option \<Rightarrow> time \<Rightarrow> int list \<Rightarrow> int
    \<Rightarrow> 's \<Rightarrow> 's \<times> (string, Event list) result" where
  "fetchEvents repo sharded now shards batch s = (case sharded of
      Some q \<Rightarrow> q shards batch s
    | None \<Rightarrow>
        (case repo_GetPendingEvents repo now (batch * int (length shards)) s of
           (s1, Inl e) \<Rightarrow> (s1, Inl e)
         | (s1, Inr events) \<Rightarrow> (s1, Inr (filter_batch shards batch events []))))"

definition sharded_drain_event :: "'s Repository \<Rightarrow> time \<Rightarrow> string \<Rightarrow> Event \<Rightarrow> publish_result
    \<Rightarrow> dispatcher \<Rightarrow> 's \<Rightarrow> dispatcher \<times> 's \<times> delivery list" where
  "sharded_drain_event repo now name event res d s = (case res of
      PublishError permanent msg \<Rightarrow>
        if permanent then (d, fst (repo_UpdateStatus repo now (ev_ID event) StatusFailed (Some msg) s), [])
        else
          let failCount = d_publisherFailCount d name + 1
          in if failCount \<ge> dc_MaxRetries (d_config d)
             then (set_backoff name 0 None d, fst (repo_UpdateStatus repo now (ev_ID event) StatusFailed (Some msg) s), [])
             else (set_backoff name failCount (Some (now + drain_backoff (dc_RetryBackoffFactor (d_config d)) failCount)) d, s, [])
    | Published \<Rightarrow>
        (case repo_MarkPublished repo now name event (publisherNames d) s of
           (s', r) \<Rightarrow> (set_backoff name 0 None d, s', [(name, ev_ID event, is_ok r)]))
    | _ \<Rightarrow> (d, s, []))"

fun sharded_drain_events :: "'s Repository \<Rightarrow> string \<Rightarrow> (Event \<Rightarrow> time \<times> publish_result) \<Rightarrow> Event list
    \<Rightarrow> dispatcher \<Rightarrow> 's \<Rightarrow> dispatcher \<times> 's \<times> delivery list" where
  "sharded_drain_events repo name pub [] d s = (d, s, [])"
| "sharded_drain_events repo name pub (e # es) d s =
     (case sharded_drain_event repo (fst (pub e)) name e (snd (pub e)) d s of
        (d1, s1, dl) \<Rightarrow>
          (case sharded_drain_events repo name pub es d1 s1 of (d2, s2, dls) \<Rightarrow> (d2, s2, dl @ dls)))"

definition sharded_drainOnce :: "'s Repository \<Rightarrow> (int list \<Rightarrow> int \<Rightarrow> 's \<Rightarrow> 's \<times> (string, Event list) result) option
    \<Rightarrow> time \<Rightarrow> string \<Rightarrow> (Event \<Rightarrow> time \<times> publish_result) \<Rightarrow> shardedDispatcher \<Rightarrow> 's \<Rightarrow> shardedDispatcher \<times> 's \<times> delivery list" where
  "sharded_drainOnce repo sharded now name pub d s =
     (if backing_off now name (sd_disp d) then (d, s, [])
      else if currentShards d = [] then (d, s, [])
      else case fetchEvents repo sharded now (currentShards d) (dc_BatchSize (d_config (sd_disp d))) s of
             (s1, Inl e) \<Rightarrow> (d, s1, [])
           | (s1, Inr events) \<Rightarrow>
               (case sharded_drain_events repo name pub events (sd_disp d) s1 of (d1, s2, dls) \<Rightarrow> (d\<lparr>sd_disp := d1\<rparr>, s2, dls)))"

definition sharded_cleanupCompletedEvents :: "'s Repository \<Rightarrow> time \<Rightarrow> shardedDispatcher \<Rightarrow> 's \<Rightarrow> 's" where
  "sharded_cleanupCompletedEvents repo now d s =
     fst (repo_DeleteCompletedEvents repo (now - dc_CompletedEventTTL (d_config (sd_disp d))) s)"

section \<open>Many instances\<close>

text \<open>
  Instances by number, the lock table, and the sessions that have ended.  A connection is exclusive to the instance that
  took it from its pool; it may be one that was closed before and still carries locks.
\<close>

record cluster =
  cl_inst :: "nat \<Rightarrow> shardedDispatcher"
  cl_locks :: lock_table
  cl_dead :: "nat set"

definition uses_session :: "shardedDispatcher \<Rightarrow> nat \<Rightarrow> bool" where
  "uses_session d s \<longleftrightarrow> sd_lockConn d = Some (s, False)"

inductive cluster_step :: "cluster \<Rightarrow> cluster \<Rightarrow> bool" where
  started: "\<lbrakk>s \<notin> cl_dead st; \<forall>j. \<not> uses_session (cl_inst st j) s;
      sharded_Start (Inr s) faults table rfaults names (cl_inst st i) (cl_locks st) = (d, L, e)\<rbrakk>
    \<Longrightarrow> cluster_step st (st\<lparr>cl_inst := (cl_inst st)(i := d), cl_locks := L\<rparr>)"
| not_connected: "sharded_Start (Inl msg) faults table rfaults names (cl_inst st i) (cl_locks st) = (d, L, e)
    \<Longrightarrow> cluster_step st (st\<lparr>cl_inst := (cl_inst st)(i := d), cl_locks := L\<rparr>)"
| stopped: "sharded_Stop faults (cl_inst st i) (cl_locks st) = (d, L)
    \<Longrightarrow> cluster_step st (st\<lparr>cl_inst := (cl_inst st)(i := d), cl_locks := L\<rparr>)"
| session_lost: "cluster_step st (st\<lparr>cl_locks := end_session s (cl_locks st), cl_dead := insert s (cl_dead st)\<rparr>)"
| heartbeat: "\<lbrakk>sd_active (cl_inst st i); sd_lockConn (cl_inst st i) = Some (s, False)\<rbrakk>
    \<Longrightarrow> cluster_step st (st\<lparr>cl_inst := (cl_inst st)(i := verifyLockHealth (s \<notin> cl_dead st) (cl_inst st i))\<rparr>)"
| drained: "sd_active (cl_inst st i)
    \<Longrightarrow> cluster_step st (st\<lparr>cl_inst := (cl_inst st)(i := (cl_inst st i)\<lparr>sd_disp := disp\<rparr>)\<rparr>)"

inductive cluster_reachable :: "(nat \<Rightarrow> DispatcherConfig) \<Rightarrow> cluster \<Rightarrow> bool" for cfg where
  init: "\<lbrakk>\<And>i. NewShardedDispatcher True (cfg i) = Inr (inst i)\<rbrakk>
    \<Longrightarrow> cluster_reachable cfg \<lparr>cl_inst = inst, cl_locks = (\<lambda>_. None), cl_dead = {}\<rparr>"
| step: "\<lbrakk>cluster_reachable cfg st; cluster_step st st'\<rbrakk> \<Longrightarrow> cluster_reachable cfg st'"

definition holder :: "lock_table \<Rightarrow> int \<Rightarrow> nat option" where
  "holder L k = map_option fst (L k)"

text \<open>The session of an instance whose goroutines run and whose connection is alive.\<close>

definition live_session :: "cluster \<Rightarrow> nat \<Rightarrow> nat \<Rightarrow> bool" where
  "live_session st i s \<longleftrightarrow> sd_active (cl_inst st i) \<and> uses_session (cl_inst st i) s \<and> s \<notin> cl_dead st"

definition cluster_inv :: "cluster \<Rightarrow> bool" where
  "cluster_inv st \<longleftrightarrow>
     (\<forall>i j s. uses_session (cl_inst st i) s \<longrightarrow> uses_session (cl_inst st j) s \<longrightarrow> i = j)
     \<and> (\<forall>i. (sd_active (cl_inst st i) \<longrightarrow> sd_running (cl_inst st i))
            \<and> set (sd_ownedShards (cl_inst st i)) \<subseteq> set (sd_ownedShardsList (cl_inst st i)))
     \<and> (\<forall>i s k. live_session st i s \<longrightarrow> k \<in> set (sd_ownedShardsList (cl_inst st i)) \<longrightarrow> holder (cl_locks st) k = Some s)"

section \<open>What the locks guarantee\<close>

lemma try_lock_holder:
  assumes "pg_try_advisory_lock session shard L = (L', b)"
  shows "holder L k = Some s \<Longrightarrow> holder L' k = Some s" "b \<Longrightarrow> holder L' shard = Some session"
  using assms by (auto simp: pg_try_advisory_lock_def holder_def split: option.splits if_splits)

lemma acquire_loop_spec:
  "acquire_loop faults session shards owned L = (owned', L', e) \<Longrightarrow>
     set owned' \<subseteq> set owned \<and> (\<forall>k s. holder L k = Some s \<longrightarrow> holder L' k = Some s)
     \<and> (e = None \<longrightarrow> (\<forall>k \<in> set shards. k \<in> set owned' \<longrightarrow> holder L' k = Some session))"
proof (induction faults session shards owned L rule: acquire_loop.induct)
  case (2 faults session shard shards owned L)
  show ?case
  proof (cases "faults shard")
    case None
    obtain L1 b where t: "pg_try_advisory_lock session shard L = (L1, b)"
      by (rule prod.exhaust)
    note h = try_lock_holder [OF t]
    show ?thesis
    proof (cases b)
      case True
      then have "acquire_loop faults session shards owned L1 = (owned', L', e)"
        using 2(3) None t by simp
      from 2(1) [OF None t [symmetric] _ this] True h show ?thesis
        by auto
    next
      case False
      then have "acquire_loop faults session shards (filter (\<lambda>s. s \<noteq> shard) owned) L1 = (owned', L', e)"
        using 2(3) None t by simp
      from 2(2) [OF None t [symmetric] _ this] False h show ?thesis
        by auto
    qed
  qed (use 2(3) in auto)
qed auto

lemma release_loop_holder:
  "\<lbrakk>holder L k = Some s; s \<noteq> session\<rbrakk> \<Longrightarrow> holder (release_loop faults session shards L) k = Some s"
proof (induction faults session shards L rule: release_loop.induct)
  case (2 faults session shard shards L)
  have "holder (case faults shard of Some _ \<Rightarrow> L | None \<Rightarrow> fst (pg_advisory_unlock session shard L)) k = Some s"
    using 2(2,3) by (auto simp: pg_advisory_unlock_def holder_def split: option.splits)
  then show ?case
    using 2(1) 2(3) by simp
qed simp

lemma releaseAllLocks_holder:
  assumes "holder L k = Some s" "\<not> uses_session d s"
  shows "holder (releaseAllLocks faults d L) k = Some s"
  using assms release_loop_holder [of L k s] by (auto simp: releaseAllLocks_def uses_session_def split: option.splits)

lemma end_session_holder: "\<lbrakk>holder L k = Some s; s \<noteq> s'\<rbrakk> \<Longrightarrow> holder (end_session s' L) k = Some s"
  by (auto simp: end_session_def holder_def split: option.splits)

lemma acquireShardLocks_spec:
  assumes "acquireShardLocks faults session d L = (d', L', e)"
  shows "sd_running d' = sd_running d" "sd_active d' = sd_active d" "sd_lockConn d' = sd_lockConn d"
    "holder L k = Some s \<Longrightarrow> holder L' k = Some s"
    "set (sd_ownedShards d) \<subseteq> set (sd_ownedShardsList d) \<Longrightarrow> set (sd_ownedShards d') \<subseteq> set (sd_ownedShardsList d')"
    "\<lbrakk>e = None; set (sd_ownedShards d) \<subseteq> set (sd_ownedShardsList d); k \<in> set (sd_ownedShardsList d')\<rbrakk> \<Longrightarrow> holder L' k = Some session"
proof -
  obtain owned L1 e1 where a: "acquire_loop faults session (sd_ownedShardsList d) (sd_ownedShards d) L = (owned, L1, e1)"
    using prod_cases3 by blast
  note spec = acquire_loop_spec [OF a]
  show "sd_running d' = sd_running d" "sd_active d' = sd_active d" "sd_lockConn d' = sd_lockConn d"
    using assms a by (auto simp: acquireShardLocks_def Let_def split: option.splits if_splits)
  have L: "L' = L1"
    using assms a by (auto simp: acquireShardLocks_def Let_def split: option.splits if_splits)
  show "holder L k = Some s \<Longrightarrow> holder L' k = Some s"
    using spec unfolding L by blast
  show "set (sd_ownedShards d') \<subseteq> set (sd_ownedShardsList d')" if "set (sd_ownedShards d) \<subseteq> set (sd_ownedShardsList d)"
  proof -
    have "sd_ownedShards d' = owned \<and> (sd_ownedShardsList d' = sd_ownedShardsList d \<or> sd_ownedShardsList d' = sort owned)"
      using assms a by (auto simp: acquireShardLocks_def Let_def split: option.splits if_splits)
    then show ?thesis
      using spec that by auto
  qed
  show "holder L' k = Some session"
    if "e = None" "set (sd_ownedShards d) \<subseteq> set (sd_ownedShardsList d)" "k \<in> set (sd_ownedShardsList d')"
  proof -
    have "e1 = None" "k \<in> set owned"
      using assms a that(1,3) by (auto simp: acquireShardLocks_def Let_def split: option.splits if_splits)
    then show ?thesis
      using spec that(2) unfolding L by blast
  qed
qed

lemma sharded_Start_spec:
  assumes "sharded_Start (Inr s) faults table rfaults names d L = (d', L', e)" "\<not> sd_running d" "\<not> sd_active d"
    "set (sd_ownedShards d) \<subseteq> set (sd_ownedShardsList d)"
  shows "sd_running d'" "set (sd_ownedShards d') \<subseteq> set (sd_ownedShardsList d')"
    "uses_session d' s' \<Longrightarrow> s' = s" "\<lbrakk>holder L k = Some s'; s' \<noteq> s\<rbrakk> \<Longrightarrow> holder L' k = Some s'"
    "sd_active d' \<Longrightarrow> uses_session d' s" "\<lbrakk>sd_active d'; k \<in> set (sd_ownedShardsList d')\<rbrakk> \<Longrightarrow> holder L' k = Some s"
proof -
  let ?d2 = "d\<lparr>sd_running := True, sd_lockConn := Some (s, False)\<rparr>"
  obtain d3 L1 e1 where a: "acquireShardLocks faults s ?d2 L = (d3, L1, e1)"
    using prod_cases3 by blast
  note spec = acquireShardLocks_spec [OF a, simplified]
  have res: "(d', L', e) = (case e1 of Some m \<Rightarrow> (d3\<lparr>sd_lockConn := Some (s, True)\<rparr>, L1, Some m)
      | None \<Rightarrow> (case table of Some m \<Rightarrow> (d3\<lparr>sd_lockConn := Some (s, True)\<rparr>, releaseAllLocks rfaults d3 L1, Some m)
        | None \<Rightarrow> (d3\<lparr>sd_disp := start_dispatcher (d_config (sd_disp d3)) names, sd_active := True\<rparr>, L1, None)))"
    using assms(1,2) by (simp add: sharded_Start_def Let_def a split: option.splits)
  show "sd_running d'" "set (sd_ownedShards d') \<subseteq> set (sd_ownedShardsList d')" "uses_session d' s' \<Longrightarrow> s' = s"
      "sd_active d' \<Longrightarrow> uses_session d' s"
    using res spec(1-3) spec(5) assms(3,4) by (auto simp: uses_session_def split: option.splits)
  show "holder L' k = Some s'" if "holder L k = Some s'" "s' \<noteq> s"
  proof -
    have "holder L1 k = Some s'"
      by (rule spec(4) [OF that(1)])
    moreover from this have "holder (releaseAllLocks rfaults d3 L1) k = Some s'"
      using that(2) spec(3) by (intro releaseAllLocks_holder) (simp_all add: uses_session_def)
    ultimately show ?thesis
      using res by (auto split: option.splits)
  qed
  show "holder L' k = Some s" if "sd_active d'" "k \<in> set (sd_ownedShardsList d')"
    using res spec(2) spec(6) [of k] assms(3,4) that by (auto split: option.splits)
qed

lemma sharded_Start_error:
  "sharded_Start (Inl msg) faults table rfaults names d L = (d', L', e) \<Longrightarrow> L' = L \<and> (d' = d \<or> \<not> sd_running d \<and> d' = d\<lparr>sd_running := True\<rparr>)"
  by (auto simp: sharded_Start_def split: if_splits)

lemma cluster_invD:
  assumes "cluster_inv st"
  shows "\<lbrakk>uses_session (cl_inst st i) s; uses_session (cl_inst st j) s\<rbrakk> \<Longrightarrow> i = j"
    "sd_active (cl_inst st i) \<Longrightarrow> sd_running (cl_inst st i)"
    "set (sd_ownedShards (cl_inst st i)) \<subseteq> set (sd_ownedShardsList (cl_inst st i))"
    "\<lbrakk>live_session st i s; k \<in> set (sd_ownedShardsList (cl_inst st i))\<rbrakk> \<Longrightarrow> holder (cl_locks st) k = Some s"
  using assms unfolding cluster_inv_def by blast+

lemma cluster_invI:
  assumes "\<And>i j s. \<lbrakk>uses_session (cl_inst st i) s; uses_session (cl_inst st j) s\<rbrakk> \<Longrightarrow> i = j"
    "\<And>i. sd_active (cl_inst st i) \<Longrightarrow> sd_running (cl_inst st i)"
    "\<And>i. set (sd_ownedShards (cl_inst st i)) \<subseteq> set (sd_ownedShardsList (cl_inst st i))"
    "\<And>i s k. \<lbrakk>live_session st i s; k \<in> set (sd_ownedShardsList (cl_inst st i))\<rbrakk> \<Longrightarrow> holder (cl_locks st) k = Some s"
  shows "cluster_inv st"
  unfolding cluster_inv_def using assms by blast

text \<open>One instance changes; the locks of the others' sessions stay.\<close>

lemma cluster_inv_change:
  assumes "cluster_inv st"
    and "\<And>s j. \<lbrakk>uses_session d s; uses_session (cl_inst st j) s\<rbrakk> \<Longrightarrow> j = i"
    and "sd_active d \<Longrightarrow> sd_running d" "set (sd_ownedShards d) \<subseteq> set (sd_ownedShardsList d)"
    and "\<And>j s k. \<lbrakk>j \<noteq> i; uses_session (cl_inst st j) s; holder (cl_locks st) k = Some s\<rbrakk> \<Longrightarrow> holder L k = Some s"
    and "\<And>s k. \<lbrakk>sd_active d; uses_session d s; s \<notin> cl_dead st; k \<in> set (sd_ownedShardsList d)\<rbrakk> \<Longrightarrow> holder L k = Some s"
  shows "cluster_inv (st\<lparr>cl_inst := (cl_inst st)(i := d), cl_locks := L\<rparr>)"
proof (rule cluster_invI, goal_cases)
  case (1 j j' s)
  then show ?case
    using assms(2) [of s j] assms(2) [of s j'] cluster_invD(1) [OF assms(1), of j s j'] by (auto split: if_splits)
next
  case (4 j s k)
  show ?case
  proof (cases "j = i")
    case True
    then show ?thesis
      using 4 assms(6) [of s k] by (simp add: live_session_def)
  next
    case False
    then have live: "live_session st j s" "k \<in> set (sd_ownedShardsList (cl_inst st j))"
      using 4 by (simp_all add: live_session_def)
    then show ?thesis
      using assms(5) [OF False, of s k] cluster_invD(4) [OF assms(1) live] by (simp add: live_session_def)
  qed
qed (use assms(3,4) cluster_invD(2,3) [OF assms(1)] in auto)

lemma cluster_step_inv:
  assumes "cluster_step st st'" "cluster_inv st"
  shows "cluster_inv st'"
  using assms
proof (induction rule: cluster_step.induct)
  case (started s st faults tab rfaults names i d L e)
  note inv = cluster_invD [OF started(4)]
  show ?case
  proof (cases "sd_running (cl_inst st i)")
    case True
    then have "d = cl_inst st i" "L = cl_locks st"
      using started(3) by (simp_all add: sharded_Start_def)
    then show ?thesis
      using started(4) by simp
  next
    case False
    then have idle: "\<not> sd_active (cl_inst st i)"
      using inv(2) by blast
    note spec = sharded_Start_spec [OF started(3) False idle inv(3)]
    show ?thesis
    proof (rule cluster_inv_change [OF started(4)], goal_cases)
      case (1 s' j)
      then show ?case
        using spec(3) [of s'] started(2) by auto
    next
      case (4 j s' k)
      then show ?case
        using spec(4) [of k s'] started(2) by auto
    next
      case (5 s' k)
      then show ?case
        using spec(3) [of s'] spec(6) [of k] by simp
    qed (simp_all add: spec(1,2))
  qed
next
  case (not_connected msg faults tab rfaults names st i d L e)
  note inv = cluster_invD [OF not_connected(2)]
  have L: "L = cl_locks st" and d: "d = cl_inst st i \<or> \<not> sd_running (cl_inst st i) \<and> d = (cl_inst st i)\<lparr>sd_running := True\<rparr>"
    using sharded_Start_error [OF not_connected(1)] by simp_all
  have same: "uses_session d = uses_session (cl_inst st i)" "sd_ownedShards d = sd_ownedShards (cl_inst st i)"
      "sd_ownedShardsList d = sd_ownedShardsList (cl_inst st i)" "sd_active d = sd_active (cl_inst st i)"
    using d by (auto simp: uses_session_def fun_eq_iff)
  show ?case
  proof (rule cluster_inv_change [OF not_connected(2)], goal_cases)
    case (1 s j)
    then show ?case
      using inv(1) [of j s i] by (simp add: same)
  next
    case 2
    then show ?case
      using d inv(2) [of i] by auto
  next
    case (5 s k)
    then show ?case
      using inv(4) [of i s k] by (simp add: same L live_session_def)
  qed (simp_all add: same inv(3) L)
next
  case (stopped faults st i d L)
  note inv = cluster_invD [OF stopped(2)]
  show ?case
  proof (cases "sd_running (cl_inst st i)")
    case False
    then have "d = cl_inst st i" "L = cl_locks st"
      using stopped(1) by (simp_all add: sharded_Stop_def)
    then show ?thesis
      using stopped(2) by simp
  next
    case True
    let ?d = "(cl_inst st i)\<lparr>sd_running := False, sd_active := False\<rparr>"
    have d: "d = ?d\<lparr>sd_lockConn := None\<rparr>" "L = releaseAllLocks faults ?d (cl_locks st)"
      using stopped(1) True by (auto simp: sharded_Stop_def Let_def)
    show ?thesis
    proof (rule cluster_inv_change [OF stopped(2)], goal_cases)
      case (4 j s k)
      have "\<not> uses_session ?d s"
        using inv(1) [of i s j] 4 by (auto simp: uses_session_def)
      then show ?case
        using releaseAllLocks_holder [OF 4(3)] d(2) by simp
    qed (use inv(3) [of i] in \<open>auto simp: d(1) uses_session_def\<close>)
  qed
next
  case (session_lost st s)
  note inv = cluster_invD [OF session_lost]
  show ?case
  proof (rule cluster_invI, goal_cases)
    case (4 j s' k)
    then have "live_session st j s'" "s' \<noteq> s" "k \<in> set (sd_ownedShardsList (cl_inst st j))"
      by (simp_all add: live_session_def)
    then show ?case
      using end_session_holder [OF inv(4)] by simp
  next
    case (1 i j s')
    then show ?case
      using inv(1) [of i s' j] by simp
  next
    case (2 i)
    then show ?case
      using inv(2) [of i] by simp
  next
    case (3 i)
    then show ?case
      using inv(3) [of i] by simp
  qed
next
  case (heartbeat st i s)
  note inv = cluster_invD [OF heartbeat(3)]
  let ?d = "verifyLockHealth (s \<notin> cl_dead st) (cl_inst st i)"
  have d: "uses_session ?d = uses_session (cl_inst st i)" "sd_active ?d = sd_active (cl_inst st i)" "sd_running ?d = sd_running (cl_inst st i)"
      "?d = cl_inst st i \<or> sd_ownedShardsList ?d = [] \<and> sd_ownedShards ?d = []"
    by (auto simp: verifyLockHealth_def uses_session_def fun_eq_iff split: option.splits)
  have "cluster_inv (st\<lparr>cl_inst := (cl_inst st)(i := ?d), cl_locks := cl_locks st\<rparr>)"
  proof (rule cluster_inv_change [OF heartbeat(3)], goal_cases)
    case (1 s' j)
    then show ?case
      using inv(1) [of j s' i] by (simp add: d)
  next
    case (5 s' k)
    then show ?case
      using inv(4) [of i s' k] d by (auto simp: live_session_def)
  next
    case 3
    then show ?case
      using d(4) inv(3) [of i] by (elim disjE) simp_all
  qed (use d(2,3) inv(2) [of i] in simp_all)
  then show ?case
    by simp
next
  case (drained st i disp)
  note inv = cluster_invD [OF drained(2)]
  have "cluster_inv (st\<lparr>cl_inst := (cl_inst st)(i := (cl_inst st i)\<lparr>sd_disp := disp\<rparr>), cl_locks := cl_locks st\<rparr>)"
  proof (rule cluster_inv_change [OF drained(2)], goal_cases)
    case (1 s' j)
    then show ?case
      using inv(1) [of j s' i] by (simp add: uses_session_def)
  next
    case (5 s' k)
    then show ?case
      using inv(4) [of i s' k] by (simp add: live_session_def uses_session_def)
  qed (use inv(2,3) [of i] in simp_all)
  then show ?case
    by simp
qed

lemma NewShardedDispatcher_shape:
  "NewShardedDispatcher hasDB c = Inr d \<Longrightarrow>
     sd_lockConn d = None \<and> \<not> sd_active d \<and> set (sd_ownedShards d) \<subseteq> set (sd_ownedShardsList d)"
  by (auto simp: NewShardedDispatcher_def Let_def split: if_splits)

lemma cluster_reachable_inv: "cluster_reachable cfg st \<Longrightarrow> cluster_inv st"
proof (induction rule: cluster_reachable.induct)
  case (init inst)
  have "sd_lockConn (inst i) = None" "\<not> sd_active (inst i)" "set (sd_ownedShards (inst i)) \<subseteq> set (sd_ownedShardsList (inst i))" for i
    using NewShardedDispatcher_shape [OF init [of i]] by simp_all
  then show ?case
    by (intro cluster_invI) (simp_all add: uses_session_def live_session_def)
next
  case (step st st')
  then show ?case
    using cluster_step_inv by blast
qed

lemma filter_batch_owned:
  "e \<in> set (filter_batch shards batch es acc) \<Longrightarrow> e \<in> set acc \<or> ev_Partition e \<in> set shards"
  by (induction shards batch es acc rule: filter_batch.induct) (auto simp: Let_def split: if_splits)

lemma fetchEvents_owned:
  assumes "fetchEvents repo None now shards batch s = (s', Inr es)" "e \<in> set es"
  shows "ev_Partition e \<in> set shards"
  using assms filter_batch_owned [of e shards batch _ "[]"] by (auto simp: fetchEvents_def split: prod.splits sum.splits)

text \<open>
  C14: As long as the lock connections of two running instances are alive, the events the two fetch belong to different
  partitions, whatever instances started, stopped, failed to start, lost their session or checked their heartbeat before.
\<close>

theorem live_instances_fetch_disjoint:
  assumes "cluster_reachable cfg st" "live_session st i s" "live_session st j t" "i \<noteq> j"
    and "fetchEvents repo None now (currentShards (cl_inst st i)) b x = (x', Inr es)"
    and "fetchEvents repo None now' (currentShards (cl_inst st j)) b' y = (y', Inr fs)"
  shows "ev_Partition ` set es \<inter> ev_Partition ` set fs = {}"
proof -
  note inv = cluster_invD [OF cluster_reachable_inv [OF assms(1)]]
  have "s \<noteq> t"
    using inv(1) [of i s j] assms(2-4) by (auto simp: live_session_def)
  then have "set (currentShards (cl_inst st i)) \<inter> set (currentShards (cl_inst st j)) = {}"
    using inv(4) [OF assms(2)] inv(4) [OF assms(3)] unfolding currentShards_def by fastforce
  then show ?thesis
    using fetchEvents_owned [OF assms(5)] fetchEvents_owned [OF assms(6)] by fastforce
qed

section \<open>Two instances, concretely\<close>

definition shard_config :: "int list \<Rightarrow> DispatcherConfig" where
  "shard_config owned = DefaultDispatcherConfig\<lparr>dc_ShardCount := 3, dc_OwnedShards := owned\<rparr>"

definition two_configs :: "nat \<Rightarrow> DispatcherConfig" where
  "two_configs i = shard_config (if i = 0 then [0, 1] else [1, 2])"

definition fresh_instance :: "nat \<Rightarrow> shardedDispatcher" where
  "fresh_instance i = \<lparr>sd_disp = start_dispatcher (two_configs i) [], sd_ownedShards = dc_OwnedShards (two_configs i),
     sd_ownedShardsList = dc_OwnedShards (two_configs i), sd_lockConn = None, sd_running = False, sd_active = False\<rparr>"

lemma fresh_instance: "NewShardedDispatcher True (two_configs i) = Inr (fresh_instance i)"
  by (simp add: NewShardedDispatcher_def fresh_instance_def two_configs_def shard_config_def DefaultDispatcherConfig_def Let_def)

definition owner_of :: "nat \<Rightarrow> int list \<Rightarrow> nat \<Rightarrow> shardedDispatcher" where
  "owner_of i shards session = (fresh_instance i)\<lparr>sd_running := True, sd_lockConn := Some (session, False), sd_ownedShards := shards,
     sd_ownedShardsList := shards, sd_disp := start_dispatcher (two_configs i) [''console''], sd_active := True\<rparr>"

definition started_first :: cluster where
  "started_first = \<lparr>cl_inst = fresh_instance(0 := owner_of 0 [0, 1] 10), cl_locks = (\<lambda>_. None)(0 \<mapsto> (10, 1), 1 \<mapsto> (10, 1)), cl_dead = {}\<rparr>"

lemma started_first_reachable: "cluster_reachable two_configs started_first"
proof -
  let ?s0 = "\<lparr>cl_inst = fresh_instance, cl_locks = (\<lambda>_. None), cl_dead = {}\<rparr>"
  have r0: "cluster_reachable two_configs ?s0"
    by (rule cluster_reachable.init) (rule fresh_instance)
  have st: "sharded_Start (Inr 10) (\<lambda>_. None) None (\<lambda>_. None) [''console''] (cl_inst ?s0 0) (cl_locks ?s0)
      = (owner_of 0 [0, 1] 10, (\<lambda>_. None)(0 \<mapsto> (10, 1), 1 \<mapsto> (10, 1)), None)"
    by (simp add: sharded_Start_def acquireShardLocks_def pg_try_advisory_lock_def fresh_instance_def owner_of_def two_configs_def
        shard_config_def start_dispatcher_def Let_def)
  have "cluster_step ?s0 (?s0\<lparr>cl_inst := (cl_inst ?s0)(0 := owner_of 0 [0, 1] 10), cl_locks := (\<lambda>_. None)(0 \<mapsto> (10, 1), 1 \<mapsto> (10, 1))\<rparr>)"
    by (rule cluster_step.started [OF _ _ st]) (simp_all add: uses_session_def fresh_instance_def)
  then show ?thesis
    using cluster_reachable.step [OF r0] by (simp add: started_first_def)
qed

definition two_events :: "'s \<Rightarrow> 's \<times> (string, Event list) result" where
  "two_events s = (s, Inr [sample_event 3\<lparr>ev_Partition := 1\<rparr>, sample_event 5\<lparr>ev_Partition := 2\<rparr>])"

text \<open>The second instance asks for shards 1 and 2 and gets only 2, so the two events go to one instance each.\<close>

lemma live_instances_fetch_disjoint_witness:
  "\<exists>st (es :: Event list) (fs :: Event list). cluster_reachable two_configs st \<and> live_session st 0 10 \<and> live_session st 1 11
     \<and> map ev_ID es = [3] \<and> map ev_ID fs = [5] \<and> ev_Partition ` set es \<inter> ev_Partition ` set fs = {}"
proof -
  let ?L = "(\<lambda>_. None)(0 \<mapsto> (10, 1), 1 \<mapsto> (10, 1), 2 \<mapsto> (11, 1))"
  let ?st = "started_first\<lparr>cl_inst := (cl_inst started_first)(1 := owner_of 1 [2] 11), cl_locks := ?L\<rparr>"
  let ?repo = "postgresRepository\<lparr>repo_GetPendingEvents := \<lambda>_ _. two_events\<rparr>"
  have st: "sharded_Start (Inr 11) (\<lambda>_. None) None (\<lambda>_. None) [''console''] (cl_inst started_first 1) (cl_locks started_first)
      = (owner_of 1 [2] 11, ?L, None)"
    by (simp add: started_first_def sharded_Start_def acquireShardLocks_def pg_try_advisory_lock_def fresh_instance_def owner_of_def
        two_configs_def shard_config_def start_dispatcher_def Let_def)
  have "cluster_step started_first ?st"
    by (rule cluster_step.started [OF _ _ st]) (simp_all add: started_first_def uses_session_def fresh_instance_def owner_of_def)
  then have r: "cluster_reachable two_configs ?st"
    by (rule cluster_reachable.step [OF started_first_reachable])
  have live: "live_session ?st 0 10" "live_session ?st 1 11"
    by (simp_all add: live_session_def started_first_def uses_session_def owner_of_def)
  have f0: "fetchEvents ?repo None 0 (currentShards (cl_inst ?st 0)) 10 sample_outbox = (sample_outbox, Inr [sample_event 3\<lparr>ev_Partition := 1\<rparr>])"
    by (simp add: fetchEvents_def two_events_def currentShards_def started_first_def owner_of_def Let_def)
  have f1: "fetchEvents ?repo None 0 (currentShards (cl_inst ?st 1)) 10 sample_outbox = (sample_outbox, Inr [sample_event 5\<lparr>ev_Partition := 2\<rparr>])"
    by (simp add: fetchEvents_def two_events_def currentShards_def started_first_def owner_of_def Let_def)
  have disj: "ev_Partition ` set [sample_event 3\<lparr>ev_Partition := 1\<rparr>] \<inter> ev_Partition ` set [sample_event 5\<lparr>ev_Partition := 2\<rparr>] = {}"
    by (rule live_instances_fetch_disjoint [OF r live _ f0 f1]) simp
  have ids: "map ev_ID [sample_event 3\<lparr>ev_Partition := 1\<rparr>] = [3]" "map ev_ID [sample_event 5\<lparr>ev_Partition := 2\<rparr>] = [5]"
    by (simp_all add: sample_event_def)
  show ?thesis
    by (intro exI conjI) (rule r live ids disj)+
qed

section \<open>Where ownership fails\<close>

text \<open>Between the loss of a session and the next heartbeat, the old owner still drains the shards another instance has taken.\<close>

lemma lost_session_shares_shard:
  "\<exists>st. cluster_reachable two_configs st \<and> sd_active (cl_inst st 0) \<and> sd_active (cl_inst st 1)
     \<and> 1 \<in> set (currentShards (cl_inst st 0)) \<and> 1 \<in> set (currentShards (cl_inst st 1))"
proof -
  let ?s1 = "started_first\<lparr>cl_locks := end_session 10 (cl_locks started_first), cl_dead := insert 10 (cl_dead started_first)\<rparr>"
  have r1: "cluster_reachable two_configs ?s1"
    by (rule cluster_reachable.step [OF started_first_reachable cluster_step.session_lost])
  let ?L = "(end_session 10 (cl_locks started_first))(1 \<mapsto> (11, 1), 2 \<mapsto> (11, 1))"
  have st: "sharded_Start (Inr 11) (\<lambda>_. None) None (\<lambda>_. None) [''console''] (cl_inst ?s1 1) (cl_locks ?s1)
      = (owner_of 1 [1, 2] 11, ?L, None)"
    by (simp add: started_first_def end_session_def sharded_Start_def acquireShardLocks_def pg_try_advisory_lock_def fresh_instance_def
        owner_of_def two_configs_def shard_config_def start_dispatcher_def Let_def)
  let ?s2 = "?s1\<lparr>cl_inst := (cl_inst ?s1)(1 := owner_of 1 [1, 2] 11), cl_locks := ?L\<rparr>"
  have "cluster_step ?s1 ?s2"
    by (rule cluster_step.started [OF _ _ st]) (simp_all add: started_first_def uses_session_def fresh_instance_def owner_of_def)
  then have "cluster_reachable two_configs ?s2"
    by (rule cluster_reachable.step [OF r1])
  then show ?thesis
    by (intro exI [of _ ?s2]) (simp add: started_first_def owner_of_def currentShards_def)
qed

text \<open>
  A start that fails on a later shard leaves the earlier ones locked by a session nobody uses: neither the failure path nor
  \<^verbatim>\<open>Stop\<close> releases them, and a second \<^verbatim>\<open>Start\<close> reports success without starting anything.
\<close>

lemma failed_start_keeps_lock:
  fixes msg :: string and s :: nat
  defines "faults \<equiv> (\<lambda>_. None)(1 := Some msg)"
    and "d \<equiv> (fresh_instance 0)\<lparr>sd_running := True, sd_lockConn := Some (s, True)\<rparr>"
    and "L \<equiv> (\<lambda>_. None)(0 \<mapsto> (s, 1))"
  shows "sharded_Start (Inr s) faults None (\<lambda>_. None) names (fresh_instance 0) (\<lambda>_. None)
      = (d, L, Some (''failed to acquire advisory lock: '' @ msg))"
    "holder (snd (sharded_Stop (\<lambda>_. None) d L)) 0 = Some s"
    "sharded_Start conn faults' tab rfaults names' d L = (d, L, None) \<and> \<not> sd_active d"
  by (simp_all add: assms sharded_Start_def acquireShardLocks_def pg_try_advisory_lock_def fresh_instance_def two_configs_def
      shard_config_def Let_def sharded_Stop_def releaseAllLocks_def holder_def)

text \<open>
  Over the PostgreSQL repository, which neither writes nor reads the partition column, every fetched event has partition 0, so
  an instance that does not own shard 0 never publishes anything.
\<close>

lemma postgres_fetch_partition_zero:
  assumes "fetchEvents postgresRepository None now shards batch db = (db', Inr es)" "e \<in> set es"
  shows "ev_Partition e = 0" "0 \<in> set shards"
proof -
  obtain db1 events where g: "GetPendingEvents now (batch * int (length shards)) db = (db1, Inr events)"
      and es: "es = filter_batch shards batch events []"
    using assms(1) by (auto simp: fetchEvents_def split: prod.splits sum.splits)
  have ev: "ev_Partition x = 0" if h: "x \<in> set events" for x
  proof -
    have "\<exists>rows. events = take (nat (batch * int (length shards))) (map scanEvent rows)"
      using g unfolding GetPendingEvents_def by (rule ob_stmt_cases) (auto simp: ob_select_def split: if_splits)
    then obtain rows where "x \<in> set (map scanEvent rows)"
      using h by (blast dest: in_set_takeD)
    then show ?thesis
      by (auto simp: scanEvent_def)
  qed
  have sub: "x \<in> set acc \<or> x \<in> set evs" if "x \<in> set (filter_batch shards batch evs acc)" for x evs acc
    using that by (induction shards batch evs acc rule: filter_batch.induct) (auto simp: Let_def split: if_splits)
  show z: "ev_Partition e = 0"
    using sub [of e events "[]"] ev assms(2) es by auto
  show "0 \<in> set shards"
    using fetchEvents_owned [OF assms] z by simp
qed

end
