(* ===== verification/Outbox_Service.thy ===== *)
theory Outbox_Service
  imports Sharded_Dispatcher Hash_Ring
begin

text \<open>
  The outbox service (\<^verbatim>\<open>internal/outbox/service.go\<close>) with the optional encryption of sensitive events (\<^verbatim>\<open>jwe_publisher.go\<close>,
  \<^verbatim>\<open>jwe.go\<close>, \<^verbatim>\<open>sensitive.go\<close>) and the subscriber keys in PostgreSQL (\<^verbatim>\<open>subscriber_key.go\<close>).  JSON and the JWE library are
  parameters; the clock and fresh identifiers come with the call.
\<close>

section \<open>Values and envelopes\<close>

datatype go_value = GoNil | GoString string | GoNumber int | GoTime time | GoID uuid | GoMap "(string \<times> go_value) list" | GoOther string

record EventData =
  ed_Type :: string
  ed_Data :: go_value
  ed_Timestamp :: time
  ed_ID :: string
  ed_Encrypted :: bool
  ed_JWE :: string
  ed_KeyID :: string
  ed_SubscriberID :: string

record jwe_api =
  ja_marshal_envelope :: "EventData \<Rightarrow> (string, string) result"
  ja_unmarshal_envelope :: "string \<Rightarrow> (string, EventData) result"
  ja_marshal :: "go_value \<Rightarrow> (string, string) result"
  ja_ParseKey :: "string \<Rightarrow> (string, string) result"
  ja_Encrypt :: "string \<Rightarrow> string \<Rightarrow> (string, string) result"

text \<open>A permanent error has a reason and perhaps an underlying error.\<close>

datatype outbox_error = PermanentPublishError string "string option" | PlainError string

definition IsPermanentPublishError :: "outbox_error \<Rightarrow> bool" where
  "IsPermanentPublishError e = (case e of PermanentPublishError _ _ \<Rightarrow> True | PlainError _ \<Rightarrow> False)"

definition error_text :: "outbox_error \<Rightarrow> string" where
  "error_text e = (case e of
      PermanentPublishError reason None \<Rightarrow> reason
    | PermanentPublishError reason (Some err) \<Rightarrow> reason @ '': '' @ err
    | PlainError m \<Rightarrow> m)"

definition Encrypt :: "jwe_api \<Rightarrow> go_value \<Rightarrow> string \<Rightarrow> (string, string) result" where
  "Encrypt A payload publicJWK = (case ja_marshal A payload of
      Inl e \<Rightarrow> Inl (''marshal payload: '' @ e)
    | Inr plaintext \<Rightarrow>
        (case ja_ParseKey A publicJWK of
           Inl e \<Rightarrow> Inl (''parse JWK: '' @ e)
         | Inr key \<Rightarrow>
             (case ja_Encrypt A plaintext key of
                Inl e \<Rightarrow> Inl (''encrypt payload: '' @ e)
              | Inr c \<Rightarrow> Inr c)))"

section \<open>Sensitive event types\<close>

definition DefaultSensitiveEventTypes :: "string list" where
  "DefaultSensitiveEventTypes = [''webhook.received'', ''payment.processed'']"

definition NewSensitiveEventRegistry :: "string list \<Rightarrow> string list" where
  "NewSensitiveEventRegistry eventTypes = map TrimSpace (if eventTypes = [] then DefaultSensitiveEventTypes else eventTypes)"

definition IsSensitive :: "string list option \<Rightarrow> string \<Rightarrow> bool" where
  "IsSensitive r eventType = (case r of None \<Rightarrow> False | Some types \<Rightarrow> eventType \<in> set types)"

definition string_entry :: "string \<Rightarrow> (string \<times> go_value) list \<Rightarrow> string" where
  "string_entry k m = (case map_of m k of Some (GoString s) \<Rightarrow> s | _ \<Rightarrow> [])"

definition envelope_subscriber :: "jwe_api \<Rightarrow> string \<Rightarrow> string" where
  "envelope_subscriber A raw =
     (case ja_unmarshal_envelope A raw of
        Inl _ \<Rightarrow> []
      | Inr env \<Rightarrow>
          if ed_SubscriberID env \<noteq> [] then ed_SubscriberID env
          else (case ed_Data env of
                  GoMap m \<Rightarrow> if string_entry ''subscriber_id'' m \<noteq> [] then string_entry ''subscriber_id'' m
                              else string_entry ''customer_id'' m
                | _ \<Rightarrow> []))"

definition ResolveSubscriberID :: "jwe_api \<Rightarrow> Event \<Rightarrow> string" where
  "ResolveSubscriberID A event =
     (case (ev_AggregateType event, ev_AggregateID event) of
        (Some ty, Some i) \<Rightarrow> if ToLower ty = ''subscriber'' \<and> i \<noteq> [] then i else envelope_subscriber A (ev_EventData event)
      | _ \<Rightarrow> envelope_subscriber A (ev_EventData event))"

section \<open>Subscriber keys\<close>

datatype SubscriberKeyStatus = SubscriberKeyActive | SubscriberKeyRevoked | SubscriberKeyExpired

record SubscriberKey =
  sk_ID :: uuid
  sk_SubscriberID :: string
  sk_KeyID :: string
  sk_JWK :: string
  sk_Status :: "SubscriberKeyStatus option"
  sk_ExpiresAt :: "time option"
  sk_CreatedAt :: "time option"
  sk_UpdatedAt :: time

record key_db =
  kd_rows :: "SubscriberKey list"
  kd_faults :: "string option list"

datatype key_error = ErrMissingSubscriberKey | ErrNoRows | KeyError string

definition key_error_text :: "key_error \<Rightarrow> string" where
  "key_error_text e = (case e of
      ErrMissingSubscriberKey \<Rightarrow> ''missing subscriber encryption key''
    | ErrNoRows \<Rightarrow> ''sql: no rows in result set''
    | KeyError m \<Rightarrow> m)"

definition kd_stmt :: "string \<Rightarrow> (key_db \<Rightarrow> key_db \<times> (key_error, 'a) result) \<Rightarrow> key_db \<Rightarrow> key_db \<times> (key_error, 'a) result" where
  "kd_stmt msg f db = (case kd_faults db of
      [] \<Rightarrow> f db
    | None # fs \<Rightarrow> f (db\<lparr>kd_faults := fs\<rparr>)
    | Some e # fs \<Rightarrow> (db\<lparr>kd_faults := fs\<rparr>, Inl (KeyError (msg @ e))))"

text \<open>The zero status and creation time are \<^verbatim>\<open>None\<close>; the stored row always has both.\<close>

definition key_Create :: "time \<Rightarrow> uuid \<Rightarrow> SubscriberKey \<Rightarrow> key_db \<Rightarrow> key_db \<times> (key_error, unit) result" where
  "key_Create now fresh key =
     (let k1 = key\<lparr>sk_ID := (if sk_ID key = 0 then fresh else sk_ID key),
                sk_CreatedAt := (if sk_CreatedAt key = None then Some now else sk_CreatedAt key),
                sk_UpdatedAt := now,
                sk_Status := (if sk_Status key = None then Some SubscriberKeyActive else sk_Status key)\<rparr>
      in kd_stmt ''create subscriber key: ''
           (\<lambda>db. if sk_ID k1 \<in> sk_ID ` set (kd_rows db)
                  then (db, Inl (KeyError ''create subscriber key: duplicate key value violates unique constraint''))
                  else (db\<lparr>kd_rows := kd_rows db @ [k1]\<rparr>, Inr ())))"

definition key_GetByID :: "uuid \<Rightarrow> key_db \<Rightarrow> key_db \<times> (key_error, SubscriberKey) result" where
  "key_GetByID i = kd_stmt []
     (\<lambda>db. (db, case find (\<lambda>k. sk_ID k = i) (kd_rows db) of None \<Rightarrow> Inl ErrNoRows | Some k \<Rightarrow> Inr k))"

definition newest_first :: "SubscriberKey list \<Rightarrow> SubscriberKey list" where
  "newest_first = sort_slice (\<lambda>a b. case (sk_CreatedAt a, sk_CreatedAt b) of (Some x, Some y) \<Rightarrow> y < x | _ \<Rightarrow> False)"

definition ListBySubscriber :: "string \<Rightarrow> key_db \<Rightarrow> key_db \<times> (key_error, SubscriberKey list) result" where
  "ListBySubscriber subscriberID = kd_stmt ''list subscriber keys: ''
     (\<lambda>db. (db, Inr (newest_first (filter (\<lambda>k. sk_SubscriberID k = subscriberID) (kd_rows db)))))"

definition usable :: "time \<Rightarrow> string \<Rightarrow> SubscriberKey \<Rightarrow> bool" where
  "usable now subscriberID k \<longleftrightarrow> sk_SubscriberID k = subscriberID \<and> sk_Status k = Some SubscriberKeyActive
     \<and> (case sk_ExpiresAt k of None \<Rightarrow> True | Some t \<Rightarrow> now < t)"

definition GetActiveKey :: "time \<Rightarrow> string \<Rightarrow> key_db \<Rightarrow> key_db \<times> (key_error, SubscriberKey) result" where
  "GetActiveKey now subscriberID = kd_stmt ''get active subscriber key: ''
     (\<lambda>db. (db, case newest_first (filter (usable now subscriberID) (kd_rows db)) of
                   [] \<Rightarrow> Inl ErrMissingSubscriberKey | k # _ \<Rightarrow> Inr k))"

definition key_UpdateStatus :: "time \<Rightarrow> uuid \<Rightarrow> SubscriberKeyStatus \<Rightarrow> key_db \<Rightarrow> key_db \<times> (key_error, unit) result" where
  "key_UpdateStatus now i st = kd_stmt ''update subscriber key status: ''
     (\<lambda>db. (db\<lparr>kd_rows := map (\<lambda>k. if sk_ID k = i then k\<lparr>sk_Status := Some st, sk_UpdatedAt := now\<rparr> else k) (kd_rows db)\<rparr>,
             if i \<in> sk_ID ` set (kd_rows db) then Inr () else Inl ErrNoRows))"

section \<open>The encrypting publisher\<close>

text \<open>The events handed to the inner publisher and the error returned.\<close>

definition clear_payload :: "Event \<Rightarrow> go_value \<Rightarrow> string \<Rightarrow> go_value" where
  "clear_payload event data subscriberID = GoMap
     [(''id'', GoID (ev_ID event)), (''type'', GoString (ev_EventType event)), (''data'', data),
      (''occurred_at'', GoTime (ev_OccurredAt event)),
      (''aggregate_id'', case ev_AggregateID event of None \<Rightarrow> GoNil | Some a \<Rightarrow> GoString a),
      (''aggregate_type'', case ev_AggregateType event of None \<Rightarrow> GoNil | Some a \<Rightarrow> GoString a),
      (''version'', GoNumber (ev_Version event)), (''subscriber_id'', GoString subscriberID)]"

definition JWE_Publish :: "jwe_api \<Rightarrow> time \<Rightarrow> string list option \<Rightarrow> (Event \<Rightarrow> outbox_error option) \<Rightarrow> Event \<Rightarrow> key_db
    \<Rightarrow> key_db \<times> Event list \<times> outbox_error option" where
  "JWE_Publish A now sensitive inner event db =
     (if \<not> IsSensitive sensitive (ev_EventType event) then (db, [event], inner event)
      else
        let subscriberID = ResolveSubscriberID A event
        in if subscriberID = [] then (db, [], Some (PermanentPublishError ''missing subscriber id for sensitive event'' None))
           else case GetActiveKey now subscriberID db of
             (db1, Inl e) \<Rightarrow> (db1, [], Some (PermanentPublishError ''missing subscriber encryption key'' (Some (key_error_text e))))
           | (db1, Inr key) \<Rightarrow>
               (case ja_unmarshal_envelope A (ev_EventData event) of
                  Inl e \<Rightarrow> (db1, [], Some (PlainError (''unmarshal event data: '' @ e)))
                | Inr env \<Rightarrow>
                    (case Encrypt A (clear_payload event (ed_Data env) subscriberID) (sk_JWK key) of
                       Inl e \<Rightarrow> (db1, [], Some (PlainError (''encrypt sensitive payload: '' @ e)))
                     | Inr jwe \<Rightarrow>
                         (case ja_marshal_envelope A \<lparr>ed_Type = ev_EventType event, ed_Data = GoNil, ed_Timestamp = ed_Timestamp env,
                                 ed_ID = ed_ID env, ed_Encrypted = True, ed_JWE = jwe, ed_KeyID = sk_KeyID key,
                                 ed_SubscriberID = subscriberID\<rparr> of
                            Inl e \<Rightarrow> (db1, [], Some (PlainError (''marshal encrypted envelope: '' @ e)))
                          | Inr j \<Rightarrow> (db1, [event\<lparr>ev_EventData := j\<rparr>], inner (event\<lparr>ev_EventData := j\<rparr>))))))"

definition PrepareEncryptedEventData :: "jwe_api \<Rightarrow> time \<Rightarrow> string \<Rightarrow> string \<Rightarrow> go_value \<Rightarrow> string \<Rightarrow> string list option \<Rightarrow> key_db
    \<Rightarrow> key_db \<times> (outbox_error, string) result" where
  "PrepareEncryptedEventData A now dataID eventType data subscriberID sensitive db =
     (let eventData = \<lparr>ed_Type = eventType, ed_Data = data, ed_Timestamp = now, ed_ID = dataID, ed_Encrypted = False,
            ed_JWE = [], ed_KeyID = [], ed_SubscriberID = subscriberID\<rparr>
      in if \<not> IsSensitive sensitive eventType then (db, map_sum PlainError (\<lambda>j. j) (ja_marshal_envelope A eventData))
         else if subscriberID = [] then (db, Inl (PermanentPublishError ''missing subscriber id for sensitive event'' None))
         else case GetActiveKey now subscriberID db of
           (db1, Inl e) \<Rightarrow> (db1, Inl (PermanentPublishError ''missing subscriber encryption key'' (Some (key_error_text e))))
         | (db1, Inr key) \<Rightarrow>
             (case Encrypt A data (sk_JWK key) of
                Inl e \<Rightarrow> (db1, Inl (PlainError (''encrypt event data: '' @ e)))
              | Inr jwe \<Rightarrow>
                  (db1, map_sum PlainError (\<lambda>j. j) (ja_marshal_envelope A
                     (eventData\<lparr>ed_Encrypted := True, ed_JWE := jwe, ed_KeyID := sk_KeyID key, ed_Data := GoNil\<rparr>)))))"

section \<open>The service\<close>

record JWEConfig =
  jc_Enabled :: bool
  jc_Keys :: bool
  jc_Sensitive :: "string list option"

record outbox_service =
  os_jwe :: "JWEConfig option"
  os_ring :: "ConsistentHashRing option"

record service_env =
  se_now :: time
  se_eventID :: uuid
  se_dataID :: string

definition encrypts :: "outbox_service \<Rightarrow> bool" where
  "encrypts s = (case os_jwe s of None \<Rightarrow> False | Some j \<Rightarrow> jc_Enabled j \<and> jc_Keys j)"

definition sensitive_of :: "outbox_service \<Rightarrow> string list option" where
  "sensitive_of s = (case os_jwe s of
      None \<Rightarrow> None
    | Some j \<Rightarrow> (case jc_Sensitive j of None \<Rightarrow> Some (NewSensitiveEventRegistry []) | Some r \<Rightarrow> Some r))"

definition subscriber_of :: "string option \<Rightarrow> string option \<Rightarrow> go_value \<Rightarrow> string" where
  "subscriber_of aggregateID aggregateType data =
     (let fromAggregate = (case (aggregateType, aggregateID) of
            (Some ty, Some i) \<Rightarrow> if ty = ''subscriber'' then i else []
          | _ \<Rightarrow> [])
      in case data of
           GoMap m \<Rightarrow>
             if string_entry ''subscriber_id'' m \<noteq> [] then string_entry ''subscriber_id'' m
             else if string_entry ''customer_id'' m \<noteq> [] then string_entry ''customer_id'' m
             else fromAggregate
         | _ \<Rightarrow> fromAggregate)"

definition tenantIDString :: "string option \<Rightarrow> string" where
  "tenantIDString t = (case t of None \<Rightarrow> [] | Some s \<Rightarrow> s)"

definition extractTenantID :: "go_value option \<Rightarrow> string option" where
  "extractTenantID v = (case v of Some (GoString s) \<Rightarrow> if s \<noteq> [] then Some s else None | _ \<Rightarrow> None)"

definition plain_envelope :: "service_env \<Rightarrow> go_value \<Rightarrow> string \<Rightarrow> EventData" where
  "plain_envelope env data eventType = \<lparr>ed_Type = eventType, ed_Data = data, ed_Timestamp = se_now env, ed_ID = se_dataID env,
     ed_Encrypted = False, ed_JWE = [], ed_KeyID = [], ed_SubscriberID = []\<rparr>"

text \<open>When marshalling fails, \<^verbatim>\<open>mustMarshalEventData\<close> marshals the same envelope again and ignores the error.\<close>

definition mustMarshalEventData :: "jwe_api \<Rightarrow> service_env \<Rightarrow> string \<Rightarrow> go_value \<Rightarrow> string" where
  "mustMarshalEventData A env eventType data =
     (case ja_marshal_envelope A (plain_envelope env data eventType) of Inl _ \<Rightarrow> [] | Inr j \<Rightarrow> j)"

definition service_event :: "service_env \<Rightarrow> string \<Rightarrow> string \<Rightarrow> string option \<Rightarrow> string option \<Rightarrow> string option \<Rightarrow> string option
    \<Rightarrow> Status \<Rightarrow> string option \<Rightarrow> Event" where
  "service_event env eventType eventData aggregateID aggregateType deduplicationID tenantID st errMsg =
     \<lparr>ev_ID = se_eventID env, ev_TenantID = tenantIDString tenantID, ev_EventType = eventType, ev_EventData = eventData,
      ev_AggregateID = aggregateID, ev_AggregateType = aggregateType, ev_OccurredAt = se_now env, ev_Status = st,
      ev_RetryCount = 0, ev_MaxRetries = 3, ev_NextRetryAt = None, ev_ErrorMessage = errMsg, ev_CreatedAt = se_now env,
      ev_UpdatedAt = se_now env, ev_Version = 1, ev_DeduplicationID = deduplicationID, ev_Partition = 0\<rparr>"

definition buildEvent :: "jwe_api \<Rightarrow> service_env \<Rightarrow> outbox_service \<Rightarrow> string \<Rightarrow> go_value \<Rightarrow> string option \<Rightarrow> string option
    \<Rightarrow> string option \<Rightarrow> string option \<Rightarrow> key_db \<Rightarrow> key_db \<times> (outbox_error, Event) result" where
  "buildEvent A env s eventType data aggregateID aggregateType deduplicationID tenantID db =
     (let subscriberID = subscriber_of aggregateID aggregateType data
      in if encrypts s then
           (case PrepareEncryptedEventData A (se_now env) (se_dataID env) eventType data subscriberID (sensitive_of s) db of
              (db1, Inl e) \<Rightarrow>
                if IsPermanentPublishError e
                then (db1, Inr (service_event env eventType (mustMarshalEventData A env eventType data) aggregateID aggregateType
                        deduplicationID tenantID StatusFailed (Some (error_text e))))
                else (db1, Inl e)
            | (db1, Inr eventData) \<Rightarrow>
                (db1, Inr (service_event env eventType eventData aggregateID aggregateType deduplicationID tenantID StatusPending None)))
         else
           (db, map_sum PlainError (\<lambda>ev. ev\<lparr>ev_TenantID := tenantIDString tenantID\<rparr>)
              (NewEventWithDeduplication (se_now env) (se_eventID env) (\<lambda>ty. ja_marshal_envelope A (plain_envelope env data ty))
                 eventType aggregateID aggregateType deduplicationID)))"

text \<open>
  The transaction is opened and committed on the service's connection pool while \<^verbatim>\<open>repository.Store\<close> runs on the
  repository's own handle: the insert is not part of it.
\<close>

definition storeEventInTransaction :: "Event \<Rightarrow> outbox_db \<Rightarrow> outbox_db \<times> (string, unit) result" where
  "storeEventInTransaction event db =
     (case ob_stmt ''failed to begin transaction: '' (\<lambda>db. (db, Inr ())) db of
        (db1, Inl e) \<Rightarrow> (db1, Inl e)
      | (db1, Inr _) \<Rightarrow>
          (case Store event db1 of
             (db2, Inl e) \<Rightarrow> (db2, Inl (''failed to store event in transaction: '' @ e))
           | (db2, Inr _) \<Rightarrow> ob_stmt ''failed to commit transaction: '' (\<lambda>db. (db, Inr ())) db2))"

definition PublishEvent :: "jwe_api \<Rightarrow> service_env \<Rightarrow> outbox_service \<Rightarrow> go_value option \<Rightarrow> string \<Rightarrow> go_value \<Rightarrow> string option \<Rightarrow> string option
    \<Rightarrow> key_db \<Rightarrow> outbox_db \<Rightarrow> key_db \<times> outbox_db \<times> (string, unit) result" where
  "PublishEvent A env s ctx eventType data aggregateID aggregateType kdb db =
     (case buildEvent A env s eventType data aggregateID aggregateType None (extractTenantID ctx) kdb of
        (kdb1, Inl e) \<Rightarrow> (kdb1, db, Inl (''failed to create event: '' @ error_text e))
      | (kdb1, Inr event) \<Rightarrow>
          let event1 = (case os_ring s of
                Some hr \<Rightarrow> if ev_TenantID event \<noteq> [] then event\<lparr>ev_Partition := GetPartition hr (ev_TenantID event)\<rparr> else event
              | None \<Rightarrow> event)
          in (case storeEventInTransaction event1 db of
                (db1, Inl e) \<Rightarrow> (kdb1, db1, Inl (''failed to store event: '' @ e))
              | (db1, Inr _) \<Rightarrow> (kdb1, db1, Inr ())))"

text \<open>The transaction handed to \<^verbatim>\<open>PublishEventWithTx\<close> is not used.\<close>

definition PublishEventWithTx :: "jwe_api \<Rightarrow> service_env \<Rightarrow> outbox_service \<Rightarrow> go_value option \<Rightarrow> string \<Rightarrow> go_value \<Rightarrow> string option
    \<Rightarrow> string option \<Rightarrow> key_db \<Rightarrow> outbox_db \<Rightarrow> key_db \<times> outbox_db \<times> (string, Event) result" where
  "PublishEventWithTx A env s ctx eventType data aggregateID aggregateType kdb db =
     (case buildEvent A env s eventType data aggregateID aggregateType None (extractTenantID ctx) kdb of
        (kdb1, Inl e) \<Rightarrow> (kdb1, db, Inl (''failed to create event: '' @ error_text e))
      | (kdb1, Inr event) \<Rightarrow>
          (case Store event db of
             (db1, Inl e) \<Rightarrow> (kdb1, db1, Inl (''failed to store event: '' @ e))
           | (db1, Inr _) \<Rightarrow> (kdb1, db1, Inr event)))"

definition GetEventStatus :: "uuid \<Rightarrow> outbox_db \<Rightarrow> outbox_db \<times> (string, Event) result" where
  "GetEventStatus = GetByID"

definition GetPendingEventsCount :: "time \<Rightarrow> outbox_db \<Rightarrow> outbox_db \<times> (string, nat) result" where
  "GetPendingEventsCount now db = (case GetPendingEvents now 1000 db of
      (db1, Inl e) \<Rightarrow> (db1, Inl e)
    | (db1, Inr events) \<Rightarrow> (db1, Inr (length events)))"

definition service_Health :: "string option \<Rightarrow> bool \<Rightarrow> string option" where
  "service_Health ping running = (case ping of
      Some e \<Rightarrow> Some (''database health check failed: '' @ e)
    | None \<Rightarrow> if \<not> running then Some ''dispatcher is not running'' else None)"

section \<open>What encryption guarantees\<close>

lemma map_sum_error: "map_sum f (\<lambda>j. j) x = Inr r \<longleftrightarrow> x = Inr r"
  by (cases x) simp_all

lemma kd_stmt_cases:
  assumes "kd_stmt msg f db = (db', r)"
  obtains e where "r = Inl e" "kd_rows db' = kd_rows db"
  | db1 where "f db1 = (db', r)" "kd_rows db1 = kd_rows db"
  using assms by (auto simp: kd_stmt_def split: list.splits option.splits)

lemma GetActiveKey_usable:
  assumes "GetActiveKey now sid db = (db', Inr key)"
  shows "key \<in> set (kd_rows db)" "usable now sid key"
proof -
  have "\<exists>ks. newest_first (filter (usable now sid) (kd_rows db)) = key # ks"
    using assms unfolding GetActiveKey_def by (rule kd_stmt_cases) (auto split: list.splits)
  then have "key \<in> set (newest_first (filter (usable now sid) (kd_rows db)))"
    by (auto simp: list.set_intros)
  then show "key \<in> set (kd_rows db)" "usable now sid key"
    by (simp_all add: newest_first_def)
qed

text \<open>The envelope a sensitive event leaves in: no data, and the ciphertext under a usable key of its subscriber.\<close>

definition sealed :: "jwe_api \<Rightarrow> time \<Rightarrow> key_db \<Rightarrow> string \<Rightarrow> string \<Rightarrow> bool" where
  "sealed A now db sid raw \<longleftrightarrow> (\<exists>key payload jwe env.
     key \<in> set (kd_rows db) \<and> usable now sid key \<and> Encrypt A payload (sk_JWK key) = Inr jwe
     \<and> ja_marshal_envelope A env = Inr raw \<and> ed_Data env = GoNil \<and> ed_Encrypted env \<and> ed_JWE env = jwe \<and> ed_KeyID env = sk_KeyID key)"

lemma sealedI:
  assumes "GetActiveKey now sid db = (db', Inr key)" "Encrypt A payload (sk_JWK key) = Inr jwe" "ja_marshal_envelope A env = Inr raw"
    "ed_Data env = GoNil" "ed_Encrypted env" "ed_JWE env = jwe" "ed_KeyID env = sk_KeyID key"
  shows "sealed A now db sid raw"
  unfolding sealed_def using GetActiveKey_usable [OF assms(1)] assms(2-7) by blast

text \<open>
  C17: What the encrypting publisher hands on for a sensitive event carries no clear data, and its ciphertext was made under an
  active, unexpired key of the event's own subscriber.
\<close>

theorem sensitive_published_sealed:
  assumes "JWE_Publish A now sensitive inner event db = (db', sent, err)" "IsSensitive sensitive (ev_EventType event)"
    and "e \<in> set sent"
  shows "sealed A now db (ResolveSubscriberID A event) (ev_EventData e)"
proof -
  let ?sid = "ResolveSubscriberID A event"
  obtain db1 r where k: "GetActiveKey now ?sid db = (db1, r)"
    by (rule prod.exhaust)
  have sid: "?sid \<noteq> []"
    using assms by (auto simp: JWE_Publish_def)
  note unfolded = assms(1) [unfolded JWE_Publish_def Let_def k prod.case]
  obtain key where key: "r = Inr key"
    using unfolded assms(2,3) sid by (cases r) auto
  obtain env where env: "ja_unmarshal_envelope A (ev_EventData event) = Inr env"
    using unfolded assms(2,3) sid key by (cases "ja_unmarshal_envelope A (ev_EventData event)") auto
  obtain jwe where jwe: "Encrypt A (clear_payload event (ed_Data env) ?sid) (sk_JWK key) = Inr jwe"
    using unfolded assms(2,3) sid key env by (cases "Encrypt A (clear_payload event (ed_Data env) ?sid) (sk_JWK key)") auto
  let ?out = "\<lparr>ed_Type = ev_EventType event, ed_Data = GoNil, ed_Timestamp = ed_Timestamp env, ed_ID = ed_ID env, ed_Encrypted = True,
    ed_JWE = jwe, ed_KeyID = sk_KeyID key, ed_SubscriberID = ?sid\<rparr>"
  obtain j where j: "ja_marshal_envelope A ?out = Inr j"
    using unfolded assms(2,3) sid key env jwe by (cases "ja_marshal_envelope A ?out") auto
  have "ev_EventData e = j"
    using unfolded assms(2,3) sid key env jwe j by auto
  then show ?thesis
    using sealedI [OF k [unfolded key] jwe j] by simp
qed

section \<open>Where it fails\<close>

text \<open>
  C30: With encryption on, a sensitive event is encrypted when it is stored, which empties its data, and again when it is
  published: what the subscriber can decrypt then carries no data, whatever the event was about.
\<close>

theorem encrypted_twice_loses_data:
  assumes json: "\<And>e raw. ed_Data e = GoNil \<Longrightarrow> ja_marshal_envelope A e = Inr raw \<Longrightarrow> ja_unmarshal_envelope A raw = Inr e"
    and "encrypts s" "IsSensitive (sensitive_of s) eventType"
    and "buildEvent A env s eventType data aggregateID aggregateType dedup tenant kdb = (kdb1, Inr event)" "ev_Status event = StatusPending"
    and "JWE_Publish A now (sensitive_of s) inner event kdb1 = (kdb2, [e], err)"
    and "ja_unmarshal_envelope A (ev_EventData e) = Inr delivered"
  shows "\<exists>key \<in> set (kd_rows kdb1). Encrypt A (clear_payload event GoNil (ResolveSubscriberID A event)) (sk_JWK key) = Inr (ed_JWE delivered)"
proof -
  let ?sub = "subscriber_of aggregateID aggregateType data" and ?sid = "ResolveSubscriberID A event"
  obtain kdb' r where prep: "PrepareEncryptedEventData A (se_now env) (se_dataID env) eventType data ?sub (sensitive_of s) kdb = (kdb', r)"
    by (rule prod.exhaust)
  obtain raw where raw: "r = Inr raw" and event: "ev_EventData event = raw" "ev_EventType event = eventType"
    using assms(2,4,5) by (cases r) (auto simp: buildEvent_def Let_def prep service_event_def split: if_splits)
  have "\<exists>st. ja_marshal_envelope A st = Inr raw \<and> ed_Data st = GoNil"
    using prep raw assms(3)
    by (auto simp: PrepareEncryptedEventData_def Let_def map_sum_error split: if_splits prod.splits sum.splits)
  then obtain st where st: "ja_unmarshal_envelope A (ev_EventData event) = Inr st" "ed_Data st = GoNil"
    using json event by blast
  obtain db1 k where key: "GetActiveKey now ?sid kdb1 = (db1, k)"
    by (rule prod.exhaust)
  note unfolded = assms(6) [unfolded JWE_Publish_def Let_def key prod.case event(2) st(1) st(2)]
  have sid: "?sid \<noteq> []"
    using unfolded assms(3) by auto
  obtain kk where kk: "k = Inr kk"
    using unfolded assms(3) sid by (cases k) auto
  obtain jwe where jwe: "Encrypt A (clear_payload event GoNil ?sid) (sk_JWK kk) = Inr jwe"
    using unfolded assms(3) sid kk st by (cases "Encrypt A (clear_payload event GoNil ?sid) (sk_JWK kk)") auto
  let ?out = "\<lparr>ed_Type = eventType, ed_Data = GoNil, ed_Timestamp = ed_Timestamp st, ed_ID = ed_ID st, ed_Encrypted = True,
    ed_JWE = jwe, ed_KeyID = sk_KeyID kk, ed_SubscriberID = ?sid\<rparr>"
  obtain j where j: "ja_marshal_envelope A ?out = Inr j"
    using unfolded assms(3) sid kk st jwe by (cases "ja_marshal_envelope A ?out") auto
  have "ev_EventData e = j"
    using unfolded assms(3) sid kk st jwe j by auto
  then have "delivered = ?out"
    using json [OF _ j] assms(7) by simp
  then show ?thesis
    using jwe GetActiveKey_usable(1) [OF key [unfolded kk]] by auto
qed

text \<open>A sensitive event whose subscriber has no usable key is stored with its data in the clear.\<close>

lemma missing_key_stores_clear_data:
  assumes "encrypts s" "IsSensitive (sensitive_of s) eventType" "kd_faults kdb = []" "filter (usable (se_now env) sid) (kd_rows kdb) = []"
    and "sid = subscriber_of aggregateID aggregateType data"
  shows "\<exists>ev. snd (buildEvent A env s eventType data aggregateID aggregateType dedup tenant kdb) = Inr ev
    \<and> ev_EventData ev = mustMarshalEventData A env eventType data \<and> ev_Status ev = StatusFailed"
  using assms by (auto simp: buildEvent_def Let_def PrepareEncryptedEventData_def GetActiveKey_def kd_stmt_def newest_first_def
      sort_slice_def IsPermanentPublishError_def service_event_def)

text \<open>A failed commit is reported although the event is stored: the insert was never part of the transaction.\<close>

lemma commit_failure_leaves_event:
  assumes "ob_faults db = [None, None, Some err]" "\<not> violates_unique event (ob_events db)"
  shows "storeEventInTransaction event db = (db\<lparr>ob_events := ob_events db @ [event\<lparr>ev_Partition := 0\<rparr>], ob_faults := []\<rparr>,
    Inl (''failed to commit transaction: '' @ err))"
  using assms by (simp add: storeEventInTransaction_def ob_stmt_def ob_next_fault_def Store_def)

text \<open>The partition that \<^verbatim>\<open>PublishEvent\<close> computes never reaches the table.\<close>

lemma stored_partition_zero:
  assumes "storeEventInTransaction event db = (db', Inr u)"
  shows "ob_events db' = ob_events db @ [event\<lparr>ev_Partition := 0\<rparr>]"
proof -
  obtain db1 r1 where b: "ob_stmt ''failed to begin transaction: '' (\<lambda>db. (db, Inr ())) db = (db1, r1)"
    by (rule prod.exhaust)
  obtain db2 r2 where s: "Store event db1 = (db2, r2)"
    by (rule prod.exhaust)
  have r: "\<exists>u1 u2. r1 = Inr u1 \<and> r2 = Inr u2" and c: "ob_stmt ''failed to commit transaction: '' (\<lambda>db. (db, Inr ())) db2 = (db', Inr u)"
    using assms unfolding storeEventInTransaction_def b prod.case by (cases r1; cases r2; simp add: s)+
  have "ob_events db1 = ob_events db" "ob_events db' = ob_events db2"
    using ob_stmt_read [OF b] ob_stmt_read [OF c] by (simp_all add: same_tables_def)
  moreover have "ob_events db2 = ob_events db1 @ [event\<lparr>ev_Partition := 0\<rparr>]"
    using s [unfolded Store_def] r by (elim ob_stmt_cases) (auto simp: same_tables_def split: if_splits)
  ultimately show ?thesis
    by simp
qed

section \<open>A sensitive payment event\<close>

definition sample_key :: SubscriberKey where
  "sample_key = \<lparr>sk_ID = 9, sk_SubscriberID = ''sub1'', sk_KeyID = ''k1'', sk_JWK = ''pub'', sk_Status = Some SubscriberKeyActive,
     sk_ExpiresAt = None, sk_CreatedAt = Some 1, sk_UpdatedAt = 1\<rparr>"

definition sample_keys :: key_db where
  "sample_keys = \<lparr>kd_rows = [sample_key], kd_faults = []\<rparr>"

definition sealed_envelope :: EventData where
  "sealed_envelope = \<lparr>ed_Type = ''payment.processed'', ed_Data = GoNil, ed_Timestamp = 5, ed_ID = ''d1'', ed_Encrypted = True,
     ed_JWE = ''C'', ed_KeyID = ''k1'', ed_SubscriberID = ''sub1''\<rparr>"

definition sample_jwe_api :: jwe_api where
  "sample_jwe_api = \<lparr>ja_marshal_envelope = (\<lambda>e. if e = sealed_envelope then Inr ''1'' else Inl ''unsupported''),
     ja_unmarshal_envelope = (\<lambda>r. if r = ''1'' then Inr sealed_envelope else Inl ''unsupported''),
     ja_marshal = (\<lambda>_. Inr ''{}''), ja_ParseKey = Inr, ja_Encrypt = (\<lambda>_ _. Inr ''C'')\<rparr>"

definition sample_service :: outbox_service where
  "sample_service = \<lparr>os_jwe = Some \<lparr>jc_Enabled = True, jc_Keys = True, jc_Sensitive = Some [''payment.processed'']\<rparr>, os_ring = None\<rparr>"

definition sealed_event :: Event where
  "sealed_event = service_event \<lparr>se_now = 5, se_eventID = 7, se_dataID = ''d1''\<rparr> ''payment.processed'' ''1'' None None None None StatusPending None"

lemma sample_build:
  "buildEvent sample_jwe_api \<lparr>se_now = 5, se_eventID = 7, se_dataID = ''d1''\<rparr> sample_service ''payment.processed''
     (GoMap [(''subscriber_id'', GoString ''sub1''), (''amount'', GoNumber 100)]) None None None None sample_keys = (sample_keys, Inr sealed_event)"
  by (simp add: buildEvent_def encrypts_def sensitive_of_def sample_service_def PrepareEncryptedEventData_def IsSensitive_def
      subscriber_of_def string_entry_def GetActiveKey_def kd_stmt_def sample_keys_def sample_key_def usable_def newest_first_def sort_slice_def
      Encrypt_def sample_jwe_api_def sealed_envelope_def sealed_event_def Let_def)

lemma sample_publish:
  "JWE_Publish sample_jwe_api 6 (Some [''payment.processed'']) (\<lambda>_. None) sealed_event sample_keys = (sample_keys, [sealed_event], None)"
  by (simp add: JWE_Publish_def IsSensitive_def ResolveSubscriberID_def envelope_subscriber_def sealed_event_def service_event_def
      GetActiveKey_def kd_stmt_def sample_keys_def sample_key_def usable_def newest_first_def sort_slice_def
      Encrypt_def sample_jwe_api_def sealed_envelope_def Let_def)

lemma sample_subscriber: "ResolveSubscriberID sample_jwe_api sealed_event = ''sub1''"
  by (simp add: ResolveSubscriberID_def envelope_subscriber_def sealed_event_def service_event_def sample_jwe_api_def sealed_envelope_def)

lemma sensitive_published_sealed_witness: "sealed sample_jwe_api 6 sample_keys ''sub1'' ''1''"
proof -
  have "sealed sample_jwe_api 6 sample_keys (ResolveSubscriberID sample_jwe_api sealed_event) (ev_EventData sealed_event)"
    by (rule sensitive_published_sealed [OF sample_publish]) (simp_all add: IsSensitive_def sealed_event_def service_event_def)
  then show ?thesis
    by (simp only: sample_subscriber) (simp add: sealed_event_def service_event_def)
qed

lemma encrypted_twice_loses_data_witness:
  "\<exists>key \<in> set (kd_rows sample_keys).
     Encrypt sample_jwe_api (clear_payload sealed_event GoNil ''sub1'') (sk_JWK key) = Inr (ed_JWE sealed_envelope)"
proof -
  have sens: "sensitive_of sample_service = Some [''payment.processed'']"
    by (simp add: sensitive_of_def sample_service_def)
  have "\<exists>key \<in> set (kd_rows sample_keys). Encrypt sample_jwe_api
      (clear_payload sealed_event GoNil (ResolveSubscriberID sample_jwe_api sealed_event)) (sk_JWK key) = Inr (ed_JWE sealed_envelope)"
  proof (rule encrypted_twice_loses_data [OF _ _ _ sample_build _ _])
    show "ja_unmarshal_envelope sample_jwe_api raw = Inr e"
      if "ja_marshal_envelope sample_jwe_api e = Inr raw" for e raw
      using that by (simp add: sample_jwe_api_def split: if_splits)
    show "encrypts sample_service"
      by (simp add: encrypts_def sample_service_def)
    show "IsSensitive (sensitive_of sample_service) ''payment.processed''"
      by (simp add: sens IsSensitive_def)
    show "ev_Status sealed_event = StatusPending"
      by (simp add: sealed_event_def service_event_def)
    show "JWE_Publish sample_jwe_api 6 (sensitive_of sample_service) (\<lambda>_. None) sealed_event sample_keys = (sample_keys, [sealed_event], None)"
      unfolding sens by (rule sample_publish)
    show "ja_unmarshal_envelope sample_jwe_api (ev_EventData sealed_event) = Inr sealed_envelope"
      by (simp add: sample_jwe_api_def sealed_event_def service_event_def)
  qed
  then show ?thesis
    by (simp only: sample_subscriber)
qed

end
