(* ===== verification/Audit_Log.thy ===== *)
theory Audit_Log
  imports Prelude "HOL-Library.Sublist"
begin

text \<open>
  The audit log (\<^verbatim>\<open>internal/audit\<close>): the logger with its redaction, the file and memory sinks that chain events by hash, \<^verbatim>\<open>Verify\<close>,
  the segment exporter of \<^verbatim>\<open>exporter.go\<close> and the nightly export of \<^verbatim>\<open>internal/worker/audit_exporter.go\<close>.  A file is its
  content, or \<^verbatim>\<open>None\<close> when it does not exist; JSON and SHA-256 are parameters; the outcome of a system call is an input.
\<close>

section \<open>Events, hashes and lines\<close>

datatype meta_value = MetaString string | MetaInt int | MetaBool bool

record AuditLogEvent =
  al_Timestamp :: "time option"
  al_RequestID :: string
  al_Actor :: string
  al_Action :: string
  al_Resource :: string
  al_Outcome :: string
  al_Metadata :: "(string \<times> meta_value) list option"
  al_PrevHash :: string
  al_Hash :: string

record audit_api =
  aj_marshal :: "AuditLogEvent \<Rightarrow> (string, string) result"
  aj_unmarshal :: "string \<Rightarrow> (string, AuditLogEvent) result"
  aj_sha :: "string \<Rightarrow> string"
  aj_sprint :: "meta_value \<Rightarrow> string"

text \<open>A failed marshalling is ignored: the hash is then that of the empty text.\<close>

definition ComputeHash :: "audit_api \<Rightarrow> AuditLogEvent \<Rightarrow> string" where
  "ComputeHash A e = aj_sha A (case aj_marshal A (e\<lparr>al_Hash := []\<rparr>) of Inl _ \<Rightarrow> [] | Inr s \<Rightarrow> s)"

text \<open>\<^verbatim>\<open>bufio.Scanner\<close> over lines: a final carriage return is dropped, and a line of 64 KiB or more ends the scan with an error.\<close>

definition line_feed :: char where
  "line_feed = CHR 0x0A"

fun scan_from :: "string \<Rightarrow> string \<Rightarrow> string list" where
  "scan_from cur [] = (if cur = [] then [] else [cur])"
| "scan_from cur (c # cs) = (if c = line_feed then cur # scan_from [] cs else scan_from (cur @ [c]) cs)"

definition drop_cr :: "string \<Rightarrow> string" where
  "drop_cr l = (if l \<noteq> [] \<and> last l = CHR 0x0D then butlast l else l)"

definition MaxScanTokenSize :: nat where
  "MaxScanTokenSize = 65536"

definition scanner_lines :: "string \<Rightarrow> string list \<times> string option" where
  "scanner_lines content =
     (let ls = scan_from [] content
      in (map drop_cr (takeWhile (\<lambda>l. length l < MaxScanTokenSize) ls),
          if list_all (\<lambda>l. length l < MaxScanTokenSize) ls then None else Some ''bufio.Scanner: token too long''))"

section \<open>The sinks\<close>

record FileSink =
  fs_lastHash :: string
  fs_init :: bool

definition NewFileSink :: FileSink where
  "NewFileSink = \<lparr>fs_lastHash = [], fs_init = False\<rparr>"

datatype file_io = IoOK | OpenFails string | WriteFails nat string | ReadFails string

definition loadLastHashLocked :: "audit_api \<Rightarrow> file_io \<Rightarrow> string option \<Rightarrow> FileSink \<Rightarrow> FileSink \<times> string option" where
  "loadLastHashLocked A io file s = (case io of
      ReadFails e \<Rightarrow> (s, Some e)
    | _ \<Rightarrow>
        (case file of
           None \<Rightarrow> (s\<lparr>fs_init := True\<rparr>, None)
         | Some content \<Rightarrow>
             (case scanner_lines content of
                (ls, Some e) \<Rightarrow> (s, Some e)
              | (ls, None) \<Rightarrow>
                  (case filter (\<lambda>l. l \<noteq> []) ls of
                     [] \<Rightarrow> (s\<lparr>fs_init := True\<rparr>, None)
                   | l # rest \<Rightarrow>
                       (case aj_unmarshal A (last (l # rest)) of
                          Inl e \<Rightarrow> (s, Some (''failed to parse last event: '' @ e))
                        | Inr lastEvent \<Rightarrow> (s\<lparr>fs_lastHash := al_Hash lastEvent, fs_init := True\<rparr>, None))))))"

text \<open>The sink, the file, the event as it was filled in, and the error.\<close>

definition file_WriteEvent :: "audit_api \<Rightarrow> file_io \<Rightarrow> AuditLogEvent \<Rightarrow> FileSink \<Rightarrow> string option
    \<Rightarrow> FileSink \<times> string option \<times> AuditLogEvent \<times> string option" where
  "file_WriteEvent A io e s file =
     (case (if fs_init s then (s, None) else loadLastHashLocked A io file s) of
        (s1, Some err) \<Rightarrow> (s1, file, e, Some err)
      | (s1, None) \<Rightarrow>
          let e1 = e\<lparr>al_PrevHash := fs_lastHash s1\<rparr>; e2 = e1\<lparr>al_Hash := ComputeHash A e1\<rparr>
          in case io of
               OpenFails err \<Rightarrow> (s1, file, e2, Some err)
             | _ \<Rightarrow>
                 let content = (case file of None \<Rightarrow> [] | Some c \<Rightarrow> c)
                 in case aj_marshal A e2 of
                      Inl err \<Rightarrow> (s1, Some content, e2, Some err)
                    | Inr encoded \<Rightarrow>
                        (case io of
                           WriteFails n err \<Rightarrow> (s1, Some (content @ take n (encoded @ [line_feed])), e2, Some err)
                         | _ \<Rightarrow> (s1\<lparr>fs_lastHash := al_Hash e2\<rparr>, Some (content @ encoded @ [line_feed]), e2, None)))"

record MemoryLog =
  mk_entries :: "AuditLogEvent list"
  mk_lastHash :: string

definition memory_WriteEvent :: "audit_api \<Rightarrow> AuditLogEvent \<Rightarrow> MemoryLog \<Rightarrow> MemoryLog \<times> AuditLogEvent" where
  "memory_WriteEvent A e s =
     (let e1 = e\<lparr>al_PrevHash := mk_lastHash s\<rparr>; e2 = e1\<lparr>al_Hash := ComputeHash A e1\<rparr>
      in (\<lparr>mk_entries = mk_entries s @ [e2], mk_lastHash = al_Hash e2\<rparr>, e2))"

section \<open>The logger\<close>

definition sensitiveKeys :: "string list" where
  "sensitiveKeys = [''password'', ''token'', ''secret'', ''auth'', ''key'', ''cvv'', ''card'']"

definition contains :: "string \<Rightarrow> string \<Rightarrow> bool" where
  "contains s sub \<longleftrightarrow> sublist sub s"

definition redact :: "audit_api \<Rightarrow> (string \<times> meta_value) list option \<Rightarrow> (string \<times> meta_value) list option" where
  "redact A meta = (case meta of
      None \<Rightarrow> None
    | Some m \<Rightarrow> Some (map (\<lambda>(k, v).
        (k, if list_ex (\<lambda>sk. contains (ToLower k) sk \<or> contains (ToLower (aj_sprint A v)) ''bearer'') sensitiveKeys
            then MetaString ''[REDACTED]'' else v)) m))"

definition logged :: "audit_api \<Rightarrow> time \<Rightarrow> AuditLogEvent \<Rightarrow> AuditLogEvent" where
  "logged A now e = e\<lparr>al_Timestamp := (case al_Timestamp e of None \<Rightarrow> Some now | t \<Rightarrow> t), al_Metadata := redact A (al_Metadata e)\<rparr>"

definition Log :: "audit_api \<Rightarrow> time \<Rightarrow> file_io \<Rightarrow> AuditLogEvent \<Rightarrow> FileSink \<Rightarrow> string option
    \<Rightarrow> FileSink \<times> string option \<times> (string, AuditLogEvent) result" where
  "Log A now io e s file = (case file_WriteEvent A io (logged A now e) s file of
      (s1, f1, e1, Some err) \<Rightarrow> (s1, f1, Inl (''failed to write to sink: '' @ err))
    | (s1, f1, e1, None) \<Rightarrow> (s1, f1, Inr e1))"

text \<open>The headers and values \<^verbatim>\<open>ResolveActor\<close> looks at, in its order.\<close>

definition ResolveActor :: "string option \<Rightarrow> (string \<Rightarrow> string) \<Rightarrow> string \<Rightarrow> string" where
  "ResolveActor actor header clientIP =
     (case actor of
        Some s \<Rightarrow> if TrimSpace s \<noteq> [] then TrimSpace s else
          (if TrimSpace (header ''X-Actor'') \<noteq> [] then TrimSpace (header ''X-Actor'')
           else if TrimSpace (header ''X-User'') \<noteq> [] then TrimSpace (header ''X-User'') else clientIP)
      | None \<Rightarrow>
          (if TrimSpace (header ''X-Actor'') \<noteq> [] then TrimSpace (header ''X-Actor'')
           else if TrimSpace (header ''X-User'') \<noteq> [] then TrimSpace (header ''X-User'') else clientIP))"

text \<open>
  The events the request middlewares hand to the logger.
\<close>

definition new_event :: "string \<Rightarrow> string \<Rightarrow> string \<Rightarrow> string \<Rightarrow> (string \<times> meta_value) list \<Rightarrow> AuditLogEvent" where
  "new_event actor action resource outcome meta = \<lparr>al_Timestamp = None, al_RequestID = [], al_Actor = actor, al_Action = action,
     al_Resource = resource, al_Outcome = outcome, al_Metadata = Some meta, al_PrevHash = [], al_Hash = []\<rparr>"

record audited_request =
  hr_FullPath :: string
  hr_Method :: string
  hr_ClientIP :: string
  hr_actor :: "string option"
  hr_Header :: "string \<Rightarrow> string"

definition request_actor :: "audited_request \<Rightarrow> string" where
  "request_actor r = ResolveActor (hr_actor r) (hr_Header r) (hr_ClientIP r)"

definition logAuthFailure :: "audited_request \<Rightarrow> string list \<Rightarrow> string \<Rightarrow> AuditLogEvent" where
  "logAuthFailure r errors status =
     (let reason = (case errors of [] \<Rightarrow> [] | e # _ \<Rightarrow> e);
          meta = [(''path'', MetaString (hr_FullPath r)), (''method'', MetaString (hr_Method r)), (''status'', MetaString status),
                  (''auth_header'', MetaString (hr_Header r ''Authorization''))]
                 @ (if reason \<noteq> [] then [(''reason'', MetaString reason)] else [])
      in new_event (request_actor r) ''auth_failure'' (hr_FullPath r) ''failure'' meta)"

definition AuditMiddleware :: "string \<Rightarrow> string \<Rightarrow> string \<Rightarrow> string \<Rightarrow> int \<Rightarrow> int \<Rightarrow> AuditLogEvent" where
  "AuditMiddleware method path remoteAddr userAgent status latency =
     new_event ''user_id_from_context'' method path (if status \<ge> 400 then ''failure'' else ''success'')
       [(''latency_ms'', MetaInt latency), (''status'', MetaInt status), (''ip'', MetaString remoteAddr), (''user_agent'', MetaString userAgent)]"

section \<open>Verification of a log\<close>

fun verify_lines :: "audit_api \<Rightarrow> string \<Rightarrow> string list \<Rightarrow> string option" where
  "verify_lines A expectedPrev [] = None"
| "verify_lines A expectedPrev (l # ls) =
     (if l = [] then verify_lines A expectedPrev ls
      else case aj_unmarshal A l of
             Inl e \<Rightarrow> Some (''invalid JSON: '' @ e)
           | Inr e \<Rightarrow>
               if al_PrevHash e \<noteq> expectedPrev then Some ''broken chain''
               else if ComputeHash A e \<noteq> al_Hash e then Some ''hash mismatch''
               else verify_lines A (al_Hash e) ls)"

definition Verify :: "audit_api \<Rightarrow> file_io \<Rightarrow> string option \<Rightarrow> string option" where
  "Verify A io file = (case io of
      OpenFails e \<Rightarrow> Some e
    | _ \<Rightarrow>
        (case file of
           None \<Rightarrow> Some ''no such file''
         | Some content \<Rightarrow>
             (case scanner_lines content of
                (ls, err) \<Rightarrow> (case verify_lines A [] ls of Some e \<Rightarrow> Some e | None \<Rightarrow> err))))"

section \<open>The segment exporter\<close>

text \<open>\<open>hash\<close> is the keyed hash the exporter expects; the clock is an argument.\<close>

record WORMExporter =
  we_buffer :: "AuditLogEvent list"
  we_maxSize :: int
  we_rotateTime :: duration
  we_lastExport :: time

definition NewWORMExporter :: "int \<Rightarrow> duration \<Rightarrow> time \<Rightarrow> WORMExporter" where
  "NewWORMExporter maxSize rotateTime now = \<lparr>we_buffer = [], we_maxSize = maxSize, we_rotateTime = rotateTime, we_lastExport = now\<rparr>"

definition shouldRotate :: "time \<Rightarrow> WORMExporter \<Rightarrow> bool" where
  "shouldRotate now e \<longleftrightarrow> we_maxSize e > 0 \<and> int (length (we_buffer e)) \<ge> we_maxSize e
     \<or> we_rotateTime e > 0 \<and> now - we_lastExport e \<ge> we_rotateTime e"

fun segment_ok :: "(AuditLogEvent \<Rightarrow> string) \<Rightarrow> string option \<Rightarrow> AuditLogEvent list \<Rightarrow> bool" where
  "segment_ok hash prev [] = True"
| "segment_ok hash prev (ev # evs) \<longleftrightarrow> al_Hash ev = hash ev \<and> (case prev of None \<Rightarrow> True | Some h \<Rightarrow> al_PrevHash ev = h)
     \<and> segment_ok hash (Some (al_Hash ev)) evs"

text \<open>The answer of signing and uploading is an input; a segment that does not verify panics with the buffer already emptied.\<close>

datatype rotate_answer = Rotated "AuditLogEvent list" | RotateFailed string | RotatePanic

definition Rotate :: "(AuditLogEvent \<Rightarrow> string) \<Rightarrow> string option \<Rightarrow> time \<Rightarrow> WORMExporter \<Rightarrow> WORMExporter \<times> rotate_answer" where
  "Rotate hash failure now e =
     (if we_buffer e = [] then (e, Rotated [])
      else
        let events = we_buffer e; e1 = e\<lparr>we_buffer := [], we_lastExport := now\<rparr>
        in if \<not> segment_ok hash None events then (e1, RotatePanic)
           else case failure of
                  Some err \<Rightarrow> (e1\<lparr>we_buffer := events @ we_buffer e1\<rparr>, RotateFailed err)
                | None \<Rightarrow> (e1, Rotated events))"

definition worm_WriteEvent :: "(AuditLogEvent \<Rightarrow> string) \<Rightarrow> string option \<Rightarrow> time \<Rightarrow> AuditLogEvent \<Rightarrow> WORMExporter \<Rightarrow> WORMExporter \<times> rotate_answer" where
  "worm_WriteEvent hash failure now ev e =
     (let e1 = e\<lparr>we_buffer := we_buffer e @ [ev]\<rparr>
      in if shouldRotate now e1 then Rotate hash failure now e1 else (e1, Rotated []))"

section \<open>The nightly export\<close>

text \<open>
  The flat record of a toggle; \<open>stop\<close> is after how many lines the context is done, \<open>write\<close> the error of writing the
  \<open>n\<close>-th record.
\<close>

record export_record =
  er_timestamp :: "time option"
  er_actor :: string
  er_action :: string
  er_resource :: string
  er_outcome :: string
  er_reason :: "meta_value option"
  er_before :: "meta_value option"
  er_after :: "meta_value option"
  er_hash :: string

definition meta_at :: "AuditLogEvent \<Rightarrow> string \<Rightarrow> meta_value option" where
  "meta_at e k = (case al_Metadata e of None \<Rightarrow> None | Some m \<Rightarrow> map_of m k)"

definition toggle_record :: "AuditLogEvent \<Rightarrow> export_record" where
  "toggle_record e = \<lparr>er_timestamp = al_Timestamp e, er_actor = al_Actor e, er_action = al_Action e, er_resource = al_Resource e, er_outcome = al_Outcome e,
     er_reason = meta_at e ''reason'', er_before = meta_at e ''before_enabled'', er_after = meta_at e ''after_enabled'', er_hash = al_Hash e\<rparr>"

fun export_lines :: "audit_api \<Rightarrow> (nat \<Rightarrow> string option) \<Rightarrow> nat option \<Rightarrow> export_record list \<Rightarrow> string list \<Rightarrow> export_record list \<times> string option" where
  "export_lines A write stop out [] = (out, None)"
| "export_lines A write stop out (l # ls) =
     (if stop = Some 0 then (out, Some ''context canceled'')
      else
        let stop1 = map_option (\<lambda>n. n - 1) stop
        in case aj_unmarshal A l of
             Inl _ \<Rightarrow> export_lines A write stop1 out ls
           | Inr e \<Rightarrow>
               if al_Action e \<noteq> ''feature_flag_toggle'' then export_lines A write stop1 out ls
               else (case write (length out) of
                       Some err \<Rightarrow> (out, Some (''failed to write to export file: '' @ err))
                     | None \<Rightarrow> export_lines A write stop1 (out @ [toggle_record e]) ls))"

definition export_Run :: "audit_api \<Rightarrow> string option \<Rightarrow> string option \<Rightarrow> (nat \<Rightarrow> string option) \<Rightarrow> nat option \<Rightarrow> string option
    \<Rightarrow> export_record list option \<times> string option" where
  "export_Run A inErr outErr write stop file = (case file of
      None \<Rightarrow> (None, None)
    | Some content \<Rightarrow>
        (case inErr of
           Some e \<Rightarrow> (None, Some (''failed to open audit log: '' @ e))
         | None \<Rightarrow>
             (case outErr of
                Some e \<Rightarrow> (None, Some (''failed to open export file: '' @ e))
              | None \<Rightarrow>
                  (case scanner_lines content of
                     (ls, serr) \<Rightarrow>
                       (case export_lines A write stop [] ls of
                          (out, Some e) \<Rightarrow> (Some out, Some e)
                        | (out, None) \<Rightarrow> (Some out, map_option (\<lambda>e. ''error reading audit log: '' @ e) serr))))))"

section \<open>The logger's own file verifies\<close>

text \<open>
  What is relied on of JSON: an encoded event is a nonempty text without a line break, and decoding it gives an event
  with the same two hashes and the same canonical text.
\<close>

definition json_stable :: "audit_api \<Rightarrow> bool" where
  "json_stable A \<longleftrightarrow> (\<forall>e s. aj_marshal A e = Inr s \<longrightarrow> s \<noteq> [] \<and> line_feed \<notin> set s \<and> last s \<noteq> CHR 0x0D
     \<and> (\<exists>e'. aj_unmarshal A s = Inr e' \<and> al_PrevHash e' = al_PrevHash e \<and> al_Hash e' = al_Hash e
           \<and> aj_marshal A (e'\<lparr>al_Hash := []\<rparr>) = aj_marshal A (e\<lparr>al_Hash := []\<rparr>)))"

lemma json_stableD:
  assumes "json_stable A" "aj_marshal A e = Inr s"
  shows "s \<noteq> []" "line_feed \<notin> set s" "drop_cr s = s"
    "\<exists>e'. aj_unmarshal A s = Inr e' \<and> al_PrevHash e' = al_PrevHash e \<and> al_Hash e' = al_Hash e \<and> ComputeHash A e' = ComputeHash A e"
  using assms unfolding json_stable_def by (auto simp: drop_cr_def ComputeHash_def) metis

text \<open>Lines whose events are linked, from the hash before the first to that of the last.\<close>

fun chain_from :: "audit_api \<Rightarrow> string \<Rightarrow> string list \<Rightarrow> string \<Rightarrow> bool" where
  "chain_from A prev [] h \<longleftrightarrow> h = prev"
| "chain_from A prev (l # ls) h \<longleftrightarrow>
     (\<exists>e. aj_marshal A e = Inr l \<and> al_PrevHash e = prev \<and> al_Hash e = ComputeHash A e \<and> chain_from A (al_Hash e) ls h)"

lemma chain_from_snoc:
  "\<lbrakk>chain_from A prev ls (al_PrevHash e); aj_marshal A e = Inr l; al_Hash e = ComputeHash A e\<rbrakk> \<Longrightarrow> chain_from A prev (ls @ [l]) (al_Hash e)"
  by (induction ls arbitrary: prev) auto

lemma chain_from_line: "\<lbrakk>chain_from A prev ls h; l \<in> set ls\<rbrakk> \<Longrightarrow> \<exists>e. aj_marshal A e = Inr l"
  by (induction ls arbitrary: prev) auto

lemma chain_from_last: "\<lbrakk>chain_from A prev ls h; ls \<noteq> []\<rbrakk> \<Longrightarrow> \<exists>e. aj_marshal A e = Inr (last ls) \<and> al_Hash e = h"
  by (induction ls arbitrary: prev) (auto split: if_splits)

definition file_of :: "string list \<Rightarrow> string" where
  "file_of ls = concat (map (\<lambda>l. l @ [line_feed]) ls)"

lemma scan_from_line: "line_feed \<notin> set l \<Longrightarrow> scan_from cur (l @ line_feed # rest) = (cur @ l) # scan_from [] rest"
  by (induction l arbitrary: cur) auto

lemma scan_file_of: "\<forall>l \<in> set ls. line_feed \<notin> set l \<Longrightarrow> scan_from [] (file_of ls) = ls"
  by (induction ls) (simp_all add: file_of_def scan_from_line)

lemma chain_scan: "\<lbrakk>json_stable A; chain_from A prev ls h\<rbrakk> \<Longrightarrow> scan_from [] (file_of ls) = ls"
  using chain_from_line json_stableD(2) by (intro scan_file_of) blast

lemma scanner_file_of:
  assumes "json_stable A" "chain_from A prev ls h" "\<forall>l \<in> set ls. length l < MaxScanTokenSize"
  shows "scanner_lines (file_of ls) = (ls, None)" "filter (\<lambda>l. l \<noteq> []) ls = ls"
proof -
  have line: "drop_cr l = l \<and> l \<noteq> []" if "l \<in> set ls" for l
    using chain_from_line [OF assms(2) that] json_stableD(1,3) [OF assms(1)] by blast
  then have "scan_from [] (file_of ls) = ls" "map drop_cr ls = ls"
    using chain_scan [OF assms(1,2)] by (simp_all add: map_idI)
  then show "scanner_lines (file_of ls) = (ls, None)"
    using assms(3) by (simp add: scanner_lines_def Let_def list_all_iff takeWhile_eq_all_conv [THEN iffD2])
  show "filter (\<lambda>l. l \<noteq> []) ls = ls"
    using line by simp
qed

lemma chain_verifies: "\<lbrakk>json_stable A; chain_from A prev ls h\<rbrakk> \<Longrightarrow> verify_lines A prev ls = None"
proof (induction ls arbitrary: prev)
  case (Cons l ls)
  obtain e where e: "aj_marshal A e = Inr l" "al_PrevHash e = prev" "al_Hash e = ComputeHash A e" "chain_from A (al_Hash e) ls h"
    using Cons.prems(2) by auto
  obtain e' where e': "aj_unmarshal A l = Inr e'" "al_PrevHash e' = al_PrevHash e" "al_Hash e' = al_Hash e" "ComputeHash A e' = ComputeHash A e"
    using json_stableD(4) [OF Cons.prems(1) e(1)] by auto
  show ?case
    using Cons.IH [OF Cons.prems(1) e(4)] e e' json_stableD(1) [OF Cons.prems(1) e(1)] by simp
qed simp

definition log_inv :: "audit_api \<Rightarrow> FileSink \<Rightarrow> string option \<Rightarrow> string list \<Rightarrow> string \<Rightarrow> bool" where
  "log_inv A s file ls h \<longleftrightarrow> chain_from A [] ls h \<and> (file = None \<and> ls = [] \<or> file = Some (file_of ls))
     \<and> fs_lastHash s = (if fs_init s then h else [])"

lemma load_inv:
  assumes "json_stable A" "log_inv A s file ls h" "\<not> fs_init s" "loadLastHashLocked A io file s = (s', err)"
  shows "s' = s \<and> err \<noteq> None \<or> err = None \<and> fs_init s' \<and> fs_lastHash s' = h"
proof (cases "\<exists>e. io = ReadFails e")
  case True
  then show ?thesis
    using assms(4) by (auto simp: loadLastHashLocked_def)
next
  case False
  have chain: "chain_from A [] ls h"
    using assms(2) by (simp add: log_inv_def)
  show ?thesis
  proof (cases "file = Some (file_of ls) \<and> ls \<noteq> []")
    case True
    obtain e where e: "aj_marshal A e = Inr (last ls)" "al_Hash e = h"
      using chain_from_last [OF chain] True by auto
    obtain e' where e': "aj_unmarshal A (last ls) = Inr e'" "al_Hash e' = h"
      using json_stableD(4) [OF assms(1) e(1)] e(2) by auto
    show ?thesis
    proof (cases "\<forall>l \<in> set ls. length l < MaxScanTokenSize")
      case short: True
      have "loadLastHashLocked A io file s = (s\<lparr>fs_lastHash := h, fs_init := True\<rparr>, None)"
        using False True scanner_file_of [OF assms(1) chain short] e' by (cases io; cases ls) (simp_all add: loadLastHashLocked_def)
      then show ?thesis
        using assms(4) by simp
    next
      case long: False
      then have "snd (scanner_lines (file_of ls)) = Some ''bufio.Scanner: token too long''"
        using chain_scan [OF assms(1) chain] by (auto simp: scanner_lines_def Let_def list_all_iff)
      then have "loadLastHashLocked A io file s = (s, Some ''bufio.Scanner: token too long'')"
        using False True by (cases io; cases "scanner_lines (file_of ls)") (simp_all add: loadLastHashLocked_def)
      then show ?thesis
        using assms(4) by simp
    qed
  next
    case f: False
    then have "file = None \<or> file = Some []" "ls = []" "h = []"
      using assms(2) by (auto simp: log_inv_def file_of_def)
    then have "loadLastHashLocked A io file s = (s\<lparr>fs_init := True\<rparr>, None)"
      using False by (cases io) (auto simp: loadLastHashLocked_def scanner_lines_def)
    then show ?thesis
      using assms(2,3,4) \<open>h = []\<close> by (simp add: log_inv_def)
  qed
qed

text \<open>A write that leaves no partial line behind.\<close>

definition whole :: "file_io \<Rightarrow> bool" where
  "whole io = (case io of WriteFails n _ \<Rightarrow> n = 0 | _ \<Rightarrow> True)"

lemma write_inv:
  assumes "json_stable A" "log_inv A s file ls h" "whole io" "file_WriteEvent A io e s file = (s', file', e', err)"
  shows "\<exists>ls' h'. log_inv A s' file' ls' h'"
proof -
  obtain s1 lerr where load: "(if fs_init s then (s, None) else loadLastHashLocked A io file s) = (s1, lerr)"
    by (rule prod.exhaust)
  have l: "s1 = s \<and> lerr \<noteq> None \<or> lerr = None \<and> fs_init s1 \<and> fs_lastHash s1 = h"
  proof (cases "fs_init s")
    case True
    then show ?thesis
      using load assms(2) by (simp add: log_inv_def)
  next
    case False
    then show ?thesis
      using load load_inv [OF assms(1,2) False] by auto
  qed
  note unf = assms(4) [unfolded file_WriteEvent_def load prod.case Let_def]
  show ?thesis
  proof (cases lerr)
    case (Some m)
    then show ?thesis
      using unf l assms(2) by auto
  next
    case None
    define e1 where "e1 = e\<lparr>al_PrevHash := fs_lastHash s1\<rparr>"
    define e2 where "e2 = e1\<lparr>al_Hash := ComputeHash A e1\<rparr>"
    have e2: "al_PrevHash e2 = h" "al_Hash e2 = ComputeHash A e2"
      using l None by (simp_all add: e2_def e1_def ComputeHash_def)
    have inv: "chain_from A [] ls h" "file = None \<and> ls = [] \<or> file = Some (file_of ls)" "fs_init s1" "fs_lastHash s1 = h"
      using assms(2) l None by (auto simp: log_inv_def)
    let ?content = "case file of None \<Rightarrow> [] | Some c \<Rightarrow> c"
    have content: "?content = file_of ls"
      using inv(2) by (auto simp: file_of_def)
    have "s' = s1 \<and> (file' = file \<or> file' = Some ?content)
        \<or> (\<exists>l. aj_marshal A e2 = Inr l \<and> s' = s1\<lparr>fs_lastHash := al_Hash e2\<rparr> \<and> file' = Some (?content @ l @ [line_feed]))"
      using unf None assms(3) unfolding e1_def [symmetric] e2_def [symmetric]
      by (cases io; cases "aj_marshal A e2") (auto simp: whole_def)
    then show ?thesis
    proof
      assume "s' = s1 \<and> (file' = file \<or> file' = Some ?content)"
      then have "log_inv A s' file' ls h"
        using inv content by (auto simp: log_inv_def)
      then show ?thesis
        by blast
    next
      assume "\<exists>l. aj_marshal A e2 = Inr l \<and> s' = s1\<lparr>fs_lastHash := al_Hash e2\<rparr> \<and> file' = Some (?content @ l @ [line_feed])"
      then obtain l where m: "aj_marshal A e2 = Inr l" "s' = s1\<lparr>fs_lastHash := al_Hash e2\<rparr>" "file' = Some (file_of ls @ l @ [line_feed])"
        unfolding content by blast
      have "log_inv A s' file' (ls @ [l]) (al_Hash e2)"
        using m inv chain_from_snoc [of A "[]" ls e2 l] e2 by (simp add: log_inv_def file_of_def)
      then show ?thesis
        by blast
    qed
  qed
qed

text \<open>Calls of the logger, and restarts of the process, one after the other.\<close>

datatype audit_op = LogOp time file_io AuditLogEvent | Restart

fun run_audit :: "audit_api \<Rightarrow> audit_op list \<Rightarrow> FileSink \<Rightarrow> string option \<Rightarrow> FileSink \<times> string option" where
  "run_audit A [] s file = (s, file)"
| "run_audit A (LogOp now io e # ops) s file = (case Log A now io e s file of (s1, f1, r) \<Rightarrow> run_audit A ops s1 f1)"
| "run_audit A (Restart # ops) s file = run_audit A ops NewFileSink file"

fun whole_op :: "audit_op \<Rightarrow> bool" where
  "whole_op (LogOp now io e) = whole io"
| "whole_op Restart = True"

lemma log_logged_inv:
  assumes "json_stable A" "log_inv A s file ls h" "whole io" "Log A now io e s file = (s', file', r)"
  shows "\<exists>ls' h'. log_inv A s' file' ls' h'"
proof -
  obtain s1 f1 e1 err where w: "file_WriteEvent A io (logged A now e) s file = (s1, f1, e1, err)"
    by (metis prod.exhaust)
  then have "s' = s1" "file' = f1"
    using assms(4) by (auto simp: Log_def split: option.splits)
  then show ?thesis
    using write_inv [OF assms(1,2,3) w] by simp
qed

lemma run_audit_inv:
  "\<lbrakk>json_stable A; log_inv A s file ls h; list_all whole_op ops; run_audit A ops s file = (s', file')\<rbrakk>
    \<Longrightarrow> \<exists>ls' h'. log_inv A s' file' ls' h'"
proof (induction A ops s "file" arbitrary: ls h rule: run_audit.induct)
  case (2 A now io e ops s fl)
  obtain s1 f1 r where l: "Log A now io e s fl = (s1, f1, r)"
    by (metis prod.exhaust)
  obtain ls1 h1 where "log_inv A s1 f1 ls1 h1"
    using log_logged_inv [OF 2(2,3) _ l] 2(4) by auto
  then show ?case
    using 2(1) [OF l [symmetric] refl 2(2)] 2(4,5) l by simp
next
  case (3 A ops s fl)
  have "log_inv A NewFileSink fl ls h"
    using 3(3) by (simp add: log_inv_def NewFileSink_def)
  then show ?case
    using 3(1) [OF 3(2)] 3(4,5) by simp
qed auto


text \<open>An encoding of events by four terminated fields, and a digest of the text itself.\<close>

definition demo_fields :: "AuditLogEvent \<Rightarrow> string list" where
  "demo_fields e = [al_Actor e, al_Action e, al_PrevHash e, al_Hash e]"

definition demo_event :: "string \<Rightarrow> string \<Rightarrow> string \<Rightarrow> string \<Rightarrow> AuditLogEvent" where
  "demo_event actor action prev h = \<lparr>al_Timestamp = None, al_RequestID = [], al_Actor = actor, al_Action = action, al_Resource = [], al_Outcome = [],
     al_Metadata = None, al_PrevHash = prev, al_Hash = h\<rparr>"

fun cut_fields :: "nat \<Rightarrow> string \<Rightarrow> string list" where
  "cut_fields 0 s = []"
| "cut_fields (Suc n) s = takeWhile (\<lambda>c. c \<noteq> CHR ''|'') s # cut_fields n (tl (dropWhile (\<lambda>c. c \<noteq> CHR ''|'') s))"

definition demo_audit :: audit_api where
  "demo_audit = \<lparr>
     aj_marshal = (\<lambda>e. if list_all (list_all (\<lambda>c. c \<noteq> CHR ''|'' \<and> c \<noteq> line_feed)) (demo_fields e)
                      then Inr (concat (map (\<lambda>f. f @ ''|'') (demo_fields e))) else Inl ''bad event''),
     aj_unmarshal = (\<lambda>s. case cut_fields 4 s of [a, b, c, d] \<Rightarrow> Inr (demo_event a b c d) | _ \<Rightarrow> Inl ''bad line''),
     aj_sha = (\<lambda>s. CHR ''h'' # filter (\<lambda>c. c \<noteq> CHR ''|'') s),
     aj_sprint = (\<lambda>v. [])\<rparr>"

lemma cut_field: "CHR ''|'' \<notin> set f \<Longrightarrow> cut_fields (Suc n) (f @ CHR ''|'' # rest) = f # cut_fields n rest"
  by (induction f) auto

lemma cut_four: "cut_fields 4 s = cut_fields (Suc (Suc (Suc (Suc 0)))) s"
  by (simp add: numeral_eq_Suc)

lemma demo_marshalD:
  assumes "aj_marshal demo_audit e = Inr s"
  shows "list_all (\<lambda>c. c \<noteq> CHR ''|'' \<and> c \<noteq> line_feed) (al_Actor e)" "list_all (\<lambda>c. c \<noteq> CHR ''|'' \<and> c \<noteq> line_feed) (al_Action e)"
    "list_all (\<lambda>c. c \<noteq> CHR ''|'' \<and> c \<noteq> line_feed) (al_PrevHash e)" "list_all (\<lambda>c. c \<noteq> CHR ''|'' \<and> c \<noteq> line_feed) (al_Hash e)"
    "s = al_Actor e @ CHR ''|'' # al_Action e @ CHR ''|'' # al_PrevHash e @ CHR ''|'' # al_Hash e @ [CHR ''|'']"
  using assms by (simp_all add: demo_audit_def demo_fields_def split: if_split_asm)

lemma demo_stable: "json_stable demo_audit"
  unfolding json_stable_def
proof (intro allI impI)
  fix e s
  assume m: "aj_marshal demo_audit e = Inr s"
  note d = demo_marshalD [OF m]
  have free: "CHR ''|'' \<notin> set f \<and> line_feed \<notin> set f" if "list_all (\<lambda>c. c \<noteq> CHR ''|'' \<and> c \<noteq> line_feed) f" for f
    using that by (auto simp: list_all_iff)
  note frees = free [OF d(1)] free [OF d(2)] free [OF d(3)] free [OF d(4)]
  have "cut_fields 4 s = [al_Actor e, al_Action e, al_PrevHash e, al_Hash e]"
    unfolding d(5) cut_four using frees by (simp only: cut_field cut_fields.simps(1) append.simps not_False_eq_True)
  then have u: "aj_unmarshal demo_audit s = Inr (demo_event (al_Actor e) (al_Action e) (al_PrevHash e) (al_Hash e))"
    by (simp add: demo_audit_def)
  have c: "aj_marshal demo_audit (demo_event (al_Actor e) (al_Action e) (al_PrevHash e) (al_Hash e)\<lparr>al_Hash := []\<rparr>)
      = aj_marshal demo_audit (e\<lparr>al_Hash := []\<rparr>)"
    by (simp add: demo_audit_def demo_event_def demo_fields_def)
  have n: "line_feed \<notin> set s" "s \<noteq> []" "last s \<noteq> CHR 0x0D"
    using frees unfolding d(5) by (simp_all add: line_feed_def)
  show "s \<noteq> [] \<and> line_feed \<notin> set s \<and> last s \<noteq> CHR 0x0D
     \<and> (\<exists>e'. aj_unmarshal demo_audit s = Inr e' \<and> al_PrevHash e' = al_PrevHash e \<and> al_Hash e' = al_Hash e
           \<and> aj_marshal demo_audit (e'\<lparr>al_Hash := []\<rparr>) = aj_marshal demo_audit (e\<lparr>al_Hash := []\<rparr>))"
    by (intro conjI n exI [of _ "demo_event (al_Actor e) (al_Action e) (al_PrevHash e) (al_Hash e)"] u c) (simp_all add: demo_event_def)
qed

definition demo_ops :: "audit_op list" where
  "demo_ops = [LogOp 5 IoOK (demo_event ''ann'' ''cancel'' [] []), LogOp 6 (WriteFails 0 ''disk full'') (demo_event ''bob'' ''cancel'' [] []),
     Restart, LogOp 7 IoOK (demo_event ''bob'' ''resume'' [] [])]"

definition demo_content :: string where
  "demo_content = ''ann|cancel||hanncancel|'' @ line_feed # ''bob|resume|hanncancel|hbobresumehanncancel|'' @ [line_feed]"

definition demo_line :: string where
  "demo_line = ''ann|cancel||hanncancel|''"

definition demo_line2 :: string where
  "demo_line2 = ''bob|resume|hanncancel|hbobresumehanncancel|''"

lemma demo_scan: "scan_from [] (demo_line @ [line_feed]) = [demo_line]" "scan_from [] demo_content = [demo_line, demo_line2]"
  by code_simp+

lemma demo_lengths: "length demo_line = 23" "drop_cr demo_line = demo_line" "demo_line \<noteq> []"
  "length demo_line2 = 43" "drop_cr demo_line2 = demo_line2" "demo_line2 \<noteq> []"
  by code_simp+

lemma demo_unmarshal: "aj_unmarshal demo_audit demo_line = Inr (demo_event ''ann'' ''cancel'' [] ''hanncancel'')"
  "aj_unmarshal demo_audit demo_line2 = Inr (demo_event ''bob'' ''resume'' ''hanncancel'' ''hbobresumehanncancel'')"
  by code_simp+

lemma demo_load:
  "loadLastHashLocked demo_audit IoOK (Some (demo_line @ [line_feed])) NewFileSink = (\<lparr>fs_lastHash = ''hanncancel'', fs_init = True\<rparr>, None)"
  by (simp add: loadLastHashLocked_def NewFileSink_def scanner_lines_def demo_scan demo_lengths demo_unmarshal MaxScanTokenSize_def demo_event_def)

lemma demo_log1: "Log demo_audit 5 IoOK (demo_event ''ann'' ''cancel'' [] []) NewFileSink None
    = (\<lparr>fs_lastHash = ''hanncancel'', fs_init = True\<rparr>, Some (demo_line @ [line_feed]), 
       Inr (demo_event ''ann'' ''cancel'' [] ''hanncancel''\<lparr>al_Timestamp := Some 5\<rparr>))"
  by code_simp

lemma demo_log2: "Log demo_audit 6 (WriteFails 0 ''disk full'') (demo_event ''bob'' ''cancel'' [] []) \<lparr>fs_lastHash = ''hanncancel'', fs_init = True\<rparr> (Some (demo_line @ [line_feed]))
    = (\<lparr>fs_lastHash = ''hanncancel'', fs_init = True\<rparr>, Some (demo_line @ [line_feed]), Inl ''failed to write to sink: disk full'')"
  by code_simp

lemma demo_write3: "file_WriteEvent demo_audit IoOK e NewFileSink (Some (demo_line @ [line_feed]))
    = file_WriteEvent demo_audit IoOK e \<lparr>fs_lastHash = ''hanncancel'', fs_init = True\<rparr> (Some (demo_line @ [line_feed]))"
  by (simp add: file_WriteEvent_def demo_load) (simp add: NewFileSink_def)

lemma demo_log3: "Log demo_audit 7 IoOK (demo_event ''bob'' ''resume'' [] []) \<lparr>fs_lastHash = ''hanncancel'', fs_init = True\<rparr> (Some (demo_line @ [line_feed]))
    = (\<lparr>fs_lastHash = ''hbobresumehanncancel'', fs_init = True\<rparr>, Some demo_content,
       Inr (demo_event ''bob'' ''resume'' ''hanncancel'' ''hbobresumehanncancel''\<lparr>al_Timestamp := Some 7\<rparr>))"
  by code_simp

lemma demo_run: "run_audit demo_audit demo_ops NewFileSink None = (\<lparr>fs_lastHash = ''hbobresumehanncancel'', fs_init = True\<rparr>, Some demo_content)"
  using demo_log3 by (simp add: demo_ops_def demo_log1 demo_log2) (simp add: Log_def demo_write3)


section \<open>What the chain protects\<close>

definition logged_events :: "audit_api \<Rightarrow> string \<Rightarrow> AuditLogEvent list" where
  "logged_events A content = concat (map (\<lambda>l. case aj_unmarshal A l of Inl _ \<Rightarrow> [] | Inr e \<Rightarrow> [e])
     (filter (\<lambda>l. l \<noteq> []) (fst (scanner_lines content))))"

fun linked :: "audit_api \<Rightarrow> string \<Rightarrow> AuditLogEvent list \<Rightarrow> bool" where
  "linked A prev [] \<longleftrightarrow> True"
| "linked A prev (e # es) \<longleftrightarrow> al_PrevHash e = prev \<and> ComputeHash A e = al_Hash e \<and> linked A (al_Hash e) es"

lemma linked_snoc:
  "linked A prev (es @ [e]) \<longleftrightarrow> linked A prev es \<and> al_PrevHash e = (if es = [] then prev else al_Hash (last es)) \<and> ComputeHash A e = al_Hash e"
  by (induction es arbitrary: prev) auto

lemma linked_hash: "\<lbrakk>linked A prev es; e \<in> set es\<rbrakk> \<Longrightarrow> al_Hash e = ComputeHash A e"
  by (induction es arbitrary: prev) auto

lemma verified_linked:
  "verify_lines A prev ls = None
    \<Longrightarrow> linked A prev (concat (map (\<lambda>l. case aj_unmarshal A l of Inl _ \<Rightarrow> [] | Inr e \<Rightarrow> [e]) (filter (\<lambda>l. l \<noteq> []) ls)))"
  by (induction A prev ls rule: verify_lines.induct) (auto split: if_splits sum.splits)

lemma Verify_linked: "Verify A IoOK (Some content) = None \<Longrightarrow> linked A [] (logged_events A content)"
  using verified_linked by (auto simp: Verify_def logged_events_def split: prod.splits option.splits)

definition collision_free :: "audit_api \<Rightarrow> AuditLogEvent set \<Rightarrow> bool" where
  "collision_free A E \<longleftrightarrow> (\<forall>e \<in> E. ComputeHash A e \<noteq> [] \<and> (\<forall>f \<in> E. ComputeHash A e = ComputeHash A f \<longrightarrow> e\<lparr>al_Hash := []\<rparr> = f\<lparr>al_Hash := []\<rparr>))"

lemma collision_freeD:
  assumes "collision_free A E" "e \<in> E" "f \<in> E" "ComputeHash A e = ComputeHash A f" "al_Hash e = al_Hash f"
  shows "e = f"
proof -
  have "e\<lparr>al_Hash := []\<rparr> = f\<lparr>al_Hash := []\<rparr>"
    using assms(1-4) unfolding collision_free_def by blast
  then show ?thesis
    using assms(5) by (cases e; cases f) simp
qed

lemma collision_free_nonempty: "\<lbrakk>collision_free A E; e \<in> E\<rbrakk> \<Longrightarrow> ComputeHash A e \<noteq> []"
  by (simp add: collision_free_def)

lemma linked_unique:
  "\<lbrakk>linked A [] es; linked A [] fs; es \<noteq> []; fs \<noteq> []; al_Hash (last es) = al_Hash (last fs); collision_free A E; set es \<subseteq> E; set fs \<subseteq> E\<rbrakk>
    \<Longrightarrow> es = fs"
proof (induction es arbitrary: fs rule: rev_induct)
  case (snoc e es)
  obtain f fs' where fs: "fs = fs' @ [f]"
    using snoc.prems(4) by (metis rev_exhaust)
  have le: "linked A [] es" "al_PrevHash e = (if es = [] then [] else al_Hash (last es))" "ComputeHash A e = al_Hash e"
    using snoc.prems(1) by (simp_all add: linked_snoc)
  have lf: "linked A [] fs'" "al_PrevHash f = (if fs' = [] then [] else al_Hash (last fs'))" "ComputeHash A f = al_Hash f"
    using snoc.prems(2) by (simp_all add: linked_snoc fs)
  have sub: "e \<in> E" "f \<in> E" "set es \<subseteq> E" "set fs' \<subseteq> E"
    using snoc.prems(7,8) fs by auto
  have h: "al_Hash e = al_Hash f"
    using snoc.prems(5) fs by simp
  then have ef: "e = f"
    using collision_freeD [OF snoc.prems(6) sub(1,2)] le(3) lf(3) by simp
  have ne: "al_Hash (last gs) \<noteq> []" if "gs \<noteq> []" "linked A [] gs" "set gs \<subseteq> E" for gs
  proof -
    have "last gs \<in> set gs"
      using that(1) by simp
    then have "last gs \<in> E"
      using that(3) by blast
    then show ?thesis
      using linked_hash [OF that(2) \<open>last gs \<in> set gs\<close>] collision_free_nonempty [OF snoc.prems(6)] by simp
  qed
  have "es = fs'"
  proof (cases "es = [] \<or> fs' = []")
    case True
    show ?thesis
    proof (rule ccontr)
      assume "es \<noteq> fs'"
      then have "es = [] \<and> fs' \<noteq> [] \<or> es \<noteq> [] \<and> fs' = []"
        using True by blast
      then show False
        using le(2) lf(2) ef ne [OF _ le(1) sub(3)] ne [OF _ lf(1) sub(4)] by (elim disjE conjE) simp_all
    qed
  next
    case False
    then show ?thesis
      using snoc.IH [OF le(1) lf(1) _ _ _ snoc.prems(6) sub(3,4)] le(2) lf(2) ef by simp
  qed
  then show ?case
    using ef fs by simp
qed simp

text \<open>
  C13: The last hash pins the whole log: two files that verify, and whose last events carry the same hash, hold the same
  events in the same order, unless the digest has a collision among their events.
\<close>

theorem last_hash_pins_log:
  assumes "Verify A IoOK (Some c1) = None" "Verify A IoOK (Some c2) = None" "logged_events A c1 \<noteq> []" "logged_events A c2 \<noteq> []"
    "al_Hash (last (logged_events A c1)) = al_Hash (last (logged_events A c2))"
    "collision_free A (set (logged_events A c1) \<union> set (logged_events A c2))"
  shows "logged_events A c1 = logged_events A c2"
  using linked_unique [OF Verify_linked [OF assms(1)] Verify_linked [OF assms(2)] assms(3-6)] by simp

definition demo_events :: "AuditLogEvent list" where
  "demo_events = [demo_event ''ann'' ''cancel'' [] ''hanncancel'', demo_event ''bob'' ''resume'' ''hanncancel'' ''hbobresumehanncancel'']"

lemma demo_events_ne: "demo_events \<noteq> []"
  by (simp add: demo_events_def)

lemma demo_scanned:
  "scanner_lines demo_content = ([demo_line, demo_line2], None)" "scanner_lines (line_feed # demo_content) = ([[], demo_line, demo_line2], None)"
proof -
  have s: "scan_from [] (line_feed # demo_content) = [] # scan_from [] demo_content"
    by simp
  show "scanner_lines demo_content = ([demo_line, demo_line2], None)" "scanner_lines (line_feed # demo_content) = ([[], demo_line, demo_line2], None)"
    unfolding scanner_lines_def s demo_scan by (simp_all add: demo_lengths MaxScanTokenSize_def) (simp add: drop_cr_def)
qed

lemma demo_decoded: "logged_events demo_audit demo_content = demo_events" "logged_events demo_audit (line_feed # demo_content) = demo_events"
  unfolding logged_events_def demo_scanned by (simp_all add: demo_lengths demo_unmarshal demo_events_def)

lemma demo_collision_free: "collision_free demo_audit (set demo_events)"
proof -
  have h: "map (ComputeHash demo_audit) demo_events = [''hanncancel'', ''hbobresumehanncancel'']"
    by code_simp
  show ?thesis
    using h by (simp add: collision_free_def demo_events_def)
qed

text \<open>The second file has an empty line more than the first.\<close>

lemma demo_content_verifies: "Verify demo_audit IoOK (Some demo_content) = None" "Verify demo_audit IoOK (Some (line_feed # demo_content)) = None"
proof -
  have v: "verify_lines demo_audit [] [demo_line, demo_line2] = None"
    by code_simp
  then show "Verify demo_audit IoOK (Some demo_content) = None"
    by (simp only: Verify_def demo_scanned file_io.case option.case prod.case)
  show "Verify demo_audit IoOK (Some (line_feed # demo_content)) = None"
    using v by (simp only: Verify_def demo_scanned file_io.case option.case prod.case verify_lines.simps(2) simp_thms if_True)
qed

theorem last_hash_pins_log_witness: "logged_events demo_audit demo_content = logged_events demo_audit (line_feed # demo_content)"
  by (rule last_hash_pins_log [OF demo_content_verifies]) (simp_all only: demo_decoded Un_absorb demo_collision_free demo_events_ne not_False_eq_True)

text \<open>The chain has no key and no end mark: a file cut after any line still verifies.\<close>

lemma truncated_log_verifies: "verify_lines A prev (ls @ ms) = None \<Longrightarrow> verify_lines A prev ls = None"
  by (induction A prev ls rule: verify_lines.induct) (auto split: if_splits sum.splits)

lemma memory_sink_linked:
  assumes "linked A [] (mk_entries s)" "mk_lastHash s = (if mk_entries s = [] then [] else al_Hash (last (mk_entries s)))"
    "memory_WriteEvent A e s = (s', e')"
  shows "linked A [] (mk_entries s') \<and> mk_lastHash s' = al_Hash (last (mk_entries s')) \<and> last (mk_entries s') = e'"
  using assms by (auto simp: memory_WriteEvent_def Let_def linked_snoc ComputeHash_def)

lemma redacted_value:
  assumes "redact A (Some m) = Some m'" "(k, v) \<in> set m'" "sk \<in> set sensitiveKeys" "contains (ToLower k) sk"
  shows "v = MetaString ''[REDACTED]''"
proof -
  obtain w where "v = (if list_ex (\<lambda>sk. contains (ToLower k) sk \<or> contains (ToLower (aj_sprint A w)) ''bearer'') sensitiveKeys
      then MetaString ''[REDACTED]'' else w)"
    using assms(1,2) by (auto simp: redact_def)
  then show ?thesis
    using assms(3,4) by (auto simp: list_ex_iff)
qed

text \<open>The authorization header of a refused request is never written.\<close>

lemma auth_header_redacted:
  assumes "al_Metadata (logged A now (logAuthFailure r errors status)) = Some m" "(''auth_header'', v) \<in> set m"
  shows "v = MetaString ''[REDACTED]''"
proof -
  obtain m0 where m0: "redact A (Some m0) = Some m"
    using assms(1) by (auto simp: logged_def logAuthFailure_def new_event_def Let_def)
  have "''auth'' \<in> set sensitiveKeys" "contains (ToLower ''auth_header'') ''auth''"
    by code_simp+
  then show ?thesis
    using redacted_value [OF m0 assms(2)] by blast
qed

definition uploaded :: "rotate_answer \<Rightarrow> AuditLogEvent list" where
  "uploaded a = (case a of Rotated es \<Rightarrow> es | _ \<Rightarrow> [])"

fun worm_run :: "(AuditLogEvent \<Rightarrow> string) \<Rightarrow> (string option \<times> time \<times> AuditLogEvent) list \<Rightarrow> WORMExporter \<Rightarrow> WORMExporter \<times> AuditLogEvent list" where
  "worm_run hash [] e = (e, [])"
| "worm_run hash ((failure, now, ev) # ws) e = (case worm_WriteEvent hash failure now ev e of
     (e1, a) \<Rightarrow> (case worm_run hash ws e1 of (e2, up) \<Rightarrow> (e2, uploaded a @ up)))"

lemma segment_ok_suffix: "segment_ok hash prev (es @ fs) \<Longrightarrow> segment_ok hash None fs"
proof (induction es arbitrary: prev)
  case Nil
  then show ?case
    by (cases fs) (auto split: option.splits)
qed auto

lemma segment_ok_prefix: "segment_ok hash prev (es @ fs) \<Longrightarrow> segment_ok hash prev es"
  by (induction es arbitrary: prev) auto

lemma worm_write_keeps:
  assumes "segment_ok hash None (we_buffer e @ [ev])" "worm_WriteEvent hash failure now ev e = (e', a)"
  shows "uploaded a @ we_buffer e' = we_buffer e @ [ev]"
  using assms by (auto simp: worm_WriteEvent_def Rotate_def Let_def uploaded_def split: if_splits option.splits)

lemma segment_panics:
  "\<lbrakk>we_buffer e \<noteq> []; \<not> segment_ok hash None (we_buffer e)\<rbrakk> \<Longrightarrow> Rotate hash failure now e = (e\<lparr>we_buffer := [], we_lastExport := now\<rparr>, RotatePanic)"
  by (simp add: Rotate_def)

text \<open>
  The segment exporter loses and reorders nothing: for events whose hashes are chained, whichever uploads fail, the
  uploaded segments followed by the buffer are the events written, in their order.
\<close>

lemma worm_keeps_every_event:
  "segment_ok hash None (we_buffer e @ map (\<lambda>w. snd (snd w)) ws) \<Longrightarrow> worm_run hash ws e = (e', up)
    \<Longrightarrow> up @ we_buffer e' = we_buffer e @ map (\<lambda>w. snd (snd w)) ws"
proof (induction hash ws e arbitrary: up e' rule: worm_run.induct)
  case (2 hash failure now ev ws e)
  obtain e1 a where w: "worm_WriteEvent hash failure now ev e = (e1, a)"
    by (rule prod.exhaust)
  obtain e2 up2 where r: "worm_run hash ws e1 = (e2, up2)"
    by (rule prod.exhaust)
  have seg: "segment_ok hash None ((we_buffer e @ [ev]) @ map (\<lambda>w. snd (snd w)) ws)"
    using 2(2) by simp
  have k: "uploaded a @ we_buffer e1 = we_buffer e @ [ev]"
    using worm_write_keeps [OF segment_ok_prefix [OF seg] w] .
  have "segment_ok hash None (we_buffer e1 @ map (\<lambda>w. snd (snd w)) ws)"
    using seg segment_ok_suffix [of hash None "uploaded a"] unfolding k [symmetric] by simp
  then have "up2 @ we_buffer e2 = we_buffer e1 @ map (\<lambda>w. snd (snd w)) ws"
    using 2(1) [OF w [symmetric]] r by simp
  then have "uploaded a @ up2 @ we_buffer e2 = we_buffer e @ ev # map (\<lambda>w. snd (snd w)) ws"
    using k by (metis append.assoc append_Cons append_Nil)
  moreover have "up = uploaded a @ up2" "e' = e2"
    using 2(3) w r by simp_all
  ultimately show ?case
    by simp
qed simp

text \<open>The nightly export of a whole file, with every write done, is the toggles of the file in order.\<close>

lemma export_lines_all:
  "\<forall>n. write n = None \<Longrightarrow> export_lines A write None out ls = (out @ map toggle_record (filter (\<lambda>e. al_Action e = ''feature_flag_toggle'')
     (concat (map (\<lambda>l. case aj_unmarshal A l of Inl _ \<Rightarrow> [] | Inr e \<Rightarrow> [e]) ls))), None)"
  by (induction ls arbitrary: out) (simp_all split: sum.splits)

end
