(* ===== verification/Billing_Repo.thy ===== *)
theory Billing_Repo
  imports Prelude
begin

text \<open>
  The SQL repositories of \<^verbatim>\<open>internal/repositories\<close> (subscriptions and plans) and of \<^verbatim>\<open>internal/repository/statements.go\<close>, with the in-memory
  stand-ins of \<^verbatim>\<open>mock.go\<close>.  A table is the list of its rows, over the columns the statements name; the outcome the driver
  reports for a statement is an input, so that every error branch is reached.
\<close>

section \<open>Statements\<close>

text \<open>
  A query may be refused, fail at the scan of the \<open>n\<close>-th row, or break off after \<open>n\<close> rows.  A statement may be refused, or be
  done with the count of its rows unavailable.
\<close>

datatype query_fault = QueryDone | QueryRefused string | ScanFails nat string | RowsBreak nat string

datatype exec_fault = ExecDone | ExecRefused string | CountFails string

text \<open>The loop over \<^verbatim>\<open>rows.Next()\<close>, with the three error texts of its caller.\<close>

definition read_rows :: "string \<Rightarrow> string \<Rightarrow> string \<Rightarrow> query_fault \<Rightarrow> 'r list \<Rightarrow> (string, 'r list) result" where
  "read_rows queryText scanText iterText fault rows = (case fault of
      QueryDone \<Rightarrow> Inr rows
    | QueryRefused e \<Rightarrow> Inl (queryText @ e)
    | ScanFails n e \<Rightarrow> if n < length rows then Inl (scanText @ e) else Inr rows
    | RowsBreak n e \<Rightarrow> Inl (iterText @ e))"

text \<open>\<^verbatim>\<open>LIMIT\<close> and \<^verbatim>\<open>OFFSET\<close>: a negative number is refused by the server.\<close>

definition page_rows :: "int \<Rightarrow> int \<Rightarrow> 'r list \<Rightarrow> (string, 'r list) result" where
  "page_rows limit offset rows =
     (if limit < 0 then Inl ''LIMIT must not be negative''
      else if offset < 0 then Inl ''OFFSET must not be negative''
      else Inr (take (nat limit) (drop (nat offset) rows)))"

definition find_row :: "('r \<Rightarrow> 'k) \<Rightarrow> 'k \<Rightarrow> 'r list \<Rightarrow> 'r option" where
  "find_row key k rows = find (\<lambda>r. key r = k) rows"

definition update_rows :: "('r \<Rightarrow> 'k) \<Rightarrow> 'k \<Rightarrow> ('r \<Rightarrow> 'r) \<Rightarrow> 'r list \<Rightarrow> 'r list" where
  "update_rows key k f rows = map (\<lambda>r. if key r = k then f r else r) rows"

definition affected :: "('r \<Rightarrow> 'k) \<Rightarrow> 'k \<Rightarrow> 'r list \<Rightarrow> nat" where
  "affected key k rows = length (filter (\<lambda>r. key r = k) rows)"

text \<open>A statement by key followed by the test of the affected rows: the new rows and the error.\<close>

definition exec_by_key :: "string \<Rightarrow> string \<Rightarrow> exec_fault \<Rightarrow> nat \<Rightarrow> 'r list \<Rightarrow> 'r list \<Rightarrow> 'r list \<times> string option" where
  "exec_by_key execText missing fault n old new = (case fault of
      ExecRefused e \<Rightarrow> (old, Some (execText @ e))
    | CountFails e \<Rightarrow> (new, Some (''failed to get rows affected: '' @ e))
    | ExecDone \<Rightarrow> (new, if n = 0 then Some missing else None))"

section \<open>Subscriptions\<close>

record BillingSubscription =
  bs_ID :: string
  bs_PlanID :: string
  bs_CustomerID :: string
  bs_MerchantID :: string
  bs_Status :: string
  bs_Amount :: string
  bs_Currency :: string
  bs_Interval :: string
  bs_CurrentPeriodStart :: time
  bs_CurrentPeriodEnd :: time
  bs_CancelAtPeriodEnd :: bool
  bs_CanceledAt :: "time option"
  bs_EndedAt :: "time option"
  bs_TrialStart :: "time option"
  bs_TrialEnd :: "time option"
  bs_CreatedAt :: time
  bs_UpdatedAt :: time

text \<open>The primary key refuses a second row with the same ID.\<close>

definition sub_Create :: "string \<Rightarrow> time \<Rightarrow> query_fault \<Rightarrow> BillingSubscription \<Rightarrow> BillingSubscription list
    \<Rightarrow> BillingSubscription list \<times> BillingSubscription \<times> string option" where
  "sub_Create uuid now fault s rows =
     (let s1 = (if bs_ID s = [] then s\<lparr>bs_ID := uuid\<rparr> else s);
          s2 = s1\<lparr>bs_CreatedAt := now, bs_UpdatedAt := now\<rparr>
      in case fault of
           QueryRefused e \<Rightarrow> (rows, s2, Some (''failed to create subscription: '' @ e))
         | ScanFails n e \<Rightarrow>
             if find_row bs_ID (bs_ID s2) rows \<noteq> None then (rows, s2, Some ''failed to create subscription: duplicate key'')
             else (rows @ [s2], s2, Some (''failed to create subscription: '' @ e))
         | RowsBreak n e \<Rightarrow> (rows, s2, Some (''failed to create subscription: '' @ e))
         | QueryDone \<Rightarrow>
             if find_row bs_ID (bs_ID s2) rows \<noteq> None then (rows, s2, Some ''failed to create subscription: duplicate key'')
             else (rows @ [s2], s2, None))"

definition sub_GetByID :: "query_fault \<Rightarrow> string \<Rightarrow> BillingSubscription list \<Rightarrow> (string, BillingSubscription) result" where
  "sub_GetByID fault k rows = (case fault of
      QueryDone \<Rightarrow> (case find_row bs_ID k rows of None \<Rightarrow> Inl ''subscription not found'' | Some s \<Rightarrow> Inr s)
    | QueryRefused e \<Rightarrow> Inl (''failed to get subscription: '' @ e)
    | ScanFails n e \<Rightarrow> (case find_row bs_ID k rows of None \<Rightarrow> Inl ''subscription not found'' | Some s \<Rightarrow> Inl (''failed to get subscription: '' @ e))
    | RowsBreak n e \<Rightarrow> Inl (''failed to get subscription: '' @ e))"

definition newest_subscriptions :: "BillingSubscription list \<Rightarrow> BillingSubscription list" where
  "newest_subscriptions rows = sort_key (\<lambda>s. - bs_CreatedAt s) rows"

definition sub_page :: "query_fault \<Rightarrow> int \<Rightarrow> int \<Rightarrow> BillingSubscription list \<Rightarrow> (string, BillingSubscription list) result" where
  "sub_page fault limit offset rows = (case page_rows limit offset (newest_subscriptions rows) of
      Inl e \<Rightarrow> Inl (''failed to get subscriptions: '' @ e)
    | Inr page \<Rightarrow> read_rows ''failed to get subscriptions: '' ''failed to scan subscription: '' ''error iterating subscriptions: '' fault page)"

definition sub_GetByCustomerID :: "query_fault \<Rightarrow> string \<Rightarrow> int \<Rightarrow> int \<Rightarrow> BillingSubscription list \<Rightarrow> (string, BillingSubscription list) result" where
  "sub_GetByCustomerID fault c limit offset rows = sub_page fault limit offset (filter (\<lambda>s. bs_CustomerID s = c) rows)"

definition sub_GetByMerchantID :: "query_fault \<Rightarrow> string \<Rightarrow> int \<Rightarrow> int \<Rightarrow> BillingSubscription list \<Rightarrow> (string, BillingSubscription list) result" where
  "sub_GetByMerchantID fault m limit offset rows = sub_page fault limit offset (filter (\<lambda>s. bs_MerchantID s = m) rows)"

definition sub_GetByPlanID :: "query_fault \<Rightarrow> string \<Rightarrow> int \<Rightarrow> int \<Rightarrow> BillingSubscription list \<Rightarrow> (string, BillingSubscription list) result" where
  "sub_GetByPlanID fault p limit offset rows = sub_page fault limit offset (filter (\<lambda>s. bs_PlanID s = p) rows)"

text \<open>The columns \<^verbatim>\<open>Update\<close> writes, and those it leaves.\<close>

definition set_subscription :: "BillingSubscription \<Rightarrow> BillingSubscription \<Rightarrow> BillingSubscription" where
  "set_subscription s r = r\<lparr>bs_Status := bs_Status s, bs_CurrentPeriodStart := bs_CurrentPeriodStart s,
     bs_CurrentPeriodEnd := bs_CurrentPeriodEnd s, bs_CancelAtPeriodEnd := bs_CancelAtPeriodEnd s, bs_CanceledAt := bs_CanceledAt s,
     bs_EndedAt := bs_EndedAt s, bs_TrialStart := bs_TrialStart s, bs_TrialEnd := bs_TrialEnd s, bs_UpdatedAt := bs_UpdatedAt s\<rparr>"

definition sub_Update :: "time \<Rightarrow> exec_fault \<Rightarrow> BillingSubscription \<Rightarrow> BillingSubscription list \<Rightarrow> BillingSubscription list \<times> string option" where
  "sub_Update now fault s rows =
     exec_by_key ''failed to update subscription: '' ''subscription not found'' fault (affected bs_ID (bs_ID s) rows) rows
       (update_rows bs_ID (bs_ID s) (set_subscription (s\<lparr>bs_UpdatedAt := now\<rparr>)) rows)"

definition set_status :: "string \<Rightarrow> time \<Rightarrow> BillingSubscription \<Rightarrow> BillingSubscription" where
  "set_status st now r = r\<lparr>bs_Status := st, bs_UpdatedAt := now\<rparr>"

definition sub_UpdateStatus :: "time \<Rightarrow> exec_fault \<Rightarrow> string \<Rightarrow> string \<Rightarrow> BillingSubscription list \<Rightarrow> BillingSubscription list \<times> string option" where
  "sub_UpdateStatus now fault k st rows =
     exec_by_key ''failed to update subscription status: '' ''subscription not found'' fault (affected bs_ID k rows) rows
       (update_rows bs_ID k (set_status st now) rows)"

text \<open>Two readings of the clock: one for the cancellation, one for the update.\<close>

definition set_cancel :: "bool \<Rightarrow> time \<Rightarrow> time \<Rightarrow> BillingSubscription \<Rightarrow> BillingSubscription" where
  "set_cancel atEnd now now2 r = r\<lparr>bs_CancelAtPeriodEnd := atEnd, bs_CanceledAt := Some now, bs_UpdatedAt := now2\<rparr>"

definition sub_Cancel :: "time \<Rightarrow> time \<Rightarrow> exec_fault \<Rightarrow> string \<Rightarrow> bool \<Rightarrow> BillingSubscription list \<Rightarrow> BillingSubscription list \<times> string option" where
  "sub_Cancel now now2 fault k atEnd rows =
     exec_by_key ''failed to cancel subscription: '' ''subscription not found'' fault (affected bs_ID k rows) rows
       (update_rows bs_ID k (set_cancel atEnd now now2) rows)"

definition sub_active :: "BillingSubscription \<Rightarrow> bool" where
  "sub_active s \<longleftrightarrow> bs_Status s \<in> {''active'', ''trialing''}"

definition sub_GetActiveByMerchantID :: "query_fault \<Rightarrow> string \<Rightarrow> BillingSubscription list \<Rightarrow> (string, BillingSubscription list) result" where
  "sub_GetActiveByMerchantID fault m rows =
     read_rows ''failed to get active subscriptions: '' ''failed to scan subscription: '' ''error iterating active subscriptions: '' fault
       (newest_subscriptions (filter (\<lambda>s. bs_MerchantID s = m \<and> sub_active s) rows))"

definition due_for_billing :: "time \<Rightarrow> BillingSubscription \<Rightarrow> bool" where
  "due_for_billing now s \<longleftrightarrow> sub_active s \<and> bs_CurrentPeriodEnd s \<le> now \<and> (\<not> bs_CancelAtPeriodEnd s \<or> bs_CanceledAt s = None)"

definition sub_GetDueForBilling :: "time \<Rightarrow> query_fault \<Rightarrow> int \<Rightarrow> BillingSubscription list \<Rightarrow> (string, BillingSubscription list) result" where
  "sub_GetDueForBilling now fault limit rows =
     (case page_rows limit 0 (sort_key bs_CurrentPeriodEnd (filter (due_for_billing now) rows)) of
        Inl e \<Rightarrow> Inl (''failed to get subscriptions due for billing: '' @ e)
      | Inr page \<Rightarrow> read_rows ''failed to get subscriptions due for billing: '' ''failed to scan subscription: ''
          ''error iterating subscriptions due for billing: '' fault page)"

section \<open>Plans\<close>

text \<open>\<open>bp_DeletedAt\<close> is the column the query of active plans tests; no operation of the repository writes it.\<close>

record BillingPlan =
  bp_ID :: string
  bp_Name :: string
  bp_Amount :: string
  bp_Currency :: string
  bp_Interval :: string
  bp_Description :: "string option"
  bp_MerchantID :: string
  bp_CreatedAt :: time
  bp_UpdatedAt :: time
  bp_DeletedAt :: "time option"

definition plan_Create :: "string \<Rightarrow> time \<Rightarrow> query_fault \<Rightarrow> BillingPlan \<Rightarrow> BillingPlan list \<Rightarrow> BillingPlan list \<times> BillingPlan \<times> string option" where
  "plan_Create uuid now fault p rows =
     (let p1 = (if bp_ID p = [] then p\<lparr>bp_ID := uuid\<rparr> else p);
          p2 = p1\<lparr>bp_CreatedAt := now, bp_UpdatedAt := now\<rparr>
      in case fault of
           QueryRefused e \<Rightarrow> (rows, p2, Some (''failed to create plan: '' @ e))
         | ScanFails n e \<Rightarrow>
             if find_row bp_ID (bp_ID p2) rows \<noteq> None then (rows, p2, Some ''failed to create plan: duplicate key'')
             else (rows @ [p2\<lparr>bp_DeletedAt := None\<rparr>], p2, Some (''failed to create plan: '' @ e))
         | RowsBreak n e \<Rightarrow> (rows, p2, Some (''failed to create plan: '' @ e))
         | QueryDone \<Rightarrow>
             if find_row bp_ID (bp_ID p2) rows \<noteq> None then (rows, p2, Some ''failed to create plan: duplicate key'')
             else (rows @ [p2\<lparr>bp_DeletedAt := None\<rparr>], p2, None))"

definition plan_GetByID :: "query_fault \<Rightarrow> string \<Rightarrow> BillingPlan list \<Rightarrow> (string, BillingPlan) result" where
  "plan_GetByID fault k rows = (case fault of
      QueryDone \<Rightarrow> (case find_row bp_ID k rows of None \<Rightarrow> Inl ''plan not found'' | Some p \<Rightarrow> Inr p)
    | QueryRefused e \<Rightarrow> Inl (''failed to get plan: '' @ e)
    | ScanFails n e \<Rightarrow> (case find_row bp_ID k rows of None \<Rightarrow> Inl ''plan not found'' | Some p \<Rightarrow> Inl (''failed to get plan: '' @ e))
    | RowsBreak n e \<Rightarrow> Inl (''failed to get plan: '' @ e))"

definition newest_plans :: "BillingPlan list \<Rightarrow> BillingPlan list" where
  "newest_plans rows = sort_key (\<lambda>p. - bp_CreatedAt p) rows"

definition plan_GetByMerchantID :: "query_fault \<Rightarrow> string \<Rightarrow> int \<Rightarrow> int \<Rightarrow> BillingPlan list \<Rightarrow> (string, BillingPlan list) result" where
  "plan_GetByMerchantID fault m limit offset rows =
     (case page_rows limit offset (newest_plans (filter (\<lambda>p. bp_MerchantID p = m) rows)) of
        Inl e \<Rightarrow> Inl (''failed to get plans: '' @ e)
      | Inr page \<Rightarrow> read_rows ''failed to get plans: '' ''failed to scan plan: '' ''error iterating plans: '' fault page)"

definition set_plan :: "BillingPlan \<Rightarrow> BillingPlan \<Rightarrow> BillingPlan" where
  "set_plan p r = r\<lparr>bp_Name := bp_Name p, bp_Amount := bp_Amount p, bp_Currency := bp_Currency p, bp_Interval := bp_Interval p,
     bp_Description := bp_Description p, bp_UpdatedAt := bp_UpdatedAt p\<rparr>"

definition plan_Update :: "time \<Rightarrow> exec_fault \<Rightarrow> BillingPlan \<Rightarrow> BillingPlan list \<Rightarrow> BillingPlan list \<times> string option" where
  "plan_Update now fault p rows =
     exec_by_key ''failed to update plan: '' ''plan not found'' fault (affected bp_ID (bp_ID p) rows) rows
       (update_rows bp_ID (bp_ID p) (set_plan (p\<lparr>bp_UpdatedAt := now\<rparr>)) rows)"

definition plan_Delete :: "exec_fault \<Rightarrow> string \<Rightarrow> BillingPlan list \<Rightarrow> BillingPlan list \<times> string option" where
  "plan_Delete fault k rows =
     exec_by_key ''failed to delete plan: '' ''plan not found'' fault (affected bp_ID k rows) rows (filter (\<lambda>p. bp_ID p \<noteq> k) rows)"

definition plan_GetActiveByMerchantID :: "query_fault \<Rightarrow> string \<Rightarrow> BillingPlan list \<Rightarrow> (string, BillingPlan list) result" where
  "plan_GetActiveByMerchantID fault m rows =
     read_rows ''failed to get active plans: '' ''failed to scan plan: '' ''error iterating active plans: '' fault
       (newest_plans (filter (\<lambda>p. bp_MerchantID p = m \<and> bp_DeletedAt p = None) rows))"

text \<open>\<^verbatim>\<open>List\<close> does not ask for the error of the iteration: rows that break off are a shorter list.\<close>

definition plan_List :: "query_fault \<Rightarrow> BillingPlan list \<Rightarrow> (string, BillingPlan list) result" where
  "plan_List fault rows = (case fault of
      QueryDone \<Rightarrow> Inr rows
    | QueryRefused e \<Rightarrow> Inl e
    | ScanFails n e \<Rightarrow> if n < length rows then Inl e else Inr rows
    | RowsBreak n e \<Rightarrow> Inr (take n rows))"

section \<open>The stand-ins of the tests\<close>

text \<open>Maps of pointers; the callers' later writes through the same pointer are not part of the model.\<close>

definition mock_sub_Create :: "BillingSubscription \<Rightarrow> (string \<rightharpoonup> BillingSubscription) \<Rightarrow> (string \<rightharpoonup> BillingSubscription)" where
  "mock_sub_Create s m = m(bs_ID s \<mapsto> s)"

definition mock_sub_GetByID :: "string \<Rightarrow> (string \<rightharpoonup> BillingSubscription) \<Rightarrow> (string, BillingSubscription) result" where
  "mock_sub_GetByID k m = (case m k of None \<Rightarrow> Inl ''subscription not found'' | Some s \<Rightarrow> Inr s)"

definition mock_sub_Update :: "BillingSubscription \<Rightarrow> (string \<rightharpoonup> BillingSubscription) \<Rightarrow> (string \<rightharpoonup> BillingSubscription)" where
  "mock_sub_Update s m = m(bs_ID s \<mapsto> s)"

definition mock_sub_UpdateStatus :: "string \<Rightarrow> string \<Rightarrow> (string \<rightharpoonup> BillingSubscription) \<Rightarrow> (string \<rightharpoonup> BillingSubscription) \<times> string option" where
  "mock_sub_UpdateStatus k st m = (case m k of Some s \<Rightarrow> (m(k \<mapsto> s\<lparr>bs_Status := st\<rparr>), None) | None \<Rightarrow> (m, Some ''subscription not found''))"

definition mock_sub_Cancel :: "string \<Rightarrow> bool \<Rightarrow> (string \<rightharpoonup> BillingSubscription) \<Rightarrow> (string \<rightharpoonup> BillingSubscription) \<times> string option" where
  "mock_sub_Cancel k atEnd m = (m, None)"

definition mock_plan_Create :: "BillingPlan \<Rightarrow> (string \<times> BillingPlan) list \<Rightarrow> (string \<times> BillingPlan) list" where
  "mock_plan_Create p m = AList.update (bp_ID p) p m"

definition mock_plan_GetByID :: "string \<Rightarrow> (string \<times> BillingPlan) list \<Rightarrow> (string, BillingPlan) result" where
  "mock_plan_GetByID k m = (case map_of m k of None \<Rightarrow> Inl ''plan not found'' | Some p \<Rightarrow> Inr p)"

definition mock_plan_Update :: "BillingPlan \<Rightarrow> (string \<times> BillingPlan) list \<Rightarrow> (string \<times> BillingPlan) list" where
  "mock_plan_Update p m = AList.update (bp_ID p) p m"

definition mock_plan_Delete :: "string \<Rightarrow> (string \<times> BillingPlan) list \<Rightarrow> (string \<times> BillingPlan) list" where
  "mock_plan_Delete k m = filter (\<lambda>(k', p). k' \<noteq> k) m"

definition mock_plan_List :: "(string \<times> BillingPlan) list \<Rightarrow> BillingPlan list" where
  "mock_plan_List m = map snd m"

section \<open>Statements of a tenant\<close>

record TenantStatement =
  ts_ID :: int
  ts_TenantID :: string
  ts_Content :: string
  ts_CreatedAt :: time
  ts_UpdatedAt :: time

datatype statements_error = ErrInvalidInput | ErrStatementNotFound | StatementsDB string

text \<open>\<open>created\<close> is \<^verbatim>\<open>None\<close> for the zero time; \<open>nextID\<close> is the value of the identity column.\<close>

definition statements_Create :: "int \<Rightarrow> time \<Rightarrow> query_fault \<Rightarrow> string \<Rightarrow> string \<Rightarrow> time option \<Rightarrow> TenantStatement list
    \<Rightarrow> TenantStatement list \<times> (statements_error, int) result" where
  "statements_Create nextID now fault tenant content created rows =
     (if tenant = [] then (rows, Inl ErrInvalidInput)
      else
        let at = (case created of None \<Rightarrow> now | Some t \<Rightarrow> t);
            row = \<lparr>ts_ID = nextID, ts_TenantID = tenant, ts_Content = content, ts_CreatedAt = at, ts_UpdatedAt = at\<rparr>
        in case fault of
             QueryDone \<Rightarrow> (rows @ [row], Inr nextID)
           | QueryRefused e \<Rightarrow> (rows, Inl (StatementsDB e))
           | ScanFails n e \<Rightarrow> (rows @ [row], Inl (StatementsDB e))
           | RowsBreak n e \<Rightarrow> (rows, Inl (StatementsDB e)))"

definition stmt_key :: "TenantStatement \<Rightarrow> string \<times> int" where
  "stmt_key s = (ts_TenantID s, ts_ID s)"

definition statements_Get :: "query_fault \<Rightarrow> string \<Rightarrow> int \<Rightarrow> TenantStatement list \<Rightarrow> (statements_error, TenantStatement) result" where
  "statements_Get fault tenant k rows =
     (if tenant = [] \<or> k \<le> 0 then Inl ErrInvalidInput
      else case fault of
             QueryDone \<Rightarrow> (case find_row stmt_key (tenant, k) rows of None \<Rightarrow> Inl ErrStatementNotFound | Some s \<Rightarrow> Inr s)
           | QueryRefused e \<Rightarrow> Inl (StatementsDB e)
           | ScanFails n e \<Rightarrow> (case find_row stmt_key (tenant, k) rows of None \<Rightarrow> Inl ErrStatementNotFound | Some s \<Rightarrow> Inl (StatementsDB e))
           | RowsBreak n e \<Rightarrow> Inl (StatementsDB e))"

definition statements_List :: "query_fault \<Rightarrow> string \<Rightarrow> time option \<Rightarrow> time option \<Rightarrow> TenantStatement list \<Rightarrow> (statements_error, TenantStatement list) result" where
  "statements_List fault tenant from to rows =
     (if tenant = [] then Inl ErrInvalidInput
      else
        let found = sort_key ts_CreatedAt (filter (\<lambda>s. ts_TenantID s = tenant
              \<and> (case from of None \<Rightarrow> True | Some t \<Rightarrow> ts_CreatedAt s \<ge> t) \<and> (case to of None \<Rightarrow> True | Some t \<Rightarrow> ts_CreatedAt s \<le> t)) rows)
        in case read_rows [] [] [] fault found of Inl e \<Rightarrow> Inl (StatementsDB e) | Inr ss \<Rightarrow> Inr ss)"

definition stmt_exec :: "exec_fault \<Rightarrow> nat \<Rightarrow> TenantStatement list \<Rightarrow> TenantStatement list \<Rightarrow> TenantStatement list \<times> statements_error option" where
  "stmt_exec fault n old new = (case fault of
      ExecRefused e \<Rightarrow> (old, Some (StatementsDB e))
    | CountFails e \<Rightarrow> (new, Some (StatementsDB e))
    | ExecDone \<Rightarrow> (new, if n = 0 then Some ErrStatementNotFound else None))"

definition set_content :: "string \<Rightarrow> time \<Rightarrow> TenantStatement \<Rightarrow> TenantStatement" where
  "set_content content now s = s\<lparr>ts_Content := content, ts_UpdatedAt := now\<rparr>"

definition statements_Update :: "time \<Rightarrow> exec_fault \<Rightarrow> string \<Rightarrow> int \<Rightarrow> string \<Rightarrow> TenantStatement list \<Rightarrow> TenantStatement list \<times> statements_error option" where
  "statements_Update now fault tenant k content rows =
     (if tenant = [] \<or> k \<le> 0 then (rows, Some ErrInvalidInput)
      else stmt_exec fault (affected stmt_key (tenant, k) rows) rows (update_rows stmt_key (tenant, k) (set_content content now) rows))"

definition statements_Delete :: "exec_fault \<Rightarrow> string \<Rightarrow> int \<Rightarrow> TenantStatement list \<Rightarrow> TenantStatement list \<times> statements_error option" where
  "statements_Delete fault tenant k rows =
     (if tenant = [] \<or> k \<le> 0 then (rows, Some ErrInvalidInput)
      else stmt_exec fault (affected stmt_key (tenant, k) rows) rows (filter (\<lambda>s. stmt_key s \<noteq> (tenant, k)) rows))"

section \<open>Rows by key\<close>

locale row_update =
  fixes key :: "'r \<Rightarrow> 'k" and upd :: "'r \<Rightarrow> 'r"
  assumes key_upd: "key (upd r) = key r"
begin

lemma find_update:
  "find_row key k' (update_rows key k upd rows) = (if k' = k then map_option upd (find_row key k rows) else find_row key k' rows)"
proof (induction rows)
  case (Cons r rows)
  then show ?case
    by (cases "key r = k"; cases "k' = k") (simp_all add: find_row_def update_rows_def key_upd)
qed (simp add: find_row_def update_rows_def)

lemma keys_update: "map key (update_rows key k upd rows) = map key rows"
  by (induction rows) (simp_all add: update_rows_def key_upd)

lemma filter_update:
  "(\<And>r. key r = k \<Longrightarrow> \<not> P r \<and> \<not> P (upd r)) \<Longrightarrow> filter P (update_rows key k upd rows) = filter P rows"
  by (induction rows) (auto simp: update_rows_def)

end

interpretation sub_set: row_update bs_ID "set_subscription s" for s :: BillingSubscription
  by unfold_locales (simp add: set_subscription_def)

interpretation sub_status: row_update bs_ID "set_status st now" for st :: string and now :: time
  by unfold_locales (simp add: set_status_def)

interpretation sub_cancel: row_update bs_ID "set_cancel atEnd now now2" for atEnd :: bool and now :: time and now2 :: time
  by unfold_locales (simp add: set_cancel_def)

interpretation plan_set: row_update bp_ID "set_plan p" for p :: BillingPlan
  by unfold_locales (simp add: set_plan_def)

interpretation stmt_set: row_update stmt_key "set_content content now" for content :: string and now :: time
  by unfold_locales (simp add: set_content_def stmt_key_def)

lemma affected_zero: "affected key k rows = 0 \<longleftrightarrow> find_row key k rows = None"
  by (auto simp: affected_def find_row_def find_None_iff filter_empty_conv)

lemma find_row_mem: "find_row key k rows = Some r \<Longrightarrow> r \<in> set rows \<and> key r = k"
  unfolding find_row_def by (drule find_SomeD) simp

lemma find_row_unique: "\<lbrakk>distinct (map key rows); r \<in> set rows\<rbrakk> \<Longrightarrow> find_row key (key r) rows = Some r"
  by (induction rows) (auto simp: find_row_def image_iff)

lemma find_row_snoc: "find_row key k (rows @ [r]) = (case find_row key k rows of Some r' \<Rightarrow> Some r' | None \<Rightarrow> if key r = k then Some r else None)"
  by (induction rows) (simp_all add: find_row_def)

lemma find_row_None: "find_row key k rows = None \<longleftrightarrow> k \<notin> key ` set rows"
  by (auto simp: find_row_def find_None_iff)

section \<open>What the repositories keep\<close>

text \<open>The operations that write subscriptions, each with its own outcome of the driver.\<close>

datatype sub_op =
    WCreate string time query_fault BillingSubscription
  | WUpdate time exec_fault BillingSubscription
  | WStatus time exec_fault string string
  | WCancel time time exec_fault string bool

fun sub_write :: "sub_op \<Rightarrow> BillingSubscription list \<Rightarrow> BillingSubscription list" where
  "sub_write (WCreate uuid now fault s) rows = fst (sub_Create uuid now fault s rows)"
| "sub_write (WUpdate now fault s) rows = fst (sub_Update now fault s rows)"
| "sub_write (WStatus now fault k st) rows = fst (sub_UpdateStatus now fault k st rows)"
| "sub_write (WCancel now now2 fault k b) rows = fst (sub_Cancel now now2 fault k b rows)"

lemma fst_exec_by_key: "fst (exec_by_key t m fault n old new) = (case fault of ExecRefused _ \<Rightarrow> old | _ \<Rightarrow> new)"
  by (simp add: exec_by_key_def split: exec_fault.splits)

lemma create_rows:
  "\<exists>s'. fst (sub_Create uuid now fault s rows) = rows \<or> find_row bs_ID (bs_ID s') rows = None \<and> fst (sub_Create uuid now fault s rows) = rows @ [s']"
  unfolding sub_Create_def Let_def by (cases fault) auto

lemma sub_write_distinct: "distinct (map bs_ID rows) \<Longrightarrow> distinct (map bs_ID (sub_write w rows))"
proof (cases w)
  case (WCreate uuid now fault s)
  obtain s' where "fst (sub_Create uuid now fault s rows) = rows
      \<or> find_row bs_ID (bs_ID s') rows = None \<and> fst (sub_Create uuid now fault s rows) = rows @ [s']"
    using create_rows by blast
  moreover assume "distinct (map bs_ID rows)"
  ultimately show ?thesis
    unfolding WCreate sub_write.simps by (elim disjE conjE) (simp_all add: find_row_None)
qed (simp_all add: sub_Update_def sub_UpdateStatus_def sub_Cancel_def fst_exec_by_key sub_set.keys_update sub_status.keys_update
    sub_cancel.keys_update split: exec_fault.splits)

text \<open>What identifies a subscription and what it costs, which no operation changes once the row exists.\<close>

definition terms_of :: "BillingSubscription \<Rightarrow> string \<times> string \<times> string \<times> string \<times> string \<times> string \<times> time" where
  "terms_of s = (bs_PlanID s, bs_CustomerID s, bs_MerchantID s, bs_Amount s, bs_Currency s, bs_Interval s, bs_CreatedAt s)"

lemma terms_set [simp]: "terms_of (set_subscription s r) = terms_of r" "terms_of (set_status st now r) = terms_of r"
  "terms_of (set_cancel b now now2 r) = terms_of r"
  by (simp_all add: terms_of_def set_subscription_def set_status_def set_cancel_def)

lemma sub_write_keeps:
  assumes "find_row bs_ID k rows = Some r"
  shows "\<exists>r'. find_row bs_ID k (sub_write w rows) = Some r' \<and> terms_of r' = terms_of r"
proof (cases w)
  case (WCreate uuid now fault s)
  obtain s' where "fst (sub_Create uuid now fault s rows) = rows
      \<or> find_row bs_ID (bs_ID s') rows = None \<and> fst (sub_Create uuid now fault s rows) = rows @ [s']"
    using create_rows by blast
  then show ?thesis
    unfolding WCreate sub_write.simps using assms by (elim disjE conjE) (simp_all add: find_row_snoc)
qed (use assms in \<open>auto simp: sub_Update_def sub_UpdateStatus_def sub_Cancel_def fst_exec_by_key sub_set.find_update sub_status.find_update
    sub_cancel.find_update split: exec_fault.splits\<close>)

text \<open>
  C22: Once a subscription is stored, no sequence of calls of the repository, whatever the driver answers, removes it or
  changes its plan, customer, merchant, price or creation time.
\<close>

theorem subscription_terms_immutable:
  assumes "find_row bs_ID k rows = Some r"
  shows "\<exists>r'. sub_GetByID QueryDone k (fold sub_write ws rows) = Inr r' \<and> terms_of r' = terms_of r"
proof -
  have "\<exists>r'. find_row bs_ID k (fold sub_write ws rows) = Some r' \<and> terms_of r' = terms_of r"
    using assms
  proof (induction ws arbitrary: rows r)
    case (Cons w ws)
    obtain r1 where "find_row bs_ID k (sub_write w rows) = Some r1" "terms_of r1 = terms_of r"
      using sub_write_keeps [OF Cons.prems] by blast
    then show ?case
      using Cons.IH by fastforce
  qed simp
  then show ?thesis
    by (auto simp: sub_GetByID_def)
qed

lemma set_due:
  assumes "int (length rows) \<le> limit"
  shows "\<exists>due. sub_GetDueForBilling now QueryDone limit rows = Inr due \<and> set due = set (filter (due_for_billing now) rows)"
proof -
  have "length (filter (due_for_billing now) rows) \<le> nat limit"
    using assms length_filter_le [of "due_for_billing now" rows] by linarith
  then show ?thesis
    using assms by (simp add: sub_GetDueForBilling_def page_rows_def read_rows_def)
qed

text \<open>
  C16: A subscription whose period is over is billed after a successful cancellation exactly when the cancellation was the
  immediate one: the billing query skips a subscription cancelled at the end of its period, and returns one
  cancelled at once.
\<close>

theorem cancelled_now_still_billed:
  assumes "distinct (map bs_ID rows)" "find_row bs_ID k rows = Some s" "sub_active s" "bs_CurrentPeriodEnd s \<le> now3"
    "sub_Cancel now now2 ExecDone k atEnd rows = (rows', None)" "int (length rows) \<le> limit"
    "sub_GetDueForBilling now3 QueryDone limit rows' = Inr due"
  shows "k \<in> bs_ID ` set due \<longleftrightarrow> \<not> atEnd"
proof -
  have r': "rows' = update_rows bs_ID k (set_cancel atEnd now now2) rows"
    using assms(5) by (simp add: sub_Cancel_def exec_by_key_def)
  have d: "distinct (map bs_ID rows')"
    using assms(1) by (simp add: r' sub_cancel.keys_update)
  have f: "find_row bs_ID k rows' = Some (set_cancel atEnd now now2 s)"
    using assms(2) by (simp add: r' sub_cancel.find_update)
  have "int (length rows') \<le> limit"
    using assms(6) by (simp add: r' update_rows_def)
  then have due: "set due = set (filter (due_for_billing now3) rows')"
    using set_due [of rows' limit now3] assms(7) by auto
  have "k \<in> bs_ID ` set due \<longleftrightarrow> due_for_billing now3 (set_cancel atEnd now now2 s)"
  proof
    assume "k \<in> bs_ID ` set due"
    then obtain r where r: "r \<in> set rows'" "due_for_billing now3 r" "bs_ID r = k"
      unfolding due by auto
    then show "due_for_billing now3 (set_cancel atEnd now now2 s)"
      using find_row_unique [OF d r(1)] f by simp
  next
    assume "due_for_billing now3 (set_cancel atEnd now now2 s)"
    then show "k \<in> bs_ID ` set due"
      unfolding due using find_row_mem [OF f] by force
  qed
  then show ?thesis
    using assms(3,4) by (simp add: due_for_billing_def set_cancel_def sub_active_def)
qed

definition demo_sub :: BillingSubscription where
  "demo_sub = \<lparr>bs_ID = ''s1'', bs_PlanID = ''p1'', bs_CustomerID = ''c1'', bs_MerchantID = ''m1'', bs_Status = ''active'', bs_Amount = ''10.00'',
     bs_Currency = ''USD'', bs_Interval = ''month'', bs_CurrentPeriodStart = 0, bs_CurrentPeriodEnd = 50, bs_CancelAtPeriodEnd = False,
     bs_CanceledAt = None, bs_EndedAt = None, bs_TrialStart = None, bs_TrialEnd = None, bs_CreatedAt = 0, bs_UpdatedAt = 0\<rparr>"

theorem subscription_terms_immutable_witness:
  "\<exists>r'. sub_GetByID QueryDone ''s1''
      (fold sub_write [WCancel 60 61 ExecDone ''s1'' False, WStatus 62 (CountFails ''lost'') ''s1'' ''paused'',
         WUpdate 63 ExecDone (demo_sub\<lparr>bs_Amount := ''0.01''\<rparr>)] [demo_sub]) = Inr r' \<and> bs_Amount r' = ''10.00''"
proof -
  have f: "find_row bs_ID ''s1'' [demo_sub] = Some demo_sub"
    by code_simp
  show ?thesis
    using subscription_terms_immutable [OF f, of "[WCancel 60 61 ExecDone ''s1'' False, WStatus 62 (CountFails ''lost'') ''s1'' ''paused'',
         WUpdate 63 ExecDone (demo_sub\<lparr>bs_Amount := ''0.01''\<rparr>)]"]
    by (auto simp: terms_of_def demo_sub_def simp del: fold_simps)
qed

theorem cancelled_now_still_billed_witness:
  "\<exists>rows' due. sub_Cancel 60 61 ExecDone ''s1'' False [demo_sub] = (rows', None) \<and> sub_GetDueForBilling 70 QueryDone 10 rows' = Inr due
    \<and> ''s1'' \<in> bs_ID ` set due"
proof -
  let ?s = "set_cancel False 60 61 demo_sub"
  have c: "sub_Cancel 60 61 ExecDone ''s1'' False [demo_sub] = ([?s], None)" and d: "sub_GetDueForBilling 70 QueryDone 10 [?s] = Inr [?s]"
    by code_simp+
  have "''s1'' \<in> bs_ID ` set [?s] \<longleftrightarrow> \<not> False"
    by (rule cancelled_now_still_billed [OF _ _ _ _ c _ d, where s = demo_sub]) (simp_all add: demo_sub_def find_row_def sub_active_def)
  then show ?thesis
    using c d by blast
qed

section \<open>Tenants and pages\<close>

datatype stmt_op = SCreate int time query_fault string "time option" | SUpdate time exec_fault int string | SDelete exec_fault int

fun stmt_write :: "string \<Rightarrow> stmt_op \<Rightarrow> TenantStatement list \<Rightarrow> TenantStatement list" where
  "stmt_write tenant (SCreate n now fault content created) rows = fst (statements_Create n now fault tenant content created rows)"
| "stmt_write tenant (SUpdate now fault k content) rows = fst (statements_Update now fault tenant k content rows)"
| "stmt_write tenant (SDelete fault k) rows = fst (statements_Delete fault tenant k rows)"

lemma fst_stmt_exec: "fst (stmt_exec fault n old new) = (case fault of ExecRefused _ \<Rightarrow> old | _ \<Rightarrow> new)"
  by (simp add: stmt_exec_def split: exec_fault.splits)

lemma stmt_create_rows:
  "\<exists>s'. fst (statements_Create n now fault tenant content created rows) = rows
    \<or> ts_TenantID s' = tenant \<and> fst (statements_Create n now fault tenant content created rows) = rows @ [s']"
  unfolding statements_Create_def Let_def by (cases fault) (auto intro: exI [where x = "\<lparr>ts_ID = n, ts_TenantID = tenant, ts_Content = content,
    ts_CreatedAt = (case created of None \<Rightarrow> now | Some t \<Rightarrow> t), ts_UpdatedAt = (case created of None \<Rightarrow> now | Some t \<Rightarrow> t)\<rparr>"])

lemma stmt_write_isolated: "other \<noteq> tenant \<Longrightarrow> filter (\<lambda>s. ts_TenantID s = other) (stmt_write tenant w rows) = filter (\<lambda>s. ts_TenantID s = other) rows"
proof (cases w)
  case (SCreate n now fault content created)
  obtain s' where "fst (statements_Create n now fault tenant content created rows) = rows
      \<or> ts_TenantID s' = tenant \<and> fst (statements_Create n now fault tenant content created rows) = rows @ [s']"
    using stmt_create_rows by blast
  moreover assume "other \<noteq> tenant"
  ultimately show ?thesis
    unfolding SCreate stmt_write.simps by (elim disjE conjE) simp_all
next
  case (SUpdate now fault k content)
  assume "other \<noteq> tenant"
  then show ?thesis
    using stmt_set.filter_update [of "(tenant, k)" "\<lambda>s. ts_TenantID s = other" content now rows]
    by (simp add: SUpdate statements_Update_def fst_stmt_exec stmt_key_def set_content_def split: exec_fault.splits)
next
  case (SDelete fault k)
  assume "other \<noteq> tenant"
  then show ?thesis
    by (auto simp: SDelete statements_Delete_def fst_stmt_exec stmt_key_def filter_filter intro!: filter_cong split: exec_fault.splits)
qed

lemma stmt_reads_own:
  "statements_Get fault tenant k rows = Inr s \<Longrightarrow> ts_TenantID s = tenant"
  "statements_List fault tenant from to rows = Inr ss \<Longrightarrow> list_all (\<lambda>s. ts_TenantID s = tenant) ss"
  by (auto simp: statements_Get_def stmt_key_def list_all_iff statements_List_def read_rows_def Let_def dest!: find_row_mem
      split: if_splits query_fault.splits option.splits sum.splits)

text \<open>The pages of a table that nobody writes, one after the other, are its rows.\<close>

lemma concat_pages: "concat (map (\<lambda>i. take n (drop (i * n) xs)) [0..<m]) = take (m * n) xs"
proof (induction m)
  case (Suc m)
  have "take (m * n + n) xs = take (m * n) xs @ take n (drop (m * n) xs)"
    by (rule take_add)
  then show ?case
    using Suc by (simp add: add.commute)
qed simp

lemma customer_pages:
  assumes "0 \<le> limit"
  shows "concat (map (\<lambda>i. case sub_GetByCustomerID QueryDone c limit (int i * limit) rows of Inl _ \<Rightarrow> [] | Inr p \<Rightarrow> p) [0..<m])
    = take (m * nat limit) (newest_subscriptions (filter (\<lambda>s. bs_CustomerID s = c) rows))"
proof -
  have "(case sub_GetByCustomerID QueryDone c limit (int i * limit) rows of Inl _ \<Rightarrow> [] | Inr p \<Rightarrow> p)
      = take (nat limit) (drop (i * nat limit) (newest_subscriptions (filter (\<lambda>s. bs_CustomerID s = c) rows)))" for i
  proof -
    have "\<not> int i * limit < 0"
      using assms by (simp add: not_less)
    then show ?thesis
      using assms by (simp add: sub_GetByCustomerID_def sub_page_def page_rows_def read_rows_def nat_mult_distrib)
  qed
  then show ?thesis
    by (simp add: concat_pages)
qed

text \<open>The stand-in forgets what the repository checks.\<close>

lemma mock_divergence:
  "sub_Update now ExecDone s [] = ([], Some ''subscription not found'')" "mock_sub_Update s (\<lambda>_. None) = [bs_ID s \<mapsto> s]"
  "m k = Some s \<Longrightarrow> fst (mock_sub_Cancel k b m) k = Some s"
  by (simp_all add: sub_Update_def exec_by_key_def affected_def update_rows_def mock_sub_Update_def mock_sub_Cancel_def)

end
