(* ===== verification/Spec2Isabelle.thy ===== *)
theory Spec2Isabelle
  imports Cancel_Flow Job_Worker Outbox_Dispatcher Hash_Ring RSQL CDC_Consumer DB_Breaker Rate_Limit Fees Idempotency Pagination Cached_Repo Webhooks
    Lockout Fraud Outbox_Worker Outbox_Service Audit_Log Billing_Repo
begin

text \<open>
  A verification library for the Stellabill billing backend (Go, under \<^verbatim>\<open>src/\<close>).

  \<^bold>\<open>The program and its parts.\<close>  The backend keeps subscriptions of tenants in PostgreSQL and moves them along
  a status machine, bills them by scheduled jobs, records what happened as events in a transactional outbox
  that dispatchers deliver to publishers, streams table changes to sinks, and answers HTTP requests behind a chain of middleware.
  Each theory below models one part; paths are relative to \<^verbatim>\<open>src/internal/\<close>.

  \<^item> \<^verbatim>\<open>Prelude\<close>: results, time in nanoseconds, the routines of Go's library that several parts call
    (byte order on strings, \<^verbatim>\<open>strconv\<close>, stable sorting), lemma collections.
  \<^item> \<^verbatim>\<open>Subscription_State\<close> (\<^verbatim>\<open>subscriptions/state_machine.go\<close>): the transition table and its terminal states.
  \<^item> \<^verbatim>\<open>Subscription_Repo\<close> (\<^verbatim>\<open>repository/\<close>: \<^verbatim>\<open>models.go\<close>, \<^verbatim>\<open>mock.go\<close>, \<^verbatim>\<open>postgres_subscription_repo.go\<close>): the repository as a
    record of operations on a state, in memory and over the rows of a PostgreSQL table.  The contract is the locale
    \<^verbatim>\<open>subscription_repository\<close>, interpreted for both.
  \<^item> \<^verbatim>\<open>Subscription_Service\<close> (\<^verbatim>\<open>service/subscription_service.go\<close>, \<^verbatim>\<open>repository/loader.go\<close>, \<^verbatim>\<open>handlers/subscriptions.go\<close>):
    \<^verbatim>\<open>ChangeStatus\<close>, \<^verbatim>\<open>GetDetail\<close>, the batching loader and the two handlers.  Shown: statuses stay on the machine, tenants do
    not interfere, the endpoint's answers, the loader is transparent, and what overlapping changes can lose.
  \<^item> \<^verbatim>\<open>Cached_Repo\<close> (\<^verbatim>\<open>cache/cache.go\<close>, \<^verbatim>\<open>repository/cached_subscription_repo.go\<close>, \<^verbatim>\<open>cached_plan_repo.go\<close>): the read cache and the two
    caching decorators.  The decorator is a \<^verbatim>\<open>sublocale\<close> of the repository contract, so every lemma on the service holds over it.
  \<^item> \<^verbatim>\<open>Statements\<close> (\<^verbatim>\<open>service/statement_service.go\<close>): who may read which statement.
  \<^item> \<^verbatim>\<open>Saga\<close> and \<^verbatim>\<open>Cancel_Flow\<close> (\<^verbatim>\<open>saga/\<close>): the coordinator over a store contract (locale \<^verbatim>\<open>reliable_saga_store\<close>), its in-memory store, and the
    cancellation flow over the subscription and statement services.
  \<^item> \<^verbatim>\<open>Job_Store\<close>, \<^verbatim>\<open>Job_Scheduler\<close>, \<^verbatim>\<open>Job_Worker\<close> (\<^verbatim>\<open>worker/\<close>): leases, the weighted priority lanes, and any number of workers as a
    step relation.
  \<^item> \<^verbatim>\<open>Outbox_Repo\<close>, \<^verbatim>\<open>Outbox_Dispatcher\<close>, \<^verbatim>\<open>Hash_Ring\<close> (\<^verbatim>\<open>outbox/\<close>): the event table with driver faults at any statement, the drain
    loops of the publishers as a step relation, and the ring that places tenants on partitions.
  \<^item> \<^verbatim>\<open>Outbox_Worker\<close> (\<^verbatim>\<open>worker/outbox_worker.go\<close>), \<^verbatim>\<open>Sharded_Dispatcher\<close> (\<^verbatim>\<open>outbox/sharded_dispatcher.go\<close>) and \<^verbatim>\<open>Outbox_Service\<close>
    (\<^verbatim>\<open>outbox/service.go\<close>, \<^verbatim>\<open>jwe_publisher.go\<close>, \<^verbatim>\<open>jwe.go\<close>, \<^verbatim>\<open>sensitive.go\<close>, \<^verbatim>\<open>subscriber_key.go\<close>): polling workers that claim rows with skipped
    locks, instances that share shards through advisory locks, each as a step relation, and the building, encryption and storing of events.
  \<^item> \<^verbatim>\<open>RSQL\<close> (\<^verbatim>\<open>requestparams/rsql.go\<close>): the filter parser and its compilation to SQL conditions.
  \<^item> \<^verbatim>\<open>CDC\<close>, \<^verbatim>\<open>CDC_Consumer\<close> (\<^verbatim>\<open>cdc/\<close>): the byte-level decoder of the replication stream, the consumer and its sinks.
  \<^item> \<^verbatim>\<open>DB_Breaker\<close> (\<^verbatim>\<open>db/breaker.go\<close>), \<^verbatim>\<open>Rate_Limit\<close> and \<^verbatim>\<open>Idempotency\<close> (\<^verbatim>\<open>middleware/\<close>), \<^verbatim>\<open>Fees\<close> (\<^verbatim>\<open>service/fees_service.go\<close>),
    \<^verbatim>\<open>Pagination\<close> (\<^verbatim>\<open>pagination/\<close>).
  \<^item> \<^verbatim>\<open>Webhooks\<close> (\<^verbatim>\<open>middleware/webhook_verification.go\<close>, \<^verbatim>\<open>webhook_event_cache.go\<close>, \<^verbatim>\<open>request_signing.go\<close>): signature, timestamp and
    replay checks of inbound webhooks and of signed admin requests over the contract \<^verbatim>\<open>replay_cache\<close>.
  \<^item> \<^verbatim>\<open>Lockout\<close> (\<^verbatim>\<open>security/lockout.go\<close>, \<^verbatim>\<open>handlers/admin.go\<close>) and \<^verbatim>\<open>Fraud\<close> (\<^verbatim>\<open>security/fraud/\<close>): the backoff of failed admin logins, and
    the per-tenant fraud counters, whose ring of buckets is shown to refine the full list of observations.
  \<^item> \<^verbatim>\<open>Audit_Log\<close> (\<^verbatim>\<open>internal/audit/\<close>, \<^verbatim>\<open>worker/audit_exporter.go\<close>): the hash-chained audit file, its verification, the segment
    exporter and the nightly export.  Whatever the logger writes verifies, across restarts and failed calls, and the last
    hash pins every event before it.

  \<^bold>\<open>How code becomes definitions.\<close>  A struct is a record, an enumeration a datatype, an operation one
  function that takes the state and returns the new state with the result; every early return is a branch.  Errors are values.
  A Go map that is ranged over is an association list, another one a partial map.  A table is the list of its rows together with the
  errors the driver will return for the next statements, so a statement may fail anywhere.  Reads of the clock come from the
  environment as arguments or as a list of readings.  Concurrency is an inductive step relation whose steps are the
  critical sections of the code; a property of all interleavings is proved by rule induction.  Code outside \<^verbatim>\<open>src/\<close>
  (decimal arithmetic, the circuit breaker library, hash functions, JSON with base64) is a parameter; what is relied on is a named
  hypothesis, met by a concrete instance in the witness.

  \<^bold>\<open>Bounds and fuel.\<close>  The RSQL parser recurses on fuel \<^verbatim>\<open>4 * length input + 3\<close>, which a theorem shows to be enough for every input.
  Other loops are structural or have a termination proof.  Integers are unbounded where the code's values stay far from
  the limits of their type (times, counters); \<^verbatim>\<open>strconv\<close>, hashes and the replication stream keep their width.

  \<^bold>\<open>Not modelled.\<close>  Network clients (HTTP, Kafka, Redis, Slack, Vault, S3), OpenTelemetry, Prometheus and logging, cryptographic
  libraries, gin wiring and the rendering of responses beyond status and body, SQL text beyond what a statement selects and changes, command line
  tools.  Floating point statistics (fee trends) and time zone rendering are left out.  The manifest lists every file with its status.
\<close>

end
